(* ===== verification/Prelude.thy ===== *)
theory Prelude
  imports Main "HOL-Library.Word"
begin

text \<open>
  Shared vocabulary of the development: bytes, sizes and clocks of the 32-bit ESP32-S3
  target, big-endian fields, and the generic lemmas and contracts that the component
  theories rest on.

  Bytes are \<open>8 word\<close>. A \<open>size_t\<close> or \<open>uint32_t\<close> is a \<open>nat\<close>; where the code's sum
  or difference can leave the 32-bit range, the wrap-around is written out with
  \<open>wrap32\<close> and \<open>sub32\<close>.
\<close>

unbundle bit_operations_syntax

section \<open>Bytes and sizes\<close>

type_synonym u8 = "8 word"
type_synonym bytes = "u8 list"

definition wrap32 :: "nat \<Rightarrow> nat" where
  "wrap32 n = n mod 4294967296"

text \<open>\<open>now - then\<close> on two \<open>uint32_t\<close> millisecond counters.\<close>

definition sub32 :: "nat \<Rightarrow> nat \<Rightarrow> nat" where
  "sub32 a b = nat ((int a - int b) mod 4294967296)"

lemma wrap32_id [simp]: "n < 4294967296 \<Longrightarrow> wrap32 n = n"
  by (simp add: wrap32_def)

lemma wrap32_less [simp]: "wrap32 n < 4294967296"
  by (simp add: wrap32_def)

lemma sub32_less [simp]: "sub32 a b < 4294967296"
  by (simp add: sub32_def nat_less_iff)

lemma sub32_le: "b \<le> a \<Longrightarrow> a < 4294967296 \<Longrightarrow> sub32 a b = a - b"
  by (simp add: sub32_def of_nat_diff nat_diff_distrib)

lemma sub32_self [simp]: "sub32 a a = 0"
  by (simp add: sub32_def)

section \<open>Big-endian fields\<close>

text \<open>\<open>(uint8_t)((n >> k) & 0xFF)\<close>: conversion to a byte keeps the low eight bits.\<close>

definition byte_at :: "nat \<Rightarrow> nat \<Rightarrow> u8" where
  "byte_at k n = word_of_nat (n div 2 ^ k)"

definition be16 :: "u8 \<Rightarrow> u8 \<Rightarrow> nat" where
  "be16 a b = unat a * 256 + unat b"

definition be32 :: "u8 \<Rightarrow> u8 \<Rightarrow> u8 \<Rightarrow> u8 \<Rightarrow> nat" where
  "be32 a b c d = unat a * 16777216 + unat b * 65536 + unat c * 256 + unat d"

lemma unat_u8_less: "unat (x :: u8) < 256"
proof -
  have "unat x < 2 ^ LENGTH(8)" by (rule unsigned_less)
  then show ?thesis by simp
qed

lemma unat_byte_at [simp]: "unat (byte_at k n) = n div 2 ^ k mod 256"
  by (simp add: byte_at_def unat_of_nat)

lemma be16_less: "be16 a b < 65536"
  using unat_u8_less [of a] unat_u8_less [of b] by (simp add: be16_def)

lemma be32_less: "be32 a b c d < 4294967296"
  using unat_u8_less [of a] unat_u8_less [of b] unat_u8_less [of c] unat_u8_less [of d]
  by (simp add: be32_def)

lemma be16_byte_at: "n < 65536 \<Longrightarrow> be16 (byte_at 8 n) (byte_at 0 n) = n"
  by (simp add: be16_def)

lemma be32_byte_at:
  assumes "n < 4294967296"
  shows "be32 (byte_at 24 n) (byte_at 16 n) (byte_at 8 n) (byte_at 0 n) = n"
proof -
  have 1: "n div 65536 = n div 16777216 * 256 + n div 65536 mod 256"
    using div_mult_mod_eq [of "n div 65536" 256] by (simp add: div_mult2_eq [symmetric])
  have 2: "n div 256 = n div 65536 * 256 + n div 256 mod 256"
    using div_mult_mod_eq [of "n div 256" 256] by (simp add: div_mult2_eq [symmetric])
  have 3: "n = n div 256 * 256 + n mod 256"
    using div_mult_mod_eq [of n 256] by simp
  have "n div 16777216 < 256" using assms by linarith
  then have e: "be32 (byte_at 24 n) (byte_at 16 n) (byte_at 8 n) (byte_at 0 n)
    = n div 16777216 * 16777216 + n div 65536 mod 256 * 65536 + n div 256 mod 256 * 256 + n mod 256"
    by (simp add: be32_def)
  show ?thesis
    unfolding e using 1 2 3 by linarith
qed

text \<open>A byte of a word that came from a small number.\<close>

lemma unat_of_nat_u8: "n < 256 \<Longrightarrow> unat (word_of_nat n :: u8) = n"
  by (simp add: unat_of_nat)

section \<open>Reading a buffer in place\<close>

text \<open>\<open>holds_at d off xs\<close>: the buffer \<open>d\<close> holds the bytes \<open>xs\<close> from offset \<open>off\<close> on.\<close>

definition holds_at :: "bytes \<Rightarrow> nat \<Rightarrow> bytes \<Rightarrow> bool" where
  "holds_at d off xs \<longleftrightarrow> take (length xs) (drop off d) = xs"

lemma holds_at_Nil [simp]: "holds_at d off []"
  by (simp add: holds_at_def)

lemma holds_at_Cons:
  "holds_at d off (x # xs) \<longleftrightarrow> off < length d \<and> d ! off = x \<and> holds_at d (Suc off) xs"
proof (cases "off < length d")
  case True
  then have "drop off d = d ! off # drop (Suc off) d" by (rule Cons_nth_drop_Suc [symmetric])
  with True show ?thesis by (simp add: holds_at_def)
qed (simp add: holds_at_def)

lemma holds_at_append:
  "holds_at d off (xs @ ys) \<longleftrightarrow> holds_at d off xs \<and> holds_at d (off + length xs) ys"
  by (induction xs arbitrary: off) (auto simp: holds_at_Cons)

lemma holds_at_mid: "holds_at (pre @ xs @ post) (length pre) xs"
  by (simp add: holds_at_def)

lemma holds_at_take: "holds_at d off xs \<Longrightarrow> take (length xs) (drop off d) = xs"
  by (simp add: holds_at_def)

lemma holds_at_len: "holds_at d off xs \<Longrightarrow> off \<le> length d \<Longrightarrow> off + length xs \<le> length d"
proof (induction xs arbitrary: off)
  case (Cons x xs)
  from Cons.prems have "Suc off \<le> length d" "holds_at d (Suc off) xs"
    by (simp_all add: holds_at_Cons)
  then show ?case using Cons.IH [of "Suc off"] by simp
qed simp


end
