(* ===== verification/MsgPack.thy ===== *)
theory MsgPack
  imports Prelude
begin

text \<open>
  The hand-written MessagePack helpers of \<open>src/src/Common/MsgPack.h\<close>.

  Writers: a writer gets the free room \<open>buflen\<close> of its destination and returns the bytes it
  puts at the start of it; the code's return value is their number, so the empty list is
  the code's \<open>return 0\<close> (no successful write is empty). Readers: a reader gets the buffer,
  its length and an offset, and returns the new offset beside its result.

  \<open>skip_element\<close> recurses on the nesting of arrays and maps. The model counts the recursion
  depth: \<open>None\<close> says that the given depth of call frames was not enough.
\<close>

section \<open>Writers\<close>

definition pack_bin_header :: "nat \<Rightarrow> nat \<Rightarrow> bytes" where
  "pack_bin_header buflen dlen =
    (if dlen \<le> 255 then
       (if buflen < 2 then [] else [0xC4, byte_at 0 dlen])
     else if dlen \<le> 0xFFFF then
       (if buflen < 3 then [] else [0xC5, byte_at 8 dlen, byte_at 0 dlen])
     else if buflen < 5 then []
     else [0xC6, byte_at 24 dlen, byte_at 16 dlen, byte_at 8 dlen, byte_at 0 dlen])"

definition pack_bin :: "nat \<Rightarrow> bytes \<Rightarrow> bytes" where
  "pack_bin buflen d =
    (let hdr = pack_bin_header buflen (length d); pos = length hdr
     in if pos = 0 then []
        else if wrap32 (pos + length d) > buflen then []
        else hdr @ d)"

definition pack_bin_str :: "nat \<Rightarrow> bytes \<Rightarrow> bytes" where
  "pack_bin_str buflen str = pack_bin buflen str"

text \<open>A double is its 64-bit pattern, most significant byte first.\<close>

definition pack_float64 :: "nat \<Rightarrow> 64 word \<Rightarrow> bytes" where
  "pack_float64 buflen bits =
    (if buflen < 9 then []
     else 0xCB # map (\<lambda>i. byte_at (i * 8) (unat bits)) [7, 6, 5, 4, 3, 2, 1, 0])"

definition pack_uint8 :: "nat \<Rightarrow> u8 \<Rightarrow> bytes" where
  "pack_uint8 buflen v =
    (if buflen < 1 then []
     else if v \<le> 0x7F then [v]
     else if buflen < 2 then []
     else [0xCC, v])"

text \<open>Byte \<open>k div 8\<close> of the two's complement form: \<open>(v >> k) & 0xFF\<close> of a signed \<open>v\<close>.\<close>

definition ibyte_at :: "nat \<Rightarrow> int \<Rightarrow> u8" where
  "ibyte_at k v = word_of_int (v div 2 ^ k)"

definition pack_int :: "nat \<Rightarrow> int \<Rightarrow> bytes" where
  "pack_int buflen v =
    (if v \<ge> 0 then
       (if v \<le> 0x7F then (if buflen < 1 then [] else [ibyte_at 0 v])
        else if v \<le> 0xFF then (if buflen < 2 then [] else [0xCC, ibyte_at 0 v])
        else if v \<le> 0xFFFF then
          (if buflen < 3 then [] else [0xCD, ibyte_at 8 v, ibyte_at 0 v])
        else if v \<le> 0xFFFFFFFF then
          (if buflen < 5 then []
           else [0xCE, ibyte_at 24 v, ibyte_at 16 v, ibyte_at 8 v, ibyte_at 0 v])
        else if buflen < 9 then []
        else 0xCF # map (\<lambda>i. ibyte_at (i * 8) v) [7, 6, 5, 4, 3, 2, 1, 0])
     else
       (if v \<ge> - 32 then
          (if buflen < 1 then [] else [0xE0 OR (ibyte_at 0 v AND 0x1F)])
        else if v \<ge> - 128 then (if buflen < 2 then [] else [0xD0, ibyte_at 0 v])
        else if v \<ge> - 32768 then
          (if buflen < 3 then [] else [0xD1, ibyte_at 8 v, ibyte_at 0 v])
        else if v \<ge> - 2147483648 then
          (if buflen < 5 then []
           else [0xD2, ibyte_at 24 v, ibyte_at 16 v, ibyte_at 8 v, ibyte_at 0 v])
        else if buflen < 9 then []
        else 0xD3 # map (\<lambda>i. ibyte_at (i * 8) v) [7, 6, 5, 4, 3, 2, 1, 0]))"

definition pack_bool :: "nat \<Rightarrow> bool \<Rightarrow> bytes" where
  "pack_bool buflen v =
    (if buflen < 1 then [] else [if v then 0xC3 else 0xC2])"

definition pack_str :: "nat \<Rightarrow> bytes \<Rightarrow> bytes" where
  "pack_str buflen s =
    (let slen = length s in
     if slen \<le> 31 then
       (if wrap32 (1 + slen) > buflen then [] else (0xA0 OR byte_at 0 slen) # s)
     else if slen \<le> 255 then
       (if wrap32 (2 + slen) > buflen then [] else 0xD9 # byte_at 0 slen # s)
     else if slen \<le> 0xFFFF then
       (if wrap32 (3 + slen) > buflen then [] else 0xDA # byte_at 8 slen # byte_at 0 slen # s)
     else
       (if wrap32 (5 + slen) > buflen then []
        else 0xDB # byte_at 24 slen # byte_at 16 slen # byte_at 8 slen # byte_at 0 slen # s))"

definition pack_array_header :: "nat \<Rightarrow> nat \<Rightarrow> bytes" where
  "pack_array_header buflen n =
    (if n \<le> 15 then (if buflen < 1 then [] else [0x90 OR byte_at 0 n])
     else if n \<le> 0xFFFF then
       (if buflen < 3 then [] else [0xDC, byte_at 8 n, byte_at 0 n])
     else if buflen < 5 then []
     else [0xDD, byte_at 24 n, byte_at 16 n, byte_at 8 n, byte_at 0 n])"

definition pack_map_header :: "nat \<Rightarrow> nat \<Rightarrow> bytes" where
  "pack_map_header buflen n =
    (if n \<le> 15 then (if buflen < 1 then [] else [0x80 OR byte_at 0 n])
     else if n \<le> 0xFFFF then
       (if buflen < 3 then [] else [0xDE, byte_at 8 n, byte_at 0 n])
     else if buflen < 5 then []
     else [0xDF, byte_at 24 n, byte_at 16 n, byte_at 8 n, byte_at 0 n])"

section \<open>Readers\<close>

text \<open>
  \<open>std::string(ptr, n)\<close> throws \<open>std::length_error\<close> when \<open>n\<close> is above \<open>max_size()\<close>,
  which is at most \<open>2^31 - 1\<close> on a 32-bit target.
\<close>

datatype cpp_error = LengthError

definition str_max_size :: nat where
  "str_max_size = 2147483647"

text \<open>Two and four byte big-endian fields of a buffer.\<close>

definition be16_at :: "bytes \<Rightarrow> nat \<Rightarrow> nat" where
  "be16_at d i = be16 (d ! i) (d ! (i + 1))"

definition be32_at :: "bytes \<Rightarrow> nat \<Rightarrow> nat" where
  "be32_at d i = be32 (d ! i) (d ! (i + 1)) (d ! (i + 2)) (d ! (i + 3))"

text \<open>The \<open>if\<close> chain of \<open>read_bin_or_str\<close>: the length field and the offset behind it.\<close>

definition read_slen :: "bytes \<Rightarrow> nat \<Rightarrow> u8 \<Rightarrow> nat \<Rightarrow> (nat \<times> nat) option" where
  "read_slen data len tag off =
    (if tag AND 0xE0 = 0xA0 then Some (unat (tag AND 0x1F), off)
     else if tag = 0xD9 \<and> off < len then Some (unat (data ! off), off + 1)
     else if tag = 0xDA \<and> off + 1 < len then Some (be16_at data off, off + 2)
     else if tag = 0xDB \<and> off + 3 < len then Some (be32_at data off, off + 4)
     else if tag = 0xC4 \<and> off < len then Some (unat (data ! off), off + 1)
     else if tag = 0xC5 \<and> off + 1 < len then Some (be16_at data off, off + 2)
     else if tag = 0xC6 \<and> off + 3 < len then Some (be32_at data off, off + 4)
     else None)"

definition read_bin_or_str :: "bytes \<Rightarrow> nat \<Rightarrow> nat \<Rightarrow> cpp_error + bytes \<times> nat" where
  "read_bin_or_str data len offset =
    (if offset \<ge> len then Inr ([], offset)
     else
       let tag = data ! offset; off = offset + 1 in
       case read_slen data len tag off of
         None \<Rightarrow> Inr ([], off)
       | Some (slen, off) \<Rightarrow>
           if wrap32 (off + slen) > len then Inr ([], off)
           else if slen > str_max_size then Inl LengthError
           else Inr (take slen (drop off data), wrap32 (off + slen)))"

text \<open>
  One look at a tag: the element ends here (\<open>Done\<close>, with the code's result and the new
  offset) or it is a container whose elements follow (\<open>Nest\<close>).
\<close>

datatype skip = Done bool nat | Nest nat nat

text \<open>\<open>offset += k; return offset <= len\<close>\<close>

definition skip_by :: "nat \<Rightarrow> nat \<Rightarrow> nat \<Rightarrow> skip" where
  "skip_by len off k = (let o' = wrap32 (off + k) in Done (o' \<le> len) o')"

definition skip_step :: "bytes \<Rightarrow> nat \<Rightarrow> nat \<Rightarrow> skip" where
  "skip_step data len offset =
    (if offset \<ge> len then Done False offset
     else
       let tag = data ! offset; off = offset + 1 in
       if tag = 0xC0 \<or> tag = 0xC2 \<or> tag = 0xC3 then Done True off
       else if tag \<le> 0x7F then Done True off
       else if tag \<ge> 0xE0 then Done True off
       else if tag AND 0xE0 = 0xA0 then skip_by len off (unat (tag AND 0x1F))
       else if tag AND 0xF0 = 0x90 then Nest (unat (tag AND 0x0F)) off
       else if tag AND 0xF0 = 0x80 then Nest (unat (tag AND 0x0F) * 2) off
       else if tag = 0xCC \<or> tag = 0xD0 then skip_by len off 1
       else if tag = 0xCD \<or> tag = 0xD1 then skip_by len off 2
       else if tag = 0xCE \<or> tag = 0xD2 \<or> tag = 0xCA then skip_by len off 4
       else if tag = 0xCF \<or> tag = 0xD3 \<or> tag = 0xCB then skip_by len off 8
       else if tag = 0xD9 \<and> off < len then skip_by len (off + 1) (unat (data ! off))
       else if tag = 0xDA \<and> off + 1 < len then skip_by len off (2 + be16_at data off)
       else if tag = 0xDB \<and> off + 3 < len then skip_by len off (4 + be32_at data off)
       else if tag = 0xC4 \<and> off < len then skip_by len (off + 1) (unat (data ! off))
       else if tag = 0xC5 \<and> off + 1 < len then skip_by len off (2 + be16_at data off)
       else if tag = 0xC6 \<and> off + 3 < len then skip_by len off (4 + be32_at data off)
       else if tag = 0xDC \<and> off + 1 < len then Nest (be16_at data off) (off + 2)
       else if tag = 0xDE \<and> off + 1 < len then Nest (be16_at data off * 2) (off + 2)
       else if tag = 0xD4 then skip_by len off 2
       else if tag = 0xD5 then skip_by len off 3
       else if tag = 0xD6 then skip_by len off 5
       else if tag = 0xD7 then skip_by len off 9
       else if tag = 0xD8 then skip_by len off 17
       else Done False off)"

text \<open>\<open>skip_elements\<close> is the \<open>for\<close> loop over the elements of a container.\<close>

function skip_element :: "nat \<Rightarrow> bytes \<Rightarrow> nat \<Rightarrow> nat \<Rightarrow> (bool \<times> nat) option"
  and skip_elements :: "nat \<Rightarrow> nat \<Rightarrow> bytes \<Rightarrow> nat \<Rightarrow> nat \<Rightarrow> (bool \<times> nat) option"
where
  "skip_element 0 data len off = None"
| "skip_element (Suc d) data len off =
    (case skip_step data len off of
       Done b o' \<Rightarrow> Some (b, o')
     | Nest n o' \<Rightarrow> skip_elements d n data len o')"
| "skip_elements d 0 data len off = Some (True, off)"
| "skip_elements d (Suc n) data len off =
    (case skip_element d data len off of
       None \<Rightarrow> None
     | Some (b, o') \<Rightarrow> if b then skip_elements d n data len o' else Some (False, o'))"
  by pat_completeness auto
termination
  by (relation "inv_image (less_than <*lex*> less_than <*lex*> less_than)
      (\<lambda>x. case x of Inl (d, _) \<Rightarrow> (d, 0, 0) | Inr (d, n, _) \<Rightarrow> (d, 1, n))") auto

section \<open>Headers read back\<close>

lemma be16_at_holds:
  "holds_at d i [byte_at 8 n, byte_at 0 n] \<Longrightarrow> n < 65536 \<Longrightarrow> be16_at d i = n"
  by (simp add: holds_at_Cons be16_at_def be16_byte_at)

lemma be32_at_holds:
  "holds_at d i [byte_at 24 n, byte_at 16 n, byte_at 8 n, byte_at 0 n] \<Longrightarrow> n < 4294967296
    \<Longrightarrow> be32_at d i = n"
proof -
  have e: "i + 2 = Suc (Suc i)" "i + 3 = Suc (Suc (Suc i))" by simp_all
  assume "holds_at d i [byte_at 24 n, byte_at 16 n, byte_at 8 n, byte_at 0 n]" "n < 4294967296"
  then show ?thesis by (simp only: holds_at_Cons be32_at_def be32_byte_at e Suc_eq_plus1 [symmetric])
qed

lemma pack_bin_header_cases:
  assumes "5 \<le> cap" "n < 4294967296" "holds_at d off (pack_bin_header cap n)"
  obtains (bin8) "n \<le> 255" "length (pack_bin_header cap n) = 2" "d ! off = 0xC4" "unat (d ! (off + 1)) = n"
    | (bin16) "n \<le> 65535" "length (pack_bin_header cap n) = 3" "d ! off = 0xC5" "be16_at d (off + 1) = n"
    | (bin32) "length (pack_bin_header cap n) = 5" "d ! off = 0xC6" "be32_at d (off + 1) = n"
proof -
  consider "n \<le> 255" | "255 < n" "n \<le> 65535" | "65535 < n" by linarith
  then show thesis
  proof cases
    case 1
    with assms show ?thesis by (intro bin8) (auto simp: pack_bin_header_def holds_at_Cons)
  next
    case 2
    with assms have "holds_at d off (0xC5 # [byte_at 8 n, byte_at 0 n])"
      by (simp add: pack_bin_header_def)
    then have "d ! off = 0xC5" "holds_at d (Suc off) [byte_at 8 n, byte_at 0 n]"
      by (simp_all only: holds_at_Cons)
    with 2 assms(1) show ?thesis
      by (intro bin16) (auto simp: pack_bin_header_def be16_at_holds)
  next
    case 3
    with assms have "holds_at d off (0xC6 # [byte_at 24 n, byte_at 16 n, byte_at 8 n, byte_at 0 n])"
      by (simp add: pack_bin_header_def)
    then have "d ! off = 0xC6" "holds_at d (Suc off) [byte_at 24 n, byte_at 16 n, byte_at 8 n, byte_at 0 n]"
      by (simp_all only: holds_at_Cons)
    with 3 assms(1,2) show ?thesis
      by (intro bin32) (auto simp: pack_bin_header_def be32_at_holds)
  qed
qed


lemma fixarr_tag_all:
  "\<forall>n \<in> set [0..<16]. let t = (0x90 OR byte_at 0 n) in 
     t AND 0xF0 = 0x90 \<and> unat (t AND 0x0F) = n \<and> \<not> t \<le> 0x7F \<and> \<not> 0xE0 \<le> t \<and> t AND 0xE0 \<noteq> 0xA0
     \<and> t \<noteq> 0xC0 \<and> t \<noteq> 0xC2 \<and> t \<noteq> 0xC3"
  by (simp add: upt_conv_Cons byte_at_def Let_def)

lemma fixmap_tag_all:
  "\<forall>n \<in> set [0..<16]. let t = (0x80 OR byte_at 0 n) in 
     t AND 0xF0 = 0x80 \<and> unat (t AND 0x0F) = n \<and> \<not> t \<le> 0x7F \<and> \<not> 0xE0 \<le> t \<and> t AND 0xE0 \<noteq> 0xA0
     \<and> t \<noteq> 0xC0 \<and> t \<noteq> 0xC2 \<and> t \<noteq> 0xC3"
  by (simp add: upt_conv_Cons byte_at_def Let_def)

lemma fixstr_tag_all:
  "\<forall>n \<in> set [0..<32]. let t = (0xA0 OR byte_at 0 n) in 
     t AND 0xE0 = 0xA0 \<and> unat (t AND 0x1F) = n \<and> \<not> t \<le> 0x7F \<and> \<not> 0xE0 \<le> t 
     \<and> t \<noteq> 0xC0 \<and> t \<noteq> 0xC2 \<and> t \<noteq> 0xC3"
  by (simp add: upt_conv_Cons byte_at_def Let_def)

lemma fixarr_tag:
  assumes "n \<le> 15"
  shows "(0x90 OR byte_at 0 n) AND 0xF0 = 0x90" "unat ((0x90 OR byte_at 0 n) AND 0x0F) = n"
    "\<not> 0x90 OR byte_at 0 n \<le> 0x7F" "\<not> 0xE0 \<le> 0x90 OR byte_at 0 n"
    "(0x90 OR byte_at 0 n) AND 0xE0 \<noteq> 0xA0" "0x90 OR byte_at 0 n \<noteq> 0xC0"
    "0x90 OR byte_at 0 n \<noteq> 0xC2" "0x90 OR byte_at 0 n \<noteq> 0xC3"
  using fixarr_tag_all assms by (auto simp: Let_def)

lemma fixmap_tag:
  assumes "n \<le> 15"
  shows "(0x80 OR byte_at 0 n) AND 0xF0 = 0x80" "unat ((0x80 OR byte_at 0 n) AND 0x0F) = n"
    "\<not> 0x80 OR byte_at 0 n \<le> 0x7F" "\<not> 0xE0 \<le> 0x80 OR byte_at 0 n"
    "(0x80 OR byte_at 0 n) AND 0xE0 \<noteq> 0xA0" "0x80 OR byte_at 0 n \<noteq> 0xC0"
    "0x80 OR byte_at 0 n \<noteq> 0xC2" "0x80 OR byte_at 0 n \<noteq> 0xC3"
  using fixmap_tag_all assms by (auto simp: Let_def)

lemma fixstr_tag:
  assumes "n \<le> 31"
  shows "(0xA0 OR byte_at 0 n) AND 0xE0 = 0xA0" "unat ((0xA0 OR byte_at 0 n) AND 0x1F) = n"
    "\<not> 0xA0 OR byte_at 0 n \<le> 0x7F" "\<not> 0xE0 \<le> 0xA0 OR byte_at 0 n"
    "0xA0 OR byte_at 0 n \<noteq> 0xC0" "0xA0 OR byte_at 0 n \<noteq> 0xC2" "0xA0 OR byte_at 0 n \<noteq> 0xC3"
  using fixstr_tag_all assms by (auto simp: Let_def)

lemma skip_bin:
  assumes "holds_at data off (pack_bin_header cap n)" "5 \<le> cap" "n < 4294967296"
    "off + length (pack_bin_header cap n) + n \<le> length data" "length data < 4294967296"
  shows "skip_step data (length data) off = Done True (off + length (pack_bin_header cap n) + n)"
  using assms(2,3,1)
proof (cases rule: pack_bin_header_cases)
  case bin8
  with assms(4,5) show ?thesis by (simp add: skip_step_def skip_by_def)
next
  case bin16
  with assms(4,5) show ?thesis by (simp add: skip_step_def skip_by_def)
next
  case bin32
  with assms(4,5) show ?thesis by (simp add: skip_step_def skip_by_def)
qed

lemma pack_bin_room:
  "length d + 5 \<le> cap \<Longrightarrow> cap < 4294967296 \<Longrightarrow> pack_bin cap d = pack_bin_header cap (length d) @ d"
  by (simp add: pack_bin_def pack_bin_header_def)

lemma read_slen_bin:
  assumes "holds_at data off (pack_bin_header cap n)" "5 \<le> cap" "n < 4294967296"
    "off + length (pack_bin_header cap n) + n \<le> length data" 
  shows "read_slen data (length data) (data ! off) (off + 1) = Some (n, off + length (pack_bin_header cap n))"
  using assms(2,3,1)
proof (cases rule: pack_bin_header_cases)
  case bin8
  with assms(4) show ?thesis by (simp add: read_slen_def)
next
  case bin16
  with assms(4) show ?thesis by (simp add: read_slen_def)
next
  case bin32
  with assms(4) show ?thesis by (simp add: read_slen_def)
qed

lemma pack_bin_header_ne: "5 \<le> cap \<Longrightarrow> pack_bin_header cap n \<noteq> []"
  by (simp add: pack_bin_header_def)

lemma read_bin:
  assumes "holds_at data off (pack_bin cap d)" "length d + 5 \<le> cap" "cap < 4294967296" "length d \<le> str_max_size"
    "off \<le> length data" "length data < 4294967296"
  shows "read_bin_or_str data (length data) off = Inr (d, off + length (pack_bin cap d))"
proof -
  let ?h = "pack_bin_header cap (length d)"
  note p = pack_bin_room [OF assms(2,3)]
  have h: "holds_at data off ?h" "holds_at data (off + length ?h) d"
    using assms(1) by (simp_all add: p holds_at_append)
  have l: "off + length ?h + length d \<le> length data"
    using holds_at_len [OF assms(1,5)] by (simp add: p)
  have "length ?h > 0" using assms(2) by (simp add: pack_bin_header_ne)
  then have "off < length data" using l by linarith
  moreover have "read_slen data (length data) (data ! off) (off + 1) = Some (length d, off + length ?h)"
    by (rule read_slen_bin) (use h l assms in auto)
  ultimately show ?thesis
    using l assms(4,6) holds_at_take [OF h(2)]
    by (simp add: read_bin_or_str_def p)
qed

section \<open>Strings and values\<close>

lemma pack_str_parts:
  assumes "length s + 5 \<le> cap" "cap < 4294967296"
  obtains h where "pack_str cap s = h @ s" "1 \<le> length h" "length h \<le> 5"
    "\<And>data off. holds_at data off h \<Longrightarrow> off + length h + length s \<le> length data \<Longrightarrow>
       read_slen data (length data) (data ! off) (off + 1) = Some (length s, off + length h)"
    "\<And>data off. holds_at data off h \<Longrightarrow> off + length h + length s \<le> length data \<Longrightarrow>
       length data < 4294967296 \<Longrightarrow> skip_step data (length data) off = Done True (off + length h + length s)"
proof -
  consider "length s \<le> 31" | "31 < length s" "length s \<le> 255"
    | "255 < length s" "length s \<le> 65535" | "65535 < length s" by linarith
  then show thesis
  proof cases
    case 1
    then show ?thesis using assms
      by (intro that [of "[0xA0 OR byte_at 0 (length s)]"])
        (auto simp: pack_str_def Let_def holds_at_Cons read_slen_def skip_step_def skip_by_def fixstr_tag)
  next
    case 2
    then show ?thesis using assms
      by (intro that [of "[0xD9, byte_at 0 (length s)]"])
        (auto simp: pack_str_def Let_def holds_at_Cons read_slen_def skip_step_def skip_by_def)
  next
    case 3
    let ?b = "[byte_at 8 (length s), byte_at 0 (length s)]"
    from 3 have b: "\<And>d i. holds_at d i ?b \<Longrightarrow> be16_at d i = length s"
      by (simp add: be16_at_holds)
    show ?thesis
    proof (rule that [of "0xDA # ?b"])
      show "pack_str cap s = (0xDA # ?b) @ s" using 3 assms by (simp add: pack_str_def Let_def)
      fix data off assume h: "holds_at data off (0xDA # ?b)" "off + length (0xDA # ?b) + length s \<le> length data"
      then have *: "data ! off = 0xDA" "be16_at data (Suc off) = length s"
        by (simp_all only: holds_at_Cons [of data off] b)
      show "read_slen data (length data) (data ! off) (off + 1) = Some (length s, off + length (0xDA # ?b))"
        using * h(2) by (simp add: read_slen_def)
      show "length data < 4294967296 \<Longrightarrow>
          skip_step data (length data) off = Done True (off + length (0xDA # ?b) + length s)"
        using * h(2) by (simp add: skip_step_def skip_by_def)
    qed simp_all
  next
    case 4
    let ?b = "[byte_at 24 (length s), byte_at 16 (length s), byte_at 8 (length s), byte_at 0 (length s)]"
    from 4 assms have b: "\<And>d i. holds_at d i ?b \<Longrightarrow> be32_at d i = length s"
      by (simp add: be32_at_holds)
    show ?thesis
    proof (rule that [of "0xDB # ?b"])
      show "pack_str cap s = (0xDB # ?b) @ s" using 4 assms by (simp add: pack_str_def Let_def)
      fix data off assume h: "holds_at data off (0xDB # ?b)" "off + length (0xDB # ?b) + length s \<le> length data"
      then have *: "data ! off = 0xDB" "be32_at data (Suc off) = length s"
        by (simp_all only: holds_at_Cons [of data off] b)
      show "read_slen data (length data) (data ! off) (off + 1) = Some (length s, off + length (0xDB # ?b))"
        using * h(2) by (simp add: read_slen_def)
      show "length data < 4294967296 \<Longrightarrow>
          skip_step data (length data) off = Done True (off + length (0xDB # ?b) + length s)"
        using * h(2) by (simp add: skip_step_def skip_by_def)
    qed simp_all
  qed
qed

lemma read_step:
  assumes "read_slen data len (data ! off) (off + 1) = Some (length s, o')" "off < len" "o' + length s \<le> len"
    "holds_at data o' s" "length s \<le> str_max_size" "len < 4294967296"
  shows "read_bin_or_str data len off = Inr (s, o' + length s)"
  using assms holds_at_take [OF assms(4)] by (simp add: read_bin_or_str_def)

lemma read_str:
  assumes "holds_at data off (pack_str cap s)" "length s + 5 \<le> cap" "cap < 4294967296"
    "length s \<le> str_max_size" "off \<le> length data" "length data < 4294967296"
  shows "read_bin_or_str data (length data) off = Inr (s, off + length (pack_str cap s))"
proof (rule pack_str_parts [OF assms(2,3)])
  fix h
  assume h: "pack_str cap s = h @ s" "1 \<le> length h"
    and r: "\<And>data off. holds_at data off h \<Longrightarrow> off + length h + length s \<le> length data \<Longrightarrow>
       read_slen data (length data) (data ! off) (off + 1) = Some (length s, off + length h)"
  have l: "off + length h + length s \<le> length data"
    using holds_at_len [OF assms(1,5)] by (simp add: h(1))
  have a: "holds_at data off h" "holds_at data (off + length h) s"
    using assms(1) by (simp_all add: h(1) holds_at_append)
  show ?thesis
    unfolding h(1) using read_step [OF r [OF a(1) l] _ l a(2) assms(4,6)] l h(2) by simp
qed

text \<open>
  The msgpack values, with the code's own writers as their encoding. The elements of a map
  are listed as on the wire, keys and values alternating.
\<close>

datatype mval = MNil | MBool bool | MInt int | MFloat "64 word" | MBin bytes | MStr bytes
  | MArr "mval list" | MMap "mval list"

text \<open>A destination as large as a \<open>size_t\<close> can say.\<close>

definition room :: nat where "room = 4294967295"

primrec enc :: "mval \<Rightarrow> bytes" where
  "enc MNil = [0xC0]"
| "enc (MBool b) = pack_bool room b"
| "enc (MInt v) = pack_int room v"
| "enc (MFloat w) = pack_float64 room w"
| "enc (MBin d) = pack_bin room d"
| "enc (MStr s) = pack_str room s"
| "enc (MArr vs) = pack_array_header room (length vs) @ concat (map enc vs)"
| "enc (MMap vs) = pack_map_header room (length vs div 2) @ concat (map enc vs)"

primrec wf_mval :: "mval \<Rightarrow> bool" where
  "wf_mval MNil = True"
| "wf_mval (MBool b) = True"
| "wf_mval (MInt v) = (- (2 ^ 63) \<le> v \<and> v < 2 ^ 63)"
| "wf_mval (MFloat w) = True"
| "wf_mval (MBin d) = (length d \<le> str_max_size)"
| "wf_mval (MStr s) = (length s \<le> str_max_size)"
| "wf_mval (MArr vs) = (length vs \<le> 65535 \<and> list_all wf_mval vs)"
| "wf_mval (MMap vs) = (even (length vs) \<and> length vs div 2 \<le> 65535 \<and> list_all wf_mval vs)"

primrec mdepth :: "mval \<Rightarrow> nat" where
  "mdepth MNil = 1"
| "mdepth (MBool b) = 1"
| "mdepth (MInt v) = 1"
| "mdepth (MFloat w) = 1"
| "mdepth (MBin d) = 1"
| "mdepth (MStr s) = 1"
| "mdepth (MArr vs) = Suc (foldr max (map mdepth vs) 0)"
| "mdepth (MMap vs) = Suc (foldr max (map mdepth vs) 0)"

text \<open>\<open>skips d e\<close>: wherever \<open>e\<close> stands, the skipper passes it exactly with depth \<open>d\<close>.\<close>

definition skips :: "nat \<Rightarrow> bytes \<Rightarrow> bool" where
  "skips d e \<longleftrightarrow> e \<noteq> [] \<and> (\<forall>data off. holds_at data off e \<longrightarrow> off \<le> length data \<longrightarrow> length data < 4294967296
     \<longrightarrow> skip_element d data (length data) off = Some (True, off + length e))"

lemma skipsI:
  assumes "e \<noteq> []" "\<And>data off. holds_at data off e \<Longrightarrow> off + length e \<le> length data \<Longrightarrow> length data < 4294967296
     \<Longrightarrow> skip_step data (length data) off = Done True (off + length e)"
  shows "skips (Suc d) e"
  unfolding skips_def
proof (intro conjI allI impI)
  fix data :: bytes and off
  assume a: "holds_at data off e" "off \<le> length data" "length data < 4294967296"
  show "skip_element (Suc d) data (length data) off = Some (True, off + length e)"
    using assms(2) [OF a(1) holds_at_len [OF a(1,2)] a(3)] by simp
qed (rule assms(1))

lemma unat_ibyte_at: "unat (ibyte_at k v) = nat (v div 2 ^ k mod 256)"
  by (simp add: ibyte_at_def unsigned_of_int take_bit_eq_mod)

lemma skips_int: "skips (Suc d) (pack_int room v)"
proof (rule skipsI)
  show "pack_int room v \<noteq> []" by (simp add: pack_int_def room_def)
  have neg: "0xE0 \<le> 0xE0 OR (ibyte_at 0 v AND 0x1F)" by (rule le_word_or2)
  have pos: "0 \<le> v \<Longrightarrow> v \<le> 127 \<Longrightarrow> ibyte_at 0 v \<le> 0x7F"
    by (simp add: word_le_nat_alt unat_ibyte_at)
  consider "0 \<le> v" "v \<le> 0x7F" | "0x7F < v" "v \<le> 0xFF" | "0xFF < v" "v \<le> 0xFFFF"
    | "0xFFFF < v" "v \<le> 0xFFFFFFFF" | "0xFFFFFFFF < v"
    | "v < 0" "-32 \<le> v" | "v < -32" "-128 \<le> v" | "v < -128" "-32768 \<le> v"
    | "v < -32768" "-2147483648 \<le> v" | "v < -2147483648" by linarith
  then show "skip_step data (length data) off = Done True (off + length (pack_int room v))"
    if "holds_at data off (pack_int room v)" "off + length (pack_int room v) \<le> length data"
      "length data < 4294967296" for data :: bytes and off
    using that neg pos
    by cases (simp_all add: pack_int_def room_def holds_at_Cons skip_step_def skip_by_def Let_def)
qed

lemma skips_bool: "skips (Suc d) (pack_bool room b)"
  by (rule skipsI) (auto simp: pack_bool_def room_def holds_at_Cons skip_step_def)

lemma skips_float: "skips (Suc d) (pack_float64 room w)"
  by (rule skipsI) (auto simp: pack_float64_def room_def holds_at_Cons skip_step_def skip_by_def Let_def)

lemma skips_nil: "skips (Suc d) [0xC0]"
  by (rule skipsI) (auto simp: holds_at_Cons skip_step_def)

lemma str_room: "length d \<le> str_max_size \<Longrightarrow> length d + 5 \<le> room"
  by (simp add: room_def str_max_size_def)

lemma room_less: "room < 4294967296"
  by (simp add: room_def)

lemma skips_bin:
  assumes "length s \<le> str_max_size"
  shows "skips (Suc d) (pack_bin room s)"
proof (rule skipsI)
  note p = pack_bin_room [OF str_room [OF assms] room_less]
  have "pack_bin_header room (length s) \<noteq> []" by (rule pack_bin_header_ne) (simp add: room_def)
  then show "pack_bin room s \<noteq> []" by (simp add: p)
  fix data :: bytes and off
  assume a: "holds_at data off (pack_bin room s)" "off + length (pack_bin room s) \<le> length data"
    "length data < 4294967296"
  then show "skip_step data (length data) off = Done True (off + length (pack_bin room s))"
    using skip_bin [of data off room "length s"] str_room [OF assms]
    by (simp add: p holds_at_append add.assoc)
qed

lemma skips_str:
  assumes "length s \<le> str_max_size"
  shows "skips (Suc d) (pack_str room s)"
proof (rule pack_str_parts [OF str_room [OF assms] room_less])
  fix h
  assume h: "pack_str room s = h @ s" "1 \<le> length h"
    and k: "\<And>data off. holds_at data off h \<Longrightarrow> off + length h + length s \<le> length data \<Longrightarrow>
       length data < 4294967296 \<Longrightarrow> skip_step data (length data) off = Done True (off + length h + length s)"
  show ?thesis
  proof (rule skipsI)
    show "pack_str room s \<noteq> []" using h by auto
    fix data :: bytes and off
    assume "holds_at data off (pack_str room s)" "off + length (pack_str room s) \<le> length data"
      "length data < 4294967296"
    then show "skip_step data (length data) off = Done True (off + length (pack_str room s))"
      using k [of data off] by (simp add: h(1) holds_at_append add.assoc)
  qed
qed

lemma skip_more_depth:
  "skip_element d data len off = Some r \<Longrightarrow> skip_element (Suc d) data len off = Some r"
  "skip_elements d n data len off = Some r \<Longrightarrow> skip_elements (Suc d) n data len off = Some r"
proof (induction d data len off and d n data len off arbitrary: r and r rule: skip_element_skip_elements.induct)
  case (2 d data len off)
  then show ?case by (simp split: skip.splits)
next
  case (4 d n data len off)
  then obtain b o' where e: "skip_element d data len off = Some (b, o')"
    by (cases "skip_element d data len off") auto
  with 4 show ?case by (cases b) (auto simp del: skip_element.simps)
qed auto

lemma skip_depth_mono: "d \<le> d' \<Longrightarrow> skip_element d data len off = Some r \<Longrightarrow> skip_element d' data len off = Some r"
proof (induction rule: dec_induct)
  case (step n)
  then show ?case by (intro skip_more_depth(1))
qed simp

lemma skips_mono: "skips d e \<Longrightarrow> d \<le> d' \<Longrightarrow> skips d' e"
  unfolding skips_def using skip_depth_mono by blast

lemma skip_elements_concat:
  assumes "\<And>e. e \<in> set es \<Longrightarrow> skips d e" "holds_at data off (concat es)" "off \<le> length data" "length data < 4294967296"
  shows "skip_elements d (length es) data (length data) off = Some (True, off + length (concat es))"
  using assms
proof (induction es arbitrary: off)
  case (Cons e es)
  then have h: "holds_at data off e" "holds_at data (off + length e) (concat es)" and "skips d e"
    by (simp_all add: holds_at_append)
  then have 1: "skip_element d data (length data) off = Some (True, off + length e)"
    using Cons.prems(3,4) by (simp add: skips_def)
  have "off + length e \<le> length data" using holds_at_len [OF h(1) Cons.prems(3)] .
  then have "skip_elements d (length es) data (length data) (off + length e)
      = Some (True, off + length e + length (concat es))"
    using Cons.IH [OF _ h(2)] Cons.prems(1,4) by simp
  with 1 show ?case by (simp add: add.assoc)
qed simp

lemma skips_nest:
  assumes "h \<noteq> []" "\<And>e. e \<in> set es \<Longrightarrow> skips d e"
    "\<And>data off. holds_at data off h \<Longrightarrow> off + length h \<le> length data \<Longrightarrow> length data < 4294967296
       \<Longrightarrow> skip_step data (length data) off = Nest (length es) (off + length h)"
  shows "skips (Suc d) (h @ concat es)"
  unfolding skips_def
proof (intro conjI allI impI)
  fix data :: bytes and off
  assume a: "holds_at data off (h @ concat es)" "off \<le> length data" "length data < 4294967296"
  then have h: "holds_at data off h" "holds_at data (off + length h) (concat es)"
    by (simp_all add: holds_at_append)
  have l: "off + length h \<le> length data" using holds_at_len [OF h(1) a(2)] .
  show "skip_element (Suc d) data (length data) off = Some (True, off + length (h @ concat es))"
    using assms(3) [OF h(1) l a(3)] skip_elements_concat [OF assms(2) h(2) l a(3)]
    by (simp add: add.assoc)
qed (use assms(1) in simp)

lemma array_header_nest:
  assumes "n \<le> 65535" "holds_at data off (pack_array_header room n)"
    "off + length (pack_array_header room n) \<le> length data"
  shows "skip_step data (length data) off = Nest n (off + length (pack_array_header room n))"
proof (cases "n \<le> 15")
  case True
  with assms show ?thesis
    by (auto simp: pack_array_header_def room_def holds_at_Cons skip_step_def Let_def fixarr_tag)
next
  case False
  with assms have "holds_at data off (0xDC # [byte_at 8 n, byte_at 0 n])"
    by (simp add: pack_array_header_def room_def)
  then have "data ! off = 0xDC" "be16_at data (Suc off) = n"
    using assms(1) by (simp_all only: holds_at_Cons [of data off] be16_at_holds)
  with False assms show ?thesis
    by (simp add: pack_array_header_def room_def skip_step_def)
qed

lemma map_header_nest:
  assumes "n \<le> 65535" "holds_at data off (pack_map_header room n)"
    "off + length (pack_map_header room n) \<le> length data"
  shows "skip_step data (length data) off = Nest (n * 2) (off + length (pack_map_header room n))"
proof (cases "n \<le> 15")
  case True
  with assms show ?thesis
    by (auto simp: pack_map_header_def room_def holds_at_Cons skip_step_def Let_def fixmap_tag)
next
  case False
  with assms have "holds_at data off (0xDE # [byte_at 8 n, byte_at 0 n])"
    by (simp add: pack_map_header_def room_def)
  then have "data ! off = 0xDE" "be16_at data (Suc off) = n"
    using assms(1) by (simp_all only: holds_at_Cons [of data off] be16_at_holds)
  with False assms show ?thesis
    by (simp add: pack_map_header_def room_def skip_step_def)
qed

lemma foldr_max_ge: "v \<in> set vs \<Longrightarrow> f v \<le> foldr max (map f vs) (0::nat)"
  by (induction vs) auto

lemma skips_enc: "wf_mval v \<Longrightarrow> skips (mdepth v) (enc v)"
proof (induction v)
  case (MArr vs)
  have "skips (Suc (foldr max (map mdepth vs) 0)) (pack_array_header room (length vs) @ concat (map enc vs))"
  proof (rule skips_nest)
    show "pack_array_header room (length vs) \<noteq> []" by (simp add: pack_array_header_def room_def)
    show "skips (foldr max (map mdepth vs) 0) e" if "e \<in> set (map enc vs)" for e
      using that MArr foldr_max_ge [of _ vs mdepth] by (auto simp: list_all_iff intro: skips_mono)
  qed (use MArr.prems array_header_nest in auto)
  then show ?case by simp
next
  case (MMap vs)
  have "skips (Suc (foldr max (map mdepth vs) 0)) (pack_map_header room (length vs div 2) @ concat (map enc vs))"
  proof (rule skips_nest)
    show "pack_map_header room (length vs div 2) \<noteq> []" by (simp add: pack_map_header_def room_def)
    show "skips (foldr max (map mdepth vs) 0) e" if "e \<in> set (map enc vs)" for e
      using that MMap foldr_max_ge [of _ vs mdepth] by (auto simp: list_all_iff intro: skips_mono)
  qed (use MMap.prems map_header_nest [of "length vs div 2"] in auto)
  then show ?case by simp
qed (simp_all add: skips_nil skips_bool skips_int skips_float skips_bin skips_str)

section \<open>Progress and divergence of the element skipper\<close>

text \<open>
  \<open>no_huge_length\<close>: wherever a 32-bit length field can be read, its value is below
  \<open>2^31\<close>, so that adding it to an offset cannot wrap around.
\<close>

definition no_huge_length :: "bytes \<Rightarrow> bool" where
  "no_huge_length d \<longleftrightarrow> (\<forall>i \<in> set [0..<length d].
     (d ! i = 0xDB \<or> d ! i = 0xC6) \<and> i + 4 < length d \<longrightarrow> be32_at d (i + 1) < 2147483648)"

lemma skip_by_progress:
  "skip_by len off k = Done True o' \<Longrightarrow> off + k < 4294967296 \<Longrightarrow> o' = off + k \<and> o' \<le> len"
  by (simp add: skip_by_def Let_def)

lemma skip_by_no_nest: "skip_by len off k \<noteq> Nest n o'"
  by (simp add: skip_by_def Let_def)

lemma skip_step_progress:
  assumes "no_huge_length data" "length data < 2147483000"
  shows "skip_step data (length data) off = Done True o' \<Longrightarrow> off < o' \<and> o' \<le> length data"
    and "skip_step data (length data) off = Nest n o' \<Longrightarrow> off < o' \<and> o' \<le> length data"
proof -
  let ?t = "data ! off"
  have big: "(?t = 0xDB \<or> ?t = 0xC6) \<Longrightarrow> Suc off + 3 < length data \<Longrightarrow> be32_at data (Suc off) < 2147483648"
    using assms(1) by (auto simp: no_huge_length_def)
  have b16: "be16_at data (Suc off) < 65536" by (simp add: be16_at_def be16_less)
  have u5: "unat (data ! off AND 0x1F) < 256" "unat (data ! Suc off) < 256" by (rule unat_u8_less)+
  show "off < o' \<and> o' \<le> length data" if "skip_step data (length data) off = Done True o'"
    using that big b16 u5 assms(2)
    by (auto simp: skip_step_def Let_def split: if_splits dest!: skip_by_progress)
  show "off < o' \<and> o' \<le> length data" if "skip_step data (length data) off = Nest n o'"
    using that assms(2)
    by (auto simp: skip_step_def Let_def skip_by_no_nest split: if_splits)
qed

lemma skip_element_total:
  assumes "no_huge_length data" "length data < 2147483000"
  shows "off \<le> length data \<Longrightarrow> length data - off < d \<Longrightarrow>
    \<exists>b o'. skip_element d data (length data) off = Some (b, o') \<and> (b \<longrightarrow> off < o' \<and> o' \<le> length data)"
proof (induction d arbitrary: off)
  case (Suc d)
  show ?case
  proof (cases "skip_step data (length data) off")
    case (Done b o')
    with skip_step_progress(1) [OF assms] show ?thesis by (cases b) auto
  next
    case (Nest n o')
    note p = skip_step_progress(2) [OF assms Nest]
    have "\<exists>b q'. skip_elements d n data (length data) q = Some (b, q') \<and> (b \<longrightarrow> q \<le> q' \<and> q' \<le> length data)"
      if "o' \<le> q" "q \<le> length data" for q
      using that
    proof (induction n arbitrary: q)
      case (Suc n)
      have "length data - q < d" using Suc.prems p Suc(3) \<open>length data - off < Suc d\<close> by linarith
      then obtain b q' where 1: "skip_element d data (length data) q = Some (b, q')"
        "b \<longrightarrow> q < q' \<and> q' \<le> length data"
        using \<open>\<And>off. off \<le> length data \<Longrightarrow> length data - off < d \<Longrightarrow> _ off\<close> Suc.prems(2) by blast
      show ?case
      proof (cases b)
        case True
        with 1 Suc.prems obtain b' q'' where "skip_elements d n data (length data) q' = Some (b', q'')"
          "b' \<longrightarrow> q' \<le> q'' \<and> q'' \<le> length data"
          using Suc.IH [of q'] by fastforce
        with 1 True show ?thesis by (auto intro: order_trans)
      qed (use 1 in auto)
    qed auto
    from this [of o'] p Nest show ?thesis by (fastforce intro: order_less_le_trans)
  qed
qed simp

text \<open>
  A two-element array whose first element is a \<open>str32\<close> of claimed length \<open>2^32 - 6\<close>:
  skipping that element brings the offset back to the start of the array.
\<close>

definition evil_skip :: bytes where
  "evil_skip = [0x92, 0xDB, 0xFF, 0xFF, 0xFF, 0xFA]"

lemma evil_len: "length evil_skip = 6"
  by (simp add: evil_skip_def)

lemma evil_loop: "skip_element d evil_skip 6 0 = None"
proof (induction d)
  case (Suc d)
  have 0: "skip_step evil_skip 6 0 = Nest 2 1" by (simp add: evil_skip_def skip_step_def)
  have 1: "skip_step evil_skip 6 1 = Done True 0"
    by (simp add: evil_skip_def skip_step_def skip_by_def be32_at_def be32_def wrap32_def)
  show ?case
  proof (cases d)
    case (Suc d')
    have "skip_elements d 2 evil_skip 6 1 = skip_elements d 1 evil_skip 6 0"
      using 1 by (simp add: Suc numeral_2_eq_2)
    with Suc.IH 0 show ?thesis by simp
  qed (simp add: 0 numeral_2_eq_2)
qed simp

section \<open>Correctness of the msgpack helpers\<close>



text \<open>Reading inverts writing: \<open>read_bin_or_str\<close> returns the payload that \<open>pack_bin\<close> or
  \<open>pack_str\<close> wrote at the offset, and moves the offset behind it.\<close>
theorem msgpack_read_written:
  assumes "length s \<le> str_max_size" and "length s + 5 \<le> cap" and "cap < 4294967296"
    and "length (pre @ w @ post) < 4294967296" and "w = pack_bin cap s \<or> w = pack_str cap s"
  shows "read_bin_or_str (pre @ w @ post) (length (pre @ w @ post)) (length pre)
    = Inr (s, length pre + length w)"
proof -
  have h: "holds_at (pre @ w @ post) (length pre) w" by (rule holds_at_mid)
  have l: "length pre \<le> length (pre @ w @ post)" by simp
  from assms(5) show ?thesis
    using read_bin [OF _ assms(2,3,1) l assms(4)] read_str [OF _ assms(2,3,1) l assms(4)] h by blast
qed

theorem msgpack_read_written_witness:
  "read_bin_or_str ([7] @ pack_str 100 [65, 66] @ [9]) (length ([7] @ pack_str 100 [65, 66] @ [9])) (length [7 :: u8])
    = Inr ([65, 66], length [7 :: u8] + length (pack_str 100 [65, 66]))"
proof -
  have l: "length ([7] @ pack_str 100 [65, 66] @ [9 :: u8]) < 4294967296"
    by (simp add: pack_str_def)
  show ?thesis
    by (rule msgpack_read_written [where cap = 100, OF _ _ _ l]) (simp_all add: str_max_size_def)
qed

text \<open>Whatever the bytes are, a string that \<open>read_bin_or_str\<close> returns is a slice of the
  buffer: no read leaves it, whatever length the sender claims.\<close>
theorem msgpack_read_in_bounds:
  assumes "len = length data" and "len < 2147483648"
    and "read_bin_or_str data len off = Inr (s, o')" and "s \<noteq> []"
  shows "\<exists>k > off. o' = k + length s \<and> o' \<le> length data \<and> s = take (length s) (drop k data)"
proof -
  from assms(3,4) have "off < len" by (auto simp: read_bin_or_str_def split: if_splits)
  with assms(3,4) obtain slen k where r: "read_slen data len (data ! off) (off + 1) = Some (slen, k)"
    and b: "wrap32 (k + slen) \<le> len" "slen \<le> str_max_size"
    and s: "s = take slen (drop k data)" "o' = wrap32 (k + slen)"
    by (auto simp: read_bin_or_str_def Let_def split: if_splits option.splits)
  have k: "off < k" "k \<le> len"
    using r \<open>off < len\<close> by (auto simp: read_slen_def split: if_splits)
  then have "wrap32 (k + slen) = k + slen"
    using b(2) assms(2) by (simp add: str_max_size_def)
  with b(1) s k assms(1) show ?thesis by (intro exI [of _ k]) auto
qed

theorem msgpack_read_in_bounds_witness:
  "\<exists>k > (0 :: nat). 3 = k + length [65, 66 :: u8] \<and> 3 \<le> length [0xA2, 65, 66 :: u8]
    \<and> [65, 66] = take (length [65, 66 :: u8]) (drop k [0xA2, 65, 66 :: u8])"
  by (rule msgpack_read_in_bounds [where len = 3])
    (simp_all add: read_bin_or_str_def read_slen_def str_max_size_def)

text \<open>C29. Termination and progress of the skipper on hostile bytes without a huge length
  field: one call frame per remaining byte suffices, and success moves the offset forward
  inside the buffer.\<close>
theorem msgpack_skip_terminates:
  assumes "no_huge_length data" and "length data < 2147483000" and "off \<le> length data"
  shows "\<exists>b o'. skip_element (Suc (length data - off)) data (length data) off = Some (b, o')
    \<and> (b \<longrightarrow> off < o' \<and> o' \<le> length data)"
  by (rule skip_element_total [OF assms]) simp

theorem msgpack_skip_terminates_witness:
  "\<exists>b o'. skip_element (Suc (length [0x91, 0xDB :: u8] - 0)) [0x91, 0xDB] (length [0x91, 0xDB :: u8]) 0 = Some (b, o')
    \<and> (b \<longrightarrow> 0 < o' \<and> o' \<le> length [0x91, 0xDB :: u8])"
  by (rule msgpack_skip_terminates) (simp_all add: no_huge_length_def)

text \<open>A huge claimed length wraps the 32-bit offset: on the six bytes of \<open>evil_skip\<close> the
  recursion of \<open>skip_element\<close> never ends, however deep the stack is, and a \<open>str32\<close> header with
  such a length makes \<open>read_bin_or_str\<close> throw instead of returning the empty string.\<close>
theorem msgpack_huge_length_diverges:
  "skip_element d evil_skip (length evil_skip) 0 = None
   \<and> read_bin_or_str [0xDB, 0xFF, 0xFF, 0xFF, 0xFB] 5 0 = Inl LengthError"
proof
  show "skip_element d evil_skip (length evil_skip) 0 = None"
    using evil_loop [of d] evil_len by simp
  show "read_bin_or_str [0xDB, 0xFF, 0xFF, 0xFF, 0xFB] 5 0 = Inl LengthError"
    by (simp add: read_bin_or_str_def read_slen_def be32_at_def be32_def wrap32_def str_max_size_def)
qed

end
