(* ===== verification/Hdlc.thy ===== *)
theory Hdlc
  imports Prelude
begin

text \<open>
  HDLC framing of the TCP transports, \<open>src/src/HDLC.h\<close>: the byte-stuffing encoder and the
  incremental decoder. The decoder's frame callback is the option in the result of \<open>feed\<close>.
\<close>

section \<open>Encoder\<close>

definition FLAG :: u8 where "FLAG = 0x7E"
definition ESC :: u8 where "ESC = 0x7D"
definition ESC_MASK :: u8 where "ESC_MASK = 0x20"

fun stuff :: "bytes \<Rightarrow> bytes" where
  "stuff [] = []"
| "stuff (b # p) =
    (if b = FLAG \<or> b = ESC then ESC # (b XOR ESC_MASK) # stuff p else b # stuff p)"

definition encode :: "bytes \<Rightarrow> bytes \<Rightarrow> bytes" where
  "encode inp out = out @ [FLAG] @ stuff inp @ [FLAG]"

section \<open>Decoder\<close>

record decoder =
  dbuf :: bytes
  in_frame :: bool
  escape :: bool

definition decoder_init :: decoder where
  "decoder_init = \<lparr>dbuf = [], in_frame = False, escape = False\<rparr>"

definition feed :: "decoder \<Rightarrow> u8 \<Rightarrow> decoder \<times> bytes option" where
  "feed d b =
    (if b = FLAG then
       (\<lparr>dbuf = [], in_frame = True, escape = False\<rparr>,
        if in_frame d \<and> length (dbuf d) > 0 then Some (dbuf d) else None)
     else if \<not> in_frame d then (d, None)
     else if escape d then (d\<lparr>dbuf := dbuf d @ [b XOR ESC_MASK], escape := False\<rparr>, None)
     else if b = ESC then (d\<lparr>escape := True\<rparr>, None)
     else (d\<lparr>dbuf := dbuf d @ [b]\<rparr>, None))"

definition decoder_reset :: "decoder \<Rightarrow> decoder" where
  "decoder_reset d = \<lparr>dbuf = [], in_frame = False, escape = False\<rparr>"

definition buffered :: "decoder \<Rightarrow> nat" where
  "buffered d = length (dbuf d)"

text \<open>Feeding a stream: the callers loop over the received bytes.\<close>

fun feed_all :: "decoder \<Rightarrow> bytes \<Rightarrow> decoder \<times> bytes list" where
  "feed_all d [] = (d, [])"
| "feed_all d (b # bs) =
    (case feed d b of (d', f) \<Rightarrow>
      case feed_all d' bs of (d'', fs) \<Rightarrow>
        (d'', (case f of None \<Rightarrow> fs | Some x \<Rightarrow> x # fs)))"

section \<open>The contract of a framing\<close>

text \<open>
  What the transports rely on: a decoder that is between frames returns an encoded frame
  whole and is between frames again. \<open>ready\<close> describes the states between frames.
\<close>

locale framing =
  fixes enc1 :: "'f \<Rightarrow> 'b list"
    and dec :: "'s \<Rightarrow> 'b list \<Rightarrow> 's \<times> 'f list"
    and ready :: "'s \<Rightarrow> bool"
    and okf :: "'f \<Rightarrow> bool"
  assumes dec_Nil: "dec s [] = (s, [])"
    and dec_append: "dec s (xs @ ys) = (let (s', fs) = dec s xs; (s'', gs) = dec s' ys in (s'', fs @ gs))"
    and dec_enc: "ready s \<Longrightarrow> okf f \<Longrightarrow> snd (dec s (enc1 f)) = [f] \<and> ready (fst (dec s (enc1 f)))"
begin

lemma dec_stream:
  "ready s \<Longrightarrow> \<forall>f \<in> set fs. okf f \<Longrightarrow>
    snd (dec s (concat (map enc1 fs))) = fs \<and> ready (fst (dec s (concat (map enc1 fs))))"
proof (induction fs arbitrary: s)
  case (Cons f fs)
  have 1: "snd (dec s (enc1 f)) = [f]" "ready (fst (dec s (enc1 f)))"
    using dec_enc [OF Cons.prems(1)] Cons.prems(2) by auto
  then show ?case
    using Cons.IH [OF 1(2)] Cons.prems(2) by (auto simp: dec_append Let_def split_beta)
qed (simp add: dec_Nil)

end

section \<open>The HDLC decoder meets it\<close>

lemma feed_all_append:
  "feed_all d (xs @ ys) = (let (d', fs) = feed_all d xs; (d'', gs) = feed_all d' ys in (d'', fs @ gs))"
  by (induction xs arbitrary: d) (auto simp: Let_def split: prod.splits option.splits)

lemma stuff_no_flag: "FLAG \<notin> set (stuff p)"
  by (induction p) (auto simp: FLAG_def ESC_def ESC_MASK_def)

lemma xor_mask_self: "(b XOR ESC_MASK) XOR ESC_MASK = b"
  by (simp add: xor.assoc)

lemma feed_stuffed:
  "in_frame d \<Longrightarrow> \<not> escape d \<Longrightarrow> feed_all d (stuff p) = (d\<lparr>dbuf := dbuf d @ p\<rparr>, [])"
proof (induction p arbitrary: d)
  case (Cons b p)
  have n: "b XOR ESC_MASK \<noteq> FLAG" if "b = FLAG \<or> b = ESC"
    using that by (auto simp: FLAG_def ESC_def ESC_MASK_def)
  have e: "ESC \<noteq> FLAG" by (simp add: FLAG_def ESC_def)
  show ?case
  proof (cases "b = FLAG \<or> b = ESC")
    case True
    with n e Cons show ?thesis by (auto simp: feed_def xor_mask_self)
  next
    case False
    with Cons show ?thesis by (simp add: feed_def)
  qed
qed simp

definition between_frames :: "decoder \<Rightarrow> bool" where
  "between_frames d \<longleftrightarrow> dbuf d = [] \<or> \<not> in_frame d"

lemma feed_encoded:
  assumes "between_frames d" "p \<noteq> []"
  shows "feed_all d (encode p []) = (\<lparr>dbuf = [], in_frame = True, escape = False\<rparr>, [p])"
proof -
  let ?d = "\<lparr>dbuf = [], in_frame = True, escape = False\<rparr>"
  have 1: "feed_all d [FLAG] = (?d, [])"
    using assms(1) by (auto simp: feed_def between_frames_def)
  have 2: "feed_all ?d (stuff p) = (?d\<lparr>dbuf := p\<rparr>, [])"
    using feed_stuffed [of ?d p] by simp
  have 3: "feed_all (?d\<lparr>dbuf := p\<rparr>) [FLAG] = (?d, [p])"
    using assms(2) by (simp add: feed_def)
  show ?thesis
    unfolding encode_def append_Nil
    by (simp only: feed_all_append 1 2 3 Let_def prod.case append_Nil)
qed

interpretation hdlc: framing "\<lambda>p. encode p []" feed_all between_frames "\<lambda>p. p \<noteq> []"
  by unfold_locales
    (auto simp: feed_all_append feed_encoded, auto simp: between_frames_def)

text \<open>C31. A stream of HDLC frames comes back frame by frame: from any decoder state between
  frames, feeding the encodings of non-empty packets one after the other calls the handler
  with exactly these packets in order.\<close>
theorem hdlc_stream_roundtrip:
  assumes "between_frames d" and "\<forall>p \<in> set ps. p \<noteq> []"
  shows "snd (feed_all d (concat (map (\<lambda>p. encode p []) ps))) = ps"
  using hdlc.dec_stream [OF assms] by simp

theorem hdlc_stream_roundtrip_witness:
  "snd (feed_all decoder_init (concat (map (\<lambda>p. encode p []) [[0x7E, 1], [0x7D]]))) = [[0x7E, 1], [0x7D]]"
  by (rule hdlc_stream_roundtrip) (simp_all add: decoder_init_def between_frames_def)

text \<open>Resynchronisation: a flag byte brings the decoder between frames from any state.\<close>

lemma feed_all_flag: "between_frames (fst (feed_all d (xs @ [FLAG])))"
  by (simp add: feed_all_append Let_def split_beta feed_def between_frames_def)

text \<open>Resynchronisation: after any garbage followed by one flag byte, from any state, the
  next encoded packets are delivered intact.\<close>
theorem hdlc_resync:
  assumes "\<forall>p \<in> set ps. p \<noteq> []"
  shows "\<exists>junk. snd (feed_all d (xs @ [FLAG] @ concat (map (\<lambda>p. encode p []) ps))) = junk @ ps"
proof -
  have "snd (feed_all (fst (feed_all d (xs @ [FLAG]))) (concat (map (\<lambda>p. encode p []) ps))) = ps"
    using hdlc.dec_stream [OF feed_all_flag assms] by simp
  then show ?thesis
    using feed_all_append [of d "xs @ [FLAG]" "concat (map (\<lambda>p. encode p []) ps)"]
    by (simp add: split_beta Let_def)
qed

theorem hdlc_resync_witness:
  "\<exists>junk. snd (feed_all decoder_init ([1, 0x7D] @ [FLAG] @ concat (map (\<lambda>p. encode p []) [[5]]))) = junk @ [[5]]"
  by (rule hdlc_resync) simp

end
