(* ===== verification/Store.thy ===== *)
theory Store
  imports Prelude "HOL-Library.AList"
begin

text \<open>
  The containers of the firmware as lists. \<open>std::map\<close> is an association list with distinct
  keys in iteration order; the key order (\<open>operator<\<close> of \<open>RNS::Bytes\<close>, code outside the
  repository) is the parameter \<open>lt\<close>. Bounded queues are lists with the oldest entry first.
  Each container meets a contract, a locale whose lemmas the components use.
\<close>

section \<open>Ordered maps\<close>

type_synonym ('k, 'v) omap = "('k \<times> 'v) list"

text \<open>\<open>m.find(k)\<close>\<close>

definition mfind :: "('k, 'v) omap \<Rightarrow> 'k \<Rightarrow> 'v option" where
  "mfind m k = map_of m k"

fun minsert :: "('k \<Rightarrow> 'k \<Rightarrow> bool) \<Rightarrow> 'k \<Rightarrow> 'v \<Rightarrow> ('k, 'v) omap \<Rightarrow> ('k, 'v) omap" where
  "minsert lt k v [] = [(k, v)]"
| "minsert lt k v (e # m) = (if lt k (fst e) then (k, v) # e # m else e # minsert lt k v m)"

text \<open>\<open>m[k] = v\<close>: replace in place, or insert before the first greater key.\<close>

definition mput :: "('k \<Rightarrow> 'k \<Rightarrow> bool) \<Rightarrow> 'k \<Rightarrow> 'v \<Rightarrow> ('k, 'v) omap \<Rightarrow> ('k, 'v) omap" where
  "mput lt k v m =
    (if k \<in> fst ` set m then map (\<lambda>e. if fst e = k then (k, v) else e) m else minsert lt k v m)"

definition merase :: "'k \<Rightarrow> ('k, 'v) omap \<Rightarrow> ('k, 'v) omap" where
  "merase k m = filter (\<lambda>e. fst e \<noteq> k) m"

definition mkeys :: "('k, 'v) omap \<Rightarrow> 'k list" where
  "mkeys m = map fst m"

text \<open>The contract of a keyed store.\<close>

locale keyed_store =
  fixes find :: "'m \<Rightarrow> 'k \<Rightarrow> 'v option"
    and put :: "'k \<Rightarrow> 'v \<Rightarrow> 'm \<Rightarrow> 'm"
    and erase :: "'k \<Rightarrow> 'm \<Rightarrow> 'm"
    and keys :: "'m \<Rightarrow> 'k list"
    and inv :: "'m \<Rightarrow> bool"
  assumes find_put: "find (put k v m) k' = (if k' = k then Some v else find m k')"
    and find_erase: "find (erase k m) k' = (if k' = k then None else find m k')"
    and keys_find: "inv m \<Longrightarrow> k \<in> set (keys m) \<longleftrightarrow> find m k \<noteq> None"
    and inv_put: "inv m \<Longrightarrow> inv (put k v m)"
    and inv_erase: "inv m \<Longrightarrow> inv (erase k m)"
begin

lemma find_put_same [simp]: "find (put k v m) k = Some v"
  by (simp add: find_put)

lemma find_put_other [simp]: "k' \<noteq> k \<Longrightarrow> find (put k v m) k' = find m k'"
  by (simp add: find_put)

lemma find_erase_same [simp]: "find (erase k m) k = None"
  by (simp add: find_erase)

lemma find_erase_other [simp]: "k' \<noteq> k \<Longrightarrow> find (erase k m) k' = find m k'"
  by (simp add: find_erase)

text \<open>Moving an entry to another key keeps every other entry.\<close>

lemma find_rekey: "k' \<noteq> k \<Longrightarrow> find (put k' v (erase k m)) k = None"
  by simp

end

lemma map_of_minsert: "k \<notin> fst ` set m \<Longrightarrow> map_of (minsert lt k v m) k' = (if k' = k then Some v else map_of m k')"
  by (induction m) auto

lemma map_of_replace:
  "map_of (map (\<lambda>e. if fst e = k then (k, v) else e) m) k' =
    (if k' = k \<and> k \<in> fst ` set m then Some v else map_of m k')"
  by (induction m) (auto simp: rev_image_eqI)

lemma mkeys_minsert: "k \<notin> fst ` set m \<Longrightarrow> distinct (map fst m) \<Longrightarrow> distinct (map fst (minsert lt k v m))"
proof (induction m)
  case (Cons e m)
  have "set (map fst (minsert lt k v m)) = insert k (set (map fst m))"
    by (induction m) auto
  with Cons show ?case by auto
qed simp

interpretation omap: keyed_store mfind "mput lt" merase mkeys "\<lambda>m. distinct (mkeys m)"
proof
  fix k k' :: 'a and v :: 'b and m
  show "mfind (mput lt k v m) k' = (if k' = k then Some v else mfind m k')"
    by (auto simp: mfind_def mput_def map_of_minsert map_of_replace)
  show "mfind (merase k m) k' = (if k' = k then None else mfind m k')"
    unfolding mfind_def merase_def by (induction m) auto
  show "k \<in> set (mkeys m) \<longleftrightarrow> mfind m k \<noteq> None"
    by (simp add: mkeys_def mfind_def map_of_eq_None_iff)
  assume d: "distinct (mkeys m)"
  have "map fst (map (\<lambda>e. if fst e = k then (k, v) else e) m) = map fst m"
    by simp
  with d show "distinct (mkeys (mput lt k v m))"
    by (auto simp: mput_def mkeys_def mkeys_minsert simp del: map_map)
  from d show "distinct (mkeys (merase k m))"
    by (simp add: mkeys_def merase_def distinct_map_filter)
qed

text \<open>The range of an ordered map: what its loops visit.\<close>

lemma mfind_mem: "mfind m k = Some v \<Longrightarrow> (k, v) \<in> set m"
  by (simp add: mfind_def map_of_SomeD)

lemma mem_mfind: "distinct (mkeys m) \<Longrightarrow> (k, v) \<in> set m \<Longrightarrow> mfind m k = Some v"
  by (simp add: mfind_def mkeys_def)

lemma set_minsert: "set (minsert lt k v m) = insert (k, v) (set m)"
  by (induction m) auto

lemma set_mput: "set (mput lt k v m) \<subseteq> insert (k, v) (set m)"
  by (auto simp: mput_def set_minsert)

lemma set_merase: "set (merase k m) = {e \<in> set m. fst e \<noteq> k}"
  by (auto simp: merase_def)

text \<open>A sum over the values of a map, for budgets.\<close>

definition msum :: "('v \<Rightarrow> nat) \<Rightarrow> ('k, 'v) omap \<Rightarrow> nat" where
  "msum f m = sum_list (map (f \<circ> snd) m)"

lemma msum_minsert: "msum f (minsert lt k v m) = f v + msum f m"
  by (induction m) (auto simp: msum_def)

lemma merase_absent: "k \<notin> fst ` set m \<Longrightarrow> merase k m = m"
  unfolding merase_def by (rule filter_True) auto

lemma msum_merase:
  "distinct (mkeys m) \<Longrightarrow> mfind m k = Some v \<Longrightarrow> msum f (merase k m) + f v = msum f m"
proof (induction m)
  case (Cons e m)
  show ?case
  proof (cases "fst e = k")
    case True
    with Cons.prems have "snd e = v" "k \<notin> fst ` set m"
      by (auto simp: mfind_def mkeys_def)
    with True show ?thesis using merase_absent [of k m] by (simp add: merase_def msum_def)
  next
    case False
    with Cons show ?thesis by (cases e) (auto simp: mfind_def mkeys_def merase_def msum_def)
  qed
qed (simp add: mfind_def)

lemma msum_mput_new: "mfind m k = None \<Longrightarrow> msum f (mput lt k v m) = f v + msum f m"
  by (simp add: mfind_def mput_def map_of_eq_None_iff msum_minsert)

lemma msum_mput_same:
  "distinct (mkeys m) \<Longrightarrow> mfind m k = Some v \<Longrightarrow> msum f (mput lt k v' m) + f v = msum f m + f v'"
proof (induction m)
  case (Cons e m)
  show ?case
  proof (cases "fst e = k")
    case True
    with Cons.prems have "snd e = v" "k \<notin> fst ` set m"
      by (auto simp: mfind_def mkeys_def)
    moreover from this have "map (\<lambda>e. if fst e = k then (k, v') else e) m = m"
      by (intro map_idI) auto
    ultimately show ?thesis using True by (auto simp: mput_def msum_def)
  next
    case False
    with Cons.prems have p: "distinct (mkeys m)" "mfind m k = Some v"
      by (auto simp: mfind_def mkeys_def split: prod.splits if_splits intro: prod.exhaust [of e])
    then have "k \<in> fst ` set m" using mfind_mem by (metis fst_conv imageI)
    with False Cons.IH [OF p] show ?thesis by (auto simp: mput_def msum_def)
  qed
qed (simp add: mfind_def)

section \<open>Bounded queues\<close>

text \<open>\<open>push_back\<close>, then \<open>pop_front\<close> while the queue is longer than its bound.\<close>

definition push_bounded :: "nat \<Rightarrow> 'a \<Rightarrow> 'a list \<Rightarrow> 'a list" where
  "push_bounded cap x q = (let q' = q @ [x] in drop (length q' - cap) q')"

locale bounded_queue =
  fixes cap :: nat
    and push :: "'a \<Rightarrow> 'a list \<Rightarrow> 'a list"
  assumes push_len: "length q \<le> cap \<Longrightarrow> length (push x q) = min cap (Suc (length q))"
    and push_suffix: "length q \<le> cap \<Longrightarrow> \<exists>k \<le> 1. push x q = drop k (q @ [x])"
    and cap_pos: "0 < cap"
begin

lemma push_last: "length q \<le> cap \<Longrightarrow> x \<in> set (push x q)"
proof -
  assume l: "length q \<le> cap"
  obtain k where k: "k \<le> 1" "push x q = drop k (q @ [x])" using push_suffix [OF l] by blast
  have "push x q \<noteq> []" using push_len [OF l, of x] cap_pos by auto
  then show ?thesis using k by (cases "k \<le> length q") auto
qed

lemma push_set: "length q \<le> cap \<Longrightarrow> set (push x q) \<subseteq> insert x (set q)"
  using push_suffix [of q x] by (metis set_drop_subset list.set(1,2) set_append Un_insert_right sup_bot_right subset_trans)

lemma push_distinct: "length q \<le> cap \<Longrightarrow> distinct q \<Longrightarrow> x \<notin> set q \<Longrightarrow> distinct (push x q)"
  using push_suffix [of q x] by (metis distinct_append distinct_drop distinct_singleton empty_set
    inf.commute insert_disjoint(1) list.simps(15) inf_bot_left)

text \<open>The last \<open>cap\<close> pushed elements are all there.\<close>

lemma push_keeps: "length q \<le> cap \<Longrightarrow> n < length q \<Longrightarrow> n < cap - 1 \<Longrightarrow>
  rev q ! n \<in> set (push x q)"
proof -
  assume l: "length q \<le> cap" "n < length q" "n < cap - 1"
  obtain k where k: "k \<le> 1" "push x q = drop k (q @ [x])" using push_suffix [OF l(1)] by blast
  have len: "length (push x q) = min cap (Suc (length q))" using push_len [OF l(1)] .
  have i: "length q - Suc n < length q" using l(2) by simp
  have "k \<le> length q - Suc n"
  proof (cases "k = 0")
    case False
    then have "k = 1" using k(1) by simp
    then have "min cap (Suc (length q)) = length q" using len k(2) by simp
    then have "length q = cap" by (simp add: min_def split: if_splits)
    with l(3) \<open>k = 1\<close> show ?thesis by simp
  qed simp
  then have "drop k q ! (length q - Suc n - k) = q ! (length q - Suc n)"
    using i \<open>k \<le> length q - Suc n\<close> by (simp del: diff_diff_left)
  moreover have "length q - Suc n - k < length (drop k q)" using i \<open>k \<le> length q - Suc n\<close> by simp
  ultimately have "q ! (length q - Suc n) \<in> set (drop k q)" by (metis nth_mem)
  moreover have "set (drop k q) \<subseteq> set (push x q)" using k by auto
  ultimately show ?thesis using l(2) by (auto simp: rev_nth)
qed

lemma push_newest: "length q \<le> cap \<Longrightarrow> x \<in> set (take 1 (rev (push x q)))"
proof -
  assume l: "length q \<le> cap"
  obtain k where k: "k \<le> 1" "push x q = drop k (q @ [x])" using push_suffix [OF l] by blast
  have "push x q \<noteq> []" using push_len [OF l, of x] cap_pos by auto
  then have "push x q = drop k q @ [x]" using k(2) by (cases "k \<le> length q") auto
  then show ?thesis by simp
qed

text \<open>What is among the last \<open>n\<close> is among the last \<open>n + 1\<close> after a push.\<close>

lemma push_recent:
  assumes "length q \<le> cap" "n < cap" "x \<in> set (take n (rev q))"
  shows "x \<in> set (take (Suc n) (rev (push y q)))"
proof -
  obtain k where k: "k \<le> 1" "push y q = drop k (q @ [y])" using push_suffix [OF assms(1)] by blast
  show ?thesis
  proof (cases "k = 0")
    case False
    then have k1: "k = 1" using k(1) by simp
    then have "length q = cap" using push_len [OF assms(1), of y] k(2) by (auto simp: min_def split: if_splits)
    then have n: "Suc n \<le> length q" using assms(2) by simp
    then obtain z q' where q: "q = z # q'" by (cases q) auto
    with n have "take n (rev q) = take n (rev q')" by simp
    then show ?thesis using assms(3) k(2) k1 q by (simp add: take_Suc_Cons)
  qed (use assms(3) k(2) in \<open>simp add: take_Suc_Cons\<close>)
qed

end

lemma push_bounded_len: "length q \<le> cap \<Longrightarrow> length (push_bounded cap x q) = min cap (Suc (length q))"
  by (simp add: push_bounded_def)

lemma push_bounded_suffix: "length q \<le> cap \<Longrightarrow> \<exists>k \<le> 1. push_bounded cap x q = drop k (q @ [x])"
  by (intro exI [of _ "length q + 1 - cap"]) (auto simp: push_bounded_def)

section \<open>Machines\<close>

text \<open>
  A component whose operations are steps on a state, with outputs. An invariant of the steps
  is one of the runs; a relation of state, later state and outputs that composes holds of a run
  when it holds of its steps; a budget is such a relation.
\<close>

fun run :: "('s \<Rightarrow> 'e \<Rightarrow> 's \<times> 'o list) \<Rightarrow> 'e list \<Rightarrow> 's \<Rightarrow> 's \<times> 'o list" where
  "run step [] s = (s, [])"
| "run step (e # es) s =
    (case step s e of (s1, o1) \<Rightarrow> case run step es s1 of (s2, o2) \<Rightarrow> (s2, o1 @ o2))"

fun run_ok :: "('s \<Rightarrow> 'e \<Rightarrow> bool) \<Rightarrow> ('s \<Rightarrow> 'e \<Rightarrow> 's \<times> 'o list) \<Rightarrow> 'e list \<Rightarrow> 's \<Rightarrow> bool" where
  "run_ok ok step [] s = True"
| "run_ok ok step (e # es) s = (ok s e \<and> run_ok ok step es (fst (step s e)))"

locale machine =
  fixes step :: "'s \<Rightarrow> 'e \<Rightarrow> 's \<times> 'o list"
    and inv :: "'s \<Rightarrow> bool"
  assumes step_inv: "inv s \<Longrightarrow> inv (fst (step s e))"
begin

lemma run_inv: "inv s \<Longrightarrow> inv (fst (run step es s))"
proof (induction es arbitrary: s)
  case (Cons e es)
  from Cons.IH [OF step_inv [OF Cons.prems]] show ?case by (simp add: split_beta)
qed simp

end

locale traced = machine step inv
  for step :: "'s \<Rightarrow> 'e \<Rightarrow> 's \<times> 'o list" and inv :: "'s \<Rightarrow> bool" +
  fixes ok :: "'s \<Rightarrow> 'e \<Rightarrow> bool"
    and rel :: "'s \<Rightarrow> 's \<Rightarrow> 'o list \<Rightarrow> bool"
  assumes rel_refl: "rel s s []"
    and rel_trans: "rel s1 s2 a \<Longrightarrow> rel s2 s3 b \<Longrightarrow> rel s1 s3 (a @ b)"
    and step_rel: "inv s \<Longrightarrow> ok s e \<Longrightarrow> rel s (fst (step s e)) (snd (step s e))"
begin

lemma run_rel: "inv s \<Longrightarrow> run_ok ok step es s \<Longrightarrow> rel s (fst (run step es s)) (snd (run step es s))"
proof (induction es arbitrary: s)
  case (Cons e es)
  have 1: "rel s (fst (step s e)) (snd (step s e))" using Cons.prems by (simp add: step_rel)
  have "rel (fst (step s e)) (fst (run step es (fst (step s e)))) (snd (run step es (fst (step s e))))"
    using Cons.prems by (intro Cons.IH step_inv) simp_all
  from rel_trans [OF 1 this] show ?case by (simp add: split_beta)
qed (simp add: rel_refl)

end

locale budgeted = machine step inv
  for step :: "'s \<Rightarrow> 'e \<Rightarrow> 's \<times> 'o list" and inv :: "'s \<Rightarrow> bool" +
  fixes ok :: "'s \<Rightarrow> 'e \<Rightarrow> bool"
    and budget :: "'s \<Rightarrow> nat"
    and spent :: "'o \<Rightarrow> bool"
  assumes step_spends: "inv s \<Longrightarrow> ok s e \<Longrightarrow>
    budget (fst (step s e)) + length (filter spent (snd (step s e))) \<le> budget s"

sublocale budgeted \<subseteq> spending: traced step inv ok
    "\<lambda>s s' acts. budget s' + length (filter spent acts) \<le> budget s"
  by unfold_locales (use step_spends in \<open>auto intro: step_inv\<close>)

end
