(* ===== verification/LxmfTypes.thy ===== *)
theory LxmfTypes
  imports Store
begin

text \<open>
  The constants and enumerations of \<open>src/src/LXMF/LXMFTypes.h\<close> and the head of
  \<open>LXMFMinimal.h\<close> that the message engine uses.
\<close>

type_synonym hash = bytes

definition HASH_LEN :: nat where "HASH_LEN = 16"
definition SIG_LEN :: nat where "SIG_LEN = 64"
definition HEADER_LEN :: nat where "HEADER_LEN = HASH_LEN + SIG_LEN"

definition FIELD_TELEMETRY :: u8 where "FIELD_TELEMETRY = 0x02"
definition FIELD_FILE_ATTACHMENTS :: u8 where "FIELD_FILE_ATTACHMENTS = 0x05"
definition FIELD_IMAGE :: u8 where "FIELD_IMAGE = 0x06"
definition FIELD_AUDIO :: u8 where "FIELD_AUDIO = 0x07"
definition FIELD_COMMANDS :: u8 where "FIELD_COMMANDS = 0x09"
definition FIELD_CUSTOM_META :: u8 where "FIELD_CUSTOM_META = 0xFD"

definition LXMF_OPPORTUNISTIC_MAX :: nat where "LXMF_OPPORTUNISTIC_MAX = 295"
definition LXMF_LINK_PACKET_MAX :: nat where "LXMF_LINK_PACKET_MAX = 319"
definition LINK_MAX_INACTIVITY_MS :: nat where "LINK_MAX_INACTIVITY_MS = 600000"
definition MAX_INFLIGHT_SENDS :: nat where "MAX_INFLIGHT_SENDS = 64"
definition DEFAULT_OUTBOX_RETRIES :: nat where "DEFAULT_OUTBOX_RETRIES = 5"
definition DELIVERY_RETRY_WAIT_MS :: nat where "DELIVERY_RETRY_WAIT_MS = 10 * 1000"
definition MAX_DELIVERY_ATTEMPTS :: nat where "MAX_DELIVERY_ATTEMPTS = 5"
definition MAX_PATHLESS_TRIES :: nat where "MAX_PATHLESS_TRIES = 1"
definition PATH_REQUEST_WAIT_MS :: nat where "PATH_REQUEST_WAIT_MS = 7 * 1000"
definition PENDING_SEND_ORPHAN_MS :: nat where "PENDING_SEND_ORPHAN_MS = 30 * 60 * 1000"

lemmas lxmf_consts = HASH_LEN_def SIG_LEN_def HEADER_LEN_def LXMF_OPPORTUNISTIC_MAX_def
  LXMF_LINK_PACKET_MAX_def LINK_MAX_INACTIVITY_MS_def MAX_INFLIGHT_SENDS_def
  DEFAULT_OUTBOX_RETRIES_def DELIVERY_RETRY_WAIT_MS_def MAX_DELIVERY_ATTEMPTS_def
  MAX_PATHLESS_TRIES_def PATH_REQUEST_WAIT_MS_def PENDING_SEND_ORPHAN_MS_def

datatype outbox_status = Queued | Sent | Delivered | Failed | FindingRoute | GeneratingStamp

text \<open>What the engine does outside its own state, in the order it does it.\<close>

datatype action =
    StatusCb hash outbox_status      \<comment> \<open>the owner's outbox status callback\<close>
  | RequestPath hash                 \<comment> \<open>Transport::request\_path\<close>
  | ExpirePath hash                  \<comment> \<open>Transport::expire\_path\<close>
  | RetainDest hash                  \<comment> \<open>Identity::retain\_destination\<close>
  | OpenLink hash hash               \<comment> \<open>a new Link to a destination, with its hash\<close>
  | SendInLink hash bytes            \<comment> \<open>one packet inside a link\<close>
  | StartResource hash bytes         \<comment> \<open>a Resource transfer over a link\<close>
  | SendPacket hash bytes            \<comment> \<open>one packet to a destination\<close>
  | TeardownLink hash

text \<open>A terminal report of a record: the message left the engine, or its budget is spent.\<close>

fun reports :: "hash \<Rightarrow> action \<Rightarrow> bool" where
  "reports r (StatusCb r' s) = (r' = r \<and> (s = Sent \<or> s = Delivered \<or> s = Failed))"
| "reports r _ = False"

end
