(* ===== verification/LxmfLink.thy ===== *)
theory LxmfLink
  imports LxmfTypes
begin

text \<open>
  Outbound DIRECT sends of \<open>src/src/LXMF/LXMFMinimal.h\<close>: the map of pending link sends, the
  link and resource callbacks, the retry schedule, the orphan sweep and the cache of reusable
  links. Every operation returns the new state and the calls it makes, in order.

  Code outside the repository is the environment \<open>env\<close> of one event: the clock, the
  identity and path tables, link states, and the outcome of the calls into the RNS library
  and the file system. A \<open>Link\<close> is its hash. A \<open>PendingLinkSend\<close>'s owner is never null: \<open>send_prepared\<close>
  sets it. The \<open>try\<close> blocks around the callbacks swallow what they throw.
\<close>

section \<open>State\<close>

record pls =
  wire :: bytes
  wire_path :: string                    \<comment> \<open>empty: not spilled\<close>
  link :: hash
  started_ms :: nat
  dest_hash :: hash
  resource_hash :: hash
  total_bytes :: nat
  record_hash :: hash
  retries_left :: nat
  retry_pending :: bool
  next_retry_at_ms :: nat
  status :: outbox_status

record outbox =
  pend :: "(hash, pls) omap"            \<comment> \<open>pending\_link\_sends, keyed by link hash\<close>
  direct :: "(hash, hash) omap"         \<comment> \<open>direct\_links, keyed by destination\<close>
  files :: "string \<Rightarrow> bytes option"     \<comment> \<open>spilled wires\<close>
  link_reuses :: nat
  link_opens :: nat

datatype link_state = PENDING | HANDSHAKE | ACTIVE | STALE | CLOSED

record env =
  now :: nat                             \<comment> \<open>millis()\<close>
  key_lt :: "hash \<Rightarrow> hash \<Rightarrow> bool"      \<comment> \<open>operator< of RNS::Bytes\<close>
  recall :: "hash \<Rightarrow> bool"              \<comment> \<open>Identity::recall finds the key\<close>
  has_path :: "hash \<Rightarrow> bool"
  new_link :: "hash \<Rightarrow> hash option"     \<comment> \<open>hash of a Link opened for a map key; None: it throws\<close>
  link_status :: "hash \<Rightarrow> link_state"
  link_ready :: "hash \<Rightarrow> bool"          \<comment> \<open>ready\_for\_new\_resource\<close>
  no_data_ms :: "hash \<Rightarrow> nat"           \<comment> \<open>no\_data\_for\<close>
  in_link_ok :: bool                     \<comment> \<open>the in-link packet send does not throw\<close>
  new_resource :: hash                   \<comment> \<open>original\_hash of a Resource built now\<close>
  file_read_ok :: "string \<Rightarrow> bool"      \<comment> \<open>open and full read succeed\<close>
  file_open_ok :: bool                   \<comment> \<open>a wire file can be created\<close>
  file_write_ok :: bool                  \<comment> \<open>all bytes were written to it\<close>
  tmp_path :: string                     \<comment> \<open>resource\_tmp\_path()\<close>
  hex :: "bytes \<Rightarrow> string"              \<comment> \<open>Bytes::toHex\<close>
  teardown_calls_back :: bool            \<comment> \<open>teardown runs the closed callback at once\<close>

type_synonym result = "outbox \<times> action list"

section \<open>Wire files\<close>

text \<open>\<open>%lu\<close>\<close>

fun decimal :: "nat \<Rightarrow> string" where
  "decimal n = (if n < 10 then [char_of (48 + n)] else decimal (n div 10) @ [char_of (48 + n mod 10)])"

declare decimal.simps [simp del]

definition spill_path :: "env \<Rightarrow> hash \<Rightarrow> string" where
  "spill_path E lh =
    take 255 (tmp_path E @ ''/outbound_'' @ take 8 (hex E lh) @ ''_'' @ decimal (now E) @ ''.bin'')"

definition spill_wire_to_disk :: "env \<Rightarrow> bytes \<Rightarrow> hash \<Rightarrow> (string \<Rightarrow> bytes option) \<Rightarrow> (string \<Rightarrow> bytes option) \<times> string" where
  "spill_wire_to_disk E w lh fs =
    (let p = spill_path E lh in
     if \<not> file_open_ok E then (fs, [])
     else if file_write_ok E then (fs(p := Some w), p) else (fs(p := None), []))"

definition load_wire_from_disk :: "env \<Rightarrow> string \<Rightarrow> nat \<Rightarrow> (string \<Rightarrow> bytes option) \<Rightarrow> bytes" where
  "load_wire_from_disk E p n fs =
    (case fs p of
       None \<Rightarrow> []
     | Some c \<Rightarrow> if \<not> file_read_ok E p then [] else if length c < n then [] else take n c)"

text \<open>\<open>_release_wire_file\<close>: the entry's path is cleared, the file removed.\<close>

definition release_wire_file :: "pls \<Rightarrow> outbox \<Rightarrow> outbox" where
  "release_wire_file ps s =
    (if wire_path ps = [] then s else s\<lparr>files := (files s)(wire_path ps := None)\<rparr>)"

section \<open>Retry or fail\<close>

definition retry_or_fail :: "env \<Rightarrow> pls \<Rightarrow> pls \<times> action list" where
  "retry_or_fail E ps =
    (if retries_left ps = 0 then
       (ps\<lparr>status := Failed, retry_pending := False, resource_hash := []\<rparr>, [StatusCb (record_hash ps) Failed])
     else
       (ps\<lparr>retries_left := retries_left ps - 1, retry_pending := True,
           next_retry_at_ms := now E + DELIVERY_RETRY_WAIT_MS, status := Queued, resource_hash := []\<rparr>, []))"

definition schedule_retry_or_fail :: "env \<Rightarrow> hash \<Rightarrow> pls \<Rightarrow> outbox \<Rightarrow> result" where
  "schedule_retry_or_fail E k ps s =
    (case retry_or_fail E ps of (ps', acts) \<Rightarrow> (s\<lparr>pend := mput (key_lt E) k ps' (pend s)\<rparr>, acts))"

section \<open>Callbacks\<close>

definition outbound_link_established :: "env \<Rightarrow> hash \<Rightarrow> outbox \<Rightarrow> result" where
  "outbound_link_established E lh s =
    (case mfind (pend s) lh of
       None \<Rightarrow> (s, [])
     | Some ps \<Rightarrow>
         let from_disk = wire_path ps \<noteq> [];
             w = (if from_disk then load_wire_from_disk E (wire_path ps) (total_bytes ps) (files s) else wire ps)
         in if from_disk \<and> length w = 0 then schedule_retry_or_fail E lh ps s
            else if length w \<le> LXMF_LINK_PACKET_MAX then
              (if in_link_ok E then
                 ((release_wire_file ps s)\<lparr>pend := merase lh (pend s)\<rparr>,
                  [SendInLink lh w, StatusCb (record_hash ps) Sent])
               else schedule_retry_or_fail E lh ps s)
            else if \<not> link_ready E lh then schedule_retry_or_fail E lh ps s
            else
              (s\<lparr>pend := mput (key_lt E) lh
                   (ps\<lparr>resource_hash := new_resource E,
                       total_bytes := (if total_bytes ps = 0 then length w else total_bytes ps),
                       wire := []\<rparr>) (pend s)\<rparr>,
               [StartResource lh w]))"

text \<open>Drop the first cache entry that holds the link.\<close>

fun evict_link :: "hash \<Rightarrow> (hash, hash) omap \<Rightarrow> (hash, hash) omap" where
  "evict_link lh [] = []"
| "evict_link lh (e # c) = (if snd e = lh then c else e # evict_link lh c)"

definition outbound_link_closed :: "env \<Rightarrow> hash \<Rightarrow> outbox \<Rightarrow> result" where
  "outbound_link_closed E lh s0 =
    (let s = s0\<lparr>direct := evict_link lh (direct s0)\<rparr> in
     case mfind (pend s) lh of
       None \<Rightarrow> (s, [])
     | Some ps \<Rightarrow>
         if status ps \<noteq> Sent \<and> status ps \<noteq> Delivered then schedule_retry_or_fail E lh ps s
         else ((release_wire_file ps s)\<lparr>pend := merase lh (pend s)\<rparr>, []))"

text \<open>The loop of the resource conclusion over the map, by its keys.\<close>

fun conclude_loop :: "env \<Rightarrow> hash \<Rightarrow> bool \<Rightarrow> hash list \<Rightarrow> outbox \<Rightarrow> result" where
  "conclude_loop E rh complete [] s = (s, [])"
| "conclude_loop E rh complete (k # ks) s =
    (case mfind (pend s) k of
       None \<Rightarrow> conclude_loop E rh complete ks s
     | Some ps \<Rightarrow>
         if resource_hash ps = rh then
           (if complete then
              (case conclude_loop E rh complete ks
                  ((release_wire_file ps s)\<lparr>pend := merase k (pend s)\<rparr>) of
                 (s', acts) \<Rightarrow> (s', [StatusCb (record_hash ps) Delivered, RetainDest (dest_hash ps)] @ acts))
            else schedule_retry_or_fail E k ps s)
         else conclude_loop E rh complete ks s)"

definition outbound_resource_concluded :: "env \<Rightarrow> hash \<Rightarrow> bool \<Rightarrow> outbox \<Rightarrow> result" where
  "outbound_resource_concluded E rh complete s = conclude_loop E rh complete (mkeys (pend s)) s"

section \<open>Acceleration and manual retry\<close>

definition pull_forward :: "env \<Rightarrow> hash \<Rightarrow> pls \<Rightarrow> pls" where
  "pull_forward E d ps =
    (if retry_pending ps \<and> dest_hash ps = d \<and> next_retry_at_ms ps > now E
     then ps\<lparr>next_retry_at_ms := now E\<rparr> else ps)"

definition accelerate_pending_for :: "env \<Rightarrow> hash \<Rightarrow> outbox \<Rightarrow> outbox" where
  "accelerate_pending_for E d s = s\<lparr>pend := map (\<lambda>(k, ps). (k, pull_forward E d ps)) (pend s)\<rparr>"

text \<open>The first entry of the record decides. \<open>None\<close>: no entry has it, the opportunistic map is next.\<close>

fun manual_retry_link :: "env \<Rightarrow> hash \<Rightarrow> (hash, pls) omap \<Rightarrow> ((hash, pls) omap \<times> bool) option" where
  "manual_retry_link E r [] = None"
| "manual_retry_link E r ((k, ps) # m) =
    (if record_hash ps \<noteq> r then map_option (\<lambda>(m', b). ((k, ps) # m', b)) (manual_retry_link E r m)
     else if status ps \<noteq> Failed then Some ((k, ps) # m, False)
     else Some ((k, ps\<lparr>retries_left := DEFAULT_OUTBOX_RETRIES, retry_pending := True,
                       next_retry_at_ms := now E, status := Queued\<rparr>) # m, True))"

section \<open>Periodic ticks\<close>

definition retry_one :: "env \<Rightarrow> hash \<Rightarrow> outbox \<Rightarrow> result" where
  "retry_one E old s =
    (case mfind (pend s) old of
       None \<Rightarrow> (s, [])
     | Some ps0 \<Rightarrow>
         let s1 = s\<lparr>pend := merase old (pend s)\<rparr>; ps = ps0\<lparr>retry_pending := False\<rparr> in
         if \<not> recall E (dest_hash ps) then
           (case schedule_retry_or_fail E old ps s1 of
              (s2, acts) \<Rightarrow> (s2, RequestPath (dest_hash ps) # acts))
         else
           (case new_link E old of
              Some nl \<Rightarrow>
                (s1\<lparr>direct := mput (key_lt E) (dest_hash ps) nl (direct s1),
                    pend := mput (key_lt E) nl (ps\<lparr>link := nl, started_ms := now E\<rparr>) (pend s1)\<rparr>,
                 [OpenLink (dest_hash ps) nl])
            | None \<Rightarrow> (release_wire_file ps s1, [StatusCb (record_hash ps) Failed])))"

fun retry_all :: "env \<Rightarrow> hash list \<Rightarrow> outbox \<Rightarrow> result" where
  "retry_all E [] s = (s, [])"
| "retry_all E (k # ks) s =
    (case retry_one E k s of (s1, a1) \<Rightarrow> case retry_all E ks s1 of (s2, a2) \<Rightarrow> (s2, a1 @ a2))"

definition due :: "env \<Rightarrow> pls \<Rightarrow> bool" where
  "due E ps \<longleftrightarrow> retry_pending ps \<and> now E \<ge> next_retry_at_ms ps"

definition tick_retries :: "env \<Rightarrow> outbox \<Rightarrow> result" where
  "tick_retries E s = retry_all E (map fst (filter (\<lambda>e. due E (snd e)) (pend s))) s"

text \<open>\<open>now - started_ms\<close> on \<open>uint64_t\<close>.\<close>

definition sub64 :: "nat \<Rightarrow> nat \<Rightarrow> nat" where
  "sub64 a b = nat ((int a - int b) mod 2 ^ 64)"

definition orphaned :: "env \<Rightarrow> pls \<Rightarrow> bool" where
  "orphaned E ps \<longleftrightarrow>
    (started_ms ps > 0 \<and> sub64 (now E) (started_ms ps) > PENDING_SEND_ORPHAN_MS) \<and> \<not> retry_pending ps
    \<and> \<not> (status ps = Delivered \<or> status ps = Failed)"

fun sweep_loop :: "env \<Rightarrow> hash list \<Rightarrow> outbox \<Rightarrow> result" where
  "sweep_loop E [] s = (s, [])"
| "sweep_loop E (k # ks) s =
    (case mfind (pend s) k of
       None \<Rightarrow> sweep_loop E ks s
     | Some ps \<Rightarrow>
         if orphaned E ps then
           (case sweep_loop E ks ((release_wire_file ps s)\<lparr>pend := merase k (pend s)\<rparr>) of
              (s', acts) \<Rightarrow> (s', StatusCb (record_hash ps) Failed # acts))
         else sweep_loop E ks s)"

definition sweep_orphaned_pending :: "env \<Rightarrow> outbox \<Rightarrow> result" where
  "sweep_orphaned_pending E s = sweep_loop E (mkeys (pend s)) s"

fun clean_loop :: "env \<Rightarrow> hash list \<Rightarrow> outbox \<Rightarrow> result" where
  "clean_loop E [] s = (s, [])"
| "clean_loop E (d # ds) s =
    (case mfind (direct s) d of
       None \<Rightarrow> clean_loop E ds s
     | Some lh \<Rightarrow>
         let (s1, a1) =
           (if link_status E lh = CLOSED then (s, [])
            else case (if teardown_calls_back E then outbound_link_closed E lh s else (s, [])) of
                   (s', acts) \<Rightarrow> (s', TeardownLink lh # acts))
         in case clean_loop E ds (s1\<lparr>direct := merase d (direct s1)\<rparr>) of
              (s2, a2) \<Rightarrow> (s2, a1 @ a2))"

definition tick_clean_links :: "env \<Rightarrow> outbox \<Rightarrow> result" where
  "tick_clean_links E s =
    clean_loop E (map fst (filter (\<lambda>e. link_status E (snd e) = CLOSED
        \<or> no_data_ms E (snd e) > LINK_MAX_INACTIVITY_MS) (direct s))) s"

end
