(* ===== verification/LxmfLinkInv.thy ===== *)
theory LxmfLinkInv
  imports LxmfLink
begin

text \<open>
  The DIRECT sends of \<open>LXMFMinimal.h\<close> as a machine: its events are the library's callbacks, the
  periodic ticks, an announce and the manual retry. The invariant of the pending map, no
  message lost silently, the retry budget, the entries that stay Failed, and two runs in which
  the code does not do what it means to.
\<close>

section \<open>Events\<close>

datatype link_event =
    Established hash | LinkClosed hash | Concluded hash bool
  | TickRetries | Sweep | CleanLinks | Accelerate hash | ManualRetryLink hash

definition manual_retry_step :: "env \<Rightarrow> hash \<Rightarrow> outbox \<Rightarrow> outbox" where
  "manual_retry_step E r s =
    (case manual_retry_link E r (pend s) of None \<Rightarrow> s | Some (m, _) \<Rightarrow> s\<lparr>pend := m\<rparr>)"

fun link_step :: "env \<Rightarrow> link_event \<Rightarrow> outbox \<Rightarrow> result" where
  "link_step E (Established lh) s = outbound_link_established E lh s"
| "link_step E (LinkClosed lh) s = outbound_link_closed E lh s"
| "link_step E (Concluded rh c) s = outbound_resource_concluded E rh c s"
| "link_step E TickRetries s = tick_retries E s"
| "link_step E Sweep s = sweep_orphaned_pending E s"
| "link_step E CleanLinks s = tick_clean_links E s"
| "link_step E (Accelerate d) s = (accelerate_pending_for E d s, [])"
| "link_step E (ManualRetryLink r) s = (manual_retry_step E r s, [])"

fun link_machine :: "outbox \<Rightarrow> env \<times> link_event \<Rightarrow> result" where
  "link_machine s (E, e) = link_step E e s"

section \<open>The invariant of the pending map\<close>

definition wf_pls :: "pls \<Rightarrow> bool" where
  "wf_pls ps \<longleftrightarrow> (status ps = Queued \<or> status ps = Failed) \<and> retries_left ps \<le> DEFAULT_OUTBOX_RETRIES
     \<and> (status ps = Failed \<longrightarrow> \<not> retry_pending ps \<and> retries_left ps = 0)"

definition wf_map :: "(hash, pls) omap \<Rightarrow> bool" where
  "wf_map m \<longleftrightarrow> distinct (mkeys m) \<and> (\<forall>e \<in> set m. wf_pls (snd e))"

abbreviation wf_outbox :: "outbox \<Rightarrow> bool" where
  "wf_outbox s \<equiv> wf_map (pend s)"

lemma wf_mapD: "wf_map m \<Longrightarrow> mfind m k = Some ps \<Longrightarrow> wf_pls ps"
  unfolding wf_map_def by (drule mfind_mem) auto

lemma wf_map_distinct: "wf_map m \<Longrightarrow> distinct (mkeys m)"
  by (simp add: wf_map_def)

lemma wf_map_put [simp]: "wf_map m \<Longrightarrow> wf_pls ps \<Longrightarrow> wf_map (mput lt k ps m)"
  using set_mput [of lt k ps m] omap.inv_put [of m lt k ps] by (auto simp: wf_map_def)

lemma wf_map_erase [simp]: "wf_map m \<Longrightarrow> wf_map (merase k m)"
  using omap.inv_erase [of m k] by (auto simp: wf_map_def set_merase)

lemma pend_release [simp]: "pend (release_wire_file ps s) = pend s"
  by (simp add: release_wire_file_def)

lemma direct_release [simp]: "direct (release_wire_file ps s) = direct s"
  by (simp add: release_wire_file_def)

lemma schedule_alt: "schedule_retry_or_fail E k ps s =
    (s\<lparr>pend := mput (key_lt E) k (fst (retry_or_fail E ps)) (pend s)\<rparr>, snd (retry_or_fail E ps))"
  by (simp add: schedule_retry_or_fail_def split_beta)

lemma wf_retry [simp]: "wf_pls ps \<Longrightarrow> wf_pls (fst (retry_or_fail E ps))"
  by (auto simp: wf_pls_def retry_or_fail_def)

lemma wf_pls_update [simp]:
  "wf_pls (ps\<lparr>resource_hash := a\<rparr>) = wf_pls ps"
  "wf_pls (ps\<lparr>wire := b\<rparr>) = wf_pls ps"
  "wf_pls (ps\<lparr>total_bytes := n\<rparr>) = wf_pls ps"
  "wf_pls (ps\<lparr>link := a\<rparr>) = wf_pls ps"
  "wf_pls (ps\<lparr>started_ms := n\<rparr>) = wf_pls ps"
  "wf_pls (ps\<lparr>next_retry_at_ms := n\<rparr>) = wf_pls ps"
  "wf_pls ps \<Longrightarrow> wf_pls (ps\<lparr>retry_pending := False\<rparr>)"
  by (auto simp: wf_pls_def)

lemma wf_map_cases:
  assumes "wf_map m"
  obtains (absent) "mfind m k = None" | (present) ps where "mfind m k = Some ps" "wf_pls ps"
  using wf_mapD [OF assms, of k] by (cases "mfind m k") auto

lemma wf_established: "wf_outbox s \<Longrightarrow> wf_outbox (fst (outbound_link_established E lh s))"
  by (rule wf_map_cases [of "pend s" lh])
    (simp_all add: outbound_link_established_def schedule_alt Let_def)

lemma wf_closed: "wf_outbox s \<Longrightarrow> wf_outbox (fst (outbound_link_closed E lh s))"
  by (rule wf_map_cases [of "pend s" lh]) (simp_all add: outbound_link_closed_def schedule_alt Let_def)

lemma wf_conclude: "wf_outbox s \<Longrightarrow> wf_outbox (fst (conclude_loop E rh c ks s))"
proof (induction E rh c ks s rule: conclude_loop.induct)
  case (2 E rh c k ks s)
  show ?case
    using "2.prems"
  proof (cases rule: wf_map_cases [where k = k])
    case (present ps)
    with 2 show ?thesis by (simp add: schedule_alt split_beta)
  qed (use 2 in simp)
qed simp

lemma wf_retry_one: "wf_outbox s \<Longrightarrow> wf_outbox (fst (retry_one E k s))"
  by (rule wf_map_cases [of "pend s" k])
    (simp_all add: retry_one_def schedule_alt Let_def split: option.splits)

lemma wf_retry_all: "wf_outbox s \<Longrightarrow> wf_outbox (fst (retry_all E ks s))"
  by (induction ks arbitrary: s) (simp_all add: split_beta wf_retry_one)

lemma wf_sweep: "wf_outbox s \<Longrightarrow> wf_outbox (fst (sweep_loop E ks s))"
  by (induction ks arbitrary: s) (simp_all add: split_beta split: option.splits)

lemma wf_clean: "wf_outbox s \<Longrightarrow> wf_outbox (fst (clean_loop E ds s))"
  by (induction ds arbitrary: s) (simp_all add: split_beta Let_def wf_closed split: option.splits)

lemma mkeys_map_snd: "mkeys (map (\<lambda>(k, v). (k, f k v)) m) = mkeys m"
  by (induction m) (auto simp: mkeys_def)

lemma wf_accelerate: "wf_outbox s \<Longrightarrow> wf_outbox (accelerate_pending_for E d s)"
  by (auto simp: accelerate_pending_for_def wf_map_def mkeys_map_snd pull_forward_def)

lemma manual_retry_link_wf:
  "manual_retry_link E r m = Some (m', b) \<Longrightarrow> wf_map m \<Longrightarrow> wf_map m' \<and> mkeys m' = mkeys m"
proof (induction m arbitrary: m')
  case (Cons e m)
  obtain k ps where e: "e = (k, ps)" by (cases e)
  have t: "wf_map m" using Cons.prems(2) by (simp add: wf_map_def mkeys_def)
  show ?case
  proof (cases "record_hash ps \<noteq> r")
    case True
    with Cons.prems(1) obtain m1 where m1: "manual_retry_link E r m = Some (m1, b)" "m' = (k, ps) # m1"
      by (auto simp: e)
    with Cons.IH [OF m1(1) t] Cons.prems(2) show ?thesis by (auto simp: e wf_map_def mkeys_def)
  next
    case False
    with Cons.prems show ?thesis
      by (auto simp: e wf_map_def mkeys_def wf_pls_def DEFAULT_OUTBOX_RETRIES_def split: if_splits)
  qed
qed simp

lemma wf_link_step: "wf_outbox s \<Longrightarrow> wf_outbox (fst (link_step E e s))"
  by (cases e) (auto simp: wf_established wf_closed wf_conclude outbound_resource_concluded_def
      tick_retries_def wf_retry_all sweep_orphaned_pending_def wf_sweep tick_clean_links_def wf_clean
      wf_accelerate manual_retry_step_def manual_retry_link_wf split: option.splits)

section \<open>No message vanishes silently\<close>

definition recs :: "(hash, pls) omap \<Rightarrow> hash set" where
  "recs m = {r. \<exists>k ps. mfind m k = Some ps \<and> record_hash ps = r}"

lemma recs_erase: "mfind m k = Some ps \<Longrightarrow> recs m = insert (record_hash ps) (recs (merase k m))"
  by (auto simp: recs_def omap.find_erase split: if_splits) (metis option.inject)

lemma recs_erase_none: "mfind m k = None \<Longrightarrow> recs (merase k m) = recs m"
  unfolding recs_def by (metis omap.find_erase)

lemma recs_put: "recs (mput lt k ps m) = insert (record_hash ps) (recs (merase k m))"
  by (auto simp: recs_def omap.find_erase omap.find_put split: if_splits)

lemma recs_put_same: "mfind m k = Some ps \<Longrightarrow> record_hash ps' = record_hash ps \<Longrightarrow> recs (mput lt k ps' m) = recs m"
  by (simp add: recs_put recs_erase)

lemma recs_put_new: "mfind m k = None \<Longrightarrow> recs (mput lt k ps m) = insert (record_hash ps) (recs m)"
  by (simp add: recs_put recs_erase_none)

lemma record_retry [simp]: "record_hash (fst (retry_or_fail E ps)) = record_hash ps"
  by (simp add: retry_or_fail_def)

text \<open>\<open>kept m m' acts\<close>: every record of \<open>m\<close> is still in \<open>m'\<close>, or its end was reported.\<close>

definition kept :: "(hash, pls) omap \<Rightarrow> (hash, pls) omap \<Rightarrow> action list \<Rightarrow> bool" where
  "kept m m' acts \<longleftrightarrow> (\<forall>r \<in> recs m. r \<in> recs m' \<or> (\<exists>a \<in> set acts. reports r a))"

lemma kept_refl [simp]: "kept m m acts"
  by (simp add: kept_def)

lemma kept_same: "recs m \<subseteq> recs m' \<Longrightarrow> kept m m' acts"
  by (auto simp: kept_def)

lemma kept_trans: "kept m1 m2 a \<Longrightarrow> kept m2 m3 b \<Longrightarrow> kept m1 m3 (a @ b)"
  by (auto simp: kept_def)

lemma kept_erase: "mfind m k = Some ps \<Longrightarrow> \<exists>a \<in> set acts. reports (record_hash ps) a \<Longrightarrow> kept m (merase k m) acts"
  by (auto simp: kept_def recs_erase)

lemma kept_schedule: "mfind (pend s) k = Some ps \<Longrightarrow>
    kept (pend s) (pend (fst (schedule_retry_or_fail E k ps s))) acts"
  by (rule kept_same) (simp add: schedule_alt recs_put_same)

lemma kept_put_same:
  "mfind m k = Some ps \<Longrightarrow> record_hash ps' = record_hash ps \<Longrightarrow> kept m (mput lt k ps' m) acts"
  by (rule kept_same) (simp add: recs_put_same)

lemma kept_established: "kept (pend s) (pend (fst (outbound_link_established E lh s))) (snd (outbound_link_established E lh s))"
proof (cases "mfind (pend s) lh")
  case (Some ps)
  then show ?thesis
    by (simp add: outbound_link_established_def Let_def schedule_alt kept_put_same [OF Some] kept_erase [OF Some])
qed (simp add: outbound_link_established_def)

lemma kept_closed:
  assumes "wf_outbox s"
  shows "kept (pend s) (pend (fst (outbound_link_closed E lh s))) acts"
proof (cases "mfind (pend s) lh")
  case (Some ps)
  then have "wf_pls ps" using assms wf_mapD by blast
  then show ?thesis using Some
    by (auto simp: outbound_link_closed_def Let_def schedule_alt wf_pls_def kept_put_same [OF Some])
qed (simp add: outbound_link_closed_def)

lemma kept_conclude: "kept (pend s) (pend (fst (conclude_loop E rh c ks s))) (snd (conclude_loop E rh c ks s))"
proof (induction E rh c ks s rule: conclude_loop.induct)
  case (2 E rh c k ks s)
  show ?case
  proof (cases "mfind (pend s) k")
    case (Some ps)
    let ?s = "(release_wire_file ps s)\<lparr>pend := merase k (pend s)\<rparr>"
    show ?thesis
    proof (cases "resource_hash ps = rh \<and> c")
      case True
      with 2(2) Some have "kept (pend ?s) (pend (fst (conclude_loop E rh c ks ?s))) (snd (conclude_loop E rh c ks ?s))"
        by simp
      moreover have "kept (pend s) (pend ?s) [StatusCb (record_hash ps) Delivered, RetainDest (dest_hash ps)]"
        using Some by (auto intro: kept_erase)
      ultimately show ?thesis using True Some kept_trans by (fastforce simp: split_beta)
    next
      case False
      with 2 Some show ?thesis by (auto simp: schedule_alt recs_put_same intro!: kept_same)
    qed
  qed (use 2 in simp)
qed simp

definition fresh_links :: "env \<Rightarrow> hash list \<Rightarrow> (hash, pls) omap \<Rightarrow> bool" where
  "fresh_links E ks m \<longleftrightarrow> (\<forall>k \<in> set ks. \<forall>nl. new_link E k = Some nl \<longrightarrow>
     mfind m nl = None \<and> (\<forall>k' \<in> set ks. new_link E k' = Some nl \<longrightarrow> k' = k))"

lemma kept_retry_one:
  assumes "fresh_links E [k] (pend s)"
  shows "kept (pend s) (pend (fst (retry_one E k s))) (snd (retry_one E k s))"
proof (cases "mfind (pend s) k")
  case (Some ps)
  show ?thesis
  proof (cases "\<not> recall E (dest_hash ps)")
    case True
    with Some have "pend (fst (retry_one E k s))
        = mput (key_lt E) k (fst (retry_or_fail E (ps\<lparr>retry_pending := False\<rparr>))) (merase k (pend s))"
      by (simp add: retry_one_def schedule_alt Let_def)
    then show ?thesis
      using Some by (intro kept_same) (simp add: recs_put recs_erase_none recs_erase [OF Some])
  next
    case False
    show ?thesis
    proof (cases "new_link E k")
      case None
      with False Some show ?thesis
        by (auto simp: retry_one_def Let_def intro: kept_erase)
    next
      case (Some nl)
      with assms have f: "mfind (pend s) nl = None" by (simp add: fresh_links_def)
      have "mfind (merase k (pend s)) nl = None" using f by (simp add: omap.find_erase)
      moreover have "pend (fst (retry_one E k s)) = mput (key_lt E) nl
          (ps\<lparr>retry_pending := False, link := nl, started_ms := now E\<rparr>) (merase k (pend s))"
        using False Some \<open>mfind (pend s) k = Some ps\<close> by (simp add: retry_one_def Let_def)
      ultimately show ?thesis
        using recs_erase [OF \<open>mfind (pend s) k = Some ps\<close>] by (intro kept_same) (simp add: recs_put_new)
    qed
  qed
qed (simp add: retry_one_def)

lemma retry_one_keys:
  assumes "mfind (pend s) nl = None" "new_link E k \<noteq> Some nl"
  shows "mfind (pend (fst (retry_one E k s))) nl = None"
proof (cases "mfind (pend s) k")
  case (Some ps)
  then have "nl \<noteq> k" using assms by auto
  with Some assms show ?thesis
    by (simp add: retry_one_def Let_def schedule_alt omap.find_put omap.find_erase split: option.split)
qed (use assms in \<open>simp add: retry_one_def\<close>)

lemma fresh_after:
  assumes "fresh_links E (k # ks) (pend s)" "k \<notin> set ks"
  shows "fresh_links E ks (pend (fst (retry_one E k s)))"
  unfolding fresh_links_def
proof (intro ballI allI impI conjI)
  fix k' nl
  assume k': "k' \<in> set ks" and nl: "new_link E k' = Some nl"
  have f: "mfind (pend s) nl = None"
    using assms(1) k' nl unfolding fresh_links_def by (meson list.set_intros)
  have "k = k'" if "new_link E k = Some nl"
    using assms(1) k' nl that unfolding fresh_links_def by (meson list.set_intros)
  then have u: "new_link E k \<noteq> Some nl" using assms(2) k' by blast
  show "mfind (pend (fst (retry_one E k s))) nl = None" by (rule retry_one_keys [OF f u])
  fix k'' assume "k'' \<in> set ks" "new_link E k'' = Some nl"
  with k' nl show "k'' = k'" using assms(1) unfolding fresh_links_def by (meson list.set_intros(2))
qed

lemma kept_retry_all:
  "fresh_links E ks (pend s) \<Longrightarrow> distinct ks \<Longrightarrow>
    kept (pend s) (pend (fst (retry_all E ks s))) (snd (retry_all E ks s))"
proof (induction ks arbitrary: s)
  case (Cons k ks)
  have "fresh_links E [k] (pend s)" using Cons.prems by (auto simp: fresh_links_def)
  then have 1: "kept (pend s) (pend (fst (retry_one E k s))) (snd (retry_one E k s))"
    by (rule kept_retry_one)
  have "fresh_links E ks (pend (fst (retry_one E k s)))"
    using fresh_after Cons.prems by simp
  from kept_trans [OF 1 Cons.IH [OF this]] Cons.prems show ?case by (simp add: split_beta)
qed simp

lemma kept_sweep: "kept (pend s) (pend (fst (sweep_loop E ks s))) (snd (sweep_loop E ks s))"
proof (induction ks arbitrary: s)
  case (Cons k ks)
  show ?case
  proof (cases "mfind (pend s) k")
    case (Some ps)
    let ?s = "(release_wire_file ps s)\<lparr>pend := merase k (pend s)\<rparr>"
    have "kept (pend s) (pend ?s) [StatusCb (record_hash ps) Failed]"
      using Some by (auto intro: kept_erase)
    from kept_trans [OF this Cons.IH [of ?s]] Some Cons.IH [of s] show ?thesis
      by (simp add: split_beta)
  qed (use Cons in simp)
qed simp

lemma kept_weaken: "kept m m' a \<Longrightarrow> set a \<subseteq> set b \<Longrightarrow> kept m m' b"
  by (auto simp: kept_def)

lemma kept_clean:
  "wf_outbox s \<Longrightarrow> kept (pend s) (pend (fst (clean_loop E ds s))) (snd (clean_loop E ds s))"
proof (induction ds arbitrary: s)
  case (Cons d ds)
  show ?case
  proof (cases "mfind (direct s) d")
    case (Some lh)
    let ?r = "if link_status E lh = CLOSED then (s, [])
            else case (if teardown_calls_back E then outbound_link_closed E lh s else (s, [])) of
                   (s', acts) \<Rightarrow> (s', TeardownLink lh # acts)"
    let ?s = "(fst ?r)\<lparr>direct := merase d (direct (fst ?r))\<rparr>"
    have w: "wf_outbox ?s" using Cons.prems by (simp add: split_beta wf_closed)
    have "kept (pend s) (pend ?s) (snd ?r)"
      using Cons.prems by (simp add: split_beta kept_closed)
    from kept_trans [OF this Cons.IH [OF w]] Some show ?thesis by (simp add: split_beta Let_def)
  qed (use Cons in simp)
qed simp

lemma recs_by_keys:
  assumes "map (\<lambda>e. (fst e, record_hash (snd e))) m = map (\<lambda>e. (fst e, record_hash (snd e))) m'"
  shows "recs m = recs m'"
proof -
  have e: "map_option record_hash (mfind m k) = map_of (map (\<lambda>e. (fst e, record_hash (snd e))) m) k" for m k
    unfolding mfind_def by (induction m) auto
  have "recs m = {r. \<exists>k. map_option record_hash (mfind m k) = Some r}" for m
    by (auto simp: recs_def)
  then show ?thesis using assms by (simp add: e)
qed

lemma recs_accelerate: "recs (pend (accelerate_pending_for E d s)) = recs (pend s)"
  by (rule recs_by_keys) (auto simp: accelerate_pending_for_def pull_forward_def)

lemma recs_manual: "manual_retry_link E r m = Some (m', b) \<Longrightarrow> recs m' = recs m"
proof (rule recs_by_keys)
  show "manual_retry_link E r m = Some (m', b) \<Longrightarrow>
    map (\<lambda>e. (fst e, record_hash (snd e))) m' = map (\<lambda>e. (fst e, record_hash (snd e))) m"
    by (induction E r m arbitrary: m' b rule: manual_retry_link.induct) (auto split: if_splits)
qed

definition links_fresh :: "env \<Rightarrow> link_event \<Rightarrow> outbox \<Rightarrow> bool" where
  "links_fresh E e s \<longleftrightarrow> (e = TickRetries \<longrightarrow> fresh_links E (mkeys (pend s)) (pend s))"

lemma fresh_links_subset: "fresh_links E ks m \<Longrightarrow> set ks' \<subseteq> set ks \<Longrightarrow> fresh_links E ks' m"
  unfolding fresh_links_def by blast

lemma kept_tick_retries:
  assumes "wf_outbox s" "fresh_links E (mkeys (pend s)) (pend s)"
  shows "kept (pend s) (pend (fst (tick_retries E s))) (snd (tick_retries E s))"
  unfolding tick_retries_def
proof (rule kept_retry_all)
  show "distinct (map fst (filter (\<lambda>e. due E (snd e)) (pend s)))"
    using wf_map_distinct [OF assms(1)] by (simp add: mkeys_def distinct_map_filter)
  show "fresh_links E (map fst (filter (\<lambda>e. due E (snd e)) (pend s))) (pend s)"
    by (rule fresh_links_subset [OF assms(2)]) (auto simp: mkeys_def)
qed

lemma kept_link_step:
  assumes "wf_outbox s" "links_fresh E e s"
  shows "kept (pend s) (pend (fst (link_step E e s))) (snd (link_step E e s))"
proof (cases e)
  case (ManualRetryLink r)
  then show ?thesis
    by (auto simp: manual_retry_step_def recs_manual split: option.splits intro!: kept_same)
qed (use assms in \<open>simp_all add: kept_established kept_closed kept_conclude outbound_resource_concluded_def
   sweep_orphaned_pending_def kept_sweep tick_clean_links_def kept_clean kept_tick_retries links_fresh_def
   kept_same recs_accelerate\<close>)

definition outbox_step_ok :: "outbox \<Rightarrow> env \<times> link_event \<Rightarrow> bool" where
  "outbox_step_ok s Ee \<longleftrightarrow> links_fresh (fst Ee) (snd Ee) s"

interpretation outbox_machine: traced link_machine wf_outbox outbox_step_ok
    "\<lambda>s s' acts. kept (pend s) (pend s') acts"
proof unfold_locales
  fix s :: outbox and Ee
  show "wf_outbox s \<Longrightarrow> wf_outbox (fst (link_machine s Ee))"
    by (cases Ee) (simp add: wf_link_step)
  show "wf_outbox s \<Longrightarrow> outbox_step_ok s Ee \<Longrightarrow> kept (pend s) (pend (fst (link_machine s Ee))) (snd (link_machine s Ee))"
    by (cases Ee) (simp add: outbox_step_ok_def kept_link_step)
qed (auto intro: kept_trans)

section \<open>The retry budget\<close>

definition budget_of :: "pls \<Rightarrow> nat" where
  "budget_of ps = retries_left ps + (if retry_pending ps then 1 else 0)"

definition budget :: "outbox \<Rightarrow> nat" where
  "budget s = msum budget_of (pend s)"

fun opens_link :: "action \<Rightarrow> bool" where
  "opens_link (OpenLink d l) = True"
| "opens_link _ = False"

abbreviation opened :: "action list \<Rightarrow> nat" where
  "opened acts \<equiv> length (filter opens_link acts)"

lemma msum_mput_le: "distinct (mkeys m) \<Longrightarrow> msum f (mput lt k v m) \<le> f v + msum f m"
proof (cases "mfind m k")
  case (Some v0)
  assume "distinct (mkeys m)"
  from msum_mput_same [OF this Some, of f lt v] show ?thesis by simp
qed (simp add: msum_mput_new)

lemma budget_update [simp]:
  "budget_of (ps\<lparr>resource_hash := a\<rparr>) = budget_of ps"
  "budget_of (ps\<lparr>wire := b\<rparr>) = budget_of ps"
  "budget_of (ps\<lparr>total_bytes := n\<rparr>) = budget_of ps"
  "budget_of (ps\<lparr>link := a\<rparr>) = budget_of ps"
  "budget_of (ps\<lparr>started_ms := n\<rparr>) = budget_of ps"
  "budget_of (ps\<lparr>next_retry_at_ms := n\<rparr>) = budget_of ps"
  by (simp_all add: budget_of_def)

lemma budget_retry: "budget_of (fst (retry_or_fail E ps)) \<le> budget_of ps"
  by (auto simp: budget_of_def retry_or_fail_def)

lemma opened_retry [simp]: "opened (snd (retry_or_fail E ps)) = 0"
  by (simp add: retry_or_fail_def)

text \<open>Updating one entry, or erasing it.\<close>

lemma budget_put:
  assumes "wf_map m" "mfind m k = Some ps" "budget_of ps' \<le> budget_of ps"
  shows "msum budget_of (mput lt k ps' m) \<le> msum budget_of m"
  using msum_mput_same [OF wf_map_distinct [OF assms(1)] assms(2), of budget_of lt ps'] assms(3) by simp

lemma budget_erase: "wf_map m \<Longrightarrow> msum budget_of (merase k m) \<le> msum budget_of m"
proof (cases "mfind m k")
  case None
  then have "k \<notin> fst ` set m" by (simp add: mfind_def map_of_eq_None_iff)
  then show ?thesis by (simp add: merase_absent)
next
  case (Some ps)
  assume "wf_map m"
  from msum_merase [OF wf_map_distinct [OF this] Some, of budget_of] show ?thesis by simp
qed

lemma budget_established: "wf_outbox s \<Longrightarrow>
    budget (fst (outbound_link_established E lh s)) + opened (snd (outbound_link_established E lh s)) \<le> budget s"
  by (rule wf_map_cases [of "pend s" lh])
    (simp_all add: outbound_link_established_def schedule_alt Let_def budget_def budget_put budget_erase budget_retry)

lemma budget_closed: "wf_outbox s \<Longrightarrow>
    budget (fst (outbound_link_closed E lh s)) + opened (snd (outbound_link_closed E lh s)) \<le> budget s"
  by (rule wf_map_cases [of "pend s" lh])
    (simp_all add: outbound_link_closed_def schedule_alt Let_def budget_def budget_put budget_erase budget_retry)

lemma budget_conclude: "wf_outbox s \<Longrightarrow>
    budget (fst (conclude_loop E rh c ks s)) + opened (snd (conclude_loop E rh c ks s)) \<le> budget s"
proof (induction E rh c ks s rule: conclude_loop.induct)
  case (2 E rh c k ks s)
  show ?case
    using "2.prems"
  proof (cases rule: wf_map_cases [where k = k])
    case (present ps)
    let ?s = "(release_wire_file ps s)\<lparr>pend := merase k (pend s)\<rparr>"
    have "budget ?s \<le> budget s" using "2.prems" by (simp add: budget_def budget_erase)
    with 2 present show ?thesis
      by (cases c; cases "resource_hash ps = rh")
        (simp_all add: schedule_alt split_beta budget_def budget_put budget_retry)
  qed (use 2 in simp)
qed simp

lemma budget_retry_one:
  assumes "wf_outbox s"
  shows "budget (fst (retry_one E k s)) + opened (snd (retry_one E k s))
    \<le> budget s + (case mfind (pend s) k of None \<Rightarrow> 0 | Some ps \<Rightarrow> if retry_pending ps then 0 else 1)"
proof (cases "mfind (pend s) k")
  case (Some ps)
  let ?m = "merase k (pend s)" and ?ps = "ps\<lparr>retry_pending := False\<rparr>"
  have w: "wf_map ?m" using assms by simp
  have sum: "msum budget_of ?m + budget_of ps = msum budget_of (pend s)"
    using msum_merase [OF wf_map_distinct [OF assms] Some] .
  have le: "msum budget_of (mput lt k' p ?m) \<le> budget_of p + msum budget_of ?m" for lt k' p
    by (rule msum_mput_le) (rule wf_map_distinct [OF w])
  have b: "budget_of ?ps + (if retry_pending ps then 1 else 0) = budget_of ps"
    by (simp add: budget_of_def)
  show ?thesis
  proof (cases "new_link E k")
    case None
    with Some sum b le [of "key_lt E" k "fst (retry_or_fail E ?ps)"] budget_retry [of E ?ps]
    show ?thesis by (auto simp: retry_one_def Let_def schedule_alt budget_def)
  next
    case (Some nl)
    with \<open>mfind (pend s) k = Some ps\<close> sum b le [of "key_lt E" k "fst (retry_or_fail E ?ps)"] budget_retry [of E ?ps]
      le [of "key_lt E" nl "?ps\<lparr>link := nl, started_ms := now E\<rparr>"]
    show ?thesis by (auto simp: retry_one_def Let_def schedule_alt budget_def)
  qed
qed (simp add: retry_one_def)

lemma retry_one_other:
  assumes "k' \<noteq> k" "new_link E k \<noteq> Some k'"
  shows "mfind (pend (fst (retry_one E k s))) k' = mfind (pend s) k'"
  using assms
  by (simp add: retry_one_def Let_def schedule_alt omap.find_put omap.find_erase split: option.split)

text \<open>Every key of the list holds an entry with a scheduled retry.\<close>

definition armed :: "hash list \<Rightarrow> (hash, pls) omap \<Rightarrow> bool" where
  "armed ks m \<longleftrightarrow> (\<forall>k \<in> set ks. \<exists>ps. mfind m k = Some ps \<and> retry_pending ps)"

lemma armed_after:
  assumes "armed (k # ks) (pend s)" "fresh_links E (k # ks) (pend s)" "k \<notin> set ks"
  shows "armed ks (pend (fst (retry_one E k s)))"
  unfolding armed_def
proof
  fix k' assume k': "k' \<in> set ks"
  then obtain ps where ps: "mfind (pend s) k' = Some ps" "retry_pending ps"
    using assms(1) unfolding armed_def by (meson list.set_intros(2))
  have "new_link E k \<noteq> Some k'" using assms(2) ps unfolding fresh_links_def
    by (metis list.set_intros(1) option.distinct(1))
  moreover have "k' \<noteq> k" using k' assms(3) by blast
  ultimately show "\<exists>ps. mfind (pend (fst (retry_one E k s))) k' = Some ps \<and> retry_pending ps"
    using ps by (simp add: retry_one_other)
qed

lemma budget_retry_all:
  "\<lbrakk>wf_outbox s; fresh_links E ks (pend s); distinct ks; armed ks (pend s)\<rbrakk> \<Longrightarrow>
    budget (fst (retry_all E ks s)) + opened (snd (retry_all E ks s)) \<le> budget s"
proof (induction ks arbitrary: s)
  case (Cons k ks)
  obtain ps where "mfind (pend s) k = Some ps" "retry_pending ps"
    using Cons.prems(4) unfolding armed_def by (meson list.set_intros(1))
  with budget_retry_one [OF Cons.prems(1), of E k]
  have 1: "budget (fst (retry_one E k s)) + opened (snd (retry_one E k s)) \<le> budget s" by simp
  have "k \<notin> set ks" "distinct ks" using Cons.prems(3) by simp_all
  with Cons.IH [OF wf_retry_one [OF Cons.prems(1)] fresh_after [OF Cons.prems(2)] _ armed_after [OF Cons.prems(4,2)]] 1
  show ?case by (simp add: split_beta)
qed simp

lemma budget_tick_retries:
  assumes "wf_outbox s" "fresh_links E (mkeys (pend s)) (pend s)"
  shows "budget (fst (tick_retries E s)) + opened (snd (tick_retries E s)) \<le> budget s"
  unfolding tick_retries_def
proof (rule budget_retry_all [OF assms(1)])
  let ?ks = "map fst (filter (\<lambda>e. due E (snd e)) (pend s))"
  show "distinct ?ks"
    using wf_map_distinct [OF assms(1)] by (simp add: mkeys_def distinct_map_filter)
  show "fresh_links E ?ks (pend s)"
    by (rule fresh_links_subset [OF assms(2)]) (auto simp: mkeys_def)
  show "armed ?ks (pend s)"
    using mem_mfind [OF wf_map_distinct [OF assms(1)]] by (auto simp: armed_def due_def)
qed

lemma budget_sweep: "wf_outbox s \<Longrightarrow>
    budget (fst (sweep_loop E ks s)) + opened (snd (sweep_loop E ks s)) \<le> budget s"
proof (induction ks arbitrary: s)
  case (Cons k ks)
  have "budget (s\<lparr>pend := merase k (pend s)\<rparr>) \<le> budget s"
    using Cons.prems by (simp add: budget_def budget_erase)
  moreover have "budget ((release_wire_file ps s)\<lparr>pend := merase k (pend s)\<rparr>) = budget (s\<lparr>pend := merase k (pend s)\<rparr>)" for ps
    by (simp add: budget_def)
  ultimately show ?case
    using Cons.prems Cons.IH [of s] Cons.IH [of "(release_wire_file ps s)\<lparr>pend := merase k (pend s)\<rparr>" for ps]
    by (auto simp: split_beta split: option.split intro: order_trans)
qed simp

lemma budget_clean: "wf_outbox s \<Longrightarrow>
    budget (fst (clean_loop E ds s)) + opened (snd (clean_loop E ds s)) \<le> budget s"
proof (induction ds arbitrary: s)
  case (Cons d ds)
  show ?case
  proof (cases "mfind (direct s) d")
    case (Some lh)
    let ?r = "if link_status E lh = CLOSED then (s, [])
            else case (if teardown_calls_back E then outbound_link_closed E lh s else (s, [])) of
                   (s', acts) \<Rightarrow> (s', TeardownLink lh # acts)"
    let ?s = "(fst ?r)\<lparr>direct := merase d (direct (fst ?r))\<rparr>"
    have w: "wf_outbox ?s" using Cons.prems by (simp add: split_beta wf_closed)
    have "budget ?s + opened (snd ?r) \<le> budget s"
      using budget_closed [OF Cons.prems] by (simp add: split_beta budget_def)
    with Cons.IH [OF w] Some show ?thesis by (simp add: split_beta Let_def)
  qed (use Cons in simp)
qed simp

lemma budget_accelerate: "budget (accelerate_pending_for E d s) = budget s"
  by (auto simp: budget_def msum_def accelerate_pending_for_def pull_forward_def intro!: arg_cong [where f = sum_list] map_cong)

lemma budget_step:
  assumes "wf_outbox s" "links_fresh E e s" "\<And>r. e \<noteq> ManualRetryLink r"
  shows "budget (fst (link_step E e s)) + opened (snd (link_step E e s)) \<le> budget s"
proof (cases e)
  case (ManualRetryLink r)
  with assms(3) show ?thesis by blast
qed (use assms(1,2) in \<open>simp_all add: budget_established budget_closed budget_conclude
    outbound_resource_concluded_def sweep_orphaned_pending_def budget_sweep tick_clean_links_def budget_clean
    budget_tick_retries links_fresh_def budget_accelerate\<close>)

definition automatic :: "outbox \<Rightarrow> env \<times> link_event \<Rightarrow> bool" where
  "automatic s Ee \<longleftrightarrow> links_fresh (fst Ee) (snd Ee) s \<and> (\<forall>r. snd Ee \<noteq> ManualRetryLink r)"

interpretation retry_budget: budgeted link_machine wf_outbox automatic budget opens_link
proof unfold_locales
  fix s :: outbox and Ee
  show "wf_outbox s \<Longrightarrow> automatic s Ee \<Longrightarrow>
    budget (fst (link_machine s Ee)) + opened (snd (link_machine s Ee)) \<le> budget s"
    by (cases Ee) (simp add: automatic_def budget_step)
qed

section \<open>Failed entries\<close>

definition failed_at :: "hash \<Rightarrow> outbox \<Rightarrow> bool" where
  "failed_at k s \<longleftrightarrow> (case mfind (pend s) k of None \<Rightarrow> False
     | Some ps \<Rightarrow> status ps = Failed \<and> resource_hash ps = [])"

definition unattended :: "outbox \<Rightarrow> env \<times> link_event \<Rightarrow> bool" where
  "unattended s Ee \<longleftrightarrow> automatic s Ee \<and> (\<forall>k. snd Ee = Established k \<longrightarrow> \<not> failed_at k s)
     \<and> (\<forall>c. snd Ee \<noteq> Concluded [] c)"

lemma failed_atD: "failed_at k s \<Longrightarrow> wf_outbox s \<Longrightarrow>
  \<exists>ps. mfind (pend s) k = Some ps \<and> status ps = Failed \<and> resource_hash ps = [] \<and> retries_left ps = 0 \<and> \<not> retry_pending ps"
  by (auto simp: failed_at_def wf_pls_def dest: wf_mapD split: option.splits)

lemma failed_at_cong: "mfind (pend s') k = mfind (pend s) k \<Longrightarrow> failed_at k s' = failed_at k s"
  by (simp add: failed_at_def)

lemma failed_established: "lh \<noteq> k \<Longrightarrow> failed_at k (fst (outbound_link_established E lh s)) = failed_at k s"
  by (rule failed_at_cong)
    (simp add: outbound_link_established_def schedule_alt Let_def omap.find_put omap.find_erase split: option.split)

lemma failed_closed: "failed_at k s \<Longrightarrow> wf_outbox s \<Longrightarrow> failed_at k (fst (outbound_link_closed E lh s))"
proof (cases "lh = k")
  case True
  assume "failed_at k s" "wf_outbox s"
  from failed_atD [OF this] True show ?thesis
    by (auto simp: failed_at_def outbound_link_closed_def schedule_alt Let_def retry_or_fail_def)
next
  case False
  then have "mfind (pend (fst (outbound_link_closed E lh s))) k = mfind (pend s) k"
    by (simp add: outbound_link_closed_def schedule_alt Let_def omap.find_put omap.find_erase split: option.split)
  from failed_at_cong [OF this] show "failed_at k s \<Longrightarrow> ?thesis" by simp
qed

lemma failed_conclude: "failed_at k s \<Longrightarrow> rh \<noteq> [] \<Longrightarrow> failed_at k (fst (conclude_loop E rh c ks s))"
proof (induction E rh c ks s rule: conclude_loop.induct)
  case (2 E rh c k' ks s)
  show ?case
  proof (cases "mfind (pend s) k'")
    case (Some ps)
    have "k' \<noteq> k" if "resource_hash ps = rh" using 2(4,5) Some that by (auto simp: failed_at_def)
    then have "resource_hash ps = rh \<Longrightarrow> failed_at k ((release_wire_file ps s)\<lparr>pend := merase k' (pend s)\<rparr>)"
      "resource_hash ps = rh \<Longrightarrow> failed_at k (fst (schedule_retry_or_fail E k' ps s))"
      using 2(4) by (auto simp: failed_at_def omap.find_erase omap.find_put schedule_alt)
    with 2 Some show ?thesis by (cases c; cases "resource_hash ps = rh") (simp_all add: split_beta)
  qed (use 2 in simp)
qed simp

lemma failed_retry_one:
  assumes "failed_at k s" "k' \<noteq> k" "fresh_links E (k' # ks) (pend s)"
  shows "failed_at k (fst (retry_one E k' s))"
proof -
  have "mfind (pend s) k \<noteq> None" using assms(1) by (auto simp: failed_at_def split: option.splits)
  then have "new_link E k' \<noteq> Some k" using assms(3) unfolding fresh_links_def by (meson list.set_intros(1))
  from failed_at_cong [OF retry_one_other [OF assms(2)[symmetric] this]] assms(1) show ?thesis by blast
qed

lemma failed_retry_all:
  "\<lbrakk>failed_at k s; k \<notin> set ks; distinct ks; fresh_links E ks (pend s)\<rbrakk> \<Longrightarrow> failed_at k (fst (retry_all E ks s))"
proof (induction ks arbitrary: s)
  case (Cons k' ks)
  have "k' \<noteq> k" "k' \<notin> set ks" "k \<notin> set ks" "distinct ks" using Cons.prems by auto
  with Cons.IH [OF failed_retry_one [OF Cons.prems(1) _ Cons.prems(4)] _ _ fresh_after [OF Cons.prems(4)]]
  show ?case by (simp add: split_beta)
qed simp

lemma failed_tick_retries:
  assumes "failed_at k s" "wf_outbox s" "fresh_links E (mkeys (pend s)) (pend s)"
  shows "failed_at k (fst (tick_retries E s))"
  unfolding tick_retries_def
proof (rule failed_retry_all [OF assms(1)])
  let ?ks = "map fst (filter (\<lambda>e. due E (snd e)) (pend s))"
  show "distinct ?ks"
    using wf_map_distinct [OF assms(2)] by (simp add: mkeys_def distinct_map_filter)
  show "fresh_links E ?ks (pend s)"
    by (rule fresh_links_subset [OF assms(3)]) (auto simp: mkeys_def)
  show "k \<notin> set ?ks"
    using failed_atD [OF assms(1,2)] mem_mfind [OF wf_map_distinct [OF assms(2)]] by (auto simp: due_def)
qed

lemma failed_sweep: "failed_at k s \<Longrightarrow> failed_at k (fst (sweep_loop E ks s))"
proof (induction ks arbitrary: s)
  case (Cons k' ks)
  show ?case
  proof (cases "mfind (pend s) k'")
    case (Some ps)
    have "k' \<noteq> k" if "orphaned E ps" using Cons.prems Some that by (auto simp: failed_at_def orphaned_def)
    then have "orphaned E ps \<Longrightarrow> failed_at k ((release_wire_file ps s)\<lparr>pend := merase k' (pend s)\<rparr>)"
      using Cons.prems by (auto simp: failed_at_def omap.find_erase)
    with Cons Some show ?thesis by (simp add: split_beta)
  qed (use Cons in simp)
qed simp

lemma failed_clean: "failed_at k s \<Longrightarrow> wf_outbox s \<Longrightarrow> failed_at k (fst (clean_loop E ds s))"
proof (induction ds arbitrary: s)
  case (Cons d ds)
  show ?case
  proof (cases "mfind (direct s) d")
    case (Some lh)
    let ?r = "if link_status E lh = CLOSED then (s, [])
            else case (if teardown_calls_back E then outbound_link_closed E lh s else (s, [])) of
                   (s', acts) \<Rightarrow> (s', TeardownLink lh # acts)"
    let ?s = "(fst ?r)\<lparr>direct := merase d (direct (fst ?r))\<rparr>"
    have w: "wf_outbox ?s" using Cons.prems by (simp add: split_beta wf_closed)
    have "failed_at k (fst ?r)" using Cons.prems failed_closed by (simp add: split_beta)
    then have "failed_at k ?s" by (simp add: failed_at_def)
    from Cons.IH [OF this w] Some show ?thesis by (simp add: split_beta Let_def)
  qed (use Cons in simp)
qed simp

lemma failed_accelerate:
  assumes "failed_at k s" "wf_outbox s"
  shows "failed_at k (accelerate_pending_for E d s)"
proof -
  have "mfind (pend (accelerate_pending_for E d s)) k = map_option (pull_forward E d) (mfind (pend s) k)"
    unfolding accelerate_pending_for_def mfind_def by (simp add: map_of_map)
  with failed_atD [OF assms] show ?thesis by (auto simp: failed_at_def pull_forward_def)
qed

lemma failed_link_step:
  assumes "failed_at k s" "wf_outbox s" "unattended s (E, e)"
  shows "failed_at k (fst (link_step E e s))"
proof (cases e)
  case (Established lh)
  with assms have "lh \<noteq> k" by (auto simp: unattended_def)
  with Established assms(1) show ?thesis by (simp add: failed_established)
next
  case (Concluded rh c)
  with assms have "rh \<noteq> []" by (auto simp: unattended_def)
  with Concluded assms(1) show ?thesis by (simp add: failed_conclude outbound_resource_concluded_def)
next
  case (ManualRetryLink r)
  with assms(3) show ?thesis by (simp add: unattended_def automatic_def)
qed (use assms in \<open>simp_all add: failed_closed sweep_orphaned_pending_def failed_sweep
    tick_clean_links_def failed_clean failed_tick_retries links_fresh_def failed_accelerate
    unattended_def automatic_def\<close>)

interpretation failed_entries: traced link_machine wf_outbox unattended
    "\<lambda>s s' acts. \<forall>k. failed_at k s \<longrightarrow> failed_at k s'"
proof unfold_locales
  fix s :: outbox and Ee
  show "wf_outbox s \<Longrightarrow> unattended s Ee \<Longrightarrow> \<forall>k. failed_at k s \<longrightarrow> failed_at k (fst (link_machine s Ee))"
    by (cases Ee) (auto intro: failed_link_step)
qed auto

section \<open>Properties\<close>

text \<open>A concrete environment and entry, for the examples.\<close>

definition calm :: "nat \<Rightarrow> env" where
  "calm t = \<lparr>now = t, key_lt = (\<lambda>a b. length a < length b), recall = (\<lambda>_. True), has_path = (\<lambda>_. True),
     new_link = (\<lambda>k. Some (3 # k)), link_status = (\<lambda>_. ACTIVE), link_ready = (\<lambda>_. True),
     no_data_ms = (\<lambda>_. 0), in_link_ok = True, new_resource = [9], file_read_ok = (\<lambda>_. True),
     file_open_ok = True, file_write_ok = True, tmp_path = ''/tmp'', hex = (\<lambda>_. ''00''),
     teardown_calls_back = False\<rparr>"

definition sample_pls :: "pls" where
  "sample_pls = \<lparr>wire = replicate 400 7, wire_path = [], link = [1], started_ms = 5, dest_hash = [2],
     resource_hash = [], total_bytes = 0, record_hash = [1], retries_left = 5, retry_pending = False,
     next_retry_at_ms = 0, status = Queued\<rparr>"

definition sample_outbox :: "outbox" where
  "sample_outbox = \<lparr>pend = [([1], sample_pls)], direct = [([2], [1])], files = (\<lambda>_. None),
     link_reuses = 0, link_opens = 1\<rparr>"

definition sample_run :: "(env \<times> link_event) list" where
  "sample_run = [(calm 10, Established [1]), (calm 20, Concluded [9] False), (calm 20000, TickRetries)]"

lemmas samples = calm_def sample_pls_def sample_outbox_def sample_run_def

lemma wf_sample [simp]: "wf_outbox sample_outbox"
  by (simp add: samples wf_map_def mkeys_def wf_pls_def DEFAULT_OUTBOX_RETRIES_def)

lemmas exec = outbound_link_established_def outbound_link_closed_def outbound_resource_concluded_def
  tick_retries_def retry_one_def schedule_retry_or_fail_def retry_or_fail_def release_wire_file_def
  due_def mfind_def mput_def merase_def mkeys_def Let_def lxmf_consts

lemma budget_le: "wf_outbox s \<Longrightarrow> budget s \<le> (DEFAULT_OUTBOX_RETRIES + 1) * length (pend s)"
proof -
  have "(\<forall>e \<in> set m. wf_pls (snd e)) \<Longrightarrow> msum budget_of m \<le> (DEFAULT_OUTBOX_RETRIES + 1) * length m" for m :: "(hash, pls) omap"
    by (induction m) (auto simp: msum_def budget_of_def wf_pls_def add_mono)
  then show "wf_outbox s \<Longrightarrow> ?thesis" by (simp add: wf_map_def budget_def)
qed

text \<open>The pending map keeps distinct keys; every entry is Queued or Failed, has at most the
  initial number of retries left, and a Failed one has none and no retry scheduled. Callbacks,
  ticks, announces and manual retries, in any order and environment, keep this.\<close>

theorem pending_invariant: "wf_outbox s \<Longrightarrow> wf_outbox (fst (run link_machine es s))"
  by (rule outbox_machine.run_inv)

theorem pending_invariant_witness: "wf_outbox (fst (run link_machine sample_run sample_outbox))"
  by (rule pending_invariant) simp

text \<open>C6. No message is lost silently: after any run in which reopened links have unused hashes,
  a message that was pending still is, under the same record, or its status callback has
  reported it Sent, Delivered or Failed.\<close>

theorem no_silent_loss:
  assumes "wf_outbox s" "run_ok outbox_step_ok link_machine es s" "r \<in> recs (pend s)"
  shows "r \<in> recs (pend (fst (run link_machine es s))) \<or> (\<exists>a \<in> set (snd (run link_machine es s)). reports r a)"
  using outbox_machine.run_rel [OF assms(1,2)] assms(3) unfolding kept_def by blast

theorem no_silent_loss_witness:
  "[1] \<in> recs (pend (fst (run link_machine sample_run sample_outbox)))
   \<or> (\<exists>a \<in> set (snd (run link_machine sample_run sample_outbox)). reports [1] a)"
proof (rule no_silent_loss)
  show "run_ok outbox_step_ok link_machine sample_run sample_outbox"
    by (simp add: samples outbox_step_ok_def links_fresh_def fresh_links_def exec)
  show "[1] \<in> recs (pend sample_outbox)" by (simp add: samples recs_def mfind_def)
qed simp

text \<open>C26. The engine does not retry for ever: without manual retries, all the links it reopens,
  in any run with unused link hashes, are at most six per pending message.\<close>

theorem retries_bounded:
  assumes "wf_outbox s" "run_ok automatic link_machine es s"
  shows "opened (snd (run link_machine es s)) \<le> (DEFAULT_OUTBOX_RETRIES + 1) * length (pend s)"
  using retry_budget.spending.run_rel [OF assms] budget_le [OF assms(1)] by linarith

theorem retries_bounded_witness:
  "opened (snd (run link_machine sample_run sample_outbox)) \<le> (DEFAULT_OUTBOX_RETRIES + 1) * length (pend sample_outbox)"
  by (rule retries_bounded, rule wf_sample) (simp add: samples automatic_def links_fresh_def fresh_links_def exec)

text \<open>A message kept in memory whose first transfer fails is lost and reported Sent: the
  Resource start drops the wire, the retry opens a link and sends an empty packet on it.
  \<open>send_prepared\<close> makes such entries for contents of 296 to 319 bytes, and for larger ones
  when the wire cannot be written to a file.\<close>

theorem ram_wire_lost:
  assumes "pend s = [(lh, ps)]" "wire_path ps = []" "LXMF_LINK_PACKET_MAX < length (wire ps)"
    "0 < retries_left ps" "link_ready E1 lh" "now E2 + DELIVERY_RETRY_WAIT_MS \<le> now E3"
    "recall E3 (dest_hash ps)" "new_link E3 lh = Some nl" "in_link_ok E4"
  shows "snd (run link_machine [(E1, Established lh), (E2, Concluded (new_resource E1) False),
            (E3, TickRetries), (E4, Established nl)] s)
         = [StartResource lh (wire ps), OpenLink (dest_hash ps) nl, SendInLink nl [], StatusCb (record_hash ps) Sent]"
  using assms by (simp add: exec)

theorem ram_wire_lost_witness:
  "snd (run link_machine [(calm 10, Established [1]), (calm 20, Concluded (new_resource (calm 10)) False),
            (calm 20000, TickRetries), (calm 20010, Established [3, 1])] sample_outbox)
   = [StartResource [1] (wire sample_pls), OpenLink (dest_hash sample_pls) [3, 1], SendInLink [3, 1] [],
      StatusCb (record_hash sample_pls) Sent]"
  by (rule ram_wire_lost) (simp_all add: samples lxmf_consts)

text \<open>One failed transfer can cost two of the five retries: the resource's failure and the
  closing of its link are both counted.\<close>

theorem failed_attempt_costs_two:
  assumes "pend s = [(lh, ps)]" "resource_hash ps = rh" "rh \<noteq> []" "2 \<le> retries_left ps"
    "status ps = Queued"
  shows "\<exists>ps'. pend (fst (run link_machine [(E1, Concluded rh False), (E2, LinkClosed lh)] s)) = [(lh, ps')]
     \<and> retries_left ps' + 2 = retries_left ps"
  using assms by (auto simp: exec)

theorem failed_attempt_costs_two_witness:
  "\<exists>ps'. pend (fst (run link_machine [(calm 20, Concluded [9] False), (calm 30, LinkClosed [1])]
      (sample_outbox\<lparr>pend := [([1], sample_pls\<lparr>resource_hash := [9]\<rparr>)]\<rparr>))) = [([1], ps')]
     \<and> retries_left ps' + 2 = retries_left (sample_pls\<lparr>resource_hash := [9]\<rparr>)"
  by (rule failed_attempt_costs_two) (simp_all add: samples)

text \<open>A retry scheduled in the last ten seconds before the 32-bit millisecond clock wraps is
  never due: no later reading of the clock reaches its deadline.\<close>

theorem retry_lost_at_clock_wrap:
  assumes "0 < retries_left ps" "2 ^ 32 - DELIVERY_RETRY_WAIT_MS \<le> now E" "now E' < 2 ^ 32"
  shows "\<not> due E' (fst (retry_or_fail E ps))"
  using assms by (simp add: due_def retry_or_fail_def)

theorem retry_lost_at_clock_wrap_witness:
  "\<not> due (calm 5) (fst (retry_or_fail (calm 4294960000) sample_pls))"
  by (rule retry_lost_at_clock_wrap) (simp_all add: samples lxmf_consts)

end
