(* ===== verification/LxmfOpp.thy ===== *)
theory LxmfOpp
  imports LxmfLink
begin

text \<open>
  Opportunistic sends of \<open>src/src/LXMF/LXMFMinimal.h\<close>: one packet to the destination, a receipt
  that is polled, and the retry machine of \<open>tick_opportunistic_receipts\<close>. A receipt is a number,
  \<open>None\<close> the null receipt. The environment of a tick gives, for each entry, what the RNS library
  answers when the loop visits it.
\<close>

section \<open>State\<close>

record opp =
  receipt :: "nat option"
  opp_record :: hash
  opp_dest :: hash
  opp_wire :: bytes
  opp_started_ms :: nat
  delivery_attempts :: nat              \<comment> \<open>uint8\_t\<close>
  next_attempt_at_ms :: nat
  opp_status :: outbox_status

datatype send_outcome = SendThrows | NoReceipt | Accepted nat

record opp_env =
  opp_now :: nat
  proven :: "nat \<Rightarrow> bool"                 \<comment> \<open>the receipt's status is DELIVERED\<close>
  path_at :: "hash \<Rightarrow> bool"                \<comment> \<open>has\_path when the entry is visited, by map key\<close>
  recall_at :: "hash \<Rightarrow> bool"
  send_at :: "hash \<Rightarrow> send_outcome"        \<comment> \<open>the packet built and sent for the entry\<close>

type_synonym opp_map = "(hash, opp) omap"

section \<open>The retry machine\<close>

definition opp_resend :: "opp_env \<Rightarrow> hash \<Rightarrow> opp \<Rightarrow> opp \<times> action list" where
  "opp_resend E k op =
    (let op1 = op\<lparr>delivery_attempts := (delivery_attempts op + 1) mod 256,
                  next_attempt_at_ms := opp_now E + DELIVERY_RETRY_WAIT_MS\<rparr> in
     if \<not> recall_at E k then (op1, [RequestPath (opp_dest op)])
     else (case send_at E k of
             Accepted r \<Rightarrow> (op1\<lparr>receipt := Some r, opp_started_ms := opp_now E\<rparr>, [SendPacket (opp_dest op) (opp_wire op)])
           | NoReceipt \<Rightarrow> (op1, [SendPacket (opp_dest op) (opp_wire op)])
           | SendThrows \<Rightarrow> (op1, [SendPacket (opp_dest op) (opp_wire op)])))"

text \<open>One visit of the loop; \<open>None\<close>: the entry is erased.\<close>

definition opp_visit :: "opp_env \<Rightarrow> hash \<Rightarrow> opp \<Rightarrow> opp option \<times> action list" where
  "opp_visit E k op =
    (if (case receipt op of None \<Rightarrow> False | Some r \<Rightarrow> proven E r) then
       (None, [StatusCb (opp_record op) Delivered, RetainDest (opp_dest op)])
     else if opp_status op = Failed then (Some op, [])
     else if opp_now E < next_attempt_at_ms op then (Some op, [])
     else if delivery_attempts op > MAX_DELIVERY_ATTEMPTS then
       (Some (op\<lparr>opp_status := Failed\<rparr>), [StatusCb (opp_record op) Failed])
     else if delivery_attempts op \<ge> MAX_PATHLESS_TRIES \<and> \<not> path_at E k then
       (Some (op\<lparr>delivery_attempts := (delivery_attempts op + 1) mod 256,
                 next_attempt_at_ms := opp_now E + PATH_REQUEST_WAIT_MS\<rparr>), [RequestPath (opp_dest op)])
     else if delivery_attempts op = MAX_PATHLESS_TRIES + 1 \<and> path_at E k then
       (Some (op\<lparr>delivery_attempts := (delivery_attempts op + 1) mod 256,
                 next_attempt_at_ms := opp_now E + PATH_REQUEST_WAIT_MS\<rparr>),
        [ExpirePath (opp_dest op), RequestPath (opp_dest op)])
     else (case opp_resend E k op of (op', acts) \<Rightarrow> (Some op', acts)))"

fun tick_opportunistic_receipts :: "opp_env \<Rightarrow> opp_map \<Rightarrow> opp_map \<times> action list" where
  "tick_opportunistic_receipts E [] = ([], [])"
| "tick_opportunistic_receipts E ((k, op) # m) =
    (case opp_visit E k op of (r, a) \<Rightarrow> case tick_opportunistic_receipts E m of (m', a') \<Rightarrow>
       ((case r of None \<Rightarrow> m' | Some op' \<Rightarrow> (k, op') # m'), a @ a'))"

section \<open>Announce and manual retry\<close>

definition opp_pull_forward :: "nat \<Rightarrow> hash \<Rightarrow> opp \<Rightarrow> opp" where
  "opp_pull_forward t d op =
    (if opp_dest op = d \<and> opp_status op \<noteq> Failed \<and> next_attempt_at_ms op > t
     then op\<lparr>next_attempt_at_ms := t\<rparr> else op)"

definition accelerate_opp_for :: "nat \<Rightarrow> hash \<Rightarrow> opp_map \<Rightarrow> opp_map" where
  "accelerate_opp_for t d m = map (\<lambda>(k, op). (k, opp_pull_forward t d op)) m"

definition manual_retry_opp :: "(hash \<Rightarrow> hash \<Rightarrow> bool) \<Rightarrow> nat \<Rightarrow> hash \<Rightarrow> opp_map \<Rightarrow> opp_map \<times> action list \<times> bool" where
  "manual_retry_opp lt t r m =
    (case mfind m r of
       None \<Rightarrow> (m, [], False)
     | Some op \<Rightarrow>
         if opp_status op \<noteq> Failed then (m, [], False)
         else (mput lt r (op\<lparr>delivery_attempts := 1, opp_status := Sent, next_attempt_at_ms := t\<rparr>) m,
               [StatusCb (opp_record op) Sent], True))"

text \<open>\<open>manual_retry\<close>: the link entries first, then the opportunistic ones.\<close>

definition manual_retry :: "env \<Rightarrow> hash \<Rightarrow> outbox \<Rightarrow> opp_map \<Rightarrow> outbox \<times> opp_map \<times> action list \<times> bool" where
  "manual_retry E r s m =
    (case manual_retry_link E r (pend s) of
       Some (p, b) \<Rightarrow> (s\<lparr>pend := p\<rparr>, m, [], b)
     | None \<Rightarrow> (case manual_retry_opp (key_lt E) (now E) r m of (m', acts, b) \<Rightarrow> (s, m', acts, b)))"

section \<open>Events\<close>

datatype opp_event = OppTick opp_env | OppAnnounce nat hash | OppManual nat hash

fun opp_machine :: "opp_map \<Rightarrow> opp_event \<Rightarrow> opp_map \<times> action list" where
  "opp_machine m (OppTick E) = tick_opportunistic_receipts E m"
| "opp_machine m (OppAnnounce t d) = (accelerate_opp_for t d m, [])"
| "opp_machine m (OppManual t r) =
    (case manual_retry_opp (\<lambda>_ _. False) t r m of (m', a, _) \<Rightarrow> (m', a))"

section \<open>The invariant\<close>

definition wf_opp :: "hash \<Rightarrow> opp \<Rightarrow> bool" where
  "wf_opp k op \<longleftrightarrow> opp_record op = k \<and> 1 \<le> delivery_attempts op \<and> delivery_attempts op \<le> MAX_DELIVERY_ATTEMPTS + 1
     \<and> (opp_status op = Sent \<or> opp_status op = Failed \<and> delivery_attempts op = MAX_DELIVERY_ATTEMPTS + 1)"

definition wf_opps :: "opp_map \<Rightarrow> bool" where
  "wf_opps m \<longleftrightarrow> distinct (mkeys m) \<and> (\<forall>e \<in> set m. wf_opp (fst e) (snd e))"

lemma wf_visit: "wf_opp k op \<Longrightarrow> opp_visit E k op = (Some op', a) \<Longrightarrow> wf_opp k op'"
  by (auto simp: opp_visit_def opp_resend_def wf_opp_def lxmf_consts Let_def split: if_splits option.splits send_outcome.splits)

text \<open>A tick acts on every entry by itself.\<close>


lemma tick_set: "(k, op') \<in> set (fst (tick_opportunistic_receipts E m)) \<longleftrightarrow>
    (\<exists>op a. (k, op) \<in> set m \<and> opp_visit E k op = (Some op', a))"
  by (induction E m rule: tick_opportunistic_receipts.induct) (fastforce split: prod.splits option.splits)+

lemma tick_acts: "set (snd (tick_opportunistic_receipts E m)) = (\<Union>(k, op) \<in> set m. set (snd (opp_visit E k op)))"
  by (induction E m rule: tick_opportunistic_receipts.induct) (auto split: prod.splits option.splits)

lemma tick_distinct: "distinct (mkeys m) \<Longrightarrow> distinct (mkeys (fst (tick_opportunistic_receipts E m)))"
proof (induction E m rule: tick_opportunistic_receipts.induct)
  case (2 E k op m)
  have "set (mkeys (fst (tick_opportunistic_receipts E m))) \<subseteq> set (mkeys m)"
    by (force simp: mkeys_def tick_set)
  then have "k \<notin> set (mkeys (fst (tick_opportunistic_receipts E m)))" using 2(2) by (auto simp: mkeys_def)
  with 2 show ?case by (auto simp: mkeys_def split: prod.splits option.splits)
qed simp

lemma wf_tick: "wf_opps m \<Longrightarrow> wf_opps (fst (tick_opportunistic_receipts E m))"
  unfolding wf_opps_def by (auto simp: tick_distinct tick_set) (metis fst_conv snd_conv wf_visit)

lemma wf_opp_announce: "wf_opps m \<Longrightarrow> wf_opps (accelerate_opp_for t d m)"
  by (auto simp: wf_opps_def accelerate_opp_for_def mkeys_def comp_def split_beta wf_opp_def opp_pull_forward_def)

lemma wf_manual_opp: "wf_opps m \<Longrightarrow> wf_opps (fst (manual_retry_opp lt t r m))"
proof -
  assume w: "wf_opps m"
  have "wf_opps (mput lt r (op\<lparr>delivery_attempts := 1, opp_status := Sent, next_attempt_at_ms := t\<rparr>) m)"
    if "mfind m r = Some op" for op
    using w mfind_mem [OF that] set_mput [of lt r "op\<lparr>delivery_attempts := 1, opp_status := Sent, next_attempt_at_ms := t\<rparr>" m]
      omap.inv_put [of m lt r]
    by (fastforce simp: wf_opps_def wf_opp_def)
  with w show ?thesis by (simp add: manual_retry_opp_def split: option.split)
qed

lemma wf_opp_machine: "wf_opps m \<Longrightarrow> wf_opps (fst (opp_machine m e))"
  using wf_manual_opp by (cases e) (auto simp: wf_tick wf_opp_announce split_beta)

section \<open>Budget and end of the machine\<close>

definition attempts_left :: "opp \<Rightarrow> nat" where
  "attempts_left op = (if opp_status op = Failed then 0 else MAX_DELIVERY_ATTEMPTS + 1 - delivery_attempts op)"

definition opp_budget :: "opp_map \<Rightarrow> nat" where
  "opp_budget m = msum attempts_left m"

fun sends_packet :: "action \<Rightarrow> bool" where
  "sends_packet (SendPacket d w) = True"
| "sends_packet _ = False"

abbreviation resent :: "action list \<Rightarrow> nat" where
  "resent acts \<equiv> length (filter sends_packet acts)"

lemma attempts_visit:
  assumes "wf_opp k op"
  shows "(case fst (opp_visit E k op) of None \<Rightarrow> 0 | Some op' \<Rightarrow> attempts_left op') + resent (snd (opp_visit E k op))
    \<le> attempts_left op"
  using assms
  by (auto simp: opp_visit_def opp_resend_def wf_opp_def attempts_left_def lxmf_consts Let_def split: option.split send_outcome.split)

lemma budget_tick_opp: "\<forall>e \<in> set m. wf_opp (fst e) (snd e) \<Longrightarrow>
    opp_budget (fst (tick_opportunistic_receipts E m)) + resent (snd (tick_opportunistic_receipts E m)) \<le> opp_budget m"
proof (induction E m rule: tick_opportunistic_receipts.induct)
  case (2 E k op m)
  have IH: "opp_budget (fst (tick_opportunistic_receipts E m)) + resent (snd (tick_opportunistic_receipts E m)) \<le> opp_budget m"
    using "2.IH" [OF prod.collapse] "2.prems" by simp
  have "wf_opp k op" using "2.prems" by simp
  from attempts_visit [OF this, of E] IH show ?case
    by (simp add: opp_budget_def msum_def split_beta split: option.splits)
qed (simp add: opp_budget_def)

definition opp_automatic :: "opp_map \<Rightarrow> opp_event \<Rightarrow> bool" where
  "opp_automatic m e \<longleftrightarrow> (case e of OppManual t r \<Rightarrow> False | _ \<Rightarrow> True)"

lemma budget_announce: "opp_budget (accelerate_opp_for t d m) = opp_budget m"
  by (auto simp: opp_budget_def msum_def accelerate_opp_for_def attempts_left_def opp_pull_forward_def
      intro!: arg_cong [where f = sum_list] map_cong)

interpretation opp_resends: budgeted opp_machine wf_opps opp_automatic opp_budget sends_packet
proof unfold_locales
  fix m :: opp_map and e
  show "wf_opps m \<Longrightarrow> wf_opps (fst (opp_machine m e))" by (rule wf_opp_machine)
  show "wf_opps m \<Longrightarrow> opp_automatic m e \<Longrightarrow>
      opp_budget (fst (opp_machine m e)) + resent (snd (opp_machine m e)) \<le> opp_budget m"
    by (cases e) (auto simp: opp_automatic_def wf_opps_def budget_tick_opp budget_announce)
qed

lemma opp_budget_le: "wf_opps m \<Longrightarrow> opp_budget m \<le> MAX_DELIVERY_ATTEMPTS * length m"
proof -
  have "(\<forall>e \<in> set m. wf_opp (fst e) (snd e)) \<Longrightarrow> msum attempts_left m \<le> MAX_DELIVERY_ATTEMPTS * length m"
    by (induction m) (auto simp: msum_def attempts_left_def wf_opp_def add_mono)
  then show "wf_opps m \<Longrightarrow> ?thesis" by (simp add: wf_opps_def opp_budget_def)
qed

text \<open>An entry leaves the map only with its proof.\<close>

definition opp_kept :: "opp_map \<Rightarrow> opp_map \<Rightarrow> action list \<Rightarrow> bool" where
  "opp_kept m m' acts \<longleftrightarrow> (\<forall>k \<in> set (mkeys m). k \<in> set (mkeys m') \<or> StatusCb k Delivered \<in> set acts)"

lemma opp_kept_tick: "wf_opps m \<Longrightarrow> opp_kept m (fst (tick_opportunistic_receipts E m)) (snd (tick_opportunistic_receipts E m))"
  unfolding opp_kept_def
proof
  fix k assume w: "wf_opps m" and "k \<in> set (mkeys m)"
  then obtain op where op: "(k, op) \<in> set m" by (auto simp: mkeys_def)
  with w have wk: "opp_record op = k" by (fastforce simp: wf_opps_def wf_opp_def)
  show "k \<in> set (mkeys (fst (tick_opportunistic_receipts E m))) \<or> StatusCb k Delivered \<in> set (snd (tick_opportunistic_receipts E m))"
  proof (cases "fst (opp_visit E k op)")
    case None
    then have "StatusCb k Delivered \<in> set (snd (opp_visit E k op))"
      using wk by (auto simp: opp_visit_def split_beta split: if_splits)
    with op show ?thesis by (auto simp: tick_acts)
  next
    case (Some op')
    then have "opp_visit E k op = (Some op', snd (opp_visit E k op))" by (metis prod.collapse)
    then have "(k, op') \<in> set (fst (tick_opportunistic_receipts E m))"
      using op tick_set by blast
    then show ?thesis by (force simp: mkeys_def)
  qed
qed

lemma opp_kept_other: "mkeys m' = mkeys m \<Longrightarrow> opp_kept m m' acts"
  by (simp add: opp_kept_def)

lemma mkeys_mput_same: "k \<in> set (mkeys m) \<Longrightarrow> mkeys (mput lt k v m) = mkeys m"
  by (auto simp: mput_def mkeys_def)

lemma manual_opp_keys: "mkeys (fst (manual_retry_opp lt t r m)) = mkeys m"
proof (cases "mfind m r")
  case (Some op)
  then have "r \<in> set (mkeys m)" using mfind_mem by (force simp: mkeys_def)
  with Some show ?thesis by (simp add: manual_retry_opp_def mkeys_mput_same)
qed (simp add: manual_retry_opp_def)

interpretation opp_losses: traced opp_machine wf_opps "\<lambda>_ _. True" opp_kept
proof unfold_locales
  fix m :: opp_map and e
  show "wf_opps m \<Longrightarrow> True \<Longrightarrow> opp_kept m (fst (opp_machine m e)) (snd (opp_machine m e))"
  proof (cases e)
    case (OppTick E)
    then show "wf_opps m \<Longrightarrow> ?thesis" by (simp add: opp_kept_tick)
  next
    case (OppAnnounce t d)
    then show ?thesis
      by (intro opp_kept_other) (simp add: accelerate_opp_for_def mkeys_def comp_def split_beta)
  next
    case (OppManual t r)
    then show ?thesis by (intro opp_kept_other) (simp add: manual_opp_keys split_beta)
  qed
qed (auto simp: opp_kept_def)

text \<open>Ticks at least ten seconds apart, the first when the entry is due.\<close>

fun spaced :: "nat \<Rightarrow> opp_env list \<Rightarrow> bool" where
  "spaced t [] = True"
| "spaced t (E # Es) = (t \<le> opp_now E \<and> spaced (opp_now E + DELIVERY_RETRY_WAIT_MS) Es)"

lemma spaced_mono: "spaced t Es \<Longrightarrow> t' \<le> t \<Longrightarrow> spaced t' Es"
  by (cases Es) auto

lemma visit_unproven:
  assumes "wf_opp k op" "opp_status op = Sent" "next_attempt_at_ms op \<le> opp_now E" "\<And>r. \<not> proven E r"
  shows "\<exists>op'. fst (opp_visit E k op) = Some op' \<and> wf_opp k op' \<and>
    (if delivery_attempts op = MAX_DELIVERY_ATTEMPTS + 1
     then opp_status op' = Failed \<and> StatusCb k Failed \<in> set (snd (opp_visit E k op))
     else opp_status op' = Sent \<and> delivery_attempts op' = Suc (delivery_attempts op)
       \<and> next_attempt_at_ms op' \<le> opp_now E + DELIVERY_RETRY_WAIT_MS)"
  using assms
  by (auto simp: opp_visit_def opp_resend_def wf_opp_def lxmf_consts Let_def
      split: option.splits send_outcome.splits)

lemma tick_find:
  assumes "distinct (mkeys m)"
  shows "mfind (fst (tick_opportunistic_receipts E m)) k
    = (case mfind m k of None \<Rightarrow> None | Some op \<Rightarrow> fst (opp_visit E k op))"
  using assms
proof (induction E m rule: tick_opportunistic_receipts.induct)
  case (2 E k0 op m)
  have IH: "mfind (fst (tick_opportunistic_receipts E m)) k
    = (case mfind m k of None \<Rightarrow> None | Some op \<Rightarrow> fst (opp_visit E k op))"
    using "2.IH" [OF prod.collapse] "2.prems" by (simp add: mkeys_def)
  have "mfind m k0 = None" using "2.prems" by (simp add: mfind_def mkeys_def map_of_eq_None_iff)
  with IH show ?case by (auto simp: mfind_def split_beta split: option.splits)
qed (simp add: mfind_def)

lemma fails_in_time:
  "\<lbrakk>wf_opps m; mfind m k = Some op; opp_status op = Sent; spaced (next_attempt_at_ms op) Es;
    \<forall>E \<in> set Es. \<forall>r. \<not> proven E r; length Es = 7 - delivery_attempts op\<rbrakk> \<Longrightarrow>
   \<exists>op'. mfind (fst (run opp_machine (map OppTick Es) m)) k = Some op' \<and> opp_status op' = Failed
     \<and> StatusCb k Failed \<in> set (snd (run opp_machine (map OppTick Es) m))"
proof (induction Es arbitrary: m op)
  case Nil
  then have "wf_opp k op" using mfind_mem by (force simp: wf_opps_def)
  with Nil show ?case by (simp add: wf_opp_def lxmf_consts)
next
  case (Cons E Es)
  let ?t = "tick_opportunistic_receipts E m"
  have w: "wf_opp k op" using Cons.prems(1,2) mfind_mem by (force simp: wf_opps_def)
  have f: "mfind (fst ?t) k = fst (opp_visit E k op)"
    using Cons.prems(1,2) by (simp add: tick_find wf_opps_def)
  have acts: "set (snd (opp_visit E k op)) \<subseteq> set (snd ?t)"
    using mfind_mem [OF Cons.prems(2)] by (auto simp: tick_acts)
  obtain op' where op': "fst (opp_visit E k op) = Some op'" "wf_opp k op'"
    and s: "if delivery_attempts op = MAX_DELIVERY_ATTEMPTS + 1
     then opp_status op' = Failed \<and> StatusCb k Failed \<in> set (snd (opp_visit E k op))
     else opp_status op' = Sent \<and> delivery_attempts op' = Suc (delivery_attempts op)
       \<and> next_attempt_at_ms op' \<le> opp_now E + DELIVERY_RETRY_WAIT_MS"
    using visit_unproven [OF w Cons.prems(3), of E] Cons.prems(4,5) by auto
  show ?case
  proof (cases "delivery_attempts op = MAX_DELIVERY_ATTEMPTS + 1")
    case True
    with Cons.prems(6) have "Es = []" by (simp add: lxmf_consts)
    with True s acts f op' show ?thesis by (auto simp: split_beta)
  next
    case False
    have "\<exists>op''. mfind (fst (run opp_machine (map OppTick Es) (fst ?t))) k = Some op'' \<and> opp_status op'' = Failed
       \<and> StatusCb k Failed \<in> set (snd (run opp_machine (map OppTick Es) (fst ?t)))"
    proof (rule Cons.IH)
      show "spaced (next_attempt_at_ms op') Es"
        using False s Cons.prems(4) spaced_mono by auto
      show "length Es = 7 - delivery_attempts op'" using False s Cons.prems(6) by auto
    qed (use False s f op' Cons.prems(1,5) in \<open>auto simp: wf_tick\<close>)
    then show ?thesis by (auto simp: split_beta)
  qed
qed

section \<open>Properties\<close>

definition opp_world :: "nat \<Rightarrow> opp_env" where
  "opp_world t = \<lparr>opp_now = t, proven = (\<lambda>_. False), path_at = (\<lambda>_. True), recall_at = (\<lambda>_. True),
     send_at = (\<lambda>_. Accepted 1)\<rparr>"

definition sample_opps :: "opp_map" where
  "sample_opps = [([4], \<lparr>receipt = Some 0, opp_record = [4], opp_dest = [2], opp_wire = [7, 7], opp_started_ms = 0,
     delivery_attempts = 1, next_attempt_at_ms = 10000, opp_status = Sent\<rparr>)]"

lemmas opp_samples = opp_world_def sample_opps_def

lemma wf_sample_opps [simp]: "wf_opps sample_opps"
  by (simp add: opp_samples wf_opps_def wf_opp_def mkeys_def lxmf_consts)



text \<open>Without manual retries the machine re-sends each opportunistic message at most five
  times, whatever receipts, paths and announces it sees.\<close>

theorem opp_resends_bounded:
  assumes "wf_opps m" "run_ok opp_automatic opp_machine es m"
  shows "resent (snd (run opp_machine es m)) \<le> MAX_DELIVERY_ATTEMPTS * length m"
  using opp_resends.spending.run_rel [OF assms] opp_budget_le [OF assms(1)] by linarith

theorem opp_resends_bounded_witness:
  "resent (snd (run opp_machine [OppTick (opp_world 10000), OppAnnounce 12000 [2], OppTick (opp_world 12000)] sample_opps))
    \<le> MAX_DELIVERY_ATTEMPTS * length sample_opps"
  by (rule opp_resends_bounded) (simp, simp add: opp_automatic_def)

text \<open>A message that is never proven does not stay Sent: seven ticks less the attempts
  already counted, at least ten seconds apart, leave it Failed, still in the map, and its
  failure reported.\<close>

theorem opp_fails_in_time:
  assumes "wf_opps m" "mfind m k = Some op" "opp_status op = Sent" "spaced (next_attempt_at_ms op) Es"
    "\<forall>E \<in> set Es. \<forall>r. \<not> proven E r" "length Es = 7 - delivery_attempts op"
  shows "\<exists>op'. mfind (fst (run opp_machine (map OppTick Es) m)) k = Some op' \<and> opp_status op' = Failed
     \<and> StatusCb k Failed \<in> set (snd (run opp_machine (map OppTick Es) m))"
  using assms by (rule fails_in_time)

theorem opp_fails_in_time_witness:
  "\<exists>op'. mfind (fst (run opp_machine (map OppTick (map opp_world [10000, 20000, 30000, 40000, 50000, 60000])) sample_opps)) [4]
      = Some op' \<and> opp_status op' = Failed
     \<and> StatusCb [4] Failed \<in> set (snd (run opp_machine (map OppTick (map opp_world [10000, 20000, 30000, 40000, 50000, 60000])) sample_opps))"
  by (rule opp_fails_in_time [where op = "snd (hd sample_opps)"])
    (simp, simp_all add: opp_samples mfind_def lxmf_consts)

end
