(* ===== verification/Staging.thy ===== *)
theory Staging
  imports Store
begin

text \<open>
  Staging of outbound attachments, \<open>src/src/Storage/OutboundStaging.h\<close>: the choice of a backend,
  chunked append, read, finalize, release and garbage collection.

  A PSRAM buffer is its memory, a flash buffer the file behind its path. For an SD buffer the
  file is written by the task of \<open>SdWriter.h\<close>; what that task and the card answer is part of the
  environment of a call, as are free memory, the clock and the flash file system's answers.
  \<open>size_t\<close> is 32 bits wide, the SD card's sizes are 64.
\<close>

section \<open>State\<close>

definition PSRAM_CAP_BYTES :: nat where "PSRAM_CAP_BYTES = 4 * 1024 * 1024"
definition FLASH_CAP_BYTES :: nat where "FLASH_CAP_BYTES = 2 * 1024 * 1024"
definition STAGING_TIMEOUT_MS :: nat where "STAGING_TIMEOUT_MS = 60000"

datatype backend = Psram | Sd | Flash

record buffer =
  buf_id :: nat
  backend :: backend
  buf_total :: nat
  written :: nat
  created_ms :: nat
  mem :: "bytes option"                  \<comment> \<open>psram\_ptr: the memory behind it\<close>
  flash_open :: bool                     \<comment> \<open>flash\_file\<close>
  sd_handle :: nat
  finalize_pending :: bool

record staging =
  buffers :: "buffer list"
  next_id :: nat
  flash :: "nat \<Rightarrow> bytes option"          \<comment> \<open>/lxmf/staging/<id>.bin on LittleFS, by id\<close>

record senv =
  s_now :: nat
  sd_present :: bool
  psram_free :: nat
  flash_free :: nat
  sd_total :: nat
  sd_used :: nat
  psram_block :: "bytes option"          \<comment> \<open>what heap\_caps\_malloc gives: fresh memory\<close>
  sd_open :: nat                         \<comment> \<open>SdWriter::open\<close>
  sd_feed :: bool                        \<comment> \<open>SdWriter::feed\<close>
  sd_poll :: int                         \<comment> \<open>SdWriter::poll\<close>
  sd_file :: "nat \<Rightarrow> bytes option"        \<comment> \<open>the staged file on the card, by id\<close>
  flash_ok :: bool                       \<comment> \<open>flash opens succeed\<close>
  flash_wrote :: "nat \<Rightarrow> nat"             \<comment> \<open>bytes a flash write of this length stores\<close>

datatype staging_call = SdRelease nat | SdRemove nat | SdFinish nat

section \<open>Lookup and garbage collection\<close>

definition find_buf :: "nat \<Rightarrow> staging \<Rightarrow> buffer option" where
  "find_buf i s = find (\<lambda>b. buf_id b = i) (buffers s)"

text \<open>The first buffer of the id, updated in place.\<close>

fun update_first :: "nat \<Rightarrow> (buffer \<Rightarrow> buffer) \<Rightarrow> buffer list \<Rightarrow> buffer list" where
  "update_first i f [] = []"
| "update_first i f (b # bs) = (if buf_id b = i then f b # bs else b # update_first i f bs)"

text \<open>What dropping a buffer does outside the list.\<close>

definition drop_files :: "senv \<Rightarrow> buffer \<Rightarrow> (nat \<Rightarrow> bytes option) \<Rightarrow> nat \<Rightarrow> bytes option" where
  "drop_files E b fl = (if backend b = Flash then fl(buf_id b := None) else fl)"

definition drop_calls :: "senv \<Rightarrow> buffer \<Rightarrow> staging_call list" where
  "drop_calls E b =
    (if backend b = Sd then
       (if sd_handle b \<noteq> 0 then [SdRelease (sd_handle b)] else []) @ (if sd_present E then [SdRemove (buf_id b)] else [])
     else [])"

definition stale :: "nat \<Rightarrow> buffer \<Rightarrow> bool" where
  "stale now b =
    (if written b < buf_total b then sub32 now (created_ms b) > STAGING_TIMEOUT_MS
     else sub32 now (created_ms b) > 5 * STAGING_TIMEOUT_MS)"

fun gc_loop :: "senv \<Rightarrow> buffer list \<Rightarrow> (nat \<Rightarrow> bytes option) \<Rightarrow> buffer list \<times> (nat \<Rightarrow> bytes option) \<times> staging_call list" where
  "gc_loop E [] fl = ([], fl, [])"
| "gc_loop E (b # bs) fl =
    (if stale (s_now E) b then
       (case gc_loop E bs (drop_files E b fl) of (bs', fl', cs) \<Rightarrow> (bs', fl', drop_calls E b @ cs))
     else (case gc_loop E bs fl of (bs', fl', cs) \<Rightarrow> (b # bs', fl', cs)))"

definition gc :: "senv \<Rightarrow> staging \<Rightarrow> staging \<times> staging_call list" where
  "gc E s = (case gc_loop E (buffers s) (flash s) of (bs, fl, cs) \<Rightarrow> (s\<lparr>buffers := bs, flash := fl\<rparr>, cs))"

section \<open>Capacity\<close>

record caps =
  max_bytes :: nat
  chosen_backend :: backend
  psram_max :: nat
  flash_max :: nat
  sd_max :: nat

definition sd_free :: "senv \<Rightarrow> nat" where
  "sd_free E = (if sd_present E \<and> sd_total E > sd_used E then wrap32 (sd_total E - sd_used E) else 0)"

definition current_caps :: "senv \<Rightarrow> caps" where
  "current_caps E =
    (let p = (if psram_free E > 512 * 1024 then min PSRAM_CAP_BYTES (psram_free E - 512 * 1024) else 0);
         d = (if sd_present E then sd_free E else 0);
         f = (if flash_free E > 256 * 1024 then min FLASH_CAP_BYTES (flash_free E - 256 * 1024) else 0);
         (m, b) = (if d > 0 then (d, Sd) else if p > 0 then (p, Psram) else (f, Flash))
     in \<lparr>max_bytes = m, chosen_backend = b, psram_max = p, flash_max = f, sd_max = d\<rparr>)"

definition pick_backend :: "caps \<Rightarrow> nat \<Rightarrow> backend option" where
  "pick_backend c n =
    (if sd_max c \<ge> n then Some Sd else if psram_max c \<ge> n then Some Psram
     else if flash_max c \<ge> n then Some Flash else None)"

fun backend_name :: "backend \<Rightarrow> string" where
  "backend_name Sd = ''sd''"
| "backend_name Flash = ''flash''"
| "backend_name Psram = ''psram''"

section \<open>Allocate\<close>

text \<open>A new SD job takes the writer over from every earlier one.\<close>

fun reclaim_sd :: "senv \<Rightarrow> buffer list \<Rightarrow> buffer list \<times> staging_call list" where
  "reclaim_sd E [] = ([], [])"
| "reclaim_sd E (b # bs) =
    (case reclaim_sd E bs of (bs', cs) \<Rightarrow>
       if backend b = Sd \<and> sd_handle b \<noteq> 0
       then (b\<lparr>sd_handle := 0\<rparr> # bs', SdRelease (sd_handle b) # (if sd_present E then [SdRemove (buf_id b)] else []) @ cs)
       else (b # bs', cs))"

definition new_buffer :: "senv \<Rightarrow> nat \<Rightarrow> backend \<Rightarrow> nat \<Rightarrow> buffer" where
  "new_buffer E i k n = \<lparr>buf_id = i, backend = k, buf_total = n, written = 0, created_ms = s_now E,
     mem = None, flash_open = False, sd_handle = 0, finalize_pending = False\<rparr>"

definition allocate :: "senv \<Rightarrow> nat \<Rightarrow> staging \<Rightarrow> staging \<times> staging_call list \<times> nat" where
  "allocate E n s0 =
    (case gc E s0 of (s, cs) \<Rightarrow>
     if n = 0 then (s, cs, 0)
     else let c = current_caps E in
       if n > max_bytes c then (s, cs, 0)
       else let i = next_id s; s1 = s\<lparr>next_id := wrap32 (next_id s + 1)\<rparr> in
         (case pick_backend c n of
            None \<Rightarrow> (s1, cs, 0)
          | Some Psram \<Rightarrow>
              (case psram_block E of
                 None \<Rightarrow> (s1, cs, 0)
               | Some m \<Rightarrow> (s1\<lparr>buffers := buffers s1 @ [(new_buffer E i Psram n)\<lparr>mem := Some m\<rparr>]\<rparr>, cs, i))
          | Some Sd \<Rightarrow>
              (case reclaim_sd E (buffers s1) of (bs, cs') \<Rightarrow>
                 if sd_open E = 0 then (s1\<lparr>buffers := bs\<rparr>, cs @ cs', 0)
                 else (s1\<lparr>buffers := bs @ [(new_buffer E i Sd n)\<lparr>sd_handle := sd_open E\<rparr>]\<rparr>, cs @ cs', i))
          | Some Flash \<Rightarrow>
              (if flash_ok E
               then (s1\<lparr>buffers := buffers s1 @ [(new_buffer E i Flash n)\<lparr>flash_open := True\<rparr>],
                        flash := (flash s1)(i := Some [])\<rparr>, cs, i)
               else (s1\<lparr>flash := (flash s1)(i := None)\<rparr>, cs, 0))))"

section \<open>Append\<close>

text \<open>\<open>memcpy(ptr + written, data, len)\<close>\<close>

definition overwrite :: "bytes \<Rightarrow> nat \<Rightarrow> bytes \<Rightarrow> bytes" where
  "overwrite m off d = take off m @ d @ drop (off + length d) m"

definition append_chunk :: "senv \<Rightarrow> nat \<Rightarrow> bytes \<Rightarrow> staging \<Rightarrow> staging \<times> bool" where
  "append_chunk E i d s =
    (case find_buf i s of
       None \<Rightarrow> (s, False)
     | Some b \<Rightarrow>
         if written b > buf_total b then (s, False)
         else if length d > buf_total b - written b then (s, False)
         else let ok = (\<lambda>f s. (s\<lparr>buffers := update_first i (\<lambda>x. (f x)\<lparr>written := written b + length d\<rparr>) (buffers s)\<rparr>, True)) in
         (case backend b of
            Psram \<Rightarrow> (case mem b of None \<Rightarrow> (s, False) | Some m \<Rightarrow> ok (\<lambda>x. x\<lparr>mem := Some (overwrite m (written b) d)\<rparr>) s)
          | Sd \<Rightarrow> if sd_feed E then ok id s else (s, False)
          | Flash \<Rightarrow>
              (if \<not> flash_open b then (s, False)
               else let w = flash_wrote E (length d);
                        s1 = s\<lparr>flash := (flash s)(i := map_option (\<lambda>c. c @ take w d) (flash s i))\<rparr>
                    in if w \<noteq> length d then (s1, False) else ok id s1)))"

definition complete :: "nat \<Rightarrow> staging \<Rightarrow> bool" where
  "complete i s = (case find_buf i s of None \<Rightarrow> False | Some b \<Rightarrow> written b = buf_total b)"

section \<open>Finalize, read, release\<close>

definition finalize_begin :: "nat \<Rightarrow> staging \<Rightarrow> staging \<times> staging_call list \<times> int" where
  "finalize_begin i s =
    (case find_buf i s of
       None \<Rightarrow> (s, [], 1)
     | Some b \<Rightarrow>
         if backend b \<noteq> Sd then
           (s\<lparr>buffers := update_first i (\<lambda>b. b\<lparr>flash_open := False\<rparr>) (buffers s)\<rparr>, [], 1)
         else (s\<lparr>buffers := update_first i (\<lambda>b. b\<lparr>finalize_pending := True\<rparr>) (buffers s)\<rparr>, [SdFinish (sd_handle b)], 0))"

definition finalize_deferred :: "nat \<Rightarrow> staging \<Rightarrow> bool" where
  "finalize_deferred i s = (case find_buf i s of None \<Rightarrow> False | Some b \<Rightarrow> finalize_pending b)"

definition finalize_poll :: "senv \<Rightarrow> nat \<Rightarrow> staging \<Rightarrow> staging \<times> int" where
  "finalize_poll E i s =
    (case find_buf i s of
       None \<Rightarrow> (s, 0)
     | Some b \<Rightarrow>
         if sd_poll E < 0 then (s, - 1)
         else let s1 = s\<lparr>buffers := update_first i (\<lambda>b. b\<lparr>finalize_pending := False\<rparr>) (buffers s)\<rparr> in
           if sd_poll E = 0 then (s1, 0)
           else if (case sd_file E i of None \<Rightarrow> 0 | Some c \<Rightarrow> length c) \<noteq> written b then (s1, 0)
           else (s1, 1))"

definition staged_bytes :: "nat \<Rightarrow> staging \<Rightarrow> nat" where
  "staged_bytes i s = (case find_buf i s of None \<Rightarrow> 0 | Some b \<Rightarrow> buf_total b)"

definition backend_of :: "nat \<Rightarrow> staging \<Rightarrow> backend" where
  "backend_of i s = (case find_buf i s of None \<Rightarrow> Psram | Some b \<Rightarrow> backend b)"

text \<open>A file read: nothing when it does not open or the seek is past its end.\<close>

definition read_file :: "bytes option \<Rightarrow> nat \<Rightarrow> nat \<Rightarrow> bytes" where
  "read_file f off n = (case f of None \<Rightarrow> [] | Some c \<Rightarrow> take n (drop off c))"

definition read_buf :: "senv \<Rightarrow> nat \<Rightarrow> nat \<Rightarrow> nat \<Rightarrow> staging \<Rightarrow> bytes" where
  "read_buf E i off n s =
    (case find_buf i s of
       None \<Rightarrow> []
     | Some b \<Rightarrow>
         if off \<ge> buf_total b then []
         else let avail = min n (buf_total b - off) in
           (case backend b of
              Psram \<Rightarrow> (case mem b of None \<Rightarrow> [] | Some m \<Rightarrow> take avail (drop off m))
            | Sd \<Rightarrow> read_file (sd_file E i) off avail
            | Flash \<Rightarrow> read_file (flash s i) off avail))"

fun remove_first :: "nat \<Rightarrow> buffer list \<Rightarrow> buffer list" where
  "remove_first i [] = []"
| "remove_first i (b # bs) = (if buf_id b = i then bs else b # remove_first i bs)"

definition release :: "senv \<Rightarrow> nat \<Rightarrow> staging \<Rightarrow> staging \<times> staging_call list" where
  "release E i s =
    (case find_buf i s of
       None \<Rightarrow> (s, [])
     | Some b \<Rightarrow> (s\<lparr>buffers := remove_first i (buffers s), flash := drop_files E b (flash s)\<rparr>, drop_calls E b))"

section \<open>Events and the invariant\<close>

datatype staging_event = Allocate nat | Append nat bytes | FinalizeBegin nat | FinalizePoll nat | Release nat | Collect

fun staging_step :: "staging \<Rightarrow> senv \<times> staging_event \<Rightarrow> staging \<times> staging_call list" where
  "staging_step s (E, Allocate n) = (case allocate E n s of (s', cs, _) \<Rightarrow> (s', cs))"
| "staging_step s (E, Append i d) = (fst (append_chunk E i d s), [])"
| "staging_step s (E, FinalizeBegin i) = (case finalize_begin i s of (s', cs, _) \<Rightarrow> (s', cs))"
| "staging_step s (E, FinalizePoll i) = (fst (finalize_poll E i s), [])"
| "staging_step s (E, Release i) = release E i s"
| "staging_step s (E, Collect) = gc E s"

definition wf_buffer :: "buffer \<Rightarrow> bool" where
  "wf_buffer b \<longleftrightarrow> 0 < buf_total b \<and> written b \<le> buf_total b \<and> (backend b = Psram \<longrightarrow> mem b \<noteq> None)"

definition wf_staging :: "staging \<Rightarrow> bool" where
  "wf_staging s \<longleftrightarrow> (\<forall>b \<in> set (buffers s). wf_buffer b)"

lemma gc_loop_filter: "fst (gc_loop E bs fl) = filter (\<lambda>b. \<not> stale (s_now E) b) bs"
  by (induction bs arbitrary: fl) (auto simp: split_beta)

lemma gc_buffers: "buffers (fst (gc E s)) = filter (\<lambda>b. \<not> stale (s_now E) b) (buffers s)"
  by (simp add: gc_def split_beta gc_loop_filter)

lemma gc_next [simp]: "next_id (fst (gc E s)) = next_id s"
  by (simp add: gc_def split_beta)

lemma set_update: "find (\<lambda>b. buf_id b = i) bs = Some b \<Longrightarrow> set (update_first i f bs) \<subseteq> insert (f b) (set bs)"
  by (induction bs) (auto split: if_splits)

lemma wf_update:
  assumes "wf_staging s" "find_buf i s = Some b" "wf_buffer (f b)" "buffers s' = update_first i f (buffers s)"
  shows "wf_staging s'"
  using assms set_update [of i "buffers s" b f] by (auto simp: wf_staging_def find_buf_def)

lemma find_in: "find_buf i s = Some b \<Longrightarrow> b \<in> set (buffers s) \<and> buf_id b = i"
  by (auto simp: find_buf_def find_Some_iff)

lemma wf_gc: "wf_staging s \<Longrightarrow> wf_staging (fst (gc E s))"
  by (auto simp: wf_staging_def gc_buffers)

lemma wf_buffer_handle [simp]: "wf_buffer (b\<lparr>sd_handle := n\<rparr>) = wf_buffer b"
  by (simp add: wf_buffer_def)

lemma reclaim_wf: "list_all wf_buffer bs \<Longrightarrow> list_all wf_buffer (fst (reclaim_sd E bs))"
  by (induction bs) (simp_all add: split_beta)

lemma wf_allocate:
  assumes "wf_staging s" shows "wf_staging (fst (allocate E n s))"
proof -
  have w: "\<forall>b \<in> set (buffers (fst (gc E s))). wf_buffer b" using wf_gc [OF assms] by (simp add: wf_staging_def)
  show ?thesis
    using w reclaim_wf [of "buffers (fst (gc E s))" E]
    by (auto simp: allocate_def split_beta Let_def wf_staging_def list_all_iff wf_buffer_def new_buffer_def
        split: option.split backend.split)
qed

lemma wf_append:
  assumes "wf_staging s" shows "wf_staging (fst (append_chunk E i d s))"
proof (cases "find_buf i s")
  case (Some b)
  have b: "wf_buffer b" using find_in [OF Some] assms by (auto simp: wf_staging_def)
  then have u: "wf_staging s'" if "length d \<le> buf_total b - written b" "\<And>x. buf_total (f x) = buf_total x"
    "\<And>x. backend (f x) = backend x" "\<And>x. mem x \<noteq> None \<Longrightarrow> mem (f x) \<noteq> None"
    "buffers s' = update_first i (\<lambda>x. (f x)\<lparr>written := written b + length d\<rparr>) (buffers s)" for f s'
    using that by (intro wf_update [OF assms Some _ that(5)]) (auto simp: wf_buffer_def)
  show ?thesis
  proof (cases "backend b")
    case Psram
    then show ?thesis using Some assms
      by (auto simp: append_chunk_def Let_def split: option.split intro!: u [where f = "\<lambda>x. x\<lparr>mem := Some m\<rparr>" for m])
  next
    case Sd
    then show ?thesis using Some assms u [where f = id] by (auto simp: append_chunk_def Let_def)
  next
    case Flash
    have "wf_staging s'" if "buffers s' = buffers s" for s' using assms that by (simp add: wf_staging_def)
    with Flash show ?thesis using Some assms by (auto simp: append_chunk_def Let_def intro!: u [where f = id])
  qed
qed (use assms in \<open>simp add: append_chunk_def\<close>)

lemma wf_staging_step: "wf_staging s \<Longrightarrow> wf_staging (fst (staging_step s Ee))"
proof (cases Ee)
  case (Pair E e)
  assume w: "wf_staging s"
  have u: "wf_staging (s\<lparr>buffers := update_first i f (buffers s)\<rparr>)"
    if "find_buf i s = Some b" "\<And>x. wf_buffer x \<Longrightarrow> wf_buffer (f x)" for i f b
  proof (rule wf_update [OF w that(1)])
    show "wf_buffer (f b)" using find_in [OF that(1)] w that(2) by (auto simp: wf_staging_def)
  qed simp
  have r: "set (remove_first i bs) \<subseteq> set bs" for i bs by (induction bs) auto
  show "wf_staging (fst (staging_step s Ee))"
  proof (cases e)
    case (Release i)
    with w r show ?thesis by (auto simp: Pair release_def wf_staging_def split: option.split)
  next
    case (FinalizeBegin i)
    with w show ?thesis
      by (auto simp: Pair finalize_begin_def split: option.split intro!: u) (auto simp: wf_buffer_def)
  next
    case (FinalizePoll i)
    with w show ?thesis
      by (auto simp: Pair finalize_poll_def Let_def split: option.split intro!: u) (auto simp: wf_buffer_def)
  qed (use w in \<open>auto simp: Pair wf_allocate wf_append wf_gc split_beta\<close>)
qed

interpretation staging_machine: machine staging_step wf_staging
  by unfold_locales (rule wf_staging_step)

section \<open>Chunks come back as they went in\<close>

text \<open>The buffer of the id holds these bytes.\<close>

definition holds_data :: "nat \<Rightarrow> backend \<Rightarrow> nat \<Rightarrow> bytes \<Rightarrow> staging \<Rightarrow> bool" where
  "holds_data i k n d s \<longleftrightarrow> (\<exists>b. find_buf i s = Some b \<and> backend b = k \<and> buf_total b = n \<and> written b = length d \<and>
     (case k of Psram \<Rightarrow> (\<exists>m. mem b = Some m \<and> length m = n \<and> take (length d) m = d)
      | Flash \<Rightarrow> flash_open b \<and> flash s i = Some d | Sd \<Rightarrow> False))"

lemma find_update: "find_buf i s = Some b \<Longrightarrow> buf_id (f b) = i \<Longrightarrow>
    find_buf i (s\<lparr>buffers := update_first i f (buffers s)\<rparr>) = Some (f b)"
proof -
  have "find (\<lambda>b. buf_id b = i) bs = Some b \<Longrightarrow> buf_id (f b) = i \<Longrightarrow>
      find (\<lambda>b. buf_id b = i) (update_first i f bs) = Some (f b)" for bs
    by (induction bs) (auto split: if_splits)
  then show "find_buf i s = Some b \<Longrightarrow> buf_id (f b) = i \<Longrightarrow> ?thesis" by (simp add: find_buf_def)
qed

lemma append_holds:
  assumes "holds_data i k n d s" "length d + length x \<le> n" "flash_wrote E (length x) = length x"
  shows "holds_data i k n (d @ x) (fst (append_chunk E i x s)) \<and> snd (append_chunk E i x s)"
proof -
  obtain b where b: "find_buf i s = Some b" "backend b = k" "buf_total b = n" "written b = length d"
    using assms(1) by (auto simp: holds_data_def)
  have id: "buf_id b = i" using find_in [OF b(1)] by simp
  have len: "\<not> length x > buf_total b - written b" "\<not> written b > buf_total b" using b assms(2) by simp_all
  show ?thesis
  proof (cases k)
    case Psram
    then obtain m where m: "mem b = Some m" "length m = n" "take (length d) m = d"
      using assms(1) b(1) by (auto simp: holds_data_def)
    let ?f = "\<lambda>y. y\<lparr>mem := Some (overwrite m (length d) x), written := length d + length x\<rparr>"
    have "append_chunk E i x s = (s\<lparr>buffers := update_first i ?f (buffers s)\<rparr>, True)"
      using b len m Psram by (simp add: append_chunk_def Let_def)
    moreover have "length (overwrite m (length d) x) = n" "take (length d + length x) (overwrite m (length d) x) = d @ x"
      using m assms(2) by (simp_all add: overwrite_def)
    ultimately show ?thesis using find_update [OF b(1), of ?f] b id Psram by (simp add: holds_data_def)
  next
    case Flash
    then have fl: "flash_open b" "flash s i = Some d" using assms(1) b(1) by (auto simp: holds_data_def)
    let ?f = "\<lambda>y. y\<lparr>written := length d + length x\<rparr>"
    let ?s = "s\<lparr>flash := (flash s)(i := Some (d @ x))\<rparr>"
    have "append_chunk E i x s = (?s\<lparr>buffers := update_first i ?f (buffers ?s)\<rparr>, True)"
      using b len fl Flash assms(3) by (simp add: append_chunk_def Let_def)
    moreover have "find_buf i ?s = Some b" using b(1) by (simp add: find_buf_def)
    ultimately show ?thesis using find_update [of i ?s b ?f] b id fl Flash by (simp add: holds_data_def)
  qed (use assms(1) in \<open>simp add: holds_data_def\<close>)
qed

fun append_all :: "senv \<Rightarrow> nat \<Rightarrow> bytes list \<Rightarrow> staging \<Rightarrow> staging" where
  "append_all E i [] s = s"
| "append_all E i (d # ds) s = append_all E i ds (fst (append_chunk E i d s))"

lemma append_all_holds:
  "holds_data i k n d s \<Longrightarrow> length d + length (concat ds) \<le> n \<Longrightarrow> (\<And>m. flash_wrote E m = m) \<Longrightarrow>
    holds_data i k n (d @ concat ds) (append_all E i ds s)"
proof (induction ds arbitrary: d s)
  case (Cons x ds)
  have "holds_data i k n (d @ x) (fst (append_chunk E i x s))"
    using append_holds [OF Cons.prems(1)] Cons.prems(2,3) by simp
  from Cons.IH [OF this] Cons.prems(2,3) show ?case by simp
qed simp

lemma holds_read:
  assumes "holds_data i k n d s" "length d = n" "0 < n"
  shows "read_buf E i off len s = take len (drop off d)"
proof -
  obtain b where b: "find_buf i s = Some b" "backend b = k" "buf_total b = n" using assms(1) by (auto simp: holds_data_def)
  show ?thesis
  proof (cases k)
    case Psram
    then obtain m where "mem b = Some m" "length m = n" "take (length d) m = d"
      using assms(1) b(1) by (auto simp: holds_data_def)
    then have "mem b = Some d" using assms(2) by simp
    then show ?thesis using b Psram assms(2) by (simp add: read_buf_def Let_def min_def)
  next
    case Flash
    then have "flash s i = Some d" using assms(1) b(1) by (auto simp: holds_data_def)
    then show ?thesis using b Flash assms(2) by (simp add: read_buf_def read_file_def Let_def min_def)
  qed (use assms(1) in \<open>simp add: holds_data_def\<close>)
qed

lemma holds_finalize: "holds_data i k n d s \<Longrightarrow> length d = n \<Longrightarrow> 0 < n \<Longrightarrow>
    read_buf E i off len (fst (finalize_begin i s)) = read_buf E i off len s"
proof -
  assume h: "holds_data i k n d s"
  then obtain b where b: "find_buf i s = Some b" "backend b \<noteq> Sd" by (cases k) (auto simp: holds_data_def)
  have "find_buf i (fst (finalize_begin i s)) = Some (b\<lparr>flash_open := False\<rparr>)"
    using b find_in [OF b(1)] find_update [OF b(1), of "\<lambda>b. b\<lparr>flash_open := False\<rparr>"]
    by (simp add: finalize_begin_def)
  moreover have "flash (fst (finalize_begin i s)) = flash s" using b by (simp add: finalize_begin_def)
  ultimately show ?thesis using b by (simp add: read_buf_def Let_def split: backend.split)
qed

lemma allocate_holds:
  assumes "allocate E n s = (s', cs, i)" "i \<noteq> 0" "pick_backend (current_caps E) n \<noteq> Some Sd"
    "\<forall>b \<in> set (buffers s). buf_id b \<noteq> next_id s" "\<And>m. psram_block E = Some m \<Longrightarrow> length m = n"
  shows "\<exists>k. holds_data i k n [] s'"
proof -
  have n: "find (\<lambda>b. buf_id b = next_id s) (buffers (fst (gc E s))) = None"
    using assms(4) by (simp add: gc_buffers find_None_iff)
  have fa: "find P xs = None \<Longrightarrow> find P (xs @ ys) = find P ys" for P and xs ys :: "buffer list"
    by (induction xs) auto
  show ?thesis
    using assms(1,2,3,5) n
    by (auto simp: allocate_def split_beta Let_def holds_data_def find_buf_def fa new_buffer_def
        split: if_splits option.splits backend.splits)
qed

section \<open>Properties\<close>

definition roomy :: "senv" where
  "roomy = \<lparr>s_now = 5, sd_present = False, psram_free = 8000000, flash_free = 0, sd_total = 0, sd_used = 0,
     psram_block = Some [0, 0, 0, 0], sd_open = 0, sd_feed = False, sd_poll = 0, sd_file = (\<lambda>_. None),
     flash_ok = False, flash_wrote = id\<rparr>"

definition empty_staging :: "staging" where
  "empty_staging = \<lparr>buffers = [], next_id = 1, flash = (\<lambda>_. None)\<rparr>"

lemmas staging_samples = roomy_def empty_staging_def

lemmas staging_exec = allocate_def gc_def current_caps_def pick_backend_def new_buffer_def append_chunk_def
  find_buf_def overwrite_def finalize_begin_def Let_def PSRAM_CAP_BYTES_def FLASH_CAP_BYTES_def sd_free_def

text \<open>No chunk sequence, however long its chunks say they are, overruns a staging buffer: in
  every reachable state each buffer has \<open>written <= total_bytes\<close> and a PSRAM one has memory.\<close>

theorem staging_no_overrun: "wf_staging s \<Longrightarrow> wf_staging (fst (run staging_step es s))"
  by (rule staging_machine.run_inv)

theorem staging_no_overrun_witness:
  "wf_staging (fst (run staging_step [(roomy, Allocate 4), (roomy, Append 1 [1, 2, 3]), (roomy, Append 1 [4, 5, 6])] empty_staging))"
  by (rule staging_no_overrun) (simp add: staging_samples wf_staging_def)

text \<open>What is staged comes back: a buffer allocated in PSRAM or on flash and filled by chunks of
  any sizes to its total gives, once finalized, exactly the requested slice of the chunks put
  together, for every offset and length.\<close>

theorem staging_roundtrip:
  assumes "allocate E n s = (s', cs, i)" "i \<noteq> 0" "0 < n" "pick_backend (current_caps E) n \<noteq> Some Sd"
    "\<forall>b \<in> set (buffers s). buf_id b \<noteq> next_id s" "\<And>m. psram_block E = Some m \<Longrightarrow> length m = n"
    "\<And>m. flash_wrote E' m = m" "length (concat ds) = n"
  shows "read_buf E'' i off len (fst (finalize_begin i (append_all E' i ds s'))) = take len (drop off (concat ds))"
proof -
  obtain k where "holds_data i k n [] s'" using allocate_holds [OF assms(1,2,4-6)] by blast
  from append_all_holds [OF this, of ds E'] assms(7,8)
  have h: "holds_data i k n (concat ds) (append_all E' i ds s')" by simp
  show ?thesis using holds_finalize [OF h assms(8,3)] holds_read [OF h assms(8,3)] by simp
qed

theorem staging_roundtrip_witness:
  "read_buf roomy 1 1 2 (fst (finalize_begin 1 (append_all roomy 1 [[1, 2, 3], [4]] (fst (allocate roomy 4 empty_staging)))))
    = take 2 (drop 1 (concat [[1, 2, 3], [4]]))"
proof (rule staging_roundtrip)
  show "allocate roomy 4 empty_staging = (fst (allocate roomy 4 empty_staging), [], 1)"
    by (simp add: staging_samples staging_exec)
qed (simp_all add: staging_samples staging_exec)

text \<open>The free space of the SD card is cut to 32 bits: it is known only modulo 4 GiB, and a
  card with exactly that much free space counts as full.\<close>

theorem sd_space_truncated:
  assumes "sd_present E" "sd_used E < sd_total E"
  shows "sd_max (current_caps E) = (sd_total E - sd_used E) mod 4294967296"
  using assms by (simp add: current_caps_def Let_def sd_free_def wrap32_def split_beta)

theorem sd_space_truncated_witness:
  "sd_max (current_caps (roomy\<lparr>sd_present := True, sd_total := 8589934592, sd_used := 4294967296\<rparr>))
    = (8589934592 - 4294967296) mod 4294967296"
  using sd_space_truncated [of "roomy\<lparr>sd_present := True, sd_total := 8589934592, sd_used := 4294967296\<rparr>"]
  by (simp add: staging_samples)

end
