(* ===== verification/Clock.thy ===== *)
theory Clock
  imports Store Complex_Main
begin

text \<open>
  The wall clock of \<open>src/src/Clock/Manager.h\<close>: the sources, their configuration, the
  arbitration between reports, the seed from the hardware clock, and the settings file.

  A \<open>double\<close> is a rational, an infinity or not a number; the cast of the last three to
  \<open>int64_t\<close> is undefined in C++ and a parameter here. \<open>ms\<close> is \<open>millis()\<close> at the call. A JSON
  document is what ArduinoJson parsed.
\<close>

section \<open>Sources and configuration\<close>

datatype source = SNone | GPS | NTP | Browser | RNS | RTC

fun source_name :: "source \<Rightarrow> string" where
  "source_name GPS = ''gps''"
| "source_name NTP = ''ntp''"
| "source_name Browser = ''browser''"
| "source_name RNS = ''rns''"
| "source_name RTC = ''rtc''"
| "source_name SNone = ''none''"

definition source_from_name :: "string option \<Rightarrow> source" where
  "source_from_name name =
    (case name of
       None \<Rightarrow> SNone
     | Some n \<Rightarrow>
         if n = ''gps'' then GPS else if n = ''ntp'' then NTP
         else if n = ''browser'' then Browser else if n = ''rns'' then RNS else SNone)"

record source_config =
  enabled :: bool
  priority :: nat                        \<comment> \<open>\<open>uint8_t\<close>\<close>
  interval_s :: nat                      \<comment> \<open>\<open>uint32_t\<close>\<close>

fun default_config :: "source \<Rightarrow> source_config" where
  "default_config NTP = \<lparr>enabled = True, priority = 0, interval_s = 3600\<rparr>"
| "default_config GPS = \<lparr>enabled = True, priority = 1, interval_s = 3600\<rparr>"
| "default_config Browser = \<lparr>enabled = True, priority = 2, interval_s = 0\<rparr>"
| "default_config RNS = \<lparr>enabled = True, priority = 3, interval_s = 0\<rparr>"
| "default_config SNone = \<lparr>enabled = False, priority = 255, interval_s = 0\<rparr>"
| "default_config RTC = \<lparr>enabled = False, priority = 255, interval_s = 0\<rparr>"

text \<open>The array slot of a source.\<close>

definition slot :: "source \<Rightarrow> source" where
  "slot s = (if s = RTC then SNone else s)"

datatype double = Fin rat | PosInf | NegInf | NaN

fun dless :: "double \<Rightarrow> double \<Rightarrow> bool" where
  "dless NaN _ = False"
| "dless _ NaN = False"
| "dless (Fin a) (Fin b) = (a < b)"
| "dless (Fin a) PosInf = True"
| "dless (Fin a) NegInf = False"
| "dless PosInf _ = False"
| "dless NegInf NegInf = False"
| "dless NegInf _ = True"

text \<open>\<open>(int64_t)\<close> of a double, \<open>ub\<close> where it is undefined.\<close>

fun to_int64 :: "int \<Rightarrow> double \<Rightarrow> int" where
  "to_int64 ub (Fin q) = (if q \<ge> 0 then \<lfloor>q\<rfloor> else - \<lfloor>- q\<rfloor>)"
| "to_int64 ub _ = ub"

definition sane_epoch :: "double \<Rightarrow> bool" where
  "sane_epoch e \<longleftrightarrow> \<not> (dless e (Fin 1577836800) \<or> dless (Fin 4102444800) e)"

section \<open>State\<close>

record clock =
  cfg :: "source \<Rightarrow> source_config"
  offset_seconds :: int
  current_source :: source
  current_priority :: nat
  rtc_seed_applied :: bool
  last_calibrated_ms :: nat
  has_on_adopt :: bool
  has_on_change :: bool

datatype clock_call = OnAdopt source double | OnChange source double

definition boot_clock :: clock where
  "boot_clock = \<lparr>cfg = default_config, offset_seconds = 0, current_source = SNone, current_priority = 255,
     rtc_seed_applied = False, last_calibrated_ms = 0, has_on_adopt = False, has_on_change = False\<rparr>"

definition get_config :: "clock \<Rightarrow> source \<Rightarrow> source_config" where
  "get_config c s = cfg c (slot s)"

definition set_config :: "source \<Rightarrow> source_config \<Rightarrow> clock \<Rightarrow> clock" where
  "set_config s x c = (if s = SNone then c else c\<lparr>cfg := (cfg c)(slot s := x)\<rparr>)"

definition set_on_adopt :: "bool \<Rightarrow> clock \<Rightarrow> clock" where
  "set_on_adopt b c = c\<lparr>has_on_adopt := b\<rparr>"

definition set_on_change :: "bool \<Rightarrow> clock \<Rightarrow> clock" where
  "set_on_change b c = c\<lparr>has_on_change := b\<rparr>"

definition is_calibrated :: "clock \<Rightarrow> bool" where
  "is_calibrated c \<longleftrightarrow> current_source c \<noteq> SNone \<or> rtc_seed_applied c"

definition now_epoch :: "nat \<Rightarrow> clock \<Rightarrow> rat" where
  "now_epoch ms c =
    (if current_source c = SNone \<and> \<not> rtc_seed_applied c then 0
     else of_int (offset_seconds c) + of_nat ms / 1000)"

section \<open>Reports\<close>

definition seed_from_rtc :: "int \<Rightarrow> nat \<Rightarrow> double \<Rightarrow> clock \<Rightarrow> clock \<times> clock_call list" where
  "seed_from_rtc ub ms e c =
    (if \<not> sane_epoch e then (c, [])
     else (c\<lparr>offset_seconds := to_int64 ub e - int (ms div 1000), rtc_seed_applied := True,
             last_calibrated_ms := ms, current_source := RTC, current_priority := 255\<rparr>,
           if has_on_change c then [OnChange RTC e] else []))"

definition report_time :: "int \<Rightarrow> nat \<Rightarrow> source \<Rightarrow> double \<Rightarrow> clock \<Rightarrow> clock \<times> clock_call list \<times> bool" where
  "report_time ub ms src e c =
    (if src = SNone then (c, [], False)
     else let k = get_config c src in
       if \<not> enabled k then (c, [], False)
       else if \<not> sane_epoch e then (c, [], False)
       else if current_source c \<noteq> SNone \<and> priority k > current_priority c then (c, [], False)
       else (c\<lparr>offset_seconds := to_int64 ub e - int (ms div 1000), current_source := src,
               current_priority := priority k, last_calibrated_ms := ms\<rparr>,
             (if has_on_adopt c then [OnAdopt src e] else []) @ (if has_on_change c then [OnChange src e] else []),
             True))"

section \<open>The settings file\<close>

datatype json = JBool bool | JInt int | JOther

record source_json =
  j_enabled :: "json option"
  j_priority :: "json option"
  j_interval :: "json option"

fun as_bool :: "json option \<Rightarrow> bool option" where
  "as_bool (Some (JBool b)) = Some b"
| "as_bool _ = None"

text \<open>\<open>is<int>()\<close> and \<open>is<long>()\<close>: the number fits 32 bits.\<close>

fun as_int32 :: "json option \<Rightarrow> int option" where
  "as_int32 (Some (JInt v)) = (if - (2 ^ 31) \<le> v \<and> v < 2 ^ 31 then Some v else None)"
| "as_int32 _ = None"

definition load_source :: "source_json option \<Rightarrow> source_config \<Rightarrow> source_config" where
  "load_source v c =
    (case v of None \<Rightarrow> c
     | Some j \<Rightarrow>
         let c1 = (case as_bool (j_enabled j) of Some b \<Rightarrow> c\<lparr>enabled := b\<rparr> | None \<Rightarrow> c);
             c2 = (case as_int32 (j_priority j) of Some p \<Rightarrow> c1\<lparr>priority := nat (p mod 256)\<rparr> | None \<Rightarrow> c1)
         in case as_int32 (j_interval j) of Some i \<Rightarrow> c2\<lparr>interval_s := nat (i mod 2 ^ 32)\<rparr> | None \<Rightarrow> c2)"

definition user_sources :: "source list" where
  "user_sources = [GPS, NTP, Browser, RNS]"

text \<open>\<open>None\<close>: no file, an empty one, or one that does not parse.\<close>

definition load_config :: "(string \<Rightarrow> source_json option) option \<Rightarrow> clock \<Rightarrow> clock" where
  "load_config doc c =
    (case doc of None \<Rightarrow> c
     | Some d \<Rightarrow> c\<lparr>cfg := foldl (\<lambda>f s. f(s := load_source (d (source_name s)) (f s))) (cfg c) user_sources\<rparr>)"

definition persist_config :: "clock \<Rightarrow> (string \<Rightarrow> source_json option)" where
  "persist_config c =
    foldl (\<lambda>d s. d(source_name s := Some
        \<lparr>j_enabled = Some (JBool (enabled (cfg c s))), j_priority = Some (JInt (int (priority (cfg c s)))),
         j_interval = Some (JInt (int (interval_s (cfg c s))))\<rparr>)) (\<lambda>_. None) user_sources"

section \<open>Arbitration\<close>

datatype clock_event = Report nat source double

fun clock_step :: "clock \<Rightarrow> clock_event \<Rightarrow> clock \<times> clock_call list" where
  "clock_step c (Report ms s e) = (case report_time 0 ms s e c of (c', calls, _) \<Rightarrow> (c', calls))"

text \<open>What the configuration promises: of the acceptable reports the one of the best priority
  counts, the latest among equals.\<close>

fun acceptable :: "clock \<Rightarrow> clock_event \<Rightarrow> bool" where
  "acceptable c (Report ms s e) = (s \<noteq> SNone \<and> enabled (get_config c s) \<and> sane_epoch e)"

fun rank :: "clock \<Rightarrow> clock_event \<Rightarrow> nat" where
  "rank c (Report ms s e) = priority (get_config c s)"

fun winner :: "clock \<Rightarrow> clock_event option \<Rightarrow> clock_event list \<Rightarrow> clock_event option" where
  "winner c w [] = w"
| "winner c w (r # rs) =
    winner c (if acceptable c r \<and> (case w of None \<Rightarrow> True | Some r' \<Rightarrow> rank c r \<le> rank c r') then Some r else w) rs"

text \<open>The clock shows a report.\<close>

definition displays :: "clock \<Rightarrow> clock_event option \<Rightarrow> bool" where
  "displays c w \<longleftrightarrow> (case w of
      None \<Rightarrow> current_source c = SNone
    | Some (Report ms s e) \<Rightarrow> s \<noteq> SNone \<and> current_source c = s \<and> current_priority c = rank c (Report ms s e)
        \<and> offset_seconds c = to_int64 0 e - int (ms div 1000) \<and> last_calibrated_ms c = ms)"

lemma step_cfg: "cfg (fst (clock_step c r)) = cfg c"
  by (cases r) (simp add: report_time_def Let_def)

lemma step_displays:
  assumes "displays c w"
  shows "displays (fst (clock_step c r))
    (if acceptable c r \<and> (case w of None \<Rightarrow> True | Some r' \<Rightarrow> rank c r \<le> rank c r') then Some r else w)"
  using assms
  by (cases r; cases w)
    (auto simp: displays_def report_time_def get_config_def Let_def split: clock_event.splits)

lemma acceptable_cfg: "cfg c' = cfg c \<Longrightarrow> acceptable c' = acceptable c"
  by (rule ext, case_tac x) (simp add: get_config_def)

lemma rank_cfg: "cfg c' = cfg c \<Longrightarrow> rank c' = rank c"
  by (rule ext, case_tac x) (simp add: get_config_def)

lemma winner_cfg: "cfg c' = cfg c \<Longrightarrow> winner c' w rs = winner c w rs"
proof (induction rs arbitrary: w)
  case (Cons r rs)
  then show ?case by (cases w) (simp_all add: acceptable_cfg [OF Cons.prems] rank_cfg [OF Cons.prems])
qed simp

lemma run_displays: "displays c w \<Longrightarrow> displays (fst (run clock_step rs c)) (winner c w rs)"
proof (induction rs arbitrary: c w)
  case (Cons r rs)
  from Cons.IH [OF step_displays [OF Cons.prems, of r]] show ?case
    by (simp add: split_beta winner_cfg [OF step_cfg] cong: option.case_cong)
qed simp

lemma winner_append: "winner c w (xs @ ys) = winner c (winner c w xs) ys"
  by (induction xs arbitrary: w) auto

lemma winner_ge:
  "\<forall>r' \<in> set xs. acceptable c r' \<longrightarrow> n \<le> rank c r' \<Longrightarrow> (\<forall>r0. w = Some r0 \<longrightarrow> n \<le> rank c r0) \<Longrightarrow>
    winner c w xs = Some r0 \<Longrightarrow> n \<le> rank c r0"
  by (induction xs arbitrary: w) (auto split: if_splits)

lemma winner_stays:
  "\<forall>r' \<in> set ys. acceptable c r' \<longrightarrow> rank c r < rank c r' \<Longrightarrow> winner c (Some r) ys = Some r"
  by (induction ys) auto

lemma winner_is:
  assumes "acceptable c r" "\<forall>r' \<in> set xs. acceptable c r' \<longrightarrow> rank c r \<le> rank c r'"
    "\<forall>r' \<in> set ys. acceptable c r' \<longrightarrow> rank c r < rank c r'"
  shows "winner c None (xs @ r # ys) = Some r"
proof -
  have "rank c r \<le> rank c r0" if "winner c None xs = Some r0" for r0
    by (rule winner_ge [OF assms(2) _ that]) simp
  with assms show ?thesis
    by (cases "winner c None xs") (auto simp: winner_append winner_stays)
qed

text \<open>One source through the settings file.\<close>

lemma persist_source: "s \<in> set user_sources \<Longrightarrow> persist_config c (source_name s) = Some
    \<lparr>j_enabled = Some (JBool (enabled (cfg c s))), j_priority = Some (JInt (int (priority (cfg c s)))),
     j_interval = Some (JInt (int (interval_s (cfg c s))))\<rparr>"
  by (auto simp: user_sources_def persist_config_def)

lemma load_each: "s \<in> set user_sources \<Longrightarrow> cfg (load_config (Some d) c0) s = load_source (d (source_name s)) (cfg c0 s)"
  by (auto simp: user_sources_def load_config_def)

lemma load_source_stored:
  assumes "p < 256" "i < 2 ^ 31"
  shows "load_source (Some \<lparr>j_enabled = Some (JBool b), j_priority = Some (JInt (int p)), j_interval = Some (JInt (int i))\<rparr>) k
    = \<lparr>enabled = b, priority = p, interval_s = i\<rparr>"
proof -
  have "as_int32 (Some (JInt (int p))) = Some (int p)" "as_int32 (Some (JInt (int i))) = Some (int i)"
    using assms by simp_all
  moreover have "nat (int p mod 256) = p" "nat (int i mod 2 ^ 32) = i" using assms by simp_all
  ultimately show ?thesis by (simp add: load_source_def Let_def del: as_int32.simps)
qed

text \<open>A disabled source does not report: the clock keeps what it has, and a worse rank stays out.\<close>

lemma stuck_step:
  assumes "current_source c \<noteq> SNone" "\<And>s. enabled (get_config c s) \<Longrightarrow> current_priority c < priority (get_config c s)"
  shows "clock_step c r = (c, [])"
  using assms by (cases r) (fastforce simp: report_time_def Let_def)

lemma stuck_run:
  assumes "current_source c \<noteq> SNone" "\<And>s. enabled (get_config c s) \<Longrightarrow> current_priority c < priority (get_config c s)"
  shows "run clock_step rs c = (c, [])"
  by (induction rs) (simp_all add: stuck_step [OF assms])

section \<open>Properties\<close>



text \<open>Disabling the source the clock was last set from does not release the clock: as long as
  every enabled source has a worse priority number, no report of any source is adopted any
  more, so a clock once set from NTP stays on NTP's last value when NTP is switched off.\<close>

theorem disabled_source_holds_clock:
  assumes "current_source c = s" "s \<noteq> SNone" "s \<noteq> RTC" "current_priority c = priority (get_config c s)"
    "\<And>s'. slot s' \<noteq> s \<Longrightarrow> enabled (get_config c s') \<Longrightarrow> priority (get_config c s) < priority (get_config c s')"
    "c' = set_config s ((get_config c s)\<lparr>enabled := False\<rparr>) c"
  shows "run clock_step rs c' = (c', [])"
proof (rule stuck_run)
  show "current_source c' \<noteq> SNone" using assms by (simp add: set_config_def)
  fix s' assume e: "enabled (get_config c' s')"
  have "slot s = s" using assms(3) by (simp add: slot_def)
  with e assms(2,6) have "slot s' \<noteq> s" by (auto simp: set_config_def get_config_def)
  with e assms \<open>slot s = s\<close> show "current_priority c' < priority (get_config c' s')"
    by (auto simp: set_config_def get_config_def)
qed

theorem disabled_source_holds_clock_witness:
  "run clock_step [Report 700000000 GPS (Fin 1800000000)]
     (set_config NTP ((get_config (fst (clock_step boot_clock (Report 0 NTP (Fin 1700000000)))) NTP)\<lparr>enabled := False\<rparr>)
       (fst (clock_step boot_clock (Report 0 NTP (Fin 1700000000)))))
   = (set_config NTP ((get_config (fst (clock_step boot_clock (Report 0 NTP (Fin 1700000000)))) NTP)\<lparr>enabled := False\<rparr>)
       (fst (clock_step boot_clock (Report 0 NTP (Fin 1700000000)))), [])"
proof (rule disabled_source_holds_clock [where s = NTP and c = "fst (clock_step boot_clock (Report 0 NTP (Fin 1700000000)))"])
  fix s'
  assume "slot s' \<noteq> NTP" "enabled (get_config (fst (clock_step boot_clock (Report 0 NTP (Fin 1700000000)))) s')"
  then show "priority (get_config (fst (clock_step boot_clock (Report 0 NTP (Fin 1700000000)))) NTP)
      < priority (get_config (fst (clock_step boot_clock (Report 0 NTP (Fin 1700000000)))) s')"
    by (cases s') (simp_all add: boot_clock_def get_config_def slot_def report_time_def sane_epoch_def)
qed (simp_all add: boot_clock_def get_config_def slot_def report_time_def sane_epoch_def)

text \<open>The settings file: loading what was persisted restores the configuration of every source
  the user can set, whatever the clock had before.\<close>

theorem clock_config_roundtrip:
  assumes "\<And>s. priority (cfg c s) < 256 \<and> interval_s (cfg c s) < 2 ^ 31" "s \<in> set user_sources"
  shows "get_config (load_config (Some (persist_config c)) c0) s = get_config c s"
proof -
  have "slot s = s" using assms(2) by (auto simp: user_sources_def slot_def)
  moreover have "load_source (persist_config c (source_name s)) (cfg c0 s) = cfg c s"
    using assms(1) [of s] by (simp add: persist_source [OF assms(2)] load_source_stored)
  ultimately show ?thesis using load_each [OF assms(2)] by (simp add: get_config_def)
qed

theorem clock_config_roundtrip_witness:
  "get_config (load_config (Some (persist_config boot_clock)) boot_clock) NTP = get_config boot_clock NTP"
proof (rule clock_config_roundtrip)
  fix s show "priority (cfg boot_clock s) < 256 \<and> interval_s (cfg boot_clock s) < 2 ^ 31"
    by (cases s) (simp_all add: boot_clock_def)
qed (simp add: user_sources_def)

text \<open>Not a number passes the range check of a report.\<close>

lemma nan_accepted: "acceptable c (Report ms s NaN) = (s \<noteq> SNone \<and> enabled (get_config c s))"
  by (simp add: sane_epoch_def)

end
