(* ===== verification/LxmfSend.thy ===== *)
theory LxmfSend
  imports LxmfOpp MsgPack Staging Clock
begin

text \<open>
  The sending side of \<open>src/src/LXMF/LXMFMinimal.h\<close>: \<open>prepare_message\<close> packs the payload and
  computes the message id, \<open>send_prepared\<close> signs it and hands it to the opportunistic or the
  DIRECT machinery; \<open>announce\<close> and \<open>peer_stamp_cost\<close> carry the stamp cost.

  Text is its bytes. A payload under construction is the bytes written so far; a writer gets
  the room left of \<open>mp_cap\<close>. Hash, signature and the conversion of a time to the bits of a
  double belong to the RNS library and the compiler and are fields of \<open>world\<close>.
\<close>

section \<open>Messages\<close>

record attachment =
  att_tag :: u8
  staging_id :: nat
  staging_total :: nat
  att_data :: bytes
  filename :: bytes
  ext :: bytes
  audio_mode :: u8
  mime :: bytes

definition byte_count :: "attachment \<Rightarrow> nat" where
  "byte_count a = (if staging_id a \<noteq> 0 then staging_total a else length (att_data a))"

record extra_fields =
  telemetry :: bytes
  commands :: bytes
  custom_meta :: bytes

record prepared =
  payload :: bytes
  message_id :: hash
  pm_ts :: "64 word"

record attachment_meta =
  m_tag :: u8
  m_size :: nat
  m_filename :: bytes
  m_display :: bytes
  m_mime :: bytes
  m_backend :: bytes

record message_record =
  rec_seq :: nat
  rec_ts :: "64 word"
  boot_epoch :: nat
  received_ms :: nat
  peer_hash :: hash
  title :: bytes
  content :: bytes
  body_size :: nat
  incoming :: bool
  signature_ok :: bool
  rec_status :: outbox_status
  packet_hash :: hash
  has_telemetry :: bool
  rec_telemetry :: bytes
  rec_commands :: bytes
  rec_meta :: bytes
  stamp_checked :: bool
  stamp_valid :: bool
  stamp_value :: int
  attachments :: "attachment_meta list"

definition MAX_TELEMETRY_BLOB :: nat where "MAX_TELEMETRY_BLOB = 512"

record node =
  initialized :: bool
  own_hash :: hash
  links :: outbox
  opps :: opp_map
  stage :: staging
  clk :: clock

record world =
  net :: env
  disk :: senv
  bits :: "rat \<Rightarrow> 64 word"               \<comment> \<open>a time as a double\<close>
  full_hash :: "bytes \<Rightarrow> hash"
  sign :: "bytes \<Rightarrow> bytes option"         \<comment> \<open>None: it throws\<close>
  packet :: "bytes \<Rightarrow> send_outcome"       \<comment> \<open>a packet to the destination\<close>
  packet_id :: "bytes \<Rightarrow> hash"
  epoch_no :: nat                         \<comment> \<open>BootCounter::current\<close>
  big_buffer :: bool                      \<comment> \<open>PSRAM for a payload above 64 KiB\<close>
  persist :: "(hash \<Rightarrow> attachment list \<Rightarrow> attachment_meta list) option"

datatype send_error = Refused string | Thrown

text \<open>Early return on an error.\<close>

fun and_then :: "'e + 'a \<Rightarrow> ('a \<Rightarrow> 'e + 'b) \<Rightarrow> 'e + 'b" where
  "and_then (Inl e) f = Inl e"
| "and_then (Inr x) f = f x"

section \<open>Packing the payload\<close>

definition compile_time_epoch :: rat where "compile_time_epoch = 1735689600"

definition get_timestamp :: "nat \<Rightarrow> clock \<Rightarrow> rat" where
  "get_timestamp ms c = (if is_calibrated c then now_epoch ms c else compile_time_epoch + of_nat ms / 1000)"

text \<open>Append what a writer puts into the room left; nothing written is its failure.\<close>

definition put :: "string \<Rightarrow> (nat \<Rightarrow> bytes) \<Rightarrow> nat \<Rightarrow> bytes \<Rightarrow> string + bytes" where
  "put err w cap b = (let x = w (cap - length b) in if x = [] then Inl err else Inr (b @ x))"

definition pack_raw_field :: "string \<Rightarrow> u8 \<Rightarrow> bytes \<Rightarrow> nat \<Rightarrow> bytes \<Rightarrow> string + bytes" where
  "pack_raw_field err key raw cap b =
    and_then (put err (\<lambda>r. pack_uint8 r key) cap b)
      (\<lambda>b. if wrap32 (length b + length raw) > cap then Inl err else Inr (b @ raw))"

text \<open>Stream a staged attachment in 4 KiB reads.\<close>

function copy_staged :: "(nat \<Rightarrow> nat \<Rightarrow> bytes) \<Rightarrow> nat \<Rightarrow> nat \<Rightarrow> bytes \<Rightarrow> bytes option" where
  "copy_staged rd dlen off b =
    (if off < dlen then
       (let got = rd off (min 4096 (dlen - off)) in
        if got = [] then None else copy_staged rd dlen (off + length got) (b @ got))
     else Some b)"
  by pat_completeness auto
termination by (relation "measure (\<lambda>(rd, dlen, off, b). dlen - off)") (auto simp: diff_less_mono2)

declare copy_staged.simps [simp del]

definition pack_pair :: "string \<Rightarrow> (nat \<Rightarrow> nat \<Rightarrow> nat \<Rightarrow> bytes) \<Rightarrow> bytes \<Rightarrow> u8 \<Rightarrow> bool \<Rightarrow> attachment \<Rightarrow> nat \<Rightarrow> bytes \<Rightarrow> string + bytes" where
  "pack_pair err rd name mode use_mode a cap b =
    and_then (put err (\<lambda>r. pack_array_header r 2) cap b) (\<lambda>b.
    and_then (put err (\<lambda>r. if use_mode then pack_uint8 r mode else pack_str r name) cap b) (\<lambda>b.
    let dlen = byte_count a in
    and_then (put err (\<lambda>r. pack_bin_header r dlen) cap b) (\<lambda>b.
    if wrap32 (length b + dlen) > cap then Inl err
    else if staging_id a \<noteq> 0 then
      (case copy_staged (rd (staging_id a)) dlen 0 b of None \<Rightarrow> Inl err | Some b' \<Rightarrow> Inr b')
    else Inr (b @ att_data a))))"

fun pack_pairs :: "string \<Rightarrow> (nat \<Rightarrow> nat \<Rightarrow> nat \<Rightarrow> bytes) \<Rightarrow> attachment list \<Rightarrow> nat \<Rightarrow> bytes \<Rightarrow> string + bytes" where
  "pack_pairs err rd [] cap b = Inr b"
| "pack_pairs err rd (a # as) cap b =
    and_then (pack_pair err rd (filename a) 0 False a cap b) (pack_pairs err rd as cap)"

definition tagged :: "u8 \<Rightarrow> attachment list \<Rightarrow> attachment list" where
  "tagged t as = filter (\<lambda>a. att_tag a = t) as"

text \<open>A null \<open>extra\<close> counts as one without fields.\<close>

definition fields_of :: "extra_fields option \<Rightarrow> extra_fields" where
  "fields_of x = (case x of None \<Rightarrow> \<lparr>telemetry = [], commands = [], custom_meta = []\<rparr> | Some e \<Rightarrow> e)"

definition mp_cap :: "bytes \<Rightarrow> bytes \<Rightarrow> attachment list \<Rightarrow> extra_fields option \<Rightarrow> nat" where
  "mp_cap ti co as x =
    96 + length ti + length co + sum_list (map byte_count as)
    + sum_list (map (\<lambda>a. length (filename a) + length (ext a)) as) + 16 * length as
    + (let t = telemetry (fields_of x) in if t = [] then 0 else length t + 8)
    + (case x of None \<Rightarrow> 0 | Some e \<Rightarrow> length (commands e) + length (custom_meta e) + 8)"

definition pack_image :: "(nat \<Rightarrow> nat \<Rightarrow> nat \<Rightarrow> bytes) \<Rightarrow> attachment list \<Rightarrow> nat \<Rightarrow> bytes \<Rightarrow> string + bytes" where
  "pack_image rd as cap b =
    (case tagged FIELD_IMAGE as of
       [] \<Rightarrow> Inr b
     | a # _ \<Rightarrow> and_then (put ''Internal error packing image key.'' (\<lambda>r. pack_uint8 r FIELD_IMAGE) cap b)
         (pack_pair ''Internal error packing image attachment.'' rd (ext a) 0 False a cap))"

definition pack_audio :: "(nat \<Rightarrow> nat \<Rightarrow> nat \<Rightarrow> bytes) \<Rightarrow> attachment list \<Rightarrow> nat \<Rightarrow> bytes \<Rightarrow> string + bytes" where
  "pack_audio rd as cap b =
    (case tagged FIELD_AUDIO as of
       [] \<Rightarrow> Inr b
     | a # _ \<Rightarrow> and_then (put ''Internal error packing audio key.'' (\<lambda>r. pack_uint8 r FIELD_AUDIO) cap b)
         (pack_pair ''Internal error packing audio attachment.'' rd [] (audio_mode a) True a cap))"

definition pack_files :: "(nat \<Rightarrow> nat \<Rightarrow> nat \<Rightarrow> bytes) \<Rightarrow> attachment list \<Rightarrow> nat \<Rightarrow> bytes \<Rightarrow> string + bytes" where
  "pack_files rd as cap b =
    (let fs = tagged FIELD_FILE_ATTACHMENTS as in
     if fs = [] then Inr b
     else and_then (put ''Internal error packing file-attachments key.'' (\<lambda>r. pack_uint8 r FIELD_FILE_ATTACHMENTS) cap b) (\<lambda>b.
       and_then (put ''Too many file attachments to encode.'' (\<lambda>r. pack_array_header r (length fs)) cap b)
         (pack_pairs ''Internal error packing file attachment.'' rd fs cap)))"

definition field_count :: "attachment list \<Rightarrow> extra_fields \<Rightarrow> nat" where
  "field_count as ex =
    (if tagged FIELD_FILE_ATTACHMENTS as = [] then 0 else 1) + (if tagged FIELD_IMAGE as = [] then 0 else 1)
    + (if tagged FIELD_AUDIO as = [] then 0 else 1) + (if telemetry ex = [] then 0 else 1)
    + (if commands ex = [] then 0 else 1) + (if custom_meta ex = [] then 0 else 1)"

definition pack_telemetry :: "extra_fields \<Rightarrow> nat \<Rightarrow> bytes \<Rightarrow> string + bytes" where
  "pack_telemetry ex cap b =
    (if telemetry ex = [] then Inr b
     else and_then (put ''Internal error packing telemetry.'' (\<lambda>r. pack_uint8 r FIELD_TELEMETRY) cap b)
       (put ''Internal error packing telemetry.'' (\<lambda>r. pack_bin r (telemetry ex)) cap))"

definition pack_fields :: "(nat \<Rightarrow> nat \<Rightarrow> nat \<Rightarrow> bytes) \<Rightarrow> attachment list \<Rightarrow> extra_fields \<Rightarrow> nat \<Rightarrow> bytes \<Rightarrow> string + bytes" where
  "pack_fields rd as ex cap b =
    (if as = [] \<and> telemetry ex = [] \<and> commands ex = [] \<and> custom_meta ex = [] then Inr (b @ [0xC0])
     else
       and_then (put ''Too many attachments.'' (\<lambda>r. pack_map_header r (field_count as ex)) cap b) (\<lambda>b.
       and_then (pack_telemetry ex cap b) (\<lambda>b.
       and_then (if commands ex = [] then Inr b
                 else pack_raw_field ''Internal error packing commands.'' FIELD_COMMANDS (commands ex) cap b) (\<lambda>b.
       and_then (if custom_meta ex = [] then Inr b
                 else pack_raw_field ''Internal error packing custom meta.'' FIELD_CUSTOM_META (custom_meta ex) cap b) (\<lambda>b.
       and_then (pack_image rd as cap b) (\<lambda>b.
       and_then (pack_audio rd as cap b) (pack_files rd as cap)))))))"

definition pack_payload ::
  "(nat \<Rightarrow> nat \<Rightarrow> nat \<Rightarrow> bytes) \<Rightarrow> 64 word \<Rightarrow> bytes \<Rightarrow> bytes \<Rightarrow> attachment list \<Rightarrow> extra_fields option \<Rightarrow> string + bytes" where
  "pack_payload rd ts ti co as x =
    (let cap = mp_cap ti co as x in
     and_then (put ''Internal error packing timestamp.'' (\<lambda>r. pack_float64 r ts) cap [0x94]) (\<lambda>b.
     and_then (put ''Title is too long to encode.'' (\<lambda>r. pack_bin_str r ti) cap b) (\<lambda>b.
     and_then (put ''Internal error: content pack returned 0 unexpectedly.'' (\<lambda>r. pack_bin_str r co) cap b)
       (pack_fields rd as (fields_of x) cap))))"

section \<open>Preparing\<close>

definition DRAM_BUF_THRESHOLD :: nat where "DRAM_BUF_THRESHOLD = 64 * 1024"

text \<open>\<open>StagingReleaser\<close>: on every path out.\<close>

fun release_all :: "senv \<Rightarrow> attachment list \<Rightarrow> staging \<Rightarrow> staging" where
  "release_all E [] s = s"
| "release_all E (a # as) s = release_all E as (if staging_id a \<noteq> 0 then fst (release E (staging_id a) s) else s)"

definition blank_meta :: attachment_meta where
  "blank_meta = \<lparr>m_tag = 0, m_size = 0, m_filename = [], m_display = [], m_mime = [], m_backend = []\<rparr>"

text \<open>\<open>"image." + ext\<close>\<close>

definition display_name :: "attachment \<Rightarrow> bytes" where
  "display_name a =
    (if att_tag a = FIELD_IMAGE \<and> ext a \<noteq> [] then [0x69, 0x6D, 0x61, 0x67, 0x65, 0x2E] @ ext a else filename a)"

definition outbox_meta :: "world \<Rightarrow> hash \<Rightarrow> attachment list \<Rightarrow> attachment_meta list" where
  "outbox_meta W mid as =
    (let ps = (case persist W of None \<Rightarrow> [] | Some f \<Rightarrow> f mid as);
         have = length ps = length as
     in map (\<lambda>i. (if have then ps ! i else blank_meta)
         \<lparr>m_tag := att_tag (as ! i), m_size := byte_count (as ! i), m_display := display_name (as ! i),
          m_mime := mime (as ! i)\<rparr>) [0..<length as])"

definition hashed_part :: "node \<Rightarrow> hash \<Rightarrow> bytes \<Rightarrow> bytes" where
  "hashed_part n d p = take HASH_LEN d @ take HASH_LEN (own_hash n) @ p"

text \<open>The record keeps what it had where the code does not write.\<close>

definition fill_record ::
  "world \<Rightarrow> 64 word \<Rightarrow> hash \<Rightarrow> hash \<Rightarrow> bytes \<Rightarrow> bytes \<Rightarrow> attachment list \<Rightarrow> bytes \<Rightarrow> message_record \<Rightarrow> message_record" where
  "fill_record W ts mid d ti co as tel r =
    (let r1 = r\<lparr>rec_ts := ts, boot_epoch := epoch_no W, received_ms := now (net W), peer_hash := d, title := ti,
          content := co, incoming := False, signature_ok := True\<rparr>;
         r2 = (if tel = [] then r1
               else if length tel \<le> MAX_TELEMETRY_BLOB then r1\<lparr>has_telemetry := True, rec_telemetry := tel\<rparr>
               else r1\<lparr>has_telemetry := True\<rparr>)
     in r2\<lparr>attachments := attachments r2 @ outbox_meta W mid as\<rparr>)"

definition prepare_message ::
  "world \<Rightarrow> node \<Rightarrow> hash \<Rightarrow> bytes \<Rightarrow> bytes \<Rightarrow> attachment list \<Rightarrow> extra_fields option \<Rightarrow> message_record
    \<Rightarrow> node \<times> action list \<times> (send_error + prepared \<times> message_record)" where
  "prepare_message W n d ti co as x r =
    (let n' = n\<lparr>stage := release_all (disk W) as (stage n)\<rparr>;
         rd = (\<lambda>i off len. read_buf (disk W) i off len (stage n));
         ts = bits W (get_timestamp (now (net W)) (clk n))
     in if \<not> initialized n then (n', [], Inl (Refused ''LXMF gateway not initialised''))
        else if length d \<noteq> HASH_LEN then
          (n', [], Inl (Refused ''Destination address is the wrong length (expected 16 bytes).''))
        else if \<not> recall (net W) d \<or> \<not> has_path (net W) d then
          (n', [RequestPath d],
           Inl (Refused ''Finding a route to the recipient (sent a path request). Resend in a few seconds.''))
        else if mp_cap ti co as x > DRAM_BUF_THRESHOLD \<and> \<not> big_buffer W then
          (n', [], Inl (Refused ''Not enough memory to encode this message.''))
        else (case pack_payload rd ts ti co as x of
            Inl e \<Rightarrow> (n', [], Inl (Refused e))
          | Inr p \<Rightarrow>
              let mid = full_hash W (hashed_part n d p) in
              if HASH_LEN + SIG_LEN + length p > 1 * 1024 * 1024 then
                (n', [], Inl (Refused ''Message body is too large (> 1 MiB).''))
              else (n', [], Inr (\<lparr>payload = p, message_id = mid, pm_ts = ts\<rparr>,
                    fill_record W ts mid d ti co as (telemetry (fields_of x)) r))))"

section \<open>Sending\<close>

text \<open>The payload on the wire: a stamp rides as the fifth element.\<close>

definition payload_wire :: "bytes \<Rightarrow> bytes \<Rightarrow> string + bytes" where
  "payload_wire p stamp =
    (if stamp = [] then Inr p
     else if hd p \<noteq> 0x94 then Inl ''Internal error: unexpected payload framing for stamped send.''
     else Inr ([0x95] @ tl p @ [0xC4, byte_at 0 (length stamp)] @ stamp))"

definition content_size :: "bytes \<Rightarrow> nat" where
  "content_size pw = (if length pw > 16 then length pw - 16 else 0)"

definition send_opportunistic :: "world \<Rightarrow> node \<Rightarrow> hash \<Rightarrow> bytes \<Rightarrow> message_record
    \<Rightarrow> node \<times> action list \<times> (send_error + message_record)" where
  "send_opportunistic W n d w r =
    (let r1 = r\<lparr>packet_hash := packet_id W w\<rparr>; k = packet_id W w; t = now (net W) in
     case packet W w of
       SendThrows \<Rightarrow> (n, [], Inl Thrown)
     | NoReceipt \<Rightarrow> (n, [SendPacket d w], Inr (r1\<lparr>rec_status := Failed\<rparr>))
     | Accepted x \<Rightarrow>
         (n\<lparr>opps := mput (key_lt (net W)) k
              \<lparr>receipt = Some x, opp_record = k, opp_dest = d, opp_wire = w, opp_started_ms = t,
               delivery_attempts = 1, next_attempt_at_ms = t + DELIVERY_RETRY_WAIT_MS, opp_status = Sent\<rparr> (opps n)\<rparr>,
          [SendPacket d w], Inr (r1\<lparr>rec_status := Sent\<rparr>)))"

text \<open>The cached link when it is active and idle; else a closed one is dropped and a new one opened.\<close>

definition choose_link :: "env \<Rightarrow> hash \<Rightarrow> outbox \<Rightarrow> outbox \<times> action list \<times> (hash \<times> bool) option" where
  "choose_link E d s =
    (let fresh = (\<lambda>s. case new_link E d of
          None \<Rightarrow> (s, [], None)
        | Some l \<Rightarrow> (s\<lparr>direct := mput (key_lt E) d l (direct s)\<rparr>, [OpenLink d l], Some (l, False)))
     in case mfind (direct s) d of
          None \<Rightarrow> fresh s
        | Some l \<Rightarrow>
            if link_status E l = ACTIVE \<and> mfind (pend s) l = None then (s, [], Some (l, True))
            else if link_status E l = CLOSED then fresh (s\<lparr>direct := merase d (direct s)\<rparr>)
            else fresh s)"

definition new_pls :: "env \<Rightarrow> hash \<Rightarrow> hash \<Rightarrow> pls" where
  "new_pls E l d = \<lparr>wire = [], wire_path = [], link = l, started_ms = now E, dest_hash = d, resource_hash = [],
     total_bytes = 0, record_hash = l, retries_left = DEFAULT_OUTBOX_RETRIES, retry_pending = False,
     next_retry_at_ms = 0, status = Queued\<rparr>"

text \<open>Keep the wire in memory, or spill it to a file.\<close>

definition store_wire :: "env \<Rightarrow> nat \<Rightarrow> bytes \<Rightarrow> hash \<Rightarrow> hash \<Rightarrow> outbox \<Rightarrow> outbox \<times> pls" where
  "store_wire E csize dw l d s =
    (if csize > LXMF_LINK_PACKET_MAX then
       (case spill_wire_to_disk E dw l (files s) of (fs, p) \<Rightarrow>
          (s\<lparr>files := fs\<rparr>,
           if p = [] then (new_pls E l d)\<lparr>wire := dw\<rparr>
           else (new_pls E l d)\<lparr>wire_path := p, total_bytes := length dw\<rparr>))
     else (s, (new_pls E l d)\<lparr>wire := dw\<rparr>))"

definition send_direct :: "world \<Rightarrow> node \<Rightarrow> hash \<Rightarrow> nat \<Rightarrow> bytes \<Rightarrow> message_record
    \<Rightarrow> node \<times> action list \<times> (send_error + message_record)" where
  "send_direct W n d csize w r =
    (let E = net W in
     case choose_link E d (links n) of
       (s1, a1, None) \<Rightarrow> (n\<lparr>links := s1\<rparr>, a1, Inl Thrown)
     | (s1, a1, Some (l, reuse)) \<Rightarrow>
         (case store_wire E csize (take HASH_LEN d @ w) l d s1 of (s2, ps) \<Rightarrow>
           let s3 = s2\<lparr>pend := mput (key_lt E) l ps (pend s2)\<rparr>;
               r' = r\<lparr>rec_status := Queued, packet_hash := l\<rparr>
           in if reuse then
                (case outbound_link_established E l (s3\<lparr>link_reuses := wrap32 (link_reuses s3 + 1)\<rparr>) of
                   (s4, a2) \<Rightarrow> (n\<lparr>links := s4\<rparr>, a1 @ a2, Inr r'))
              else (n\<lparr>links := s3\<lparr>link_opens := wrap32 (link_opens s3 + 1)\<rparr>\<rparr>, a1, Inr r')))"

definition send_prepared :: "world \<Rightarrow> node \<Rightarrow> hash \<Rightarrow> prepared \<Rightarrow> bytes \<Rightarrow> message_record
    \<Rightarrow> node \<times> action list \<times> (send_error + message_record)" where
  "send_prepared W n d pm stamp r =
    (if \<not> initialized n then (n, [], Inl (Refused ''LXMF gateway not initialised''))
     else if payload pm = [] then (n, [], Inl (Refused ''Internal error: empty prepared payload.''))
     else if length (pend (links n)) + length (opps n) \<ge> MAX_INFLIGHT_SENDS then
       (n, [], Inl (Refused ''Too many messages are still being delivered. Wait a moment, then resend.''))
     else if \<not> recall (net W) d \<or> \<not> has_path (net W) d then
       (n, [RequestPath d], Inl (Refused ''The route to the recipient was lost. Issued a fresh path request.''))
     else let hp = hashed_part n d (payload pm); mh = full_hash W hp in
       if stamp \<noteq> [] \<and> mh \<noteq> message_id pm then
         (n, [], Inl (Refused ''Internal error: the message changed after its stamp was generated.''))
       else (case sign W (hp @ mh) of
           None \<Rightarrow> (n, [], Inl (Refused ''Signing failed. Identity may be misconfigured.''))
         | Some sg \<Rightarrow>
             if length sg \<noteq> SIG_LEN then
               (n, [], Inl (Refused ''Internal error: signature was not the expected length.''))
             else (case payload_wire (payload pm) stamp of
                 Inl e \<Rightarrow> (n, [], Inl (Refused e))
               | Inr pw \<Rightarrow>
                   let w = take HASH_LEN (own_hash n) @ take SIG_LEN sg @ pw in
                   if content_size pw \<le> LXMF_OPPORTUNISTIC_MAX then send_opportunistic W n d w r
                   else send_direct W n d (content_size pw) w r)))"

definition send_message ::
  "world \<Rightarrow> node \<Rightarrow> hash \<Rightarrow> bytes \<Rightarrow> bytes \<Rightarrow> attachment list \<Rightarrow> extra_fields option \<Rightarrow> message_record
    \<Rightarrow> node \<times> action list \<times> (send_error + message_record)" where
  "send_message W n d ti co as x r =
    (case prepare_message W n d ti co as x r of
       (n1, a1, Inl e) \<Rightarrow> (n1, a1, Inl e)
     | (n1, a1, Inr (pm, r1)) \<Rightarrow>
         (case send_prepared W n1 d pm [] r1 of (n2, a2, res) \<Rightarrow> (n2, a1 @ a2, res)))"

section \<open>Announces\<close>

definition set_stamp_cost :: "nat \<Rightarrow> nat" where
  "set_stamp_cost cost = (if 1 \<le> cost \<and> cost \<le> 254 then cost else 0)"

text \<open>The application data of an announce, \<open>None\<close> when it does not fit 128 bytes.\<close>

definition announce_data :: "bytes \<Rightarrow> nat \<Rightarrow> bytes option" where
  "announce_data name cost =
    (let nm = pack_bin (128 - 1) name in
     if nm = [] then None
     else let b = 0x93 # nm in
       if cost \<ge> 1 then
         (let c = pack_uint8 (128 - length b) (word_of_nat cost) in
          if c = [] then None else Some (b @ c @ [0x90]))
       else Some (b @ [0xC0, 0x90]))"

definition peer_stamp_cost :: "nat \<Rightarrow> bytes \<Rightarrow> nat option" where
  "peer_stamp_cost depth d =
    (let len = length d in
     if len < 2 then Some 0
     else let t = hd d in
       (case (if 0x90 \<le> t \<and> t \<le> 0x9F then Some (unat (t AND 0x0F), 1)
              else if t = 0xDC \<and> len \<ge> 3 then Some (be16 (d ! 1) (d ! 2), 3) else None) of
          None \<Rightarrow> Some 0
        | Some (k, off) \<Rightarrow>
            if k < 2 then Some 0
            else (case skip_element depth d len off of
                None \<Rightarrow> None
              | Some (ok, off) \<Rightarrow>
                  if \<not> ok then Some 0
                  else if off \<ge> len then Some 0
                  else let t = d ! off;
                           v = (if t \<le> 0x7F then unat t
                                else if t = 0xCC \<and> off + 1 < len then unat (d ! (off + 1))
                                else if t = 0xCD \<and> off + 2 < len then be16 (d ! (off + 1)) (d ! (off + 2))
                                else 0)
                       in Some (if 1 \<le> v \<and> v \<le> 254 then v else 0))))"

end
