(* ===== verification/LxmfPack.thy ===== *)
theory LxmfPack
  imports LxmfSend
begin

text \<open>
  What \<open>prepare_message\<close> packs, as a reference encoding of timestamp, title, content and fields,
  and the proof that the buffer it sizes by \<open>mp_cap\<close> is always large enough: packing succeeds
  and yields exactly this encoding.
\<close>

section \<open>The payload as it should be\<close>

text \<open>\<open>carries rd a d\<close>: the attachment's bytes are \<open>d\<close>, in line or readable from staging.\<close>

definition carries :: "(nat \<Rightarrow> nat \<Rightarrow> nat \<Rightarrow> bytes) \<Rightarrow> attachment \<Rightarrow> bytes \<Rightarrow> bool" where
  "carries rd a d \<longleftrightarrow> length d = byte_count a \<and>
     (if staging_id a = 0 then d = att_data a else \<forall>off n. rd (staging_id a) off n = take n (drop off d))"

definition pair_enc :: "bytes \<Rightarrow> bytes \<Rightarrow> bytes" where
  "pair_enc nm d = pack_array_header room 2 @ nm @ pack_bin room d"

text \<open>The fields as key and encoded value; \<open>body a\<close> is the content of an attachment.\<close>

definition image_entry :: "(attachment \<Rightarrow> bytes) \<Rightarrow> attachment list \<Rightarrow> (u8 \<times> bytes) list" where
  "image_entry body as =
    (case tagged FIELD_IMAGE as of [] \<Rightarrow> [] | a # _ \<Rightarrow> [(FIELD_IMAGE, pair_enc (pack_str room (ext a)) (body a))])"

definition audio_entry :: "(attachment \<Rightarrow> bytes) \<Rightarrow> attachment list \<Rightarrow> (u8 \<times> bytes) list" where
  "audio_entry body as =
    (case tagged FIELD_AUDIO as of [] \<Rightarrow> [] | a # _ \<Rightarrow> [(FIELD_AUDIO, pair_enc (pack_uint8 room (audio_mode a)) (body a))])"

definition files_enc :: "(attachment \<Rightarrow> bytes) \<Rightarrow> attachment list \<Rightarrow> bytes" where
  "files_enc body fs = pack_array_header room (length fs)
     @ concat (map (\<lambda>a. pair_enc (pack_str room (filename a)) (body a)) fs)"

definition files_entry :: "(attachment \<Rightarrow> bytes) \<Rightarrow> attachment list \<Rightarrow> (u8 \<times> bytes) list" where
  "files_entry body as =
    (let fs = tagged FIELD_FILE_ATTACHMENTS as in if fs = [] then [] else [(FIELD_FILE_ATTACHMENTS, files_enc body fs)])"

definition telemetry_entry :: "extra_fields \<Rightarrow> (u8 \<times> bytes) list" where
  "telemetry_entry ex = (if telemetry ex = [] then [] else [(FIELD_TELEMETRY, pack_bin room (telemetry ex))])"

definition raw_entry :: "u8 \<Rightarrow> bytes \<Rightarrow> (u8 \<times> bytes) list" where
  "raw_entry key raw = (if raw = [] then [] else [(key, raw)])"

definition entries :: "(attachment \<Rightarrow> bytes) \<Rightarrow> attachment list \<Rightarrow> extra_fields \<Rightarrow> (u8 \<times> bytes) list" where
  "entries body as ex =
    telemetry_entry ex @ raw_entry FIELD_COMMANDS (commands ex) @ raw_entry FIELD_CUSTOM_META (custom_meta ex)
    @ image_entry body as @ audio_entry body as @ files_entry body as"

definition entry_enc :: "u8 \<times> bytes \<Rightarrow> bytes" where
  "entry_enc e = pack_uint8 room (fst e) @ snd e"

definition fields_enc :: "(attachment \<Rightarrow> bytes) \<Rightarrow> attachment list \<Rightarrow> extra_fields \<Rightarrow> bytes" where
  "fields_enc body as ex =
    (if as = [] \<and> telemetry ex = [] \<and> commands ex = [] \<and> custom_meta ex = [] then [0xC0]
     else pack_map_header room (length (entries body as ex)) @ concat (map entry_enc (entries body as ex)))"

definition payload_enc :: "64 word \<Rightarrow> bytes \<Rightarrow> bytes \<Rightarrow> bytes \<Rightarrow> bytes" where
  "payload_enc ts ti co f = pack_float64 room ts @ pack_bin room ti @ pack_bin room co @ f"

section \<open>The buffer is always large enough\<close>

lemma put_eq: "w (cap - length b) = e \<Longrightarrow> e \<noteq> [] \<Longrightarrow> put err w cap b = Inr (b @ e)"
  by (simp add: put_def Let_def)

lemma pack_bin_cap: "length d + 5 \<le> c \<Longrightarrow> c < 4294967296 \<Longrightarrow> pack_bin c d = pack_bin room d"
  by (simp add: pack_bin_room room_def) (simp add: pack_bin_header_def)

lemma pack_str_cap: "length s + 5 \<le> c \<Longrightarrow> c < 4294967296 \<Longrightarrow> pack_str c s = pack_str room s"
  by (simp add: pack_str_def room_def Let_def)

lemma pack_bin_ne: "length d + 5 \<le> room \<Longrightarrow> pack_bin room d \<noteq> []"
  by (simp add: pack_bin_room [OF _ room_less] pack_bin_header_def)

lemma pack_str_ne: "length d + 5 \<le> room \<Longrightarrow> pack_str room d \<noteq> []"
  by (simp add: pack_str_def Let_def room_def)

lemma put_bin:
  assumes "length b + length d + 5 \<le> cap" "cap < 4294967296"
  shows "put err (\<lambda>r. pack_bin r d) cap b = Inr (b @ pack_bin room d)"
proof (rule put_eq)
  show "pack_bin (cap - length b) d = pack_bin room d" using assms by (intro pack_bin_cap) auto
  show "pack_bin room d \<noteq> []" using assms by (intro pack_bin_ne) (auto simp: room_def)
qed

lemma put_str:
  assumes "length b + length d + 5 \<le> cap" "cap < 4294967296"
  shows "put err (\<lambda>r. pack_str r d) cap b = Inr (b @ pack_str room d)"
proof (rule put_eq)
  show "pack_str (cap - length b) d = pack_str room d" using assms by (intro pack_str_cap) auto
  show "pack_str room d \<noteq> []" using assms by (intro pack_str_ne) (auto simp: room_def)
qed

lemma put_uint8: "length b + 2 \<le> cap \<Longrightarrow> put err (\<lambda>r. pack_uint8 r v) cap b = Inr (b @ pack_uint8 room v)"
  by (rule put_eq) (auto simp: pack_uint8_def room_def)

lemma put_array: "length b + 5 \<le> cap \<Longrightarrow> put err (\<lambda>r. pack_array_header r n) cap b = Inr (b @ pack_array_header room n)"
  by (rule put_eq) (auto simp: pack_array_header_def room_def)

lemma put_bin_header:
  "length b + 5 \<le> cap \<Longrightarrow> put err (\<lambda>r. pack_bin_header r n) cap b = Inr (b @ pack_bin_header room n)"
  by (rule put_eq) (auto simp: pack_bin_header_def room_def)

lemma header_lengths:
  "length (pack_bin_header room n) \<le> 5" "length (pack_array_header room n) \<le> 5" "length (pack_array_header room 2) = 1"
  "length (pack_uint8 room v) \<le> 2" "length (pack_float64 room w) = 9"
  by (auto simp: pack_bin_header_def pack_array_header_def pack_uint8_def pack_float64_def room_def)

lemma bin_length: "length d + 5 \<le> room \<Longrightarrow> length (pack_bin room d) \<le> length d + 5"
  using header_lengths(1) [of "length d"] by (simp add: pack_bin_room [OF _ room_less])

lemma str_length: "length d + 5 \<le> room \<Longrightarrow> length (pack_str room d) \<le> length d + 5"
  by (simp add: pack_str_def Let_def room_def)

text \<open>One pair: 11 bytes beside its name and content are enough.\<close>

lemma copy_staged_all:
  assumes "\<And>off n. rd off n = take n (drop off d)"
  shows "off \<le> length d \<Longrightarrow> copy_staged rd (length d) off b = Some (b @ drop off d)"
proof (induction "length d - off" arbitrary: off b rule: less_induct)
  case less
  show ?case
  proof (cases "off < length d")
    case True
    let ?n = "min 4096 (length d - off)"
    let ?g = "take ?n (drop off d)"
    have g: "?g \<noteq> []" "length ?g = ?n" using True by auto
    have "copy_staged rd (length d) (off + ?n) (b @ ?g) = Some ((b @ ?g) @ drop (off + ?n) d)"
      using True by (intro less.hyps) auto
    moreover have "?g @ drop (off + ?n) d = drop off d"
      by (metis append_take_drop_id drop_drop add.commute)
    ultimately show ?thesis using True g by (subst copy_staged.simps) (simp add: assms Let_def)
  qed (use less.prems in \<open>simp add: copy_staged.simps\<close>)
qed

lemma pack_pair_tail:
  assumes "carries rd a d" "length b + 5 + length d \<le> cap" "cap < 4294967296"
  shows "and_then (put err (\<lambda>r. pack_bin_header r (byte_count a)) cap b) (\<lambda>b.
      if wrap32 (length b + byte_count a) > cap then Inl err
      else if staging_id a \<noteq> 0 then
        (case copy_staged (rd (staging_id a)) (byte_count a) 0 b of None \<Rightarrow> Inl err | Some b' \<Rightarrow> Inr b')
      else Inr (b @ att_data a)) = Inr (b @ pack_bin room d)"
proof -
  have n: "byte_count a = length d" using assms(1) by (simp add: carries_def)
  let ?b = "b @ pack_bin_header room (length d)"
  have l: "length ?b + length d \<le> cap" using header_lengths(1) [of "length d"] assms(2) by simp
  then have w: "\<not> wrap32 (length ?b + length d) > cap" using assms(3) by simp
  have p: "pack_bin room d = pack_bin_header room (length d) @ d"
    using assms by (intro pack_bin_room) (auto simp: room_def)
  have h: "put err (\<lambda>r. pack_bin_header r (length d)) cap b = Inr ?b" using assms(2) by (intro put_bin_header) simp
  show ?thesis
  proof (cases "staging_id a = 0")
    case True
    then have "att_data a = d" using assms(1) by (simp add: carries_def)
    with True w h show ?thesis by (simp add: n p)
  next
    case False
    then have "\<And>off n. rd (staging_id a) off n = take n (drop off d)" using assms(1) by (simp add: carries_def)
    from copy_staged_all [OF this, of 0 ?b] False w h show ?thesis by (simp add: n p)
  qed
qed

lemma pack_pair_name:
  assumes "carries rd a d" "length b + length name + length d + 11 \<le> cap" "cap < 4294967296"
  shows "pack_pair err rd name mode False a cap b = Inr (b @ pair_enc (pack_str room name) d)"
proof -
  let ?b1 = "b @ pack_array_header room 2" let ?b2 = "?b1 @ pack_str room name"
  have r: "length name + 5 \<le> room" using assms(2,3) by (simp add: room_def)
  have l1: "length ?b1 = length b + 1" by (simp add: header_lengths)
  have l2: "length ?b2 \<le> length b + 1 + (length name + 5)"
    using str_length [OF r] by (simp add: header_lengths)
  have 1: "put err (\<lambda>r. pack_array_header r 2) cap b = Inr ?b1" using assms(2) by (intro put_array) simp
  have 2: "put err (\<lambda>r. pack_str r name) cap ?b1 = Inr ?b2" using l1 assms by (intro put_str) simp_all
  have "length ?b2 + 5 + length d \<le> cap" using l2 assms(2) by simp
  from pack_pair_tail [OF assms(1) this assms(3), of err] 1 2 show ?thesis
    by (simp add: pack_pair_def pair_enc_def Let_def)
qed

lemma pack_pair_mode:
  assumes "carries rd a d" "length b + length d + 11 \<le> cap" "cap < 4294967296"
  shows "pack_pair err rd name mode True a cap b = Inr (b @ pair_enc (pack_uint8 room mode) d)"
proof -
  let ?b1 = "b @ pack_array_header room 2" let ?b2 = "?b1 @ pack_uint8 room mode"
  have l1: "length ?b1 = length b + 1" by (simp add: header_lengths)
  have l2: "length ?b2 \<le> length b + 3" using header_lengths(4) [of mode] by (simp add: header_lengths(3))
  have 1: "put err (\<lambda>r. pack_array_header r 2) cap b = Inr ?b1" using assms(2) by (intro put_array) simp
  have 2: "put err (\<lambda>r. pack_uint8 r mode) cap ?b1 = Inr ?b2" using l1 assms by (intro put_uint8) simp
  have "length ?b2 + 5 + length d \<le> cap" using l2 assms(2) by simp
  from pack_pair_tail [OF assms(1) this assms(3), of err] 1 2 show ?thesis
    by (simp add: pack_pair_def pair_enc_def Let_def)
qed

lemma pair_length:
  assumes "length nm \<le> n + 5" "length d + 5 \<le> room"
  shows "length (pair_enc nm d) \<le> n + length d + 11"
  using bin_length [OF assms(2)] assms(1) by (simp add: pair_enc_def header_lengths)

text \<open>The room that the capacity sets aside for an attachment, less than it counts.\<close>

definition cost :: "attachment \<Rightarrow> nat" where
  "cost a = 16 + byte_count a + length (filename a) + length (ext a)"

lemma mp_cap_cost:
  "mp_cap ti co as x = 96 + length ti + length co + sum_list (map cost as)
    + (let t = telemetry (fields_of x) in if t = [] then 0 else length t + 8)
    + (case x of None \<Rightarrow> 0 | Some e \<Rightarrow> length (commands e) + length (custom_meta e) + 8)"
proof -
  have "sum_list (map cost as) = sum_list (map byte_count as)
      + sum_list (map (\<lambda>a. length (filename a) + length (ext a)) as) + 16 * length as"
    by (induction as) (auto simp: cost_def)
  then show ?thesis by (simp add: mp_cap_def)
qed

lemma cost_split:
  "sum_list (map cost (tagged FIELD_IMAGE as)) + sum_list (map cost (tagged FIELD_AUDIO as))
    + sum_list (map cost (tagged FIELD_FILE_ATTACHMENTS as)) \<le> sum_list (map cost as)"
  by (induction as) (auto simp: tagged_def FIELD_IMAGE_def FIELD_AUDIO_def FIELD_FILE_ATTACHMENTS_def)

lemma pack_pairs_ok:
  assumes "cap < 4294967296" "\<And>a. a \<in> set fs \<Longrightarrow> carries rd a (body a)"
  shows "length b + sum_list (map cost fs) \<le> cap \<Longrightarrow>
    pack_pairs err rd fs cap b = Inr (b @ concat (map (\<lambda>a. pair_enc (pack_str room (filename a)) (body a)) fs))"
  using assms(2)
proof (induction fs arbitrary: b)
  case (Cons a fs)
  have c: "carries rd a (body a)" using Cons.prems(2) by simp
  then have n: "length (body a) = byte_count a" by (simp add: carries_def)
  have l: "length b + length (filename a) + length (body a) + 11 \<le> cap" using Cons.prems(1) n by (simp add: cost_def)
  let ?e = "pair_enc (pack_str room (filename a)) (body a)"
  have le: "length ?e \<le> cost a"
    using pair_length [of "pack_str room (filename a)" "length (filename a)" "body a"] str_length [of "filename a"] l assms(1) n
    by (simp add: cost_def room_def)
  have "length (b @ ?e) + sum_list (map cost fs) \<le> cap" using le Cons.prems(1) by simp
  from Cons.IH [OF this] Cons.prems(2) pack_pair_name [OF c l assms(1)] show ?case by simp
qed simp

abbreviation enc_all :: "(u8 \<times> bytes) list \<Rightarrow> bytes" where
  "enc_all es \<equiv> concat (map entry_enc es)"

lemma telemetry_stage:
  assumes "length b + length (telemetry ex) + 8 \<le> cap \<or> telemetry ex = []" "cap < 4294967296"
  shows "pack_telemetry ex cap b = Inr (b @ enc_all (telemetry_entry ex))"
    and "length (enc_all (telemetry_entry ex)) \<le> (if telemetry ex = [] then 0 else length (telemetry ex) + 8)"
proof -
  have k: "length (pack_uint8 room FIELD_TELEMETRY) = 1" by (simp add: pack_uint8_def FIELD_TELEMETRY_def room_def)
  show "pack_telemetry ex cap b = Inr (b @ enc_all (telemetry_entry ex))"
    using assms k
    by (auto simp: pack_telemetry_def telemetry_entry_def entry_enc_def put_uint8 put_bin)
  show "length (enc_all (telemetry_entry ex)) \<le> (if telemetry ex = [] then 0 else length (telemetry ex) + 8)"
    using bin_length [of "telemetry ex"] assms k
    by (auto simp: telemetry_entry_def entry_enc_def room_def)
qed

lemma raw_stage:
  assumes "length b + length raw + 2 \<le> cap" "cap < 4294967296"
  shows "(if raw = [] then Inr b else pack_raw_field err key raw cap b) = Inr (b @ enc_all (raw_entry key raw))"
    and "length (enc_all (raw_entry key raw)) \<le> length raw + 2"
proof -
  have k: "length (pack_uint8 room key) \<le> 2" by (rule header_lengths)
  have "length b + (length (pack_uint8 room key) + length raw) \<le> cap" using k assms by linarith
  then show "(if raw = [] then Inr b else pack_raw_field err key raw cap b) = Inr (b @ enc_all (raw_entry key raw))"
    using assms by (auto simp: pack_raw_field_def raw_entry_def entry_enc_def put_uint8)
  show "length (enc_all (raw_entry key raw)) \<le> length raw + 2"
    using k by (auto simp: raw_entry_def entry_enc_def)
qed

lemma image_stage:
  assumes "\<And>a. a \<in> set as \<Longrightarrow> carries rd a (body a)" "cap < 4294967296"
    "length b + sum_list (map cost (tagged FIELD_IMAGE as)) \<le> cap"
  shows "pack_image rd as cap b = Inr (b @ enc_all (image_entry body as))"
    and "length (enc_all (image_entry body as)) \<le> sum_list (map cost (tagged FIELD_IMAGE as))"
proof -
  have "pack_image rd as cap b = Inr (b @ enc_all (image_entry body as)) \<and>
      length (enc_all (image_entry body as)) \<le> sum_list (map cost (tagged FIELD_IMAGE as))"
  proof (cases "tagged FIELD_IMAGE as")
    case (Cons a l)
    then have "a \<in> set as" by (metis filter_is_subset list.set_intros(1) subsetD tagged_def)
    then have c: "carries rd a (body a)" by (rule assms(1))
    then have n: "length (body a) = byte_count a" by (simp add: carries_def)
    have k: "length (pack_uint8 room FIELD_IMAGE) \<le> 2" by (rule header_lengths)
    have cl: "length b + cost a \<le> cap" using assms(3) Cons by simp
    then have "length (b @ pack_uint8 room FIELD_IMAGE) + length (ext a) + length (body a) + 11 \<le> cap"
      using k n by (simp add: cost_def)
    note p = pack_pair_name [OF c this assms(2)]
    have "length (pair_enc (pack_str room (ext a)) (body a)) \<le> length (ext a) + length (body a) + 11"
      using cl assms(2) n by (intro pair_length str_length) (auto simp: cost_def room_def)
    moreover have "put err (\<lambda>r. pack_uint8 r FIELD_IMAGE) cap b = Inr (b @ pack_uint8 room FIELD_IMAGE)" for err
      using cl by (intro put_uint8) (simp add: cost_def)
    ultimately show ?thesis using Cons p k n
      by (simp add: pack_image_def image_entry_def entry_enc_def cost_def)
  qed (simp add: pack_image_def image_entry_def)
  then show "pack_image rd as cap b = Inr (b @ enc_all (image_entry body as))"
    "length (enc_all (image_entry body as)) \<le> sum_list (map cost (tagged FIELD_IMAGE as))" by simp_all
qed

lemma audio_stage:
  assumes "\<And>a. a \<in> set as \<Longrightarrow> carries rd a (body a)" "cap < 4294967296"
    "length b + sum_list (map cost (tagged FIELD_AUDIO as)) \<le> cap"
  shows "pack_audio rd as cap b = Inr (b @ enc_all (audio_entry body as))"
    and "length (enc_all (audio_entry body as)) \<le> sum_list (map cost (tagged FIELD_AUDIO as))"
proof -
  have "pack_audio rd as cap b = Inr (b @ enc_all (audio_entry body as)) \<and>
      length (enc_all (audio_entry body as)) \<le> sum_list (map cost (tagged FIELD_AUDIO as))"
  proof (cases "tagged FIELD_AUDIO as")
    case (Cons a l)
    then have "a \<in> set as" by (metis filter_is_subset list.set_intros(1) subsetD tagged_def)
    then have c: "carries rd a (body a)" by (rule assms(1))
    then have n: "length (body a) = byte_count a" by (simp add: carries_def)
    have k: "length (pack_uint8 room FIELD_AUDIO) \<le> 2" "length (pack_uint8 room (audio_mode a)) \<le> 0 + 5"
      using header_lengths(4) [of FIELD_AUDIO] header_lengths(4) [of "audio_mode a"] by simp_all
    have cl: "length b + cost a \<le> cap" using assms(3) Cons by simp
    then have "length (b @ pack_uint8 room FIELD_AUDIO) + length (body a) + 11 \<le> cap"
      using k n by (simp add: cost_def)
    note p = pack_pair_mode [OF c this assms(2)]
    have "length (pair_enc (pack_uint8 room (audio_mode a)) (body a)) \<le> 0 + length (body a) + 11"
      using cl assms(2) n k(2) by (intro pair_length) (auto simp: cost_def room_def)
    moreover have "put err (\<lambda>r. pack_uint8 r FIELD_AUDIO) cap b = Inr (b @ pack_uint8 room FIELD_AUDIO)" for err
      using cl by (intro put_uint8) (simp add: cost_def)
    ultimately show ?thesis using Cons p k n
      by (simp add: pack_audio_def audio_entry_def entry_enc_def cost_def)
  qed (simp add: pack_audio_def audio_entry_def)
  then show "pack_audio rd as cap b = Inr (b @ enc_all (audio_entry body as))"
    "length (enc_all (audio_entry body as)) \<le> sum_list (map cost (tagged FIELD_AUDIO as))" by simp_all
qed

lemma files_stage:
  assumes "\<And>a. a \<in> set as \<Longrightarrow> carries rd a (body a)" "cap < 4294967296"
    "length b + sum_list (map cost (tagged FIELD_FILE_ATTACHMENTS as)) + 7 \<le> cap"
  shows "pack_files rd as cap b = Inr (b @ enc_all (files_entry body as))"
proof (cases "tagged FIELD_FILE_ATTACHMENTS as = []")
  case False
  let ?fs = "tagged FIELD_FILE_ATTACHMENTS as"
  let ?b1 = "b @ pack_uint8 room FIELD_FILE_ATTACHMENTS"
  let ?b2 = "?b1 @ pack_array_header room (length ?fs)"
  have k: "length (pack_uint8 room FIELD_FILE_ATTACHMENTS) \<le> 2" "length (pack_array_header room (length ?fs)) \<le> 5"
    by (rule header_lengths)+
  have pos: "sum_list (map cost ?fs) > 0" using False by (cases ?fs) (auto simp: cost_def)
  have c: "\<And>a. a \<in> set ?fs \<Longrightarrow> carries rd a (body a)" using assms(1) by (simp add: tagged_def)
  have "length ?b2 + sum_list (map cost ?fs) \<le> cap" using k assms(3) by simp
  note p = pack_pairs_ok [OF assms(2) c this]
  have "put err (\<lambda>r. pack_uint8 r FIELD_FILE_ATTACHMENTS) cap b = Inr ?b1" for err
    using assms(3) by (intro put_uint8) simp
  moreover have "put err (\<lambda>r. pack_array_header r (length ?fs)) cap ?b1 = Inr ?b2" for err
    using assms(3) k(1) by (intro put_array) simp
  ultimately show ?thesis using False p
    by (simp add: pack_files_def files_entry_def entry_enc_def files_enc_def Let_def)
qed (simp add: pack_files_def files_entry_def)

lemma entries_count: "length (entries body as ex) = field_count as ex"
  by (simp add: entries_def field_count_def telemetry_entry_def raw_entry_def image_entry_def audio_entry_def
      files_entry_def Let_def split: list.split)

lemma pack_fields_ok:
  assumes "\<And>a. a \<in> set as \<Longrightarrow> carries rd a (body a)" "cap < 4294967296"
    "length b + 5 + (if telemetry ex = [] then 0 else length (telemetry ex) + 8)
      + (if commands ex = [] \<and> custom_meta ex = [] then 0 else length (commands ex) + length (custom_meta ex) + 8)
      + sum_list (map cost as) + 11 \<le> cap"
  shows "pack_fields rd as ex cap b = Inr (b @ fields_enc body as ex)"
proof (cases "as = [] \<and> telemetry ex = [] \<and> commands ex = [] \<and> custom_meta ex = []")
  case False
  let ?t = "enc_all (telemetry_entry ex)" and ?c = "enc_all (raw_entry FIELD_COMMANDS (commands ex))"
  let ?m = "enc_all (raw_entry FIELD_CUSTOM_META (custom_meta ex))" and ?i = "enc_all (image_entry body as)"
  let ?a = "enc_all (audio_entry body as)" and ?f = "enc_all (files_entry body as)"
  let ?b1 = "b @ pack_map_header room (field_count as ex)"
  have h: "length (pack_map_header room n) \<le> 5" for n by (simp add: pack_map_header_def)
  have l1: "length ?b1 \<le> length b + 5" using h [of "field_count as ex"] by simp
  have p1: "put err (\<lambda>r. pack_map_header r (field_count as ex)) cap b = Inr ?b1" for err
    by (rule put_eq) (use assms(3) in \<open>auto simp: pack_map_header_def room_def\<close>)
  have "length ?b1 + length (telemetry ex) + 8 \<le> cap \<or> telemetry ex = []" using l1 assms(3) by auto
  note t = telemetry_stage [OF this assms(2)]
  have r: "length (commands ex) + length (custom_meta ex) + 4
      \<le> (if commands ex = [] \<and> custom_meta ex = [] then 0 else length (commands ex) + length (custom_meta ex) + 8) + 4" by simp
  note sums = l1 r assms(3) t(2) cost_split [of as]
  have "length (?b1 @ ?t) + length (commands ex) + 2 \<le> cap" using sums unfolding length_append by linarith
  note c = raw_stage [OF this assms(2)] and c2 = raw_stage(2) [OF this assms(2), of FIELD_COMMANDS]
  have "length ((?b1 @ ?t) @ ?c) + length (custom_meta ex) + 2 \<le> cap"
    using sums c2 unfolding length_append by linarith
  note m = raw_stage [OF this assms(2)] and m2 = raw_stage(2) [OF this assms(2), of FIELD_CUSTOM_META]
  have "length (((?b1 @ ?t) @ ?c) @ ?m) + sum_list (map cost (tagged FIELD_IMAGE as)) \<le> cap"
    using sums c2 m2 unfolding length_append by linarith
  note i = image_stage [OF assms(1,2) this]
  have "length ((((?b1 @ ?t) @ ?c) @ ?m) @ ?i) + sum_list (map cost (tagged FIELD_AUDIO as)) \<le> cap"
    using sums c2 m2 i(2) unfolding length_append by linarith
  note a = audio_stage [OF assms(1,2) this]
  have "length (((((?b1 @ ?t) @ ?c) @ ?m) @ ?i) @ ?a) + sum_list (map cost (tagged FIELD_FILE_ATTACHMENTS as)) + 7 \<le> cap"
    using sums c2 m2 i(2) a(2) unfolding length_append by linarith
  note f = files_stage [OF assms(1,2) this]
  have "pack_fields rd as ex cap b = Inr ((((((?b1 @ ?t) @ ?c) @ ?m) @ ?i) @ ?a) @ ?f)"
    unfolding pack_fields_def
    by (simp only: False if_False p1 t(1) c(1) m(1) i(1) a(1) f and_then.simps)
  moreover have "fields_enc body as ex = pack_map_header room (field_count as ex) @ enc_all (entries body as ex)"
    using False by (auto simp: fields_enc_def entries_count)
  ultimately show ?thesis by (simp add: entries_def)
qed (simp add: pack_fields_def fields_enc_def)

lemma pack_payload_ok:
  assumes "\<And>a. a \<in> set as \<Longrightarrow> carries rd a (body a)" "mp_cap ti co as x < 4294967296"
  shows "pack_payload rd ts ti co as x = Inr (0x94 # payload_enc ts ti co (fields_enc body as (fields_of x)))"
proof -
  let ?cap = "mp_cap ti co as x" and ?ex = "fields_of x"
  let ?b1 = "[0x94] @ pack_float64 room ts" let ?b2 = "?b1 @ pack_bin room ti" let ?b3 = "?b2 @ pack_bin room co"
  have cap: "96 + length ti + length co + sum_list (map cost as)
      + (if telemetry ?ex = [] then 0 else length (telemetry ?ex) + 8)
      + (if commands ?ex = [] \<and> custom_meta ?ex = [] then 0 else length (commands ?ex) + length (custom_meta ?ex) + 8) \<le> ?cap"
    by (cases x) (simp_all add: mp_cap_cost fields_of_def Let_def)
  have p1: "put err (\<lambda>r. pack_float64 r ts) ?cap [0x94] = Inr ?b1" for err
    by (rule put_eq) (use cap in \<open>auto simp: pack_float64_def room_def\<close>)
  have l1: "length ?b1 = 10" by (simp add: header_lengths)
  have p2: "put err (\<lambda>r. pack_bin_str r ti) ?cap ?b1 = Inr ?b2" for err
    unfolding pack_bin_str_def by (rule put_bin) (use cap l1 assms(2) in auto)
  have "length (pack_bin room ti) \<le> length ti + 5" "length (pack_bin room co) \<le> length co + 5"
    by (rule bin_length, use cap assms(2) in \<open>simp add: room_def\<close>)+
  then have l2: "length ?b2 \<le> 15 + length ti" and l3: "length ?b3 \<le> 20 + length ti + length co" using l1 by simp_all
  have p3: "put err (\<lambda>r. pack_bin_str r co) ?cap ?b2 = Inr ?b3" for err
    unfolding pack_bin_str_def by (rule put_bin) (use cap l2 assms(2) in auto)
  have "pack_fields rd as ?ex ?cap ?b3 = Inr (?b3 @ fields_enc body as ?ex)"
    by (rule pack_fields_ok [OF assms(1) assms(2)]) (use cap l3 in linarith)+
  then show ?thesis using p1 p2 p3 by (simp add: pack_payload_def Let_def payload_enc_def)
qed

end
