(* ===== verification/LxmfParse.thy ===== *)
theory LxmfParse
  imports LxmfTypes MsgPack
begin

text \<open>
  The receiving side's decoder in \<open>src/src/LXMF/LXMFMinimal.h\<close>: \<open>_split_payload_stamp\<close> finds the
  delivery stamp, \<open>_parse_lxmf_payload\<close> the timestamp, title, content and fields.

  The raw pointer of a \<open>FieldBlob\<close> is its offset in the payload. \<open>skip_element\<close> recurses on the
  nesting of its input; \<open>depth\<close> is the number of its call frames that fit the stack, and running
  out of them is the result \<open>StackExhausted\<close>. \<open>CppThrow\<close> is the exception of \<open>std::string\<close>. Offsets and
  lengths are 32 bits wide, sums that can pass that range are wrapped.
\<close>

section \<open>Outcomes\<close>

datatype exc = StackExhausted | CppThrow

fun and_also :: "exc + 'a \<Rightarrow> ('a \<Rightarrow> exc + 'b) \<Rightarrow> exc + 'b" where
  "and_also (Inl e) f = Inl e"
| "and_also (Inr x) f = f x"

definition skip_e :: "nat \<Rightarrow> bytes \<Rightarrow> nat \<Rightarrow> nat \<Rightarrow> exc + bool \<times> nat" where
  "skip_e depth d len off = (case skip_element depth d len off of None \<Rightarrow> Inl StackExhausted | Some r \<Rightarrow> Inr r)"

definition read_e :: "bytes \<Rightarrow> nat \<Rightarrow> nat \<Rightarrow> exc + bytes \<times> nat" where
  "read_e d len off = (case read_bin_or_str d len off of Inl _ \<Rightarrow> Inl CppThrow | Inr r \<Rightarrow> Inr r)"

section \<open>The stamp\<close>

text \<open>The array header of a payload: its element count and the offset behind it.\<close>

definition array_header :: "bytes \<Rightarrow> nat \<Rightarrow> (nat \<times> nat) option" where
  "array_header d len =
    (let tag = hd d in
     if tag AND 0xF0 = 0x90 then Some (unat (tag AND 0x0F), 1)
     else if tag = 0xDC \<and> 2 < len then Some (be16_at d 1, 3)
     else None)"

record split =
  hdr_len :: nat
  core_end :: nat
  stamp :: bytes
  stripped :: bool

fun skip_n :: "nat \<Rightarrow> nat \<Rightarrow> bytes \<Rightarrow> nat \<Rightarrow> nat \<Rightarrow> exc + bool \<times> nat" where
  "skip_n depth 0 d len off = Inr (True, off)"
| "skip_n depth (Suc n) d len off =
    and_also (skip_e depth d len off) (\<lambda>(ok, off). if ok then skip_n depth n d len off else Inr (False, off))"

text \<open>\<open>None\<close> is \<open>return false\<close>.\<close>

definition split_payload_stamp :: "nat \<Rightarrow> bytes \<Rightarrow> exc + split option" where
  "split_payload_stamp depth d =
    (let len = length d in
     if len < 1 then Inr None
     else case array_header d len of
         None \<Rightarrow> Inr None
       | Some (k, off) \<Rightarrow>
           if k < 5 then Inr (Some \<lparr>hdr_len = off, core_end = len, stamp = [], stripped = False\<rparr>)
           else and_also (skip_n depth 4 d len off) (\<lambda>(ok, e).
             if \<not> ok then Inr None
             else and_also (read_e d len e) (\<lambda>(s, _).
               Inr (Some \<lparr>hdr_len = off, core_end = e, stamp = s, stripped = True\<rparr>))))"

text \<open>What the message hash covers: the payload, or its first four elements under a header of four.\<close>

definition hash_core :: "bytes \<Rightarrow> split \<Rightarrow> bytes" where
  "hash_core d s =
    (if stripped s then 0x94 # take (sub32 (core_end s) (hdr_len s)) (drop (hdr_len s) d) else d)"

section \<open>Fields\<close>

definition LXMF_MAX_TITLE_BYTES :: nat where "LXMF_MAX_TITLE_BYTES = 256"
definition LXMF_MAX_BODY_BYTES :: nat where "LXMF_MAX_BODY_BYTES = 4096"

record blob =
  b_tag :: u8
  b_off :: nat
  b_len :: nat
  b_name :: bytes
  b_mode :: u8

record parsed =
  p_ts :: "64 word option"              \<comment> \<open>None: the caller's value stays\<close>
  p_title :: bytes
  p_content :: bytes
  p_fields :: "blob list"
  p_telemetry :: bytes
  p_commands :: bytes
  p_meta :: bytes

text \<open>The header of a bin element at \<open>p\<close>: its size and the length it announces.\<close>

definition bin_header :: "bytes \<Rightarrow> nat \<Rightarrow> nat \<Rightarrow> (nat \<times> nat) option" where
  "bin_header d ve p =
    (let bt = d ! p in
     if bt = 0xC4 \<and> p + 1 < ve then Some (2, unat (d ! (p + 1)))
     else if bt = 0xC5 \<and> p + 2 < ve then Some (3, be16_at d (p + 1))
     else if bt = 0xC6 \<and> p + 4 < ve then Some (5, be32_at d (p + 1))
     else None)"

text \<open>The first element of a pair: a name, or the codec mode of an audio field.\<close>

definition pair_name :: "bytes \<Rightarrow> nat \<Rightarrow> u8 \<Rightarrow> nat \<Rightarrow> exc + (bytes \<times> u8 \<times> nat) option" where
  "pair_name d ve tag p =
    (let et = d ! p in
     if tag = FIELD_AUDIO then
       (if et \<le> 0x7F then Inr (Some ([], et, p + 1))
        else if et = 0xCC \<and> p + 1 < ve then Inr (Some ([], d ! (p + 1), p + 2))
        else Inr None)
     else and_also (read_e d ve p) (\<lambda>(nm, o'). Inr (if o' = p then None else Some (nm, 0xFF, o'))))"

text \<open>\<open>emit_pair\<close>: the blobs it pushes and the offset it returns, 0 for a failure.\<close>

definition emit_pair :: "bytes \<Rightarrow> nat \<Rightarrow> u8 \<Rightarrow> nat \<Rightarrow> exc + blob list \<times> nat" where
  "emit_pair d ve tag p =
    (if p \<ge> ve then Inr ([], 0)
     else and_also (pair_name d ve tag p) (\<lambda>r. case r of
         None \<Rightarrow> Inr ([], 0)
       | Some (nm, md, p) \<Rightarrow>
           if p \<ge> ve then Inr ([], 0)
           else (case bin_header d ve p of
               None \<Rightarrow> Inr ([], 0)
             | Some (h, n) \<Rightarrow>
                 if wrap32 (p + h + n) > ve then Inr ([], 0)
                 else Inr ([\<lparr>b_tag = tag, b_off = p + h, b_len = n, b_name = nm, b_mode = md\<rparr>], wrap32 (p + h + n)))))"

text \<open>The array header of a field value.\<close>

definition value_array :: "bytes \<Rightarrow> nat \<Rightarrow> nat \<Rightarrow> (nat \<times> nat) option" where
  "value_array d ve p =
    (let vt = d ! p in
     if vt AND 0xF0 = 0x90 then Some (unat (vt AND 0x0F), p + 1)
     else if vt = 0xDC \<and> p + 2 < ve then Some (be16_at d (p + 1), p + 3)
     else if vt = 0xDD \<and> p + 4 < ve then Some (be32_at d (p + 1), p + 5)
     else None)"

text \<open>The list of file pairs; the inner array header is passed by its size only.\<close>

fun file_pairs :: "bytes \<Rightarrow> nat \<Rightarrow> nat \<Rightarrow> nat \<Rightarrow> exc + blob list" where
  "file_pairs d ve n p =
    (if n = 0 \<or> p \<ge> ve then Inr []
     else case value_array d ve p of
         None \<Rightarrow> Inr []
       | Some (_, q) \<Rightarrow>
           and_also (emit_pair d ve FIELD_FILE_ATTACHMENTS q) (\<lambda>(bs, after).
             if after = 0 then Inr bs
             else and_also (file_pairs d ve (n - 1) after) (\<lambda>bs'. Inr (bs @ bs'))))"

declare file_pairs.simps [simp del]

text \<open>The old shape: the bytes under a bin or str header, or the value as it stands.\<close>

definition bare_header :: "bytes \<Rightarrow> nat \<Rightarrow> nat \<Rightarrow> nat \<times> nat" where
  "bare_header d ve vs =
    (let vt = d ! vs in
     if vt AND 0xE0 = 0xA0 then (1, unat (vt AND 0x1F))
     else if vt = 0xD9 \<and> vs + 1 < ve then (2, unat (d ! (vs + 1)))
     else if vt = 0xDA \<and> vs + 2 < ve then (3, be16_at d (vs + 1))
     else if vt = 0xDB \<and> vs + 4 < ve then (5, be32_at d (vs + 1))
     else if vt = 0xC4 \<and> vs + 1 < ve then (2, unat (d ! (vs + 1)))
     else if vt = 0xC5 \<and> vs + 2 < ve then (3, be16_at d (vs + 1))
     else if vt = 0xC6 \<and> vs + 4 < ve then (5, be32_at d (vs + 1))
     else (0, 0))"

definition bare_blob :: "bytes \<Rightarrow> nat \<Rightarrow> u8 \<Rightarrow> nat \<Rightarrow> blob" where
  "bare_blob d ve tag vs =
    (case bare_header d ve vs of (h, n) \<Rightarrow>
       if h \<noteq> 0 \<and> wrap32 (vs + h + n) \<le> ve
       then \<lparr>b_tag = tag, b_off = vs + h, b_len = n, b_name = [], b_mode = 0xFF\<rparr>
       else \<lparr>b_tag = tag, b_off = vs, b_len = sub32 ve vs, b_name = [], b_mode = 0xFF\<rparr>)"

definition field_blobs :: "bytes \<Rightarrow> nat \<Rightarrow> u8 \<Rightarrow> nat \<Rightarrow> exc + blob list" where
  "field_blobs d ve key vs =
    (let vt = d ! vs in
     if vt AND 0xF0 = 0x90 \<or> vt = 0xDC \<or> vt = 0xDD then
       (case value_array d ve vs of
          None \<Rightarrow> Inr []
        | Some (n, p) \<Rightarrow>
            if key = FIELD_IMAGE \<or> key = FIELD_AUDIO then and_also (emit_pair d ve key p) (\<lambda>(bs, _). Inr bs)
            else file_pairs d ve n p)
     else Inr [bare_blob d ve key vs])"

text \<open>One field with its value between \<open>vs\<close> and \<open>ve\<close>.\<close>

definition parse_field :: "bytes \<Rightarrow> u8 \<Rightarrow> nat \<Rightarrow> nat \<Rightarrow> parsed \<Rightarrow> exc + parsed" where
  "parse_field d key vs ve r =
    (if key = FIELD_TELEMETRY then
       and_also (read_e d ve vs) (\<lambda>(inner, _). Inr (if inner = [] then r else r\<lparr>p_telemetry := inner\<rparr>))
     else if key = FIELD_COMMANDS then Inr (r\<lparr>p_commands := take (sub32 ve vs) (drop vs d)\<rparr>)
     else if key = FIELD_CUSTOM_META then Inr (r\<lparr>p_meta := take (sub32 ve vs) (drop vs d)\<rparr>)
     else if key = FIELD_FILE_ATTACHMENTS \<or> key = FIELD_IMAGE \<or> key = FIELD_AUDIO then
       and_also (field_blobs d ve key vs) (\<lambda>bs. Inr (r\<lparr>p_fields := p_fields r @ bs\<rparr>))
     else Inr r)"

text \<open>The key of a field and the offset behind it.\<close>

definition field_key :: "bytes \<Rightarrow> nat \<Rightarrow> nat \<Rightarrow> (u8 \<times> nat) option" where
  "field_key d len off =
    (let kt = d ! off in
     if kt \<le> 0x7F then Some (kt, off + 1)
     else if kt = 0xCC \<and> off + 1 < len then Some (d ! (off + 1), off + 2)
     else None)"

fun parse_fields :: "nat \<Rightarrow> bytes \<Rightarrow> nat \<Rightarrow> nat \<Rightarrow> parsed \<Rightarrow> exc + parsed" where
  "parse_fields depth d n off r =
    (if n = 0 \<or> off \<ge> length d then Inr r
     else case field_key d (length d) off of
         None \<Rightarrow> Inr r
       | Some (key, vs) \<Rightarrow>
           and_also (skip_e depth d (length d) vs) (\<lambda>(ok, ve).
             if \<not> ok then Inr r
             else and_also (parse_field d key vs ve r) (parse_fields depth d (n - 1) ve)))"

declare parse_fields.simps [simp del]

definition map_header :: "bytes \<Rightarrow> nat \<Rightarrow> (nat \<times> nat) option" where
  "map_header d off =
    (let t = d ! off in
     if t AND 0xF0 = 0x80 then Some (unat (t AND 0x0F), off + 1)
     else if t = 0xDE then (if off + 2 \<ge> length d then None else Some (be16_at d (off + 1), off + 3))
     else if t = 0xDF then (if off + 4 \<ge> length d then None else Some (be32_at d (off + 1), off + 5))
     else None)"

section \<open>The payload\<close>

definition clip :: "nat \<Rightarrow> bytes \<Rightarrow> bytes" where
  "clip n s = (if length s > n then take n s else s)"

definition float64_at :: "bytes \<Rightarrow> nat \<Rightarrow> 64 word" where
  "float64_at d off = word_of_nat (be32_at d off * 4294967296 + be32_at d (off + 4))"

text \<open>\<open>want\<close>: the caller asks for the fields. \<open>None\<close> is \<open>return false\<close>.\<close>

definition parse_lxmf_payload :: "nat \<Rightarrow> bool \<Rightarrow> bytes \<Rightarrow> exc + parsed option" where
  "parse_lxmf_payload depth want d =
    (let len = length d in
     if len < 2 then Inr None
     else case array_header d len of
         None \<Rightarrow> Inr None
       | Some (k, off) \<Rightarrow>
           if k < 3 then Inr None
           else let ts = (if off + 9 \<le> len \<and> d ! off = 0xCB then Some (float64_at d (off + 1)) else None) in
             and_also (skip_e depth d len off) (\<lambda>(ok, off).
             if \<not> ok then Inr None
             else and_also (read_e d len off) (\<lambda>(ti, off).
             and_also (read_e d len off) (\<lambda>(co, off).
             let r = \<lparr>p_ts = ts, p_title = clip LXMF_MAX_TITLE_BYTES ti, p_content = clip LXMF_MAX_BODY_BYTES co,
                      p_fields = [], p_telemetry = [], p_commands = [], p_meta = []\<rparr> in
             if k \<ge> 4 \<and> off < len \<and> want then
               (case map_header d off of
                  None \<Rightarrow> Inr (Some r)
                | Some (n, off) \<Rightarrow> and_also (parse_fields depth d n off r) (\<lambda>r. Inr (Some r)))
             else Inr (Some r)))))"

text \<open>A blob inside the payload.\<close>

definition blob_inside :: "bytes \<Rightarrow> blob \<Rightarrow> bool" where
  "blob_inside d b \<longleftrightarrow> b_off b + b_len b \<le> length d"

definition blob_data :: "bytes \<Rightarrow> blob \<Rightarrow> bytes" where
  "blob_data d b = take (b_len b) (drop (b_off b) d)"

text \<open>One pair whose second length wraps: the pair is accepted although it ends before it begins.\<close>

definition evil_payload :: bytes where
  "evil_payload = [0x94, 0xCB, 0x41, 0xD9, 0, 0, 0, 0, 0, 0, 0xC4, 0, 0xC4, 0,
     0x81, 0x05, 0x92, 0x92, 0xA0, 0xC6, 0xFF, 0xFF, 0xFF, 0xFF]"

section \<open>Blobs of well-meant payloads lie inside\<close>

lemma and_also_Inr: "and_also x f = Inr z \<longleftrightarrow> (\<exists>y. x = Inr y \<and> f y = Inr z)"
  by (cases x) auto

lemma skip_e_inside:
  assumes "no_huge_length d" "length d < 2147483000" "off \<le> length d" "skip_e depth d (length d) off = Inr (True, o')"
  shows "off < o' \<and> o' \<le> length d"
proof -
  have s: "skip_element depth d (length d) off = Some (True, o')"
    using assms(4) by (simp add: skip_e_def split: option.splits)
  have "length d - off < Suc (length d)" by simp
  from skip_element_total [OF assms(1-3) this]
  obtain b q where t: "skip_element (Suc (length d)) d (length d) off = Some (b, q)" "b \<longrightarrow> off < q \<and> q \<le> length d"
    by blast
  have "skip_element (max depth (Suc (length d))) d (length d) off = Some (True, o')"
    "skip_element (max depth (Suc (length d))) d (length d) off = Some (b, q)"
    using skip_depth_mono s t(1) by (meson max.cobounded1 max.cobounded2)+
  with t(2) show ?thesis by simp
qed

lemma bin_header_small:
  assumes "no_huge_length d" "bin_header d ve p = Some (h, n)" "ve \<le> length d" "p < ve"
  shows "n < 2147483648" "h \<le> 5"
proof -
  have "d ! p = 0xC6 \<Longrightarrow> p + 4 < ve \<Longrightarrow> be32_at d (p + 1) < 2147483648"
    using assms(1,3) by (auto simp: no_huge_length_def)
  then show "n < 2147483648" using assms(2) be16_less unat_u8_less [of "d ! Suc p"]
    by (auto simp: bin_header_def Let_def be16_at_def split: if_splits intro: order_less_trans [OF be16_less] order_less_trans [OF unat_u8_less])
  show "h \<le> 5" using assms(2) by (auto simp: bin_header_def Let_def split: if_splits)
qed

lemma emit_pair_inside:
  assumes "no_huge_length d" "length d < 2147483000" "ve \<le> length d" "emit_pair d ve tag p = Inr (bs, after)"
  shows "list_all (blob_inside d) bs"
  using assms(4)
proof (cases "p \<ge> ve")
  case False
  then obtain r where r: "pair_name d ve tag p = Inr r" using assms(4) by (cases "pair_name d ve tag p") (auto simp: emit_pair_def)
  show ?thesis
  proof (cases r)
    case (Some x)
    obtain nm md q where x: "x = (nm, md, q)" by (cases x)
    show ?thesis
    proof (cases "q \<ge> ve \<or> bin_header d ve q = None")
      case f: False
      then obtain h n where hn: "bin_header d ve q = Some (h, n)" by force
      from bin_header_small [OF assms(1) hn assms(3)] f have "n < 2147483648" "h \<le> 5" by simp_all
      then have "wrap32 (q + h + n) = q + h + n" using f assms(2,3) by (intro wrap32_id) linarith
      with False r Some x f hn assms(3,4) show ?thesis
        by (auto simp: emit_pair_def blob_inside_def split: if_splits)
    qed (use False r Some x assms(4) in \<open>auto simp: emit_pair_def split: if_splits\<close>)
  qed (use False r assms(4) in \<open>simp add: emit_pair_def\<close>)
qed (simp add: emit_pair_def)

lemma file_pairs_inside:
  assumes "no_huge_length d" "length d < 2147483000" "ve \<le> length d"
  shows "file_pairs d ve n p = Inr bs \<Longrightarrow> list_all (blob_inside d) bs"
proof (induction n arbitrary: p bs)
  case 0
  then show ?case by (simp add: file_pairs.simps)
next
  case (Suc n)
  show ?case
  proof (cases "p \<ge> ve \<or> value_array d ve p = None")
    case False
    then obtain k q where kq: "value_array d ve p = Some (k, q)" by force
    with False Suc.prems obtain es after where e: "emit_pair d ve FIELD_FILE_ATTACHMENTS q = Inr (es, after)"
      by (cases "emit_pair d ve FIELD_FILE_ATTACHMENTS q") (auto simp: file_pairs.simps [of d ve "Suc n"])
    note i = emit_pair_inside [OF assms e]
    show ?thesis
    proof (cases "after = 0")
      case True
      with False kq e i Suc.prems show ?thesis by (auto simp: file_pairs.simps [of d ve "Suc n"])
    next
      case nz: False
      obtain fs where "file_pairs d ve n after = Inr fs" "bs = es @ fs"
        using False kq e nz Suc.prems
        by (cases "file_pairs d ve n after") (auto simp: file_pairs.simps [of d ve "Suc n"])
      with Suc.IH i show ?thesis by simp
    qed
  qed (use Suc.prems in \<open>auto simp: file_pairs.simps [of d ve "Suc n"] split: if_splits\<close>)
qed

lemma bare_header_small:
  assumes "no_huge_length d" "ve \<le> length d" "vs < ve" "bare_header d ve vs = (h, n)"
  shows "n < 2147483648" "h \<le> 5"
proof -
  have "d ! vs = 0xC6 \<or> d ! vs = 0xDB \<Longrightarrow> vs + 4 < ve \<Longrightarrow> be32_at d (vs + 1) < 2147483648"
    using assms(1,2) by (auto simp: no_huge_length_def)
  then show "n < 2147483648" using assms(4)
    by (auto simp: bare_header_def Let_def be16_at_def split: if_splits
        intro: order_less_trans [OF be16_less] order_less_trans [OF unat_u8_less])
  show "h \<le> 5" using assms(4) by (auto simp: bare_header_def Let_def split: if_splits)
qed

lemma bare_blob_inside:
  assumes "no_huge_length d" "length d < 2147483000" "ve \<le> length d" "vs < ve"
  shows "blob_inside d (bare_blob d ve tag vs)"
proof -
  obtain h n where hn: "bare_header d ve vs = (h, n)" by (cases "bare_header d ve vs")
  note b = bare_header_small [OF assms(1,3,4) hn]
  have "wrap32 (vs + h + n) = vs + h + n" using b assms by (intro wrap32_id) linarith
  moreover have "sub32 ve vs = ve - vs" using assms by (intro sub32_le) auto
  ultimately show ?thesis using hn assms by (auto simp: bare_blob_def blob_inside_def)
qed

lemma field_blobs_inside:
  assumes "no_huge_length d" "length d < 2147483000" "ve \<le> length d" "vs < ve" "field_blobs d ve key vs = Inr bs"
  shows "list_all (blob_inside d) bs"
proof (cases "d ! vs AND 0xF0 = 0x90 \<or> d ! vs = 0xDC \<or> d ! vs = 0xDD")
  case True
  show ?thesis
  proof (cases "value_array d ve vs")
    case (Some x)
    obtain n p where x: "x = (n, p)" by (cases x)
    show ?thesis
    proof (cases "key = FIELD_IMAGE \<or> key = FIELD_AUDIO")
      case k: True
      then obtain es a where "emit_pair d ve key p = Inr (es, a)" "bs = es"
        using True Some x assms(5) by (cases "emit_pair d ve key p") (auto simp: field_blobs_def Let_def)
      with emit_pair_inside [OF assms(1-3)] show ?thesis by blast
    next
      case False
      with True Some x assms(5) have "file_pairs d ve n p = Inr bs" by (auto simp: field_blobs_def Let_def)
      with file_pairs_inside [OF assms(1-3)] show ?thesis by blast
    qed
  qed (use True assms(5) in \<open>auto simp: field_blobs_def Let_def\<close>)
next
  case False
  with assms(5) have "bs = [bare_blob d ve key vs]" by (auto simp: field_blobs_def Let_def)
  with bare_blob_inside [OF assms(1-4)] show ?thesis by simp
qed

lemma parse_field_inside:
  assumes "no_huge_length d" "length d < 2147483000" "ve \<le> length d" "vs < ve"
    "list_all (blob_inside d) (p_fields r)" "parse_field d key vs ve r = Inr r'"
  shows "list_all (blob_inside d) (p_fields r')"
proof (cases "key = FIELD_FILE_ATTACHMENTS \<or> key = FIELD_IMAGE \<or> key = FIELD_AUDIO")
  case True
  have n: "key \<noteq> FIELD_TELEMETRY" "key \<noteq> FIELD_COMMANDS" "key \<noteq> FIELD_CUSTOM_META"
    using True by (auto simp: FIELD_FILE_ATTACHMENTS_def FIELD_IMAGE_def FIELD_AUDIO_def FIELD_TELEMETRY_def
        FIELD_COMMANDS_def FIELD_CUSTOM_META_def)
  from True n assms(6) obtain bs where "field_blobs d ve key vs = Inr bs" "r' = r\<lparr>p_fields := p_fields r @ bs\<rparr>"
    by (cases "field_blobs d ve key vs") (auto simp: parse_field_def)
  with field_blobs_inside [OF assms(1-4)] assms(5) show ?thesis by simp
next
  case False
  have "p_fields r' = p_fields r"
  proof (cases "key = FIELD_TELEMETRY")
    case True
    with assms(6) show ?thesis by (cases "read_e d ve vs") (auto simp: parse_field_def split: if_splits)
  qed (use False assms(6) in \<open>auto simp: parse_field_def split: if_splits\<close>)
  with assms(5) show ?thesis by simp
qed

lemma parse_fields_inside:
  assumes "no_huge_length d" "length d < 2147483000"
  shows "list_all (blob_inside d) (p_fields r) \<Longrightarrow> parse_fields depth d n off r = Inr r' \<Longrightarrow>
    list_all (blob_inside d) (p_fields r')"
proof (induction n arbitrary: off r)
  case 0
  then show ?case by (simp add: parse_fields.simps)
next
  case (Suc n)
  note eq = parse_fields.simps [of depth d "Suc n"]
  show ?case
  proof (cases "off \<ge> length d \<or> field_key d (length d) off = None")
    case False
    then obtain key vs where kv: "field_key d (length d) off = Some (key, vs)" by force
    then have vs: "vs \<le> length d" using False by (auto simp: field_key_def Let_def split: if_splits)
    obtain ok ve where s: "skip_e depth d (length d) vs = Inr (ok, ve)"
      using False kv Suc.prems(2) by (cases "skip_e depth d (length d) vs") (auto simp: eq)
    show ?thesis
    proof (cases ok)
      case True
      with s have "skip_e depth d (length d) vs = Inr (True, ve)" by simp
      note i = skip_e_inside [OF assms vs this]
      obtain r1 where r1: "parse_field d key vs ve r = Inr r1" "parse_fields depth d n ve r1 = Inr r'"
        using False kv s True Suc.prems(2) by (cases "parse_field d key vs ve r") (auto simp: eq)
      from parse_field_inside [OF assms _ _ Suc.prems(1) r1(1)] i
      show ?thesis using Suc.IH r1(2) by blast
    qed (use False kv s Suc.prems in \<open>auto simp: eq\<close>)
  qed (use Suc.prems in \<open>auto simp: eq split: if_splits\<close>)
qed



text \<open>Without that bound the parser is not memory safe: this payload of 24 bytes yields a file
  attachment whose data starts at the end of the payload and is 2^32 - 1 bytes long, because
  the length makes both the skipper's and the pair reader's sums wrap around.\<close>

theorem parse_wrapped_length_escapes:
  "4 \<le> depth \<Longrightarrow> parse_lxmf_payload depth True evil_payload = Inr (Some
     \<lparr>p_ts = Some 0x41D9000000000000, p_title = [], p_content = [],
      p_fields = [\<lparr>b_tag = FIELD_FILE_ATTACHMENTS, b_off = 24, b_len = 4294967295, b_name = [], b_mode = 0xFF\<rparr>],
      p_telemetry = [], p_commands = [], p_meta = []\<rparr>)"
proof -
  assume "4 \<le> depth"
  then obtain n where n: "depth = Suc (Suc (Suc (Suc n)))"
    using le_Suc_ex [of 4 depth] by auto
  have two: "skip_elements d 2 x l off = skip_elements d (Suc (Suc 0)) x l off" for d x l off
    by (simp add: numeral_2_eq_2)
  have steps: "skip_step evil_payload 24 1 = Done True 10" "skip_step evil_payload 24 16 = Nest 2 17"
    "skip_step evil_payload 24 17 = Nest 2 18" "skip_step evil_payload 24 18 = Done True 19"
    "skip_step evil_payload 24 19 = Done True 23" "skip_step evil_payload 24 23 = Done True 24"
    by (simp_all add: evil_payload_def skip_step_def skip_by_def be32_at_def be32_def wrap32_def)
  have skips: "skip_e depth evil_payload 24 1 = Inr (True, 10)" "skip_e depth evil_payload 24 16 = Inr (True, 24)"
    by (simp_all add: n skip_e_def steps [simplified] two)
  have len: "length evil_payload = 24" by (simp add: evil_payload_def)
  have reads: "read_e evil_payload 24 10 = Inr ([], 12)" "read_e evil_payload 24 12 = Inr ([], 14)"
    "read_e evil_payload 24 18 = Inr ([], 19)"
    by (simp_all add: evil_payload_def read_e_def read_bin_or_str_def read_slen_def)
  have ats: "evil_payload ! 0 = 0x94" "evil_payload ! 1 = 0xCB" "evil_payload ! 14 = 0x81" "evil_payload ! 15 = 5"
    "evil_payload ! 16 = 0x92" "evil_payload ! 17 = 0x92" "evil_payload ! 18 = 0xA0" "evil_payload ! 19 = 0xC6"
    "hd evil_payload = 0x94" "be32_at evil_payload 20 = 4294967295" "float64_at evil_payload 2 = 0x41D9000000000000"
    by (simp_all add: evil_payload_def be32_at_def be32_def float64_at_def)
  have pair: "emit_pair evil_payload 24 FIELD_FILE_ATTACHMENTS 18 =
      Inr ([\<lparr>b_tag = FIELD_FILE_ATTACHMENTS, b_off = 24, b_len = 4294967295, b_name = [], b_mode = 0xFF\<rparr>], 23)"
    by (simp add: emit_pair_def pair_name_def bin_header_def reads ats wrap32_def FIELD_FILE_ATTACHMENTS_def FIELD_AUDIO_def)
  have "value_array evil_payload 24 23 = None" "value_array evil_payload 24 17 = Some (2, 18)"
    "value_array evil_payload 24 16 = Some (2, 17)"
    by (simp_all add: evil_payload_def value_array_def)
  then have "field_blobs evil_payload 24 FIELD_FILE_ATTACHMENTS 16 =
      Inr [\<lparr>b_tag = FIELD_FILE_ATTACHMENTS, b_off = 24, b_len = 4294967295, b_name = [], b_mode = 0xFF\<rparr>]"
    by (simp add: field_blobs_def ats file_pairs.simps [of evil_payload 24]
        pair [unfolded FIELD_FILE_ATTACHMENTS_def] FIELD_FILE_ATTACHMENTS_def
        FIELD_IMAGE_def FIELD_AUDIO_def)
  then have f: "parse_field evil_payload 5 16 24 r = Inr (r\<lparr>p_fields := p_fields r @
      [\<lparr>b_tag = FIELD_FILE_ATTACHMENTS, b_off = 24, b_len = 4294967295, b_name = [], b_mode = 0xFF\<rparr>]\<rparr>)" for r
    by (simp add: parse_field_def FIELD_FILE_ATTACHMENTS_def FIELD_TELEMETRY_def FIELD_COMMANDS_def FIELD_CUSTOM_META_def)
  have fs: "parse_fields depth evil_payload 1 15 r = Inr (r\<lparr>p_fields := p_fields r @
      [\<lparr>b_tag = FIELD_FILE_ATTACHMENTS, b_off = 24, b_len = 4294967295, b_name = [], b_mode = 0xFF\<rparr>]\<rparr>)" for r
    by (simp add: parse_fields.simps [of depth evil_payload] len field_key_def ats skips f)
  have "map_header evil_payload 14 = Some (1, 15)" "array_header evil_payload 24 = Some (4, 1)"
    by (simp_all add: map_header_def array_header_def ats)
  then show ?thesis
    by (simp add: parse_lxmf_payload_def len ats [simplified] skips [simplified] reads fs [simplified] clip_def
      numeral_2_eq_2 [symmetric])
qed

theorem parse_wrapped_length_escapes_witness:
  "parse_lxmf_payload 4 True evil_payload = Inr (Some
     \<lparr>p_ts = Some 0x41D9000000000000, p_title = [], p_content = [],
      p_fields = [\<lparr>b_tag = FIELD_FILE_ATTACHMENTS, b_off = 24, b_len = 4294967295, b_name = [], b_mode = 0xFF\<rparr>],
      p_telemetry = [], p_commands = [], p_meta = []\<rparr>)"
  by (rule parse_wrapped_length_escapes) simp

end
