(* ===== verification/LxmfRoundtrip.thy ===== *)
theory LxmfRoundtrip
  imports LxmfPack LxmfParse LxmfLinkInv
begin

text \<open>
  What one node packs the other reads: \<open>prepare_message\<close> never runs out of the buffer it sizes, the
  stamp a sender appends is the one the receiver strips, the message id is the same on both
  sides, and the receiver's parser recovers the timestamp, the (clipped) title and content, the
  fields, the files and the first image and audio clip.

  \<open>effect d n e g\<close> is the contract of one field: wherever its encoding stands in a buffer \<open>d\<close>, skipping
  reaches its end and parsing it changes what was received by \<open>g\<close>.
\<close>

section \<open>Every part can be skipped\<close>

lemma skips_uint8: "skips (Suc n) (pack_uint8 room v)"
proof (cases "v \<le> 0x7F")
  case True
  then have "pack_uint8 room v = [v]" by (simp add: pack_uint8_def room_def)
  with True show ?thesis by (intro skipsI) (auto simp: holds_at_Cons skip_step_def)
next
  case False
  then have "pack_uint8 room v = [0xCC, v]" by (simp add: pack_uint8_def room_def)
  then show ?thesis by (intro skipsI) (auto simp: holds_at_Cons skip_step_def skip_by_def)
qed

lemma skips_array:
  assumes "length es \<le> 65535" "\<And>e. e \<in> set es \<Longrightarrow> skips n e"
  shows "skips (Suc n) (pack_array_header room (length es) @ concat es)"
  using assms by (intro skips_nest array_header_nest) (auto simp: pack_array_header_def room_def)

lemma skips_pair:
  assumes "skips (Suc n) nm" "length d \<le> str_max_size"
  shows "skips (Suc (Suc n)) (pair_enc nm d)"
  using skips_array [of "[nm, pack_bin room d]" "Suc n"] assms skips_bin
  by (auto simp: pair_enc_def numeral_2_eq_2)

text \<open>The parts of a message that the decoder accepts.\<close>

definition sendable :: "(attachment \<Rightarrow> bytes) \<Rightarrow> attachment list \<Rightarrow> extra_fields \<Rightarrow> nat \<Rightarrow> bool" where
  "sendable body as ex n \<longleftrightarrow> length as \<le> 65535 \<and> length (telemetry ex) \<le> str_max_size
     \<and> (\<forall>a \<in> set as. length (body a) \<le> str_max_size \<and> length (filename a) \<le> str_max_size \<and> length (ext a) \<le> str_max_size)
     \<and> (commands ex \<noteq> [] \<longrightarrow> skips n (commands ex)) \<and> (custom_meta ex \<noteq> [] \<longrightarrow> skips n (custom_meta ex))"

lemma tagged_hd: "tagged t as = a # l \<Longrightarrow> a \<in> set as"
  by (metis filter_is_subset list.set_intros(1) subsetD tagged_def)

lemma skips_files:
  assumes "sendable body as ex n" "set fs \<subseteq> set as" "length fs \<le> length as"
  shows "skips (Suc (Suc (Suc k))) (files_enc body fs)"
proof -
  have "skips (Suc (Suc k)) (pair_enc (pack_str room (filename a)) (body a))" if "a \<in> set fs" for a
    using assms(1,2) that by (intro skips_pair skips_str) (auto simp: sendable_def)
  then show ?thesis
    using skips_array [of "map (\<lambda>a. pair_enc (pack_str room (filename a)) (body a)) fs" "Suc (Suc k)"] assms
    by (auto simp: files_enc_def sendable_def)
qed

lemma entry_cases:
  assumes "e \<in> set (entries body as ex)"
  obtains (telemetry) "telemetry ex \<noteq> []" "e = (FIELD_TELEMETRY, pack_bin room (telemetry ex))"
    | (commands) "commands ex \<noteq> []" "e = (FIELD_COMMANDS, commands ex)"
    | (meta) "custom_meta ex \<noteq> []" "e = (FIELD_CUSTOM_META, custom_meta ex)"
    | (image) a l where "tagged FIELD_IMAGE as = a # l" "e = (FIELD_IMAGE, pair_enc (pack_str room (ext a)) (body a))"
    | (audio) a l where "tagged FIELD_AUDIO as = a # l" "e = (FIELD_AUDIO, pair_enc (pack_uint8 room (audio_mode a)) (body a))"
    | (files) "e = (FIELD_FILE_ATTACHMENTS, files_enc body (tagged FIELD_FILE_ATTACHMENTS as))"
proof -
  have "e \<in> set (telemetry_entry ex) \<or> e \<in> set (raw_entry FIELD_COMMANDS (commands ex))
      \<or> e \<in> set (raw_entry FIELD_CUSTOM_META (custom_meta ex)) \<or> e \<in> set (image_entry body as)
      \<or> e \<in> set (audio_entry body as) \<or> e \<in> set (files_entry body as)"
    using assms by (simp add: entries_def)
  then show thesis
  proof (elim disjE)
    assume "e \<in> set (telemetry_entry ex)"
    then show thesis by (intro telemetry) (auto simp: telemetry_entry_def split: if_splits)
  next
    assume "e \<in> set (raw_entry FIELD_COMMANDS (commands ex))"
    then show thesis by (intro commands) (auto simp: raw_entry_def split: if_splits)
  next
    assume "e \<in> set (raw_entry FIELD_CUSTOM_META (custom_meta ex))"
    then show thesis by (intro meta) (auto simp: raw_entry_def split: if_splits)
  next
    assume a: "e \<in> set (image_entry body as)"
    then obtain x l where "tagged FIELD_IMAGE as = x # l" by (cases "tagged FIELD_IMAGE as") (auto simp: image_entry_def)
    with a show thesis by (intro image) (auto simp: image_entry_def)
  next
    assume a: "e \<in> set (audio_entry body as)"
    then obtain x l where "tagged FIELD_AUDIO as = x # l" by (cases "tagged FIELD_AUDIO as") (auto simp: audio_entry_def)
    with a show thesis by (intro audio) (auto simp: audio_entry_def)
  next
    assume "e \<in> set (files_entry body as)"
    then show thesis by (intro files) (auto simp: files_entry_def Let_def split: if_splits)
  qed
qed

lemma skips_value:
  assumes "sendable body as ex n" "3 \<le> n" "e \<in> set (entries body as ex)"
  shows "skips n (snd e)"
proof -
  obtain k where k: "n = Suc (Suc (Suc k))" using assms(2) le_Suc_ex [of 3 n] by auto
  from assms(3) show ?thesis
  proof (cases rule: entry_cases)
    case telemetry
    then show ?thesis using assms(1) by (simp add: k skips_bin sendable_def)
  next
    case (image a l)
    then have "a \<in> set as" using tagged_hd by blast
    with assms(1) have "skips (Suc (Suc (Suc k))) (pair_enc (pack_str room (ext a)) (body a))"
      by (intro skips_pair skips_str) (auto simp: sendable_def)
    with image k show ?thesis by simp
  next
    case (audio a l)
    then have "a \<in> set as" using tagged_hd by blast
    with assms(1) have "skips (Suc (Suc (Suc k))) (pair_enc (pack_uint8 room (audio_mode a)) (body a))"
      by (intro skips_pair skips_uint8) (auto simp: sendable_def)
    with audio k show ?thesis by simp
  next
    case files
    have "set (tagged FIELD_FILE_ATTACHMENTS as) \<subseteq> set as" "length (tagged FIELD_FILE_ATTACHMENTS as) \<le> length as"
      by (auto simp: tagged_def)
    from skips_files [OF assms(1) this] files k show ?thesis by simp
  qed (use assms(1) in \<open>auto simp: sendable_def\<close>)
qed

lemma field_count_le: "field_count as ex \<le> 6"
  by (simp add: field_count_def)

lemma entry_list:
  "length (concat (map (\<lambda>e. [pack_uint8 room (fst e), snd e]) es)) = length es * 2"
  "concat (concat (map (\<lambda>e. [pack_uint8 room (fst e), snd e]) es)) = enc_all es"
  by (induction es) (simp_all add: entry_enc_def)

lemma skips_fields:
  assumes "sendable body as ex n" "3 \<le> n"
  shows "skips (Suc n) (fields_enc body as ex)"
proof (cases "as = [] \<and> telemetry ex = [] \<and> commands ex = [] \<and> custom_meta ex = []")
  case True
  then show ?thesis by (simp add: fields_enc_def skips_nil)
next
  case False
  let ?es = "entries body as ex"
  let ?ls = "concat (map (\<lambda>e. [pack_uint8 room (fst e), snd e]) ?es)"
  obtain k where k: "n = Suc k" using assms(2) by (cases n) auto
  have "skips (Suc n) (pack_map_header room (length ?es) @ concat ?ls)"
  proof (rule skips_nest)
    show "pack_map_header room (length ?es) \<noteq> []" by (simp add: pack_map_header_def room_def)
    show "skips n e" if "e \<in> set ?ls" for e
      using that skips_uint8 skips_value [OF assms] by (auto simp: k)
    show "skip_step data (length data) off = Nest (length ?ls) (off + length (pack_map_header room (length ?es)))"
      if "holds_at data off (pack_map_header room (length ?es))" "off + length (pack_map_header room (length ?es)) \<le> length data"
      for data off
      using map_header_nest [OF _ that] field_count_le [of as ex] by (simp add: entry_list entries_count)
  qed
  moreover have "fields_enc body as ex = pack_map_header room (length ?es) @ concat ?ls"
    using False by (auto simp: fields_enc_def entry_list)
  ultimately show ?thesis by simp
qed

section \<open>The stamp\<close>

text \<open>A buffer that holds the four parts from offset 1 on, under a header of four or five.\<close>

definition holds_message :: "bytes \<Rightarrow> 64 word \<Rightarrow> bytes \<Rightarrow> bytes \<Rightarrow> bytes \<Rightarrow> bool" where
  "holds_message d ts ti co f \<longleftrightarrow> (hd d = 0x94 \<or> hd d = 0x95) \<and> d \<noteq> [] \<and> length d < 2147483648
     \<and> holds_at d 1 (payload_enc ts ti co f)"

lemma wire_holds:
  assumes "p = 0x94 # payload_enc ts ti co f" "payload_wire p st = Inr w" "length w < 2147483648"
  shows "holds_message w ts ti co f"
proof -
  have "holds_at ([h] @ payload_enc ts ti co f @ x) (length [h]) (payload_enc ts ti co f)" for h x
    by (rule holds_at_mid)
  from this [of _ "[0xC4, byte_at 0 (length st)] @ st"] this [of _ "[]"] show ?thesis
    using assms by (auto simp: payload_wire_def holds_message_def split: if_splits)
qed

lemma message_parts:
  assumes "holds_message d ts ti co f" "length ti \<le> str_max_size" "length co \<le> str_max_size" "skips n f" "1 \<le> n"
  defines "o1 \<equiv> 1 + length (pack_float64 room ts)"
  defines "o2 \<equiv> o1 + length (pack_bin room ti)"
  defines "o3 \<equiv> o2 + length (pack_bin room co)"
  shows "skip_e n d (length d) 1 = Inr (True, o1)" "skip_e n d (length d) o1 = Inr (True, o2)"
    "skip_e n d (length d) o2 = Inr (True, o3)" "skip_e n d (length d) o3 = Inr (True, o3 + length f)"
    "read_e d (length d) o1 = Inr (ti, o2)" "read_e d (length d) o2 = Inr (co, o3)"
    "o3 + length f \<le> length d" "holds_at d o3 f" "holds_at d 1 (pack_float64 room ts)"
proof -
  obtain k where k: "n = Suc k" using assms(5) by (cases n) auto
  have l: "length d < 4294967296" "1 \<le> length d" using assms(1) by (auto simp: holds_message_def Suc_leI)
  have h: "holds_at d 1 (pack_float64 room ts)" "holds_at d o1 (pack_bin room ti)" "holds_at d o2 (pack_bin room co)"
    "holds_at d o3 f"
    using assms(1) by (simp_all add: holds_message_def payload_enc_def holds_at_append o1_def o2_def o3_def add.assoc)
  have o: "o1 \<le> length d" using holds_at_len [OF h(1) l(2)] by (simp add: o1_def)
  have o2: "o2 \<le> length d" using holds_at_len [OF h(2) o] by (simp add: o2_def)
  have o3: "o3 \<le> length d" using holds_at_len [OF h(3) o2] by (simp add: o3_def)
  have sk: "skip_e n d (length d) off = Inr (True, off + length e)" if "skips n e" "holds_at d off e" "off \<le> length d" for off e
    using that l by (simp add: skips_def skip_e_def)
  show "skip_e n d (length d) 1 = Inr (True, o1)"
    using sk [OF _ h(1) l(2)] skips_float by (simp add: k o1_def)
  show "skip_e n d (length d) o1 = Inr (True, o2)"
    using sk [OF _ h(2) o] skips_bin [OF assms(2)] by (simp add: k o2_def)
  show "skip_e n d (length d) o2 = Inr (True, o3)"
    using sk [OF _ h(3) o2] skips_bin [OF assms(3)] by (simp add: k o3_def)
  show "skip_e n d (length d) o3 = Inr (True, o3 + length f)" using sk [OF assms(4) h(4) o3] .
  show "read_e d (length d) o1 = Inr (ti, o2)"
    using read_bin [OF h(2) str_room [OF assms(2)] room_less assms(2) o l(1)] by (simp add: read_e_def o2_def)
  show "read_e d (length d) o2 = Inr (co, o3)"
    using read_bin [OF h(3) str_room [OF assms(3)] room_less assms(3) o2 l(1)] by (simp add: read_e_def o3_def)
  show "o3 + length f \<le> length d" using holds_at_len [OF h(4) o3] .
  show "holds_at d o3 f" "holds_at d 1 (pack_float64 room ts)" using h by simp_all
qed

lemma parts_length: "length (payload_enc ts ti co f)
    = length (pack_float64 room ts) + length (pack_bin room ti) + length (pack_bin room co) + length f"
  by (simp add: payload_enc_def)

lemma split_roundtrip:
  assumes "p = 0x94 # payload_enc ts ti co f" "payload_wire p st = Inr w" "length w < 2147483648"
    "length ti \<le> str_max_size" "length co \<le> str_max_size" "skips n f" "1 \<le> n" "length st \<le> 255"
  shows "\<exists>s. split_payload_stamp n w = Inr (Some s) \<and> stamp s = st \<and> hash_core w s = p"
proof -
  note h = wire_holds [OF assms(1-3)]
  note parts = message_parts [OF h assms(4-7)]
  show ?thesis
  proof (cases "st = []")
    case True
    then have w: "w = p" using assms(2) by (simp add: payload_wire_def)
    then have "array_header w (length w) = Some (4, 1)" by (simp add: assms(1) array_header_def)
    then show ?thesis using w True by (simp add: split_payload_stamp_def Let_def hash_core_def assms(1))
  next
    case False
    let ?q = "length p"
    have w: "w = 0x95 # payload_enc ts ti co f @ [0xC4, byte_at 0 (length st)] @ st"
      using assms(1,2) False by (simp add: payload_wire_def)
    have hd5: "array_header w (length w) = Some (5, 1)" by (simp add: w array_header_def)
    have four: "skip_n n 4 d l off = skip_n n (Suc (Suc (Suc (Suc 0)))) d l off" for d l off
      by (simp add: eval_nat_numeral)
    have sk: "skip_n n 4 w (length w) 1 = Inr (True, ?q)"
      using parts(1-4) parts_length [of ts ti co f] by (simp add: four assms(1))
    have st: "[0xC4, byte_at 0 (length st)] @ st = pack_bin room st"
      using assms(8) by (simp add: pack_bin_def pack_bin_header_def room_def)
    have "w = (0x95 # payload_enc ts ti co f) @ pack_bin room st @ []" using w st by simp
    then have hs: "holds_at w ?q (pack_bin room st)"
      using holds_at_mid [of "0x95 # payload_enc ts ti co f" "pack_bin room st" "[]"] by (simp add: assms(1))
    have q: "?q \<le> length w" by (simp add: w assms(1))
    have m: "length st \<le> str_max_size" using assms(8) by (simp add: str_max_size_def)
    have rd: "read_e w (length w) ?q = Inr (st, ?q + length (pack_bin room st))"
      using read_bin [OF hs str_room [OF m] room_less m q] assms(3) by (simp add: read_e_def)
    have "sub32 ?q 1 = length (payload_enc ts ti co f)"
      using assms(3) by (subst sub32_le) (simp_all add: assms(1) w)
    then have core: "0x94 # take (sub32 ?q 1) (drop 1 w) = p" by (simp add: w assms(1))
    have ne: "\<not> length w < 1" by (simp add: w)
    show ?thesis using hd5 sk rd core ne by (simp add: split_payload_stamp_def Let_def hash_core_def)
  qed
qed

section \<open>Reading inside a field\<close>

lemma read_slen_take: "read_slen (take n d) n t off = read_slen d n t off"
  by (simp add: read_slen_def be16_at_def be32_at_def)

lemma read_prefix:
  assumes "ve \<le> length d" "length d < 2147483648"
  shows "read_bin_or_str d ve off = read_bin_or_str (take ve d) ve off"
proof (cases "off < ve")
  case True
  show ?thesis
  proof (cases "read_slen d ve (d ! off) (Suc off)")
    case (Some x)
    obtain n o' where x: "x = (n, o')" by (cases x)
    have o': "o' \<le> ve" using Some True unfolding x read_slen_def by (auto split: if_splits)
    have "take n (drop o' (take ve d)) = take n (drop o' d)" if "wrap32 (o' + n) \<le> ve" "n \<le> str_max_size"
    proof -
      have "o' + n < 4294967296" using o' that(2) assms by (simp add: str_max_size_def)
      then have "o' + n \<le> ve" using that(1) by simp
      then have "n \<le> ve - o'" by linarith
      then show ?thesis by (simp add: drop_take min_absorb1)
    qed
    then show ?thesis using Some x True by (simp add: read_bin_or_str_def read_slen_take Let_def)
  qed (use True in \<open>simp add: read_bin_or_str_def read_slen_take\<close>)
qed (simp add: read_bin_or_str_def)

lemma holds_prefix: "holds_at d off x \<Longrightarrow> off + length x \<le> ve \<Longrightarrow> holds_at (take ve d) off x"
proof -
  assume "holds_at d off x" "off + length x \<le> ve"
  moreover from this have "length x \<le> ve - off" by linarith
  ultimately show ?thesis by (simp add: holds_at_def drop_take min_absorb1)
qed

lemma read_bin_in:
  assumes "holds_at d off (pack_bin room x)" "off + length (pack_bin room x) \<le> ve" "ve \<le> length d"
    "length d < 2147483648" "length x \<le> str_max_size"
  shows "read_e d ve off = Inr (x, off + length (pack_bin room x))"
proof -
  have h: "holds_at (take ve d) off (pack_bin room x)"
    by (rule holds_prefix [OF assms(1,2)])
  show ?thesis
    using read_bin [OF h str_room [OF assms(5)] room_less assms(5)] assms read_prefix [OF assms(3,4)]
    by (simp add: read_e_def)
qed

lemma read_str_in:
  assumes "holds_at d off (pack_str room x)" "off + length (pack_str room x) \<le> ve" "ve \<le> length d"
    "length d < 2147483648" "length x \<le> str_max_size"
  shows "read_e d ve off = Inr (x, off + length (pack_str room x))"
proof -
  have h: "holds_at (take ve d) off (pack_str room x)"
    by (rule holds_prefix [OF assms(1,2)])
  show ?thesis
    using read_str [OF h str_room [OF assms(5)] room_less assms(5)] assms read_prefix [OF assms(3,4)]
    by (simp add: read_e_def)
qed

lemma bin_header_in:
  assumes "holds_at d p (pack_bin_header room n)" "p + length (pack_bin_header room n) + n \<le> ve" "n < 4294967296"
  shows "bin_header d ve p = Some (length (pack_bin_header room n), n)"
proof -
  have "5 \<le> room" by (simp add: room_def)
  then show ?thesis
    using assms(3,1)
  proof (cases rule: pack_bin_header_cases)
    case bin8
    with assms(2) show ?thesis by (simp add: bin_header_def)
  next
    case bin16
    with assms(2) show ?thesis by (simp add: bin_header_def)
  next
    case bin32
    with assms(2) show ?thesis by (simp add: bin_header_def)
  qed
qed

section \<open>Pairs and fields\<close>

text \<open>What a receiver gets from a blob.\<close>

definition blob_view :: "bytes \<Rightarrow> blob \<Rightarrow> u8 \<times> bytes \<times> u8 \<times> bytes" where
  "blob_view d b = (b_tag b, b_name b, b_mode b, blob_data d b)"

lemma emit_tail:
  assumes "holds_at d p (pack_bin room x)" "p + length (pack_bin room x) \<le> ve" "ve \<le> length d"
    "length d < 2147483648" "length x \<le> str_max_size"
  shows "p < ve" "\<exists>h. bin_header d ve p = Some (h, length x) \<and> p + h + length x = p + length (pack_bin room x)
      \<and> take (length x) (drop (p + h) d) = x"
proof -
  let ?h = "pack_bin_header room (length x)"
  have e: "pack_bin room x = ?h @ x" by (rule pack_bin_room [OF str_room [OF assms(5)] room_less])
  have "?h \<noteq> []" by (rule pack_bin_header_ne) (simp add: room_def)
  then show "p < ve" using assms(2) by (cases ?h) (auto simp: e)
  have h: "holds_at d p ?h" "holds_at d (p + length ?h) x" using assms(1) by (simp_all add: e holds_at_append)
  have "bin_header d ve p = Some (length ?h, length x)"
    using assms(2,5) by (intro bin_header_in [OF h(1)]) (auto simp: e str_max_size_def)
  then show "\<exists>h. bin_header d ve p = Some (h, length x) \<and> p + h + length x = p + length (pack_bin room x)
      \<and> take (length x) (drop (p + h) d) = x"
    using holds_at_take [OF h(2)] by (auto simp: e)
qed

lemma emit_pair_eq:
  assumes "p < ve" "pair_name d ve tag p = Inr (Some (nm, md, q))" "q < ve" "bin_header d ve q = Some (h, n)"
    "q + h + n \<le> ve" "ve < 4294967296"
  shows "emit_pair d ve tag p = Inr ([\<lparr>b_tag = tag, b_off = q + h, b_len = n, b_name = nm, b_mode = md\<rparr>], q + h + n)"
proof -
  have "wrap32 (q + h + n) = q + h + n" using assms(5,6) by simp
  with assms show ?thesis by (simp add: emit_pair_def)
qed

lemma emit_named:
  assumes "holds_at d p (pack_str room nm @ pack_bin room x)" "p + length (pack_str room nm) + length (pack_bin room x) \<le> ve"
    "ve \<le> length d" "length d < 2147483648" "length x \<le> str_max_size" "length nm \<le> str_max_size" "tag \<noteq> FIELD_AUDIO"
  shows "\<exists>b. emit_pair d ve tag p = Inr ([b], p + length (pack_str room nm) + length (pack_bin room x))
      \<and> blob_view d b = (tag, nm, 0xFF, x)"
proof -
  let ?q = "p + length (pack_str room nm)"
  have h: "holds_at d p (pack_str room nm)" "holds_at d ?q (pack_bin room x)"
    using assms(1) by (simp_all add: holds_at_append)
  have ne: "pack_str room nm \<noteq> []" by (rule pack_str_ne [OF str_room [OF assms(6)]])
  have l: "?q + length (pack_bin room x) \<le> ve" "?q \<le> ve" using assms(2) by simp_all
  note t = emit_tail [OF h(2) l(1) assms(3-5)]
  obtain k where k: "bin_header d ve ?q = Some (k, length x)" "?q + k + length x = ?q + length (pack_bin room x)"
    "take (length x) (drop (?q + k) d) = x" using t(2) by auto
  have "read_e d ve p = Inr (nm, ?q)" by (rule read_str_in [OF h(1) l(2) assms(3,4,6)])
  then have "pair_name d ve tag p = Inr (Some (nm, 0xFF, ?q))"
    using assms(7) ne by (simp add: pair_name_def)
  from emit_pair_eq [OF _ this t(1) k(1)] k(2) l t(1) assms(3,4)
  have "emit_pair d ve tag p = Inr ([\<lparr>b_tag = tag, b_off = ?q + k, b_len = length x, b_name = nm, b_mode = 0xFF\<rparr>], ?q + length (pack_bin room x))"
    by simp
  then show ?thesis using k(3) by (auto simp: blob_view_def blob_data_def)
qed

lemma emit_moded:
  assumes "holds_at d p (pack_uint8 room md @ pack_bin room x)" "p + length (pack_uint8 room md) + length (pack_bin room x) \<le> ve"
    "ve \<le> length d" "length d < 2147483648" "length x \<le> str_max_size"
  shows "\<exists>b. emit_pair d ve FIELD_AUDIO p = Inr ([b], p + length (pack_uint8 room md) + length (pack_bin room x))
      \<and> blob_view d b = (FIELD_AUDIO, [], md, x)"
proof -
  let ?q = "p + length (pack_uint8 room md)"
  have h: "holds_at d p (pack_uint8 room md)" "holds_at d ?q (pack_bin room x)"
    using assms(1) by (simp_all add: holds_at_append)
  have l: "?q + length (pack_bin room x) \<le> ve" "?q \<le> ve" using assms(2) by simp_all
  note t = emit_tail [OF h(2) l(1) assms(3-5)]
  obtain k where k: "bin_header d ve ?q = Some (k, length x)" "?q + k + length x = ?q + length (pack_bin room x)"
    "take (length x) (drop (?q + k) d) = x" using t(2) by auto
  have "pair_name d ve FIELD_AUDIO p = Inr (Some ([], md, ?q))"
    using h(1) t(1) by (auto simp: pair_name_def pack_uint8_def room_def holds_at_Cons Let_def split: if_splits)
  from emit_pair_eq [OF _ this t(1) k(1)] k(2) l t(1) assms(3,4)
  have "emit_pair d ve FIELD_AUDIO p = Inr ([\<lparr>b_tag = FIELD_AUDIO, b_off = ?q + k, b_len = length x, b_name = [], b_mode = md\<rparr>], ?q + length (pack_bin room x))"
    by simp
  then show ?thesis using k(3) by (auto simp: blob_view_def blob_data_def)
qed

lemma value_array_in:
  assumes "holds_at d p (pack_array_header room n)" "p + length (pack_array_header room n) < ve" "n \<le> 65535"
  shows "value_array d ve p = Some (n, p + length (pack_array_header room n))"
    "d ! p AND 0xF0 = 0x90 \<or> d ! p = 0xDC \<or> d ! p = 0xDD"
proof -
  have "value_array d ve p = Some (n, p + length (pack_array_header room n)) \<and> (d ! p AND 0xF0 = 0x90 \<or> d ! p = 0xDC \<or> d ! p = 0xDD)"
  proof (cases "n \<le> 15")
    case True
    with assms show ?thesis
      by (auto simp: pack_array_header_def room_def holds_at_Cons value_array_def Let_def fixarr_tag)
  next
    case False
    then have e: "pack_array_header room n = 0xDC # [byte_at 8 n, byte_at 0 n]"
      using assms(3) by (simp add: pack_array_header_def room_def)
    then have "d ! p = 0xDC" "holds_at d (Suc p) [byte_at 8 n, byte_at 0 n]"
      using assms(1) by (simp_all only: holds_at_Cons)
    then show ?thesis using assms(2,3) e by (simp add: value_array_def be16_at_holds)
  qed
  then show "value_array d ve p = Some (n, p + length (pack_array_header room n))"
    "d ! p AND 0xF0 = 0x90 \<or> d ! p = 0xDC \<or> d ! p = 0xDD" by simp_all
qed

lemma two_header: "pack_array_header room 2 = [0x92]"
  by (simp add: pack_array_header_def room_def byte_at_def)

lemma pair_split:
  assumes "holds_at d p (pair_enc nm x)"
  shows "holds_at d p (pack_array_header room 2)" "holds_at d (Suc p) (nm @ pack_bin room x)"
    "length (pair_enc nm x) = Suc (length nm + length (pack_bin room x))"
  using assms by (simp_all add: pair_enc_def holds_at_append two_header holds_at_Cons)

definition file_view :: "(attachment \<Rightarrow> bytes) \<Rightarrow> attachment \<Rightarrow> u8 \<times> bytes \<times> u8 \<times> bytes" where
  "file_view body a = (FIELD_FILE_ATTACHMENTS, filename a, 0xFF, body a)"

lemma bin_ne: "length x \<le> str_max_size \<Longrightarrow> pack_bin room x \<noteq> []"
  by (rule pack_bin_ne) (rule str_room)

lemma file_pairs_in:
  assumes "ve \<le> length d" "length d < 2147483648"
    "\<And>a. a \<in> set fs \<Longrightarrow> length (body a) \<le> str_max_size \<and> length (filename a) \<le> str_max_size"
  shows "holds_at d p (concat (map (\<lambda>a. pair_enc (pack_str room (filename a)) (body a)) fs)) \<Longrightarrow>
    p + length (concat (map (\<lambda>a. pair_enc (pack_str room (filename a)) (body a)) fs)) \<le> ve \<Longrightarrow>
    \<exists>bs. file_pairs d ve (length fs) p = Inr bs \<and> map (blob_view d) bs = map (file_view body) fs"
  using assms(3)
proof (induction fs arbitrary: p)
  case Nil
  then show ?case by (simp add: file_pairs.simps)
next
  case (Cons a fs)
  let ?nm = "pack_str room (filename a)" and ?x = "pack_bin room (body a)"
  let ?e = "pair_enc ?nm (body a)"
  have sz: "length (body a) \<le> str_max_size" "length (filename a) \<le> str_max_size" using Cons.prems(3) by simp_all
  have h: "holds_at d p ?e" "holds_at d (p + length ?e) (concat (map (\<lambda>a. pair_enc (pack_str room (filename a)) (body a)) fs))"
    using Cons.prems(1) by (simp_all add: holds_at_append)
  note ps = pair_split [OF h(1)]
  have le: "Suc p + length ?nm + length ?x \<le> ve" "p + length ?e = Suc p + length ?nm + length ?x"
    using Cons.prems(2) ps(3) by simp_all
  have "Suc p < ve" using le(1) bin_ne [OF sz(1)] by (cases ?x) auto
  then have va: "value_array d ve p = Some (2, Suc p)" "p < ve"
    using value_array_in(1) [OF ps(1), of ve] by (simp_all add: two_header)
  obtain b where b: "emit_pair d ve FIELD_FILE_ATTACHMENTS (Suc p) = Inr ([b], p + length ?e)"
    "blob_view d b = file_view body a"
    using emit_named [OF ps(2) le(1) assms(1,2) sz, of FIELD_FILE_ATTACHMENTS] le(2)
    by (auto simp: file_view_def FIELD_FILE_ATTACHMENTS_def FIELD_AUDIO_def)
  have "p + length ?e + length (concat (map (\<lambda>a. pair_enc (pack_str room (filename a)) (body a)) fs)) \<le> ve"
    using Cons.prems(2) by simp
  from Cons.IH [OF h(2) this] Cons.prems(3)
  obtain bs where bs: "file_pairs d ve (length fs) (p + length ?e) = Inr bs" "map (blob_view d) bs = map (file_view body) fs"
    by auto
  have "file_pairs d ve (length (a # fs)) p = Inr (b # bs)"
    using va b(1) bs(1) le(2) by (subst file_pairs.simps) simp
  then show ?case using b(2) bs(2) by simp
qed

section \<open>The fields of a message\<close>

record received =
  rc_ts :: "64 word option"
  rc_title :: bytes
  rc_content :: bytes
  rc_files :: "(u8 \<times> bytes \<times> u8 \<times> bytes) list"
  rc_telemetry :: bytes
  rc_commands :: bytes
  rc_meta :: bytes

definition view :: "bytes \<Rightarrow> parsed \<Rightarrow> received" where
  "view d r = \<lparr>rc_ts = p_ts r, rc_title = p_title r, rc_content = p_content r, rc_files = map (blob_view d) (p_fields r),
     rc_telemetry = p_telemetry r, rc_commands = p_commands r, rc_meta = p_meta r\<rparr>"

definition add_files :: "(u8 \<times> bytes \<times> u8 \<times> bytes) list \<Rightarrow> received \<Rightarrow> received" where
  "add_files fs r = r\<lparr>rc_files := rc_files r @ fs\<rparr>"

text \<open>\<open>effect d n e g\<close>: parsing the field \<open>e\<close> where it stands changes what is received by \<open>g\<close>.\<close>

definition effect :: "bytes \<Rightarrow> nat \<Rightarrow> u8 \<times> bytes \<Rightarrow> (received \<Rightarrow> received) \<Rightarrow> bool" where
  "effect d n e g \<longleftrightarrow> skips n (snd e) \<and> (\<forall>vs r. holds_at d vs (snd e) \<longrightarrow> vs + length (snd e) \<le> length d \<longrightarrow>
     (\<exists>r'. parse_field d (fst e) vs (vs + length (snd e)) r = Inr r' \<and> view d r' = g (view d r)))"

lemma effectI:
  assumes "skips n v" "\<And>vs r. holds_at d vs v \<Longrightarrow> vs + length v \<le> length d \<Longrightarrow>
    \<exists>r'. parse_field d k vs (vs + length v) r = Inr r' \<and> view d r' = g (view d r)"
  shows "effect d n (k, v) g"
  using assms by (simp add: effect_def)

lemma field_key_in:
  assumes "holds_at d off (pack_uint8 room k)" "off + length (pack_uint8 room k) \<le> length d"
  shows "off < length d" "field_key d (length d) off = Some (k, off + length (pack_uint8 room k))"
  using assms by (auto simp: pack_uint8_def room_def holds_at_Cons field_key_def Let_def split: if_splits)

lemma enc_all_Cons: "enc_all (e # es) = pack_uint8 room (fst e) @ snd e @ enc_all es"
  by (simp add: entry_enc_def)

lemma parse_fields_in:
  assumes "length d < 4294967296" "list_all2 (effect d n) es gs"
  shows "holds_at d off (enc_all es) \<Longrightarrow> off + length (enc_all es) \<le> length d \<Longrightarrow>
    \<exists>r'. parse_fields n d (length es) off r = Inr r' \<and> view d r' = fold (\<lambda>g. g) gs (view d r)"
  using assms(2)
proof (induction es gs arbitrary: off r rule: list_all2_induct)
  case Nil
  then show ?case by (simp add: parse_fields.simps)
next
  case (Cons e es g gs)
  let ?k = "pack_uint8 room (fst e)"
  let ?vs = "off + length ?k" let ?ve = "?vs + length (snd e)"
  have h: "holds_at d off ?k" "holds_at d ?vs (snd e)" "holds_at d ?ve (enc_all es)"
    using Cons.prems(1) unfolding enc_all_Cons holds_at_append by (simp_all add: add.assoc)
  have l: "?ve + length (enc_all es) \<le> length d" "?ve \<le> length d" "?vs \<le> length d"
    using Cons.prems(2) unfolding enc_all_Cons length_append by simp_all
  note fk = field_key_in [OF h(1) l(3)]
  have sk: "skip_e n d (length d) ?vs = Inr (True, ?ve)"
    using Cons.hyps(1) h(2) l assms(1) by (simp add: effect_def skips_def skip_e_def)
  obtain r1 where r1: "parse_field d (fst e) ?vs ?ve r = Inr r1" "view d r1 = g (view d r)"
    using Cons.hyps(1) h(2) l(2) unfolding effect_def by blast
  obtain r2 where r2: "parse_fields n d (length es) ?ve r1 = Inr r2" "view d r2 = fold (\<lambda>g. g) gs (view d r1)"
    using Cons.IH [OF h(3) l(1)] by blast
  have "parse_fields n d (length (e # es)) off r = Inr r2"
    using fk sk r1(1) r2(1) by (subst parse_fields.simps) simp
  then show ?case using r1(2) r2(2) by simp
qed

lemmas field_tags = FIELD_TELEMETRY_def FIELD_COMMANDS_def FIELD_CUSTOM_META_def FIELD_IMAGE_def FIELD_AUDIO_def
  FIELD_FILE_ATTACHMENTS_def

lemma effect_telemetry:
  assumes "length t \<le> str_max_size" "t \<noteq> []" "length d < 2147483648" "1 \<le> n"
  shows "effect d n (FIELD_TELEMETRY, pack_bin room t) (\<lambda>r. r\<lparr>rc_telemetry := t\<rparr>)"
proof (rule effectI)
  show "skips n (pack_bin room t)" using skips_bin [OF assms(1), of "n - 1"] assms(4) by simp
  fix vs r assume h: "holds_at d vs (pack_bin room t)" "vs + length (pack_bin room t) \<le> length d"
  have "read_e d (vs + length (pack_bin room t)) vs = Inr (t, vs + length (pack_bin room t))"
    by (rule read_bin_in [OF h(1) order_refl h(2) assms(3,1)])
  then show "\<exists>r'. parse_field d FIELD_TELEMETRY vs (vs + length (pack_bin room t)) r = Inr r' \<and>
      view d r' = (view d r)\<lparr>rc_telemetry := t\<rparr>"
    using assms(2) by (simp add: parse_field_def view_def)
qed

lemma effect_raw:
  assumes "skips n v" "length d < 2147483648"
  shows "effect d n (FIELD_COMMANDS, v) (\<lambda>r. r\<lparr>rc_commands := v\<rparr>)"
    "effect d n (FIELD_CUSTOM_META, v) (\<lambda>r. r\<lparr>rc_meta := v\<rparr>)"
proof -
  have s: "take (sub32 (vs + length v) vs) (drop vs d) = v" if "holds_at d vs v" "vs + length v \<le> length d" for vs
    using that assms(2) by (simp add: sub32_le holds_at_take)
  show "effect d n (FIELD_COMMANDS, v) (\<lambda>r. r\<lparr>rc_commands := v\<rparr>)"
    by (rule effectI [OF assms(1)]) (simp add: parse_field_def field_tags view_def s)
  show "effect d n (FIELD_CUSTOM_META, v) (\<lambda>r. r\<lparr>rc_meta := v\<rparr>)"
    by (rule effectI [OF assms(1)]) (simp add: parse_field_def field_tags view_def s)
qed

lemma effect_blobs:
  assumes "skips n v" "key = FIELD_FILE_ATTACHMENTS \<or> key = FIELD_IMAGE \<or> key = FIELD_AUDIO"
    "\<And>vs. holds_at d vs v \<Longrightarrow> vs + length v \<le> length d \<Longrightarrow>
      \<exists>bs. field_blobs d (vs + length v) key vs = Inr bs \<and> map (blob_view d) bs = fs"
  shows "effect d n (key, v) (add_files fs)"
proof (rule effectI [OF assms(1)])
  fix vs r assume "holds_at d vs v" "vs + length v \<le> length d"
  then obtain bs where bs: "field_blobs d (vs + length v) key vs = Inr bs" "map (blob_view d) bs = fs"
    using assms(3) by blast
  have "parse_field d key vs (vs + length v) r = Inr (r\<lparr>p_fields := p_fields r @ bs\<rparr>)"
    using assms(2) bs(1) by (auto simp: parse_field_def field_tags)
  then show "\<exists>r'. parse_field d key vs (vs + length v) r = Inr r' \<and> view d r' = add_files fs (view d r)"
    using bs(2) by (simp add: view_def add_files_def)
qed

lemma blobs_pair:
  assumes "holds_at d vs (pair_enc nm x)" "vs + length (pair_enc nm x) \<le> length d" "length x \<le> str_max_size"
    "key = FIELD_IMAGE \<or> key = FIELD_AUDIO"
    "\<exists>b. emit_pair d (vs + length (pair_enc nm x)) key (Suc vs) = Inr ([b], q) \<and> blob_view d b = v"
  shows "\<exists>bs. field_blobs d (vs + length (pair_enc nm x)) key vs = Inr bs \<and> map (blob_view d) bs = [v]"
proof -
  note ps = pair_split [OF assms(1)]
  have "Suc vs < vs + length (pair_enc nm x)" using ps(3) bin_ne [OF assms(3)] by (cases "pack_bin room x") auto
  with value_array_in [OF ps(1), of "vs + length (pair_enc nm x)"] assms(4,5) show ?thesis
    by (auto simp: two_header field_blobs_def Let_def)
qed

lemma effect_image:
  assumes "length x \<le> str_max_size" "length nm \<le> str_max_size" "length d < 2147483648" "3 \<le> n"
  shows "effect d n (FIELD_IMAGE, pair_enc (pack_str room nm) x) (add_files [(FIELD_IMAGE, nm, 0xFF, x)])"
proof (rule effect_blobs)
  obtain k where k: "n = Suc (Suc (Suc k))" using assms(4) le_Suc_ex [of 3 n] by auto
  show "skips n (pair_enc (pack_str room nm) x)" unfolding k by (rule skips_pair [OF skips_str [OF assms(2)] assms(1)])
  fix vs assume h: "holds_at d vs (pair_enc (pack_str room nm) x)" "vs + length (pair_enc (pack_str room nm) x) \<le> length d"
  note ps = pair_split [OF h(1)]
  have "Suc vs + length (pack_str room nm) + length (pack_bin room x) \<le> vs + length (pair_enc (pack_str room nm) x)"
    using ps(3) by simp
  from emit_named [OF ps(2) this h(2) assms(3,1,2), of FIELD_IMAGE]
  show "\<exists>bs. field_blobs d (vs + length (pair_enc (pack_str room nm) x)) FIELD_IMAGE vs = Inr bs
      \<and> map (blob_view d) bs = [(FIELD_IMAGE, nm, 0xFF, x)]"
    by (intro blobs_pair [OF h assms(1)]) (auto simp: field_tags)
qed simp

lemma effect_audio:
  assumes "length x \<le> str_max_size" "length d < 2147483648" "3 \<le> n"
  shows "effect d n (FIELD_AUDIO, pair_enc (pack_uint8 room md) x) (add_files [(FIELD_AUDIO, [], md, x)])"
proof (rule effect_blobs)
  obtain k where k: "n = Suc (Suc (Suc k))" using assms(3) le_Suc_ex [of 3 n] by auto
  show "skips n (pair_enc (pack_uint8 room md) x)" unfolding k by (rule skips_pair [OF skips_uint8 assms(1)])
  fix vs assume h: "holds_at d vs (pair_enc (pack_uint8 room md) x)" "vs + length (pair_enc (pack_uint8 room md) x) \<le> length d"
  note ps = pair_split [OF h(1)]
  have "Suc vs + length (pack_uint8 room md) + length (pack_bin room x) \<le> vs + length (pair_enc (pack_uint8 room md) x)"
    using ps(3) by simp
  from emit_moded [OF ps(2) this h(2) assms(2,1)]
  show "\<exists>bs. field_blobs d (vs + length (pair_enc (pack_uint8 room md) x)) FIELD_AUDIO vs = Inr bs
      \<and> map (blob_view d) bs = [(FIELD_AUDIO, [], md, x)]"
    by (intro blobs_pair [OF h assms(1)]) auto
qed simp

lemma effect_files:
  assumes "sendable body as ex k" "set fs \<subseteq> set as" "length fs \<le> length as" "fs \<noteq> []" "length d < 2147483648" "3 \<le> n"
  shows "effect d n (FIELD_FILE_ATTACHMENTS, files_enc body fs) (add_files (map (file_view body) fs))"
proof (rule effect_blobs)
  obtain m where m: "n = Suc (Suc (Suc m))" using assms(6) le_Suc_ex [of 3 n] by auto
  show "skips n (files_enc body fs)" unfolding m by (rule skips_files [OF assms(1-3)])
  let ?es = "concat (map (\<lambda>a. pair_enc (pack_str room (filename a)) (body a)) fs)"
  let ?h = "pack_array_header room (length fs)"
  fix vs assume h: "holds_at d vs (files_enc body fs)" "vs + length (files_enc body fs) \<le> length d"
  let ?ve = "vs + length (files_enc body fs)"
  have p: "holds_at d vs ?h" "holds_at d (vs + length ?h) ?es" using h(1) by (simp_all add: files_enc_def holds_at_append)
  have n: "length fs \<le> 65535" using assms(1,3) by (simp add: sendable_def)
  have sz: "\<And>a. a \<in> set fs \<Longrightarrow> length (body a) \<le> str_max_size \<and> length (filename a) \<le> str_max_size"
    using assms(1,2) by (auto simp: sendable_def)
  have "?es \<noteq> []" using assms(4) by (cases fs) (auto simp: pair_enc_def two_header)
  then have lt: "vs + length ?h < ?ve" by (simp add: files_enc_def)
  have le: "vs + length ?h + length ?es \<le> ?ve" by (simp add: files_enc_def)
  obtain bs where "file_pairs d ?ve (length fs) (vs + length ?h) = Inr bs" "map (blob_view d) bs = map (file_view body) fs"
    using file_pairs_in [OF h(2) assms(5) sz p(2) le] by blast
  with value_array_in [OF p(1) lt n] show "\<exists>bs. field_blobs d ?ve FIELD_FILE_ATTACHMENTS vs = Inr bs
      \<and> map (blob_view d) bs = map (file_view body) fs"
    by (auto simp: field_blobs_def Let_def field_tags)
qed simp

section \<open>What is received of a message\<close>

definition image_effect :: "(attachment \<Rightarrow> bytes) \<Rightarrow> attachment list \<Rightarrow> (u8 \<times> bytes \<times> u8 \<times> bytes) list" where
  "image_effect body as = (case tagged FIELD_IMAGE as of [] \<Rightarrow> [] | a # _ \<Rightarrow> [(FIELD_IMAGE, ext a, 0xFF, body a)])"

definition audio_effect :: "(attachment \<Rightarrow> bytes) \<Rightarrow> attachment list \<Rightarrow> (u8 \<times> bytes \<times> u8 \<times> bytes) list" where
  "audio_effect body as = (case tagged FIELD_AUDIO as of [] \<Rightarrow> [] | a # _ \<Rightarrow> [(FIELD_AUDIO, [], audio_mode a, body a)])"

text \<open>The first image, the first audio clip, every file.\<close>

definition delivered_files :: "(attachment \<Rightarrow> bytes) \<Rightarrow> attachment list \<Rightarrow> (u8 \<times> bytes \<times> u8 \<times> bytes) list" where
  "delivered_files body as =
    image_effect body as @ audio_effect body as @ map (file_view body) (tagged FIELD_FILE_ATTACHMENTS as)"

definition delivered :: "64 word \<Rightarrow> bytes \<Rightarrow> bytes \<Rightarrow> (attachment \<Rightarrow> bytes) \<Rightarrow> attachment list \<Rightarrow> extra_fields \<Rightarrow> received" where
  "delivered ts ti co body as ex = \<lparr>rc_ts = Some ts, rc_title = clip LXMF_MAX_TITLE_BYTES ti,
     rc_content = clip LXMF_MAX_BODY_BYTES co, rc_files = delivered_files body as, rc_telemetry = telemetry ex,
     rc_commands = commands ex, rc_meta = custom_meta ex\<rparr>"

definition effects :: "(attachment \<Rightarrow> bytes) \<Rightarrow> attachment list \<Rightarrow> extra_fields \<Rightarrow> (received \<Rightarrow> received) list" where
  "effects body as ex =
    (if telemetry ex = [] then [] else [\<lambda>r. r\<lparr>rc_telemetry := telemetry ex\<rparr>])
    @ (if commands ex = [] then [] else [\<lambda>r. r\<lparr>rc_commands := commands ex\<rparr>])
    @ (if custom_meta ex = [] then [] else [\<lambda>r. r\<lparr>rc_meta := custom_meta ex\<rparr>])
    @ (if tagged FIELD_IMAGE as = [] then [] else [add_files (image_effect body as)])
    @ (if tagged FIELD_AUDIO as = [] then [] else [add_files (audio_effect body as)])
    @ (if tagged FIELD_FILE_ATTACHMENTS as = [] then []
       else [add_files (map (file_view body) (tagged FIELD_FILE_ATTACHMENTS as))])"

lemma effects_sum:
  "fold (\<lambda>g. g) (effects body as ex) \<lparr>rc_ts = t, rc_title = ti, rc_content = co, rc_files = [], rc_telemetry = [],
     rc_commands = [], rc_meta = []\<rparr>
   = \<lparr>rc_ts = t, rc_title = ti, rc_content = co, rc_files = delivered_files body as, rc_telemetry = telemetry ex,
     rc_commands = commands ex, rc_meta = custom_meta ex\<rparr>"
  by (simp add: effects_def add_files_def delivered_files_def image_effect_def audio_effect_def)

lemma effects_hold:
  assumes "sendable body as ex n" "3 \<le> n" "length d < 2147483648"
  shows "list_all2 (effect d n) (entries body as ex) (effects body as ex)"
proof -
  have t: "list_all2 (effect d n) (telemetry_entry ex) (if telemetry ex = [] then [] else [\<lambda>r. r\<lparr>rc_telemetry := telemetry ex\<rparr>])"
    using effect_telemetry [OF _ _ assms(3)] assms(1,2) by (simp add: telemetry_entry_def sendable_def)
  have c: "list_all2 (effect d n) (raw_entry FIELD_COMMANDS (commands ex)) (if commands ex = [] then [] else [\<lambda>r. r\<lparr>rc_commands := commands ex\<rparr>])"
    and m: "list_all2 (effect d n) (raw_entry FIELD_CUSTOM_META (custom_meta ex)) (if custom_meta ex = [] then [] else [\<lambda>r. r\<lparr>rc_meta := custom_meta ex\<rparr>])"
    using effect_raw [OF _ assms(3)] assms(1) by (simp_all add: raw_entry_def sendable_def)
  have i: "list_all2 (effect d n) (image_entry body as) (if tagged FIELD_IMAGE as = [] then [] else [add_files (image_effect body as)])"
  proof (cases "tagged FIELD_IMAGE as")
    case (Cons a l)
    then have "a \<in> set as" by (rule tagged_hd)
    then have "length (body a) \<le> str_max_size" "length (ext a) \<le> str_max_size" using assms(1) by (simp_all add: sendable_def)
    from effect_image [OF this assms(3,2)] Cons show ?thesis by (simp add: image_entry_def image_effect_def)
  qed (simp add: image_entry_def)
  have a: "list_all2 (effect d n) (audio_entry body as) (if tagged FIELD_AUDIO as = [] then [] else [add_files (audio_effect body as)])"
  proof (cases "tagged FIELD_AUDIO as")
    case (Cons a l)
    then have "a \<in> set as" by (rule tagged_hd)
    then have "length (body a) \<le> str_max_size" using assms(1) by (simp add: sendable_def)
    from effect_audio [OF this assms(3,2)] Cons show ?thesis by (simp add: audio_entry_def audio_effect_def)
  qed (simp add: audio_entry_def)
  have f: "list_all2 (effect d n) (files_entry body as) (if tagged FIELD_FILE_ATTACHMENTS as = [] then []
       else [add_files (map (file_view body) (tagged FIELD_FILE_ATTACHMENTS as))])"
    using effect_files [OF assms(1) _ _ _ assms(3,2), of "tagged FIELD_FILE_ATTACHMENTS as"]
    by (simp add: files_entry_def Let_def) (simp add: tagged_def)
  show ?thesis unfolding entries_def effects_def by (intro list_all2_appendI t c m i a f)
qed

lemma map_header_in:
  assumes "holds_at d off (pack_map_header room n)" "n \<le> 15"
  shows "map_header d off = Some (n, off + length (pack_map_header room n))"
  using assms by (simp add: map_header_def Let_def pack_map_header_def room_def holds_at_Cons fixmap_tag)

lemma low_bytes: "k \<in> {0, 8, 16, 24} \<Longrightarrow> byte_at k (n mod 4294967296) = byte_at k n"
proof -
  assume k: "k \<in> {0, 8, 16, 24 :: nat}"
  have "\<exists>m. (4294967296 :: nat) = 2 ^ k * (256 * m)"
    using k by (auto intro: exI [of _ "16777216 :: nat"] exI [of _ "65536 :: nat"] exI [of _ "256 :: nat"] exI [of _ "1 :: nat"])
  then obtain m where m: "(4294967296 :: nat) = 2 ^ k * (256 * m)" by blast
  have "n mod 4294967296 div 2 ^ k = n div 2 ^ k mod (256 * m)"
    unfolding m by (simp add: mod_mult2_eq)
  then have "n mod 4294967296 div 2 ^ k mod 256 = n div 2 ^ k mod 256"
    by (simp add: mod_mult2_eq)
  moreover have w: "(word_of_nat x :: u8) = word_of_nat (x mod 256)" for x
    by (simp add: word_unat_eq_iff unsigned_of_nat take_bit_eq_mod)
  ultimately show ?thesis
    unfolding byte_at_def by (metis w)
qed

lemma float_back:
  assumes "holds_at d off (pack_float64 room w)"
  shows "d ! off = 0xCB" "float64_at d (off + 1) = w"
proof -
  let ?n = "unat w" let ?hi = "?n div 4294967296" and ?lo = "?n mod 4294967296"
  have e: "pack_float64 room w = 0xCB # map (\<lambda>i. byte_at (i * 8) ?n) [7, 6, 5, 4, 3, 2, 1, 0]"
    by (simp add: pack_float64_def room_def)
  then show "d ! off = 0xCB" using assms by (simp add: holds_at_Cons)
  have n: "?n < 18446744073709551616" using unsigned_less [of w] by simp
  have hi: "[byte_at 56 ?n, byte_at 48 ?n, byte_at 40 ?n, byte_at 32 ?n] = [byte_at 24 ?hi, byte_at 16 ?hi, byte_at 8 ?hi, byte_at 0 ?hi]"
    by (simp add: byte_at_def div_mult2_eq [symmetric])
  have lo: "[byte_at 24 ?n, byte_at 16 ?n, byte_at 8 ?n, byte_at 0 ?n] = [byte_at 24 ?lo, byte_at 16 ?lo, byte_at 8 ?lo, byte_at 0 ?lo]"
    using low_bytes [of 24] low_bytes [of 16] low_bytes [of 8] low_bytes [of 0] by simp
  have "holds_at d (off + 1) ([byte_at 56 ?n, byte_at 48 ?n, byte_at 40 ?n, byte_at 32 ?n] @ [byte_at 24 ?n, byte_at 16 ?n, byte_at 8 ?n, byte_at 0 ?n])"
    using assms by (simp add: e holds_at_Cons)
  note c = this [unfolded holds_at_append]
  have "length [byte_at 56 ?n, byte_at 48 ?n, byte_at 40 ?n, byte_at 32 ?n] = 4" by simp
  note h = conjunct1 [OF c] conjunct2 [OF c, unfolded this]
  have "be32_at d (off + 1) = ?hi"
    by (rule be32_at_holds) (use h(1) hi n in simp_all)
  moreover have "be32_at d (off + 1 + 4) = ?lo"
    by (rule be32_at_holds) (use h(2) lo in simp_all)
  ultimately have "float64_at d (off + 1) = word_of_nat (?hi * 4294967296 + ?lo)"
    unfolding float64_at_def by simp
  then show "float64_at d (off + 1) = w" by simp
qed

lemma sendable_mono: "sendable body as ex m \<Longrightarrow> m \<le> n \<Longrightarrow> sendable body as ex n"
  using skips_mono by (auto simp: sendable_def)

lemma delivered_plain:
  assumes "as = [] \<and> telemetry ex = [] \<and> commands ex = [] \<and> custom_meta ex = []"
  shows "delivered ts ti co body as ex = \<lparr>rc_ts = Some ts, rc_title = clip LXMF_MAX_TITLE_BYTES ti,
     rc_content = clip LXMF_MAX_BODY_BYTES co, rc_files = [], rc_telemetry = [], rc_commands = [], rc_meta = []\<rparr>"
  using assms by (simp add: delivered_def delivered_files_def image_effect_def audio_effect_def tagged_def)

lemma fields_received:
  assumes "sendable body as ex n" "3 \<le> n" "length d < 2147483648" "holds_at d off (fields_enc body as ex)"
    "off + length (fields_enc body as ex) \<le> length d"
    "view d r = \<lparr>rc_ts = Some ts, rc_title = clip LXMF_MAX_TITLE_BYTES ti,
       rc_content = clip LXMF_MAX_BODY_BYTES co, rc_files = [], rc_telemetry = [], rc_commands = [], rc_meta = []\<rparr>"
  shows "off < length d" "\<exists>r'. (case map_header d off of None \<Rightarrow> Inr (Some r)
      | Some (k, o') \<Rightarrow> and_also (parse_fields n d k o' r) (\<lambda>r. Inr (Some r))) = Inr (Some r')
      \<and> view d r' = delivered ts ti co body as ex"
proof -
  let ?P = "as = [] \<and> telemetry ex = [] \<and> commands ex = [] \<and> custom_meta ex = []"
  let ?es = "entries body as ex" let ?h = "pack_map_header room (length ?es)"
  have "fields_enc body as ex \<noteq> []" by (auto simp: fields_enc_def pack_map_header_def room_def)
  then show "off < length d" using assms(5) by (cases "fields_enc body as ex") auto
  show "\<exists>r'. (case map_header d off of None \<Rightarrow> Inr (Some r)
      | Some (k, o') \<Rightarrow> and_also (parse_fields n d k o' r) (\<lambda>r. Inr (Some r))) = Inr (Some r')
      \<and> view d r' = delivered ts ti co body as ex"
  proof (cases ?P)
    case True
    then have "map_header d off = None" using assms(4) by (simp add: fields_enc_def holds_at_Cons map_header_def Let_def)
    then show ?thesis using assms(6) by (simp add: delivered_plain [OF True])
  next
    case False
    then have e: "fields_enc body as ex = ?h @ enc_all ?es" by (auto simp: fields_enc_def)
    have h: "holds_at d off ?h" "holds_at d (off + length ?h) (enc_all ?es)" using assms(4) by (simp_all add: e holds_at_append)
    have "length ?es \<le> 15" using field_count_le [of as ex] by (simp add: entries_count)
    note mh = map_header_in [OF h(1) this]
    have l: "off + length ?h + length (enc_all ?es) \<le> length d" "length d < 4294967296" using assms(3,5) by (simp_all add: e)
    obtain r' where r': "parse_fields n d (length ?es) (off + length ?h) r = Inr r'"
      "view d r' = fold (\<lambda>g. g) (effects body as ex) (view d r)"
      using parse_fields_in [OF l(2) effects_hold [OF assms(1,2,3)] h(2) l(1)] by blast
    then show ?thesis using mh by (simp add: assms(6) effects_sum delivered_def)
  qed
qed

lemma parse_delivered:
  assumes "holds_message d ts ti co (fields_enc body as ex)" "length ti \<le> str_max_size" "length co \<le> str_max_size"
    "sendable body as ex m" "3 \<le> m" "m < n"
  shows "\<exists>r. parse_lxmf_payload n True d = Inr (Some r) \<and> view d r = delivered ts ti co body as ex"
proof -
  have n: "1 \<le> n" "3 \<le> n" "Suc m \<le> n" "sendable body as ex n" using assms(5,6) sendable_mono [OF assms(4)] by simp_all
  have sk: "skips n (fields_enc body as ex)" using skips_mono [OF skips_fields [OF assms(4,5)] n(3)] .
  note p = message_parts [OF assms(1-3) sk n(1)]
  note fl = float_back [OF p(9)]
  let ?o = "1 + length (pack_float64 room ts) + length (pack_bin room ti) + length (pack_bin room co)"
  let ?r = "\<lparr>p_ts = Some ts, p_title = clip LXMF_MAX_TITLE_BYTES ti, p_content = clip LXMF_MAX_BODY_BYTES co,
             p_fields = [], p_telemetry = [], p_commands = [], p_meta = []\<rparr>"
  have d: "length d < 2147483648" "hd d = 0x94 \<or> hd d = 0x95" using assms(1) by (simp_all add: holds_message_def)
  have f9: "length (pack_float64 room ts) = 9" by (simp add: header_lengths)
  then have l10: "1 + 9 \<le> length d" using p(7) by linarith
  have f: "d ! 1 = 0xCB" "float64_at d (Suc (Suc 0)) = ts" using fl by simp_all
  have "view d ?r = \<lparr>rc_ts = Some ts, rc_title = clip LXMF_MAX_TITLE_BYTES ti, rc_content = clip LXMF_MAX_BODY_BYTES co,
     rc_files = [], rc_telemetry = [], rc_commands = [], rc_meta = []\<rparr>" by (simp add: view_def)
  note fr = fields_received [OF n(4,2) d(1) p(8,7) this]
  obtain k where k: "array_header d (length d) = Some (k, 1)" "k = 4 \<or> k = 5"
    using d(2) by (auto simp: array_header_def)
  have "parse_lxmf_payload n True d = (case map_header d ?o of None \<Rightarrow> Inr (Some ?r)
      | Some (k, o') \<Rightarrow> and_also (parse_fields n d k o' ?r) (\<lambda>r. Inr (Some r)))"
    using k l10 p(1) p(5,6) [simplified f9] f fr(1) unfolding parse_lxmf_payload_def
    by (auto simp: f9 Let_def)
  then show ?thesis using fr(2) by simp
qed

section \<open>Prepared messages\<close>

definition staged_read :: "world \<Rightarrow> node \<Rightarrow> nat \<Rightarrow> nat \<Rightarrow> nat \<Rightarrow> bytes" where
  "staged_read W n = (\<lambda>i off len. read_buf (disk W) i off len (stage n))"

definition reference_payload :: "64 word \<Rightarrow> bytes \<Rightarrow> bytes \<Rightarrow> (attachment \<Rightarrow> bytes) \<Rightarrow> attachment list \<Rightarrow> extra_fields option \<Rightarrow> bytes" where
  "reference_payload ts ti co body as x = 0x94 # payload_enc ts ti co (fields_enc body as (fields_of x))"

lemma pack_payload_reference:
  assumes "\<forall>a \<in> set as. carries (staged_read W n) a (body a)" "mp_cap ti co as x < 4294967296"
  shows "pack_payload (\<lambda>i off len. read_buf (disk W) i off len (stage n)) ts ti co as x
    = Inr (reference_payload ts ti co body as x)"
  using pack_payload_ok [where rd = "staged_read W n"] assms by (simp add: staged_read_def reference_payload_def)

lemma prepared_payload:
  assumes "prepare_message W n d ti co as x r = (n1, acts, Inr (pm, r1))"
    "\<forall>a \<in> set as. carries (staged_read W n) a (body a)" "mp_cap ti co as x < 4294967296"
  shows "payload pm = reference_payload (pm_ts pm) ti co body as x"
    "message_id pm = full_hash W (hashed_part n d (payload pm))" "length (payload pm) \<le> 1048576"
  using assms(1) by (auto simp: prepare_message_def Let_def pack_payload_reference [OF assms(2,3)] split: if_splits)

lemma reference_lengths:
  assumes "length (reference_payload ts ti co body as x) \<le> 1048576" "mp_cap ti co as x < 4294967296"
  shows "length ti \<le> str_max_size" "length co \<le> str_max_size"
proof -
  have l: "length y \<le> length (pack_bin room y)" if "length y + 5 \<le> room" for y
    using pack_bin_room [OF that room_less] by simp
  have "length ti + 5 \<le> room" "length co + 5 \<le> room" using assms(2) by (simp_all add: mp_cap_def room_def)
  from l [OF this(1)] l [OF this(2)] assms(1) show "length ti \<le> str_max_size" "length co \<le> str_max_size"
    by (simp_all add: reference_payload_def payload_enc_def str_max_size_def)
qed

lemma stamped_length: "payload_wire p st = Inr w \<Longrightarrow> length w \<le> length p + length st + 3"
  by (auto simp: payload_wire_def split: if_splits)

lemma prepare_eq:
  assumes "initialized n" "length d = HASH_LEN" "recall (net W) d" "has_path (net W) d"
    "mp_cap ti co as x \<le> DRAM_BUF_THRESHOLD \<or> big_buffer W \<and> mp_cap ti co as x < 4294967296"
    "\<forall>a \<in> set as. carries (staged_read W n) a (body a)"
  shows "prepare_message W n d ti co as x r =
    (let ts = bits W (get_timestamp (now (net W)) (clk n)); p = reference_payload ts ti co body as x;
         mid = full_hash W (hashed_part n d p)
     in (n\<lparr>stage := release_all (disk W) as (stage n)\<rparr>, [],
         if 1048576 < 80 + length p then Inl (Refused ''Message body is too large (> 1 MiB).'')
         else Inr (\<lparr>payload = p, message_id = mid, pm_ts = ts\<rparr>,
           fill_record W ts mid d ti co as (telemetry (fields_of x)) r)))"
proof -
  have "mp_cap ti co as x < 4294967296" using assms(5) by (auto simp: DRAM_BUF_THRESHOLD_def)
  note p = pack_payload_reference [OF assms(6) this]
  have "\<not> (DRAM_BUF_THRESHOLD < mp_cap ti co as x \<and> \<not> big_buffer W)" using assms(5) by auto
  then show ?thesis using assms(1-4) by (simp add: prepare_message_def Let_def p HASH_LEN_def SIG_LEN_def)
qed

lemma prepared_split:
  assumes "prepare_message W n d ti co as x r = (n1, acts, Inr (pm, r1))"
    "\<forall>a \<in> set as. carries (staged_read W n) a (body a)" "mp_cap ti co as x < 4294967296"
    "payload_wire (payload pm) st = Inr w" "length st \<le> 255"
    "sendable body as (fields_of x) m" "3 \<le> m" "m < depth"
  shows "\<exists>s. split_payload_stamp depth w = Inr (Some s) \<and> stamp s = st
    \<and> full_hash W (hashed_part n d (hash_core w s)) = message_id pm
    \<and> hash_core w s = payload pm"
proof -
  note p = prepared_payload [OF assms(1-3)]
  note l = reference_lengths [OF p(3) [unfolded p(1)] assms(3)]
  have "length w < 2147483648" using stamped_length [OF assms(4)] p(3) assms(5) by linarith
  have "skips depth (fields_enc body as (fields_of x))"
    using skips_mono [OF skips_fields [OF assms(6,7)]] assms(8) by simp
  from split_roundtrip [OF p(1) [unfolded reference_payload_def] assms(4) \<open>length w < 2147483648\<close> l this _ assms(5)]
  show ?thesis using assms(8) p(2) by auto
qed

lemma prepared_length:
  assumes "prepare_message W n d ti co as x r = (n1, acts, Inr (pm, r1))"
    "\<forall>a \<in> set as. carries (staged_read W n) a (body a)" "mp_cap ti co as x < 4294967296"
    "payload_wire (payload pm) st = Inr w"
  shows "5 \<le> length w"
proof -
  have "9 \<le> length (payload pm)"
    using prepared_payload(1) [OF assms(1-3)] by (simp add: reference_payload_def payload_enc_def header_lengths)
  moreover have "length (payload pm) \<le> length w" using assms(4) by (auto simp: payload_wire_def split: if_splits)
  ultimately show ?thesis by linarith
qed

lemma prepared_parse:
  assumes "prepare_message W n d ti co as x r = (n1, acts, Inr (pm, r1))"
    "\<forall>a \<in> set as. carries (staged_read W n) a (body a)" "mp_cap ti co as x < 4294967296"
    "payload_wire (payload pm) st = Inr w" "length st \<le> 255"
    "sendable body as (fields_of x) m" "3 \<le> m" "m < depth"
  shows "\<exists>p. parse_lxmf_payload depth True w = Inr (Some p)
    \<and> view w p = delivered (pm_ts pm) ti co body as (fields_of x)"
proof -
  note p = prepared_payload [OF assms(1-3)]
  note l = reference_lengths [OF p(3) [unfolded p(1)] assms(3)]
  have "length w < 2147483648" using stamped_length [OF assms(4)] p(3) assms(5) by linarith
  from wire_holds [OF p(1) [unfolded reference_payload_def] assms(4) this]
  show ?thesis by (rule parse_delivered) (use l assms(6-8) in simp_all)
qed

section \<open>Properties\<close>

text \<open>A node that can send, and a message with an image for the examples.\<close>

definition sample_world :: "world" where
  "sample_world = \<lparr>net = calm 1000, disk = roomy, bits = (\<lambda>_. 0x41D9000000000000),
     full_hash = (\<lambda>b. [byte_at 0 (length b)]), sign = (\<lambda>_. Some (replicate 64 1)), packet = (\<lambda>_. Accepted 1),
     packet_id = (\<lambda>_. [4]), epoch_no = 1, big_buffer = False, persist = None\<rparr>"

definition sample_node :: "node" where
  "sample_node = \<lparr>initialized = True, own_hash = replicate 16 2, links = sample_outbox, opps = sample_opps,
     stage = empty_staging, clk = boot_clock\<rparr>"

definition sample_image :: "attachment" where
  "sample_image = \<lparr>att_tag = FIELD_IMAGE, staging_id = 0, staging_total = 0, att_data = [1, 2, 3], filename = [],
     ext = [0x6A], audio_mode = 0, mime = []\<rparr>"

definition blank_record :: "message_record" where
  "blank_record = \<lparr>rec_seq = 0, rec_ts = 0, boot_epoch = 0, received_ms = 0, peer_hash = [], title = [], content = [],
     body_size = 0, incoming = False, signature_ok = False, rec_status = Delivered, packet_hash = [],
     has_telemetry = False, rec_telemetry = [], rec_commands = [], rec_meta = [], stamp_checked = False,
     stamp_valid = False, stamp_value = -1, attachments = []\<rparr>"

lemmas send_samples = sample_world_def sample_node_def sample_image_def blank_record_def

lemma sample_carries: "carries rd sample_image (att_data sample_image)"
  by (simp add: carries_def byte_count_def send_samples)

definition sample_payload :: bytes where
  "sample_payload = reference_payload 0x41D9000000000000 [0x61] [0x62] att_data [sample_image] None"

definition sample_wire :: bytes where
  "sample_wire = 0x95 # tl sample_payload @ [0xC4, 2, 9, 9]"

definition sample_prepared :: prepared where
  "sample_prepared = \<lparr>payload = sample_payload,
     message_id = full_hash sample_world (hashed_part sample_node (replicate 16 5) sample_payload), pm_ts = 0x41D9000000000000\<rparr>"

lemma sample_tagged: "tagged FIELD_IMAGE [sample_image] = [sample_image]" "tagged FIELD_AUDIO [sample_image] = []"
    "tagged FIELD_FILE_ATTACHMENTS [sample_image] = []"
  by (simp_all add: tagged_def sample_image_def field_tags)

lemma sample_payload_length: "length sample_payload \<le> 200"
  by (simp add: sample_payload_def reference_payload_def payload_enc_def fields_enc_def entries_def telemetry_entry_def
      raw_entry_def image_entry_def audio_entry_def files_entry_def sample_tagged fields_of_def)
    (simp add: entry_enc_def pair_enc_def sample_image_def FIELD_IMAGE_def pack_uint8_def pack_bin_def
      pack_bin_header_def pack_str_def pack_float64_def pack_map_header_def pack_array_header_def room_def)

lemma sample_prepares:
  "prepare_message sample_world sample_node (replicate 16 5) [0x61] [0x62] [sample_image] None blank_record =
    (sample_node\<lparr>stage := release_all (disk sample_world) [sample_image] (stage sample_node)\<rparr>, [],
     Inr (sample_prepared, fill_record sample_world 0x41D9000000000000 (message_id sample_prepared) (replicate 16 5)
       [0x61] [0x62] [sample_image] [] blank_record))"
proof -
  have b: "bits sample_world t = 0x41D9000000000000" "telemetry (fields_of None) = []" for t
    by (simp_all add: send_samples fields_of_def)
  have "length sample_payload \<le> 1048496" using sample_payload_length by simp
  then have len: "\<not> 1048576 < 80 + length (reference_payload 0x41D9000000000000 [0x61] [0x62] att_data [sample_image] None)"
    by (simp add: sample_payload_def)
  have cap: "mp_cap [0x61] [0x62] [sample_image] None \<le> DRAM_BUF_THRESHOLD \<or>
      big_buffer sample_world \<and> mp_cap [0x61] [0x62] [sample_image] None < 4294967296"
    by (simp add: mp_cap_def DRAM_BUF_THRESHOLD_def byte_count_def fields_of_def send_samples)
  have "initialized sample_node" "length (replicate 16 (5 :: u8)) = HASH_LEN"
    "recall (net sample_world) (replicate 16 5)" "has_path (net sample_world) (replicate 16 5)"
    by (simp_all add: send_samples HASH_LEN_def calm_def)
  note prepare_eq [OF this cap, of att_data blank_record]
  then show ?thesis
    by (simp only: b Let_def len if_False sample_prepared_def sample_payload_def prepared.simps) (simp add: sample_carries)
qed

lemma sample_wired: "payload_wire (payload sample_prepared) [9, 9] = Inr sample_wire"
  by (simp add: sample_prepared_def payload_wire_def sample_wire_def byte_at_def)
    (simp add: sample_payload_def reference_payload_def)

lemma sample_sendable: "sendable att_data [sample_image] (fields_of None) 3"
  by (simp add: sendable_def fields_of_def sample_image_def str_max_size_def)

lemma sample_cap: "mp_cap [0x61] [0x62] [sample_image] None < 4294967296"
  by (simp add: mp_cap_def byte_count_def fields_of_def send_samples)

text \<open>C12. A message that can be sent packs into the buffer sized for it, whatever its fields and
  attachments, in line or staged: the payload is the reference encoding of timestamp, title,
  content and fields, its id the hash over destination, source and payload, and only the 1 MiB
  limit can still refuse it.\<close>

theorem prepare_packs_reference:
  assumes "initialized n" "length d = HASH_LEN" "recall (net W) d" "has_path (net W) d"
    "mp_cap ti co as x \<le> DRAM_BUF_THRESHOLD \<or> big_buffer W \<and> mp_cap ti co as x < 4294967296"
    "\<forall>a \<in> set as. carries (staged_read W n) a (body a)"
  shows "prepare_message W n d ti co as x r =
    (let ts = bits W (get_timestamp (now (net W)) (clk n)); p = reference_payload ts ti co body as x;
         mid = full_hash W (hashed_part n d p)
     in (n\<lparr>stage := release_all (disk W) as (stage n)\<rparr>, [],
         if 1048576 < 80 + length p then Inl (Refused ''Message body is too large (> 1 MiB).'')
         else Inr (\<lparr>payload = p, message_id = mid, pm_ts = ts\<rparr>,
           fill_record W ts mid d ti co as (telemetry (fields_of x)) r)))"
  using assms by (rule prepare_eq)

theorem prepare_packs_reference_witness:
  "prepare_message sample_world sample_node (replicate 16 5) [0x61] [0x62] [sample_image] None blank_record =
    (let ts = 0x41D9000000000000; p = reference_payload ts [0x61] [0x62] att_data [sample_image] None;
         mid = full_hash sample_world (hashed_part sample_node (replicate 16 5) p)
     in (sample_node\<lparr>stage := release_all (disk sample_world) [sample_image] (stage sample_node)\<rparr>, [],
         if 1048576 < 80 + length p then Inl (Refused ''Message body is too large (> 1 MiB).'')
         else Inr (\<lparr>payload = p, message_id = mid, pm_ts = ts\<rparr>,
           fill_record sample_world ts mid (replicate 16 5) [0x61] [0x62] [sample_image] [] blank_record)))"
proof -
  have b: "bits sample_world t = 0x41D9000000000000" "telemetry (fields_of None) = []" for t
    by (simp_all add: send_samples fields_of_def)
  show ?thesis
    by (rule prepare_packs_reference [where body = att_data and n = sample_node and d = "replicate 16 5"
          and W = sample_world and ti = "[0x61]" and co = "[0x62]" and as = "[sample_image]" and x = None
          and r = blank_record, unfolded b])
      (simp_all add: sample_carries, simp_all add: send_samples HASH_LEN_def calm_def mp_cap_def DRAM_BUF_THRESHOLD_def
        byte_count_def fields_of_def)
qed

text \<open>The stamp on a prepared message comes off again: for every stamp of up to 255 bytes the
  receiver's split finds exactly that stamp, and hashing what is left gives the sender's message
  id, so validation and duplicate detection see the same id as the sender.\<close>

theorem stamped_message_id:
  assumes "prepare_message W n d ti co as x r = (n1, acts, Inr (pm, r1))"
    "\<forall>a \<in> set as. carries (staged_read W n) a (body a)" "mp_cap ti co as x < 4294967296"
    "payload_wire (payload pm) st = Inr w" "length st \<le> 255"
    "sendable body as (fields_of x) m" "3 \<le> m" "m < depth"
  shows "\<exists>s. split_payload_stamp depth w = Inr (Some s) \<and> stamp s = st
    \<and> full_hash W (hashed_part n d (hash_core w s)) = message_id pm"
  using prepared_split [OF assms] by blast

theorem stamped_message_id_witness:
  "\<exists>s. split_payload_stamp 4 sample_wire = Inr (Some s) \<and> stamp s = [9, 9]
    \<and> full_hash sample_world (hashed_part sample_node (replicate 16 5) (hash_core sample_wire s)) = message_id sample_prepared"
  by (rule stamped_message_id [OF sample_prepares _ sample_cap sample_wired _ sample_sendable]) (simp_all add: sample_carries)

text \<open>C11. Whole-message round trip: the receiver's parser, given the payload a sender prepared with or
  without a stamp, returns the sender's timestamp, title and content (cut at 256 and 4096
  bytes), every file attachment with its name, the first image with its type and the first
  audio clip with its mode, the telemetry, commands and custom fields, byte for byte.\<close>

theorem message_roundtrip:
  assumes "prepare_message W n d ti co as x r = (n1, acts, Inr (pm, r1))"
    "\<forall>a \<in> set as. carries (staged_read W n) a (body a)" "mp_cap ti co as x < 4294967296"
    "payload_wire (payload pm) st = Inr w" "length st \<le> 255"
    "sendable body as (fields_of x) m" "3 \<le> m" "m < depth"
  shows "\<exists>p. parse_lxmf_payload depth True w = Inr (Some p)
    \<and> view w p = delivered (pm_ts pm) ti co body as (fields_of x)"
  using assms by (rule prepared_parse)

theorem message_roundtrip_witness:
  "\<exists>p. parse_lxmf_payload 4 True sample_wire = Inr (Some p)
    \<and> view sample_wire p = delivered (pm_ts sample_prepared) [0x61] [0x62] att_data [sample_image] (fields_of None)"
  by (rule message_roundtrip [OF sample_prepares _ sample_cap sample_wired _ sample_sendable]) (simp_all add: sample_carries)

end
