(* ===== verification/LxmfSendProps.thy ===== *)
theory LxmfSendProps
  imports LxmfRoundtrip
begin

text \<open>
  The sending node as one machine: sends, the library's callbacks, ticks, announces and retries
  on the pending, opportunistic and link-cache maps. The bound on messages in flight, where an
  accepted message is tracked, what a packet inside a link carries, the messages that stay Failed
  and block every send, and the stamp cost in announces.
\<close>

section \<open>The machine\<close>

datatype node_event =
    Send world hash prepared bytes message_record
  | LinkEv env link_event
  | OppEv opp_event

fun node_step :: "node \<Rightarrow> node_event \<Rightarrow> node \<times> action list" where
  "node_step n (Send W d pm st r) = (case send_prepared W n d pm st r of (n', a, _) \<Rightarrow> (n', a))"
| "node_step n (LinkEv E e) = (case link_step E e (links n) of (s, a) \<Rightarrow> (n\<lparr>links := s\<rparr>, a))"
| "node_step n (OppEv e) = (case opp_machine (opps n) e of (m, a) \<Rightarrow> (n\<lparr>opps := m\<rparr>, a))"

section \<open>Sizes\<close>

lemma length_minsert [simp]: "length (minsert lt k v m) = Suc (length m)"
  by (induction m) auto

lemma length_mput_le: "length (mput lt k v m) \<le> Suc (length m)"
  by (simp add: mput_def)

lemma length_mput_same: "mfind m k \<noteq> None \<Longrightarrow> length (mput lt k v m) = length m"
  by (auto simp: mput_def mfind_def map_of_eq_None_iff)

lemma length_merase_le: "length (merase k m) \<le> length m"
  by (simp add: merase_def)

lemma length_merase_less: "mfind m k \<noteq> None \<Longrightarrow> length (merase k m) < length m"
proof -
  assume "mfind m k \<noteq> None"
  then obtain v where "(k, v) \<in> set m" using mfind_mem by fastforce
  then show ?thesis by (auto simp: merase_def intro: length_filter_less)
qed

lemma length_rekey: "mfind m k \<noteq> None \<Longrightarrow> length (mput lt k' v (merase k m)) \<le> length m"
  using length_merase_less [of m k] length_mput_le [of lt k' v "merase k m"] by linarith

lemmas sizes = length_mput_same length_merase_le length_rekey

lemma size_established: "length (pend (fst (outbound_link_established E lh s))) \<le> length (pend s)"
  by (cases "mfind (pend s) lh") (simp_all add: outbound_link_established_def schedule_alt Let_def sizes)

lemma size_closed: "length (pend (fst (outbound_link_closed E lh s))) \<le> length (pend s)"
  by (cases "mfind (pend s) lh") (simp_all add: outbound_link_closed_def schedule_alt Let_def sizes)

lemma size_conclude: "length (pend (fst (conclude_loop E rh c ks s))) \<le> length (pend s)"
proof (induction E rh c ks s rule: conclude_loop.induct)
  case (2 E rh c k ks s)
  show ?case
  proof (cases "mfind (pend s) k")
    case (Some ps)
    note m = length_merase_le [of k "pend s"]
    have e: "fst (conclude_loop E rh c (k # ks) s) =
      (if resource_hash ps = rh then
         if c then fst (conclude_loop E rh c ks ((release_wire_file ps s)\<lparr>pend := merase k (pend s)\<rparr>))
         else fst (schedule_retry_or_fail E k ps s)
       else fst (conclude_loop E rh c ks s))"
      using Some by (simp add: split_beta)
    show ?thesis
    proof (cases "resource_hash ps = rh")
      case True
      show ?thesis
      proof (cases c)
        case c: True
        from 2(2) [OF Some True c] m e True c show ?thesis by simp
      qed (use e True Some in \<open>simp add: schedule_alt sizes\<close>)
    qed (use 2(3) [OF Some] e in simp)
  qed (use 2 in simp)
qed simp

lemma size_retry_one: "length (pend (fst (retry_one E k s))) \<le> length (pend s)"
proof (cases "mfind (pend s) k")
  case (Some ps)
  then have "mfind (pend s) k \<noteq> None" by simp
  note length_rekey [OF this] length_merase_le [of k "pend s"]
  with Some show ?thesis by (simp add: retry_one_def schedule_alt Let_def split: option.split)
qed (simp add: retry_one_def)

lemma size_retry_all: "length (pend (fst (retry_all E ks s))) \<le> length (pend s)"
proof (induction ks arbitrary: s)
  case (Cons k ks)
  from Cons.IH [of "fst (retry_one E k s)"] size_retry_one [of E k s] show ?case by (simp add: split_beta)
qed simp

lemma size_sweep: "length (pend (fst (sweep_loop E ks s))) \<le> length (pend s)"
proof (induction ks arbitrary: s)
  case (Cons k ks)
  show ?case
  proof (cases "mfind (pend s) k")
    case (Some ps)
    from Cons.IH [of "(release_wire_file ps s)\<lparr>pend := merase k (pend s)\<rparr>"] Cons.IH [of s] length_merase_le [of k "pend s"] Some
    show ?thesis by (simp add: split_beta)
  qed (use Cons in simp)
qed simp

definition before_clean :: "env \<Rightarrow> hash \<Rightarrow> hash \<Rightarrow> outbox \<Rightarrow> outbox" where
  "before_clean E d lh s =
    (let s1 = (if link_status E lh \<noteq> CLOSED \<and> teardown_calls_back E then fst (outbound_link_closed E lh s) else s)
     in s1\<lparr>direct := merase d (direct s1)\<rparr>)"

lemma clean_step: "mfind (direct s) d = Some lh \<Longrightarrow>
    fst (clean_loop E (d # ds) s) = fst (clean_loop E ds (before_clean E d lh s))"
  by (simp add: before_clean_def split_beta Let_def)

lemma size_clean: "length (pend (fst (clean_loop E ds s))) \<le> length (pend s)"
proof (induction ds arbitrary: s)
  case (Cons d ds)
  show ?case
  proof (cases "mfind (direct s) d")
    case (Some lh)
    have "length (pend (before_clean E d lh s)) \<le> length (pend s)"
      using size_closed [of E lh s] by (simp add: before_clean_def Let_def)
    with Cons.IH [of "before_clean E d lh s"] show ?thesis unfolding clean_step [OF Some] by linarith
  qed (use Cons in simp)
qed simp

lemma manual_size: "manual_retry_link E r m = Some (m', b) \<Longrightarrow> length m' = length m"
  by (induction E r m arbitrary: m' b rule: manual_retry_link.induct) (auto split: if_splits)

lemma size_link_step: "length (pend (fst (link_step E e s))) \<le> length (pend s)"
  using manual_size
  by (cases e) (auto simp: size_established size_closed outbound_resource_concluded_def size_conclude tick_retries_def
      size_retry_all sweep_orphaned_pending_def size_sweep tick_clean_links_def size_clean accelerate_pending_for_def
      manual_retry_step_def split: option.split)

lemma size_tick_opp: "length (fst (tick_opportunistic_receipts E m)) \<le> length m"
  by (induction E m rule: tick_opportunistic_receipts.induct) (auto split: prod.split option.split)

lemma size_opp: "length (fst (opp_machine m e)) \<le> length m"
proof (cases e)
  case (OppManual t r)
  have "length (mkeys (fst (manual_retry_opp (\<lambda>_ _. False) t r m))) = length (mkeys m)" by (simp add: manual_opp_keys)
  with OppManual show ?thesis by (simp add: mkeys_def split_beta)
qed (simp_all add: size_tick_opp accelerate_opp_for_def)

definition inflight :: "node \<Rightarrow> nat" where
  "inflight n = length (pend (links n)) + length (opps n)"

lemma choose_link_pend: "pend (fst (choose_link E d s)) = pend s"
  by (simp add: choose_link_def Let_def split: option.split)

lemma store_wire_pend: "pend (fst (store_wire E c dw l d s)) = pend s"
  by (simp add: store_wire_def split_beta)

lemma inflight_opportunistic: "inflight (fst (send_opportunistic W n d w r)) \<le> Suc (inflight n)"
  by (simp add: send_opportunistic_def Let_def inflight_def length_mput_le split: send_outcome.split)

lemma inflight_direct: "inflight (fst (send_direct W n d c w r)) \<le> Suc (inflight n)"
proof -
  obtain s1 a1 x where x: "choose_link (net W) d (links n) = (s1, a1, x)" by (cases "choose_link (net W) d (links n)") auto
  have p1: "pend s1 = pend (links n)" using choose_link_pend [of "net W" d "links n"] x by simp
  show ?thesis
  proof (cases x)
    case (Some lr)
    obtain l reuse where lr: "lr = (l, reuse)" by (cases lr)
    obtain s2 ps where s2: "store_wire (net W) c (take HASH_LEN d @ w) l d s1 = (s2, ps)" by fastforce
    have "pend s2 = pend (links n)" using store_wire_pend [of "net W" c "take HASH_LEN d @ w" l d s1] s2 p1 by simp
    then have l3: "length (mput (key_lt (net W)) l ps (pend s2)) \<le> Suc (length (pend (links n)))"
      using length_mput_le [of "key_lt (net W)" l ps "pend s2"] by simp
    let ?s4 = "s2\<lparr>pend := mput (key_lt (net W)) l ps (pend s2), link_reuses := wrap32 (link_reuses s2 + 1)\<rparr>"
    have "length (pend (fst (outbound_link_established (net W) l ?s4))) \<le> Suc (length (pend (links n)))"
      using size_established [of "net W" l ?s4] l3 by simp
    with l3 x Some lr s2 show ?thesis by (simp add: send_direct_def Let_def split_beta inflight_def)
  qed (use x p1 in \<open>simp add: send_direct_def Let_def inflight_def\<close>)
qed

lemma send_prepared_node:
  assumes "send_prepared W n d pm st r = (n', a, res)"
  shows "n' = n \<or> inflight n < MAX_INFLIGHT_SENDS \<and> (\<exists>sg pw. length sg = SIG_LEN \<and>
     payload_wire (payload pm) st = Inr pw \<and> (let w = take HASH_LEN (own_hash n) @ sg @ pw in
       if content_size pw \<le> LXMF_OPPORTUNISTIC_MAX then send_opportunistic W n d w r = (n', a, res)
       else send_direct W n d (content_size pw) w r = (n', a, res)))"
  using assms
  by (auto simp: send_prepared_def Let_def inflight_def split: if_splits option.splits sum.splits)

lemma inflight_step: "inflight n \<le> MAX_INFLIGHT_SENDS \<Longrightarrow> inflight (fst (node_step n e)) \<le> MAX_INFLIGHT_SENDS"
proof (cases e)
  case (Send W d pm st r)
  assume b: "inflight n \<le> MAX_INFLIGHT_SENDS"
  obtain n' a res where s: "send_prepared W n d pm st r = (n', a, res)" by (cases "send_prepared W n d pm st r") auto
  from send_prepared_node [OF s] b inflight_opportunistic [of W n d _ r] inflight_direct [of W n d _ _ r]
  have "inflight n' \<le> MAX_INFLIGHT_SENDS"
    by (auto simp: Let_def split: if_splits) (metis Suc_leI fst_conv le_trans)+
  with Send s show ?thesis by simp
next
  case (LinkEv E e)
  with size_link_step [of E e "links n"] show "inflight n \<le> MAX_INFLIGHT_SENDS \<Longrightarrow> ?thesis"
    by (simp add: split_beta inflight_def)
next
  case (OppEv e)
  with size_opp [of "opps n" e] show "inflight n \<le> MAX_INFLIGHT_SENDS \<Longrightarrow> ?thesis"
    by (simp add: split_beta inflight_def)
qed

interpretation inflight_bound: machine node_step "\<lambda>n. inflight n \<le> MAX_INFLIGHT_SENDS"
  by unfold_locales (rule inflight_step)

section \<open>What a pending wire is\<close>

text \<open>A law on the wire of an entry: it depends on the wire's fields only, and starting a
  resource keeps it.\<close>

locale wire_law =
  fixes law :: "pls \<Rightarrow> bool"
  assumes frame: "wire ps' = wire ps \<Longrightarrow> wire_path ps' = wire_path ps \<Longrightarrow> total_bytes ps' = total_bytes ps
      \<Longrightarrow> law ps \<Longrightarrow> law ps'"
    and started: "law ps \<Longrightarrow> total_bytes ps \<noteq> 0 \<or> LXMF_LINK_PACKET_MAX < n \<Longrightarrow>
      law (ps\<lparr>resource_hash := h, total_bytes := (if total_bytes ps = 0 then n else total_bytes ps), wire := []\<rparr>)"
begin

definition lawful :: "(hash, pls) omap \<Rightarrow> bool" where
  "lawful m \<longleftrightarrow> (\<forall>e \<in> set m. law (snd e))"

lemma lawful_find: "lawful m \<Longrightarrow> mfind m k = Some ps \<Longrightarrow> law ps"
  unfolding lawful_def by (drule mfind_mem) auto

lemma lawful_put: "lawful m \<Longrightarrow> law ps \<Longrightarrow> lawful (mput lt k ps m)"
  using set_mput [of lt k ps m] by (auto simp: lawful_def)

lemma lawful_erase: "lawful m \<Longrightarrow> lawful (merase k m)"
  by (auto simp: lawful_def set_merase)

lemma law_retry: "law ps \<Longrightarrow> law (fst (retry_or_fail E ps))"
  by (rule frame [of _ ps]) (simp_all add: retry_or_fail_def)

lemma lawful_schedule: "lawful (pend s) \<Longrightarrow> law ps \<Longrightarrow> lawful (pend (fst (schedule_retry_or_fail E k ps s)))"
  by (simp add: schedule_alt lawful_put law_retry)

lemma lawful_established: "lawful (pend s) \<Longrightarrow> lawful (pend (fst (outbound_link_established E lh s)))"
proof (cases "mfind (pend s) lh")
  case (Some ps)
  assume l: "lawful (pend s)"
  with Some have p: "law ps" using lawful_find by blast
  have "total_bytes ps = 0 \<Longrightarrow> LXMF_LINK_PACKET_MAX < n \<Longrightarrow> law (ps\<lparr>resource_hash := h, total_bytes := n, wire := []\<rparr>)"
    "total_bytes ps \<noteq> 0 \<Longrightarrow> law (ps\<lparr>resource_hash := h, wire := []\<rparr>)" for h n
    using started [OF p, of n h] by simp_all
  with l p Some show ?thesis
    by (auto simp: outbound_link_established_def Let_def lawful_schedule lawful_erase intro!: lawful_put)
qed (simp add: outbound_link_established_def)

lemma lawful_closed: "lawful (pend s) \<Longrightarrow> lawful (pend (fst (outbound_link_closed E lh s)))"
  using lawful_find [of "pend s" lh]
  by (simp add: outbound_link_closed_def Let_def lawful_schedule lawful_erase split: option.split)

lemma lawful_conclude: "lawful (pend s) \<Longrightarrow> lawful (pend (fst (conclude_loop E rh c ks s)))"
proof (induction E rh c ks s rule: conclude_loop.induct)
  case (2 E rh c k ks s)
  show ?case
  proof (cases "mfind (pend s) k")
    case (Some ps)
    have "law ps" "lawful (pend ((release_wire_file ps s)\<lparr>pend := merase k (pend s)\<rparr>))"
      using 2(4) Some lawful_find lawful_erase by auto
    with 2(2,3) [OF Some] 2(4) Some show ?thesis
      by (cases c; cases "resource_hash ps = rh") (auto simp: split_beta lawful_schedule)
  qed (use 2 in simp)
qed simp

lemma lawful_retry_one: "lawful (pend s) \<Longrightarrow> lawful (pend (fst (retry_one E k s)))"
proof (cases "mfind (pend s) k")
  case (Some ps)
  assume l: "lawful (pend s)"
  then have p: "law ps" using Some lawful_find by blast
  have "law (ps\<lparr>retry_pending := False\<rparr>)" "\<And>nl. law (ps\<lparr>retry_pending := False, link := nl, started_ms := now E\<rparr>)"
    by (rule frame [OF _ _ _ p]; simp)+
  with l Some show ?thesis
    by (auto simp: retry_one_def Let_def split_beta lawful_erase lawful_schedule intro!: lawful_put split: option.split)
qed (simp add: retry_one_def)

lemma lawful_retry_all: "lawful (pend s) \<Longrightarrow> lawful (pend (fst (retry_all E ks s)))"
  by (induction ks arbitrary: s) (simp_all add: split_beta lawful_retry_one)

lemma lawful_sweep: "lawful (pend s) \<Longrightarrow> lawful (pend (fst (sweep_loop E ks s)))"
proof (induction ks arbitrary: s)
  case (Cons k ks)
  show ?case
  proof (cases "mfind (pend s) k")
    case (Some ps)
    have "lawful (pend ((release_wire_file ps s)\<lparr>pend := merase k (pend s)\<rparr>))" using Cons.prems lawful_erase by simp
    from Cons.IH [OF this] Cons.IH [OF Cons.prems] Some show ?thesis by (simp add: split_beta)
  qed (use Cons in simp)
qed simp

lemma lawful_clean: "lawful (pend s) \<Longrightarrow> lawful (pend (fst (clean_loop E ds s)))"
proof (induction ds arbitrary: s)
  case (Cons d ds)
  show ?case
  proof (cases "mfind (direct s) d")
    case (Some lh)
    have "lawful (pend (before_clean E d lh s))"
      using lawful_closed [OF Cons.prems] Cons.prems by (simp add: before_clean_def Let_def)
    from Cons.IH [OF this] show ?thesis unfolding clean_step [OF Some] .
  qed (use Cons in simp)
qed simp

lemma lawful_manual: "manual_retry_link E r m = Some (m', b) \<Longrightarrow> lawful m \<Longrightarrow> lawful m'"
proof (induction E r m arbitrary: m' b rule: manual_retry_link.induct)
  case (2 E r k ps m)
  have "law (ps\<lparr>retries_left := DEFAULT_OUTBOX_RETRIES, retry_pending := True, next_retry_at_ms := now E, status := Queued\<rparr>)"
    by (rule frame [of _ ps]) (use 2(3) in \<open>simp_all add: lawful_def\<close>)
  moreover have "lawful m" "law ps" using 2(3) by (simp_all add: lawful_def)
  moreover have "record_hash ps \<noteq> r \<Longrightarrow> \<exists>m''. manual_retry_link E r m = Some (m'', b) \<and> m' = (k, ps) # m''"
    using 2(2) by auto
  ultimately show ?case using 2(1) 2(2) by (cases "record_hash ps = r") (force simp: lawful_def split: if_splits)+
qed simp

lemma lawful_step: "lawful (pend s) \<Longrightarrow> lawful (pend (fst (link_step E e s)))"
proof (cases e)
  case (Accelerate d)
  assume l: "lawful (pend s)"
  have "law (pull_forward E d ps)" if "law ps" for ps
    by (rule frame [OF _ _ _ that]) (simp_all add: pull_forward_def)
  with l Accelerate show ?thesis by (auto simp: accelerate_pending_for_def lawful_def)
next
  case (ManualRetryLink r)
  then show "lawful (pend s) \<Longrightarrow> ?thesis"
    using lawful_manual by (auto simp: manual_retry_step_def split: option.split)
qed (simp_all add: lawful_established lawful_closed outbound_resource_concluded_def lawful_conclude tick_retries_def
    lawful_retry_all sweep_orphaned_pending_def lawful_sweep tick_clean_links_def lawful_clean)

end

text \<open>A DIRECT wire is too long for a packet inside a link, or it has been handed to a resource.\<close>

definition big_wire :: "pls \<Rightarrow> bool" where
  "big_wire ps \<longleftrightarrow> (if wire_path ps = [] then wire ps = [] \<or> length (wire ps) > LXMF_LINK_PACKET_MAX
     else total_bytes ps > LXMF_LINK_PACKET_MAX)"

interpretation big: wire_law big_wire
  by unfold_locales (auto simp: big_wire_def)

text \<open>Only an established link sends a packet in it.\<close>

fun in_link :: "action \<Rightarrow> bool" where
  "in_link (SendInLink l w) = True"
| "in_link _ = False"

abbreviation no_in_link :: "action list \<Rightarrow> bool" where
  "no_in_link acts \<equiv> \<forall>a \<in> set acts. \<not> in_link a"

lemma quiet_schedule: "no_in_link (snd (schedule_retry_or_fail E k ps s))"
  by (simp add: schedule_alt retry_or_fail_def)

lemma quiet_closed: "no_in_link (snd (outbound_link_closed E lh s))"
  by (simp add: outbound_link_closed_def Let_def quiet_schedule split: option.split)

lemma quiet_conclude: "no_in_link (snd (conclude_loop E rh c ks s))"
  by (induction E rh c ks s rule: conclude_loop.induct) (auto simp: split_beta quiet_schedule split: option.split)

lemma quiet_retry_one: "no_in_link (snd (retry_one E k s))"
  by (simp add: retry_one_def Let_def split_beta quiet_schedule split: option.split)

lemma quiet_retry_all: "no_in_link (snd (retry_all E ks s))"
  by (induction ks arbitrary: s) (auto simp: split_beta quiet_retry_one)

lemma quiet_sweep: "no_in_link (snd (sweep_loop E ks s))"
proof (induction ks arbitrary: s)
  case (Cons k ks)
  then show ?case by (cases "mfind (pend s) k") (simp_all add: split_beta)
qed simp

lemma quiet_clean: "no_in_link (snd (clean_loop E ds s))"
proof (induction ds arbitrary: s)
  case (Cons d ds)
  then show ?case by (cases "mfind (direct s) d") (auto simp: split_beta Let_def quiet_closed)
qed simp

lemma quiet_opp: "no_in_link (snd (opp_machine m e))"
proof (cases e)
  case (OppTick E)
  have "no_in_link (snd (opp_visit E k op))" for k op
    by (simp add: opp_visit_def opp_resend_def Let_def split: send_outcome.split option.split)
  with OppTick show ?thesis by (auto simp: tick_acts)
qed (simp_all add: manual_retry_opp_def split_beta split: option.split)

definition empty_in_link :: "action list \<Rightarrow> bool" where
  "empty_in_link acts \<longleftrightarrow> (\<forall>l w. SendInLink l w \<in> set acts \<longrightarrow> w = [])"

lemma quiet_empty: "no_in_link acts \<Longrightarrow> empty_in_link acts"
  by (auto simp: empty_in_link_def)

lemma empty_append [simp]: "empty_in_link (a @ b) \<longleftrightarrow> empty_in_link a \<and> empty_in_link b"
  by (auto simp: empty_in_link_def)

lemma loaded_length: "load_wire_from_disk E p n fs = [] \<or> length (load_wire_from_disk E p n fs) = n"
  by (auto simp: load_wire_from_disk_def split: option.splits)

lemma established_empty:
  assumes "big.lawful (pend s)"
  shows "empty_in_link (snd (outbound_link_established E lh s))"
proof (cases "mfind (pend s) lh")
  case (Some ps)
  then have b: "big_wire ps" using assms big.lawful_find by blast
  let ?w = "if wire_path ps \<noteq> [] then load_wire_from_disk E (wire_path ps) (total_bytes ps) (files s) else wire ps"
  have "?w = [] \<or> length ?w > LXMF_LINK_PACKET_MAX"
    using b loaded_length [of E "wire_path ps" "total_bytes ps" "files s"] by (auto simp: big_wire_def)
  with Some quiet_empty [OF quiet_schedule] show ?thesis
    by (auto simp: outbound_link_established_def Let_def empty_in_link_def)
qed (simp add: outbound_link_established_def empty_in_link_def)

lemma link_step_empty: "big.lawful (pend s) \<Longrightarrow> empty_in_link (snd (link_step E e s))"
  by (cases e) (simp_all add: established_empty quiet_empty quiet_closed outbound_resource_concluded_def quiet_conclude
      tick_retries_def quiet_retry_all sweep_orphaned_pending_def quiet_sweep tick_clean_links_def quiet_clean)

section \<open>A send\<close>

lemma choose_quiet: "no_in_link (fst (snd (choose_link E d s)))"
  by (simp add: choose_link_def Let_def split: option.split)

text \<open>What \<open>send_direct\<close> leaves: the entry of the message under its link's hash.\<close>

lemma stored_entry:
  assumes "store_wire E c dw l d s = (s2, ps)" "length dw > LXMF_LINK_PACKET_MAX"
  shows "big_wire ps" "record_hash ps = l" "dest_hash ps = d" "status ps = Queued" "retries_left ps = DEFAULT_OUTBOX_RETRIES"
    "wire_path ps = [] \<Longrightarrow> wire ps = dw" "pend s2 = pend s"
  using assms by (auto simp: store_wire_def new_pls_def big_wire_def Let_def split_beta split: if_splits prod.splits)

lemma direct_sent:
  assumes "send_direct W n d c w r = (n', a, res)" "length (take HASH_LEN d @ w) > LXMF_LINK_PACKET_MAX"
    "big.lawful (pend (links n))"
  shows "big.lawful (pend (links n')) \<and> empty_in_link a \<and> opps n' = opps n \<and>
    (\<forall>r'. res = Inr r' \<longrightarrow> rec_status r' = Queued \<and>
      (\<exists>ps. mfind (pend (links n')) (packet_hash r') = Some ps \<and> record_hash ps = packet_hash r' \<and> dest_hash ps = d
        \<and> status ps = Queued))"
proof -
  obtain s1 a1 x where x: "choose_link (net W) d (links n) = (s1, a1, x)" by (cases "choose_link (net W) d (links n)") auto
  have p1: "big.lawful (pend s1)" "empty_in_link a1"
    using choose_link_pend [of "net W" d "links n"] choose_quiet [of "net W" d "links n"] x assms(3) by (simp_all add: quiet_empty)
  show ?thesis
  proof (cases x)
    case (Some lr)
    obtain l reuse where lr: "lr = (l, reuse)" by (cases lr)
    obtain s2 ps where s2: "store_wire (net W) c (take HASH_LEN d @ w) l d s1 = (s2, ps)" by fastforce
    note e = stored_entry [OF s2 assms(2)]
    let ?s4 = "s2\<lparr>pend := mput (key_lt (net W)) l ps (pend s2), link_reuses := wrap32 (link_reuses s2 + 1)\<rparr>"
    have l4: "big.lawful (mput (key_lt (net W)) l ps (pend s2))" using p1(1) e(1,7) big.lawful_put by simp
    then have l5: "big.lawful (pend (fst (outbound_link_established (net W) l ?s4)))"
      "empty_in_link (snd (outbound_link_established (net W) l ?s4))"
      using big.lawful_established [of ?s4] established_empty [of ?s4] by simp_all
    let ?w = "if wire_path ps \<noteq> [] then load_wire_from_disk (net W) (wire_path ps) (total_bytes ps) (files s2) else wire ps"
    have "?w = [] \<and> wire_path ps \<noteq> [] \<or> length ?w > LXMF_LINK_PACKET_MAX"
      using e(1,6) assms(2) loaded_length [of "net W" "wire_path ps" "total_bytes ps" "files s2"] by (auto simp: big_wire_def)
    then have f: "\<exists>ps'. mfind (pend (fst (outbound_link_established (net W) l ?s4))) l = Some ps' \<and> record_hash ps' = l
        \<and> dest_hash ps' = d \<and> status ps' = Queued"
      using e(2-5) by (auto simp: outbound_link_established_def Let_def schedule_alt retry_or_fail_def DEFAULT_OUTBOX_RETRIES_def)
    show ?thesis
    proof (cases reuse)
      case True
      then have "n' = n\<lparr>links := fst (outbound_link_established (net W) l ?s4)\<rparr>"
        "a = a1 @ snd (outbound_link_established (net W) l ?s4)"
        "res = Inr (r\<lparr>rec_status := Queued, packet_hash := l\<rparr>)"
        using assms(1) x Some lr s2 by (simp_all add: send_direct_def Let_def split_beta)
      with l5 f p1(2) show ?thesis by simp
    qed (use assms(1) x Some lr s2 l4 p1(2) e(2-4) in \<open>auto simp: send_direct_def Let_def\<close>)
  qed (use assms x p1 in \<open>auto simp: send_direct_def Let_def\<close>)
qed

lemma opportunistic_sent:
  assumes "send_opportunistic W n d w r = (n', a, res)"
  shows "links n' = links n \<and> no_in_link a \<and> (\<forall>r'. res = Inr r' \<longrightarrow> rec_status r' = Failed \<or> rec_status r' = Sent \<and>
    (\<exists>op. mfind (opps n') (packet_hash r') = Some op \<and> opp_dest op = d \<and> opp_wire op = w \<and> opp_status op = Sent))"
  using assms by (auto simp: send_opportunistic_def Let_def split: send_outcome.splits)

lemma direct_length:
  assumes "length sg = SIG_LEN" "\<not> content_size pw \<le> LXMF_OPPORTUNISTIC_MAX"
  shows "length (take HASH_LEN d @ take HASH_LEN o' @ sg @ pw) > LXMF_LINK_PACKET_MAX"
  using assms by (simp add: lxmf_consts content_size_def split: if_splits)

lemma send_effect:
  assumes "send_prepared W n d pm st r = (n', a, res)" "big.lawful (pend (links n))"
  shows "big.lawful (pend (links n')) \<and> empty_in_link a \<and> (\<forall>r'. res = Inr r' \<longrightarrow>
    rec_status r' = Failed
    \<or> rec_status r' = Sent \<and> (\<exists>op. mfind (opps n') (packet_hash r') = Some op \<and> opp_dest op = d \<and> opp_status op = Sent)
    \<or> rec_status r' = Queued \<and> (\<exists>ps. mfind (pend (links n')) (packet_hash r') = Some ps
        \<and> record_hash ps = packet_hash r' \<and> dest_hash ps = d \<and> status ps = Queued))"
proof (cases "\<exists>e. res = Inl e \<and> n' = n \<and> no_in_link a")
  case False
  have "\<exists>sg pw. length sg = SIG_LEN \<and>
     (let w = take HASH_LEN (own_hash n) @ sg @ pw in
       if content_size pw \<le> LXMF_OPPORTUNISTIC_MAX then send_opportunistic W n d w r = (n', a, res)
       else send_direct W n d (content_size pw) w r = (n', a, res))"
    using assms(1) False
    by (auto simp: send_prepared_def Let_def split: if_splits option.splits sum.splits)
  then obtain sg pw where sg: "length sg = SIG_LEN"
    "content_size pw \<le> LXMF_OPPORTUNISTIC_MAX \<Longrightarrow> send_opportunistic W n d (take HASH_LEN (own_hash n) @ sg @ pw) r = (n', a, res)"
    "\<not> content_size pw \<le> LXMF_OPPORTUNISTIC_MAX \<Longrightarrow>
       send_direct W n d (content_size pw) (take HASH_LEN (own_hash n) @ sg @ pw) r = (n', a, res)"
    by (auto simp: Let_def split: if_splits)
  show ?thesis
  proof (cases "content_size pw \<le> LXMF_OPPORTUNISTIC_MAX")
    case True
    from opportunistic_sent [OF sg(2) [OF True]] assms(2) show ?thesis by (auto simp: quiet_empty)
  next
    case False
    from direct_sent [OF sg(3) [OF False] direct_length [OF sg(1) False] assms(2)] show ?thesis by auto
  qed
qed (use assms(2) in \<open>auto simp: quiet_empty\<close>)

interpretation in_link_packets: traced node_step "\<lambda>n. big.lawful (pend (links n))" "\<lambda>_ _. True"
    "\<lambda>n n' acts. empty_in_link acts"
proof unfold_locales
  fix n :: node and e
  show "big.lawful (pend (links (fst (node_step n e))))" if l: "big.lawful (pend (links n))"
  proof (cases e)
    case (Send W d pm st r)
    obtain n' a res where s: "send_prepared W n d pm st r = (n', a, res)" by (cases "send_prepared W n d pm st r") auto
    from send_effect [OF s l] Send s show ?thesis by simp
  qed (use l big.lawful_step in \<open>simp_all add: split_beta\<close>)
  show "empty_in_link (snd (node_step n e))" if l: "big.lawful (pend (links n))"
  proof (cases e)
    case (Send W d pm st r)
    obtain n' a res where s: "send_prepared W n d pm st r = (n', a, res)" by (cases "send_prepared W n d pm st r") auto
    from send_effect [OF s l] Send s show ?thesis by simp
  qed (use l link_step_empty quiet_empty [OF quiet_opp] in \<open>simp_all add: split_beta\<close>)
qed (simp_all add: empty_in_link_def)

section \<open>Announces\<close>

lemma cost_read:
  assumes "hd d = 0x93" "skip_element depth d (length d) 1 = Some (True, off)" "off < length d" "2 \<le> length d"
  shows "k \<le> 127 \<Longrightarrow> d ! off = word_of_nat k \<Longrightarrow> peer_stamp_cost depth d = Some k"
    "k \<le> 254 \<Longrightarrow> d ! off = 0xCC \<Longrightarrow> d ! Suc off = word_of_nat k \<Longrightarrow> Suc off < length d \<Longrightarrow> peer_stamp_cost depth d = Some k"
    "d ! off = 0xC0 \<Longrightarrow> peer_stamp_cost depth d = Some 0"
  using assms by (simp_all add: peer_stamp_cost_def unat_of_nat_u8 word_le_nat_alt)

lemma announce_cost:
  assumes "length name \<le> 96" "k \<le> 254"
  shows "\<exists>d. announce_data name k = Some d \<and> peer_stamp_cost (Suc depth) d = Some k"
proof -
  let ?nm = "pack_bin 127 name" let ?c = "if 1 \<le> k then pack_uint8 (128 - length (0x93 # ?nm)) (word_of_nat k) else [0xC0]"
  have nm: "?nm = pack_bin_header 127 (length name) @ name" using pack_bin_room [of name 127] assms(1) by simp
  have h: "length (pack_bin_header 127 (length name)) \<le> 5" "?nm \<noteq> []"
    using assms(1) pack_bin_header_ne [of 127 "length name"] by (simp_all add: nm pack_bin_header_def)
  then have l: "length ?nm \<le> 101" using assms(1) by (simp add: nm)
  define c where "c = ?c"
  have c: "c = (if k = 0 then [0xC0] else if k \<le> 127 then [word_of_nat k] else [0xCC, word_of_nat k])"
    using assms(2) l by (auto simp: c_def pack_uint8_def word_le_nat_alt unat_of_nat_u8)
  then have lc: "length c \<le> 2" by simp
  let ?d = "0x93 # ?nm @ c @ [0x90]"
  have a: "announce_data name k = Some ?d"
    using h(2) c unfolding c_def by (auto simp: announce_data_def Let_def split: if_splits)
  have "holds_at ([0x93] @ ?nm @ (c @ [0x90])) (length [0x93 :: u8]) ?nm" by (rule holds_at_mid)
  then have n: "holds_at ?d 1 (pack_bin_header 127 (length name))" by (simp add: nm holds_at_append)
  have "skip_step ?d (length ?d) 1 = Done True (1 + length (pack_bin_header 127 (length name)) + length name)"
    by (rule skip_bin [OF n]) (use assms(1) l lc in \<open>simp_all add: nm\<close>)
  then have "skip_step ?d (length ?d) 1 = Done True (1 + length ?nm)" by (simp add: nm)
  then have sk: "skip_element (Suc depth) ?d (length ?d) 1 = Some (True, 1 + length ?nm)" by simp
  have "1 + length ?nm < length ?d" "2 \<le> length ?d" by simp_all
  note rd = cost_read [OF _ sk this]
  have at: "?d ! (1 + length ?nm) = hd c" using c by (auto simp: nth_append)
  consider "k = 0" | "0 < k" "k \<le> 127" | "128 \<le> k" by linarith
  then have "peer_stamp_cost (Suc depth) ?d = Some k"
  proof cases
    case 1
    show ?thesis unfolding 1 by (rule rd(3)) (use at c 1 in simp_all)
  next
    case 2
    show ?thesis by (rule rd(1)) (use at c 2 in simp_all)
  next
    case 3
    show ?thesis by (rule rd(2)) (use at c 3 assms(2) in \<open>simp_all add: nth_append\<close>)
  qed
  with a show ?thesis by blast
qed

section \<open>Properties\<close>

text \<open>At most 64 messages are in flight: no run of sends, callbacks, ticks, announces and
  retries takes the pending and opportunistic maps together above the limit that guards the
  handlers' memory.\<close>

theorem inflight_bounded:
  "inflight n \<le> MAX_INFLIGHT_SENDS \<Longrightarrow> inflight (fst (run node_step es n)) \<le> MAX_INFLIGHT_SENDS"
  by (rule inflight_bound.run_inv)

theorem inflight_bounded_witness:
  "inflight (fst (run node_step [Send sample_world [2] sample_prepared [9, 9] blank_record] sample_node)) \<le> MAX_INFLIGHT_SENDS"
  by (rule inflight_bounded) (simp add: inflight_def sample_node_def sample_outbox_def sample_opps_def lxmf_consts)

text \<open>C25. An accepted message is tracked: when \<open>send_prepared\<close> reports success, the record is Failed,
  or Sent with an opportunistic entry that will be retried, or Queued with a pending entry
  under the record's own hash, even when a reused link calls back at once.\<close>

theorem accepted_send_tracked:
  assumes "send_prepared W n d pm st r = (n', acts, Inr r')" "\<forall>e \<in> set (pend (links n)). big_wire (snd e)"
  shows "rec_status r' = Failed
    \<or> rec_status r' = Sent \<and> (\<exists>op. mfind (opps n') (packet_hash r') = Some op \<and> opp_dest op = d \<and> opp_status op = Sent)
    \<or> rec_status r' = Queued \<and> (\<exists>ps. mfind (pend (links n')) (packet_hash r') = Some ps
        \<and> record_hash ps = packet_hash r' \<and> dest_hash ps = d \<and> status ps = Queued)"
  using send_effect [OF assms(1)] assms(2) by (simp add: big.lawful_def)

theorem accepted_send_tracked_witness:
  "let res = send_prepared sample_world sample_node [2] sample_prepared [] blank_record; r' = projr (snd (snd res)) in
    rec_status r' = Failed
    \<or> rec_status r' = Sent \<and> (\<exists>op. mfind (opps (fst res)) (packet_hash r') = Some op \<and> opp_dest op = [2] \<and> opp_status op = Sent)
    \<or> rec_status r' = Queued \<and> (\<exists>ps. mfind (pend (links (fst res))) (packet_hash r') = Some ps
        \<and> record_hash ps = packet_hash r' \<and> dest_hash ps = [2] \<and> status ps = Queued)"
proof -
  have e: "sample_payload \<noteq> []" by (simp add: sample_payload_def reference_payload_def)
  have "length (pend (links sample_node)) + length (opps sample_node) < MAX_INFLIGHT_SENDS"
    by (simp add: sample_node_def sample_outbox_def sample_opps_def lxmf_consts)
  moreover have "initialized sample_node" "recall (net sample_world) [2]" "has_path (net sample_world) [2]"
    "sign sample_world x = Some (replicate 64 1)" "packet sample_world x = Accepted 1" for x
    by (simp_all add: send_samples calm_def)
  moreover have "content_size sample_payload \<le> LXMF_OPPORTUNISTIC_MAX"
    using order_trans [OF diff_le_self sample_payload_length, of 16]
    by (simp add: content_size_def LXMF_OPPORTUNISTIC_MAX_def)
  ultimately obtain n' acts r' where s: "send_prepared sample_world sample_node [2] sample_prepared [] blank_record = (n', acts, Inr r')"
    using e by (simp add: send_prepared_def Let_def sample_prepared_def SIG_LEN_def payload_wire_def send_opportunistic_def)
  have "\<forall>e \<in> set (pend (links sample_node)). big_wire (snd e)"
    by (simp add: sample_node_def samples big_wire_def lxmf_consts)
  from accepted_send_tracked [OF s this] s show ?thesis by (simp add: Let_def)
qed

text \<open>A packet inside a link only ever carries the empty wire: every DIRECT message is longer than
  the 319 bytes of an in-link packet, so the branch of \<open>outbound_link_established\<close> that sends one
  is reached by nothing but the wire that an earlier resource transfer emptied.\<close>

theorem in_link_packet_empty:
  assumes "\<forall>e \<in> set (pend (links n)). big_wire (snd e)" "SendInLink l w \<in> set (snd (run node_step es n))"
  shows "w = []"
proof -
  have "run_ok (\<lambda>_ _. True) node_step es n" by (induction es arbitrary: n) auto
  from in_link_packets.run_rel [OF _ this] assms show ?thesis by (auto simp: big.lawful_def empty_in_link_def)
qed

text \<open>The RAM wire of the sample is emptied by a resource, its link closes and is retried.\<close>

definition emptied_run :: "node_event list" where
  "emptied_run = [LinkEv (calm 10) (Established [1]), LinkEv (calm 11) (Established [1])]"

theorem in_link_packet_empty_witness:
  "SendInLink [1] [] \<in> set (snd (run node_step emptied_run sample_node)) \<and> [] = ([] :: bytes)"
proof -
  have s: "SendInLink [1] [] \<in> set (snd (run node_step emptied_run sample_node))"
    by (simp add: emptied_run_def sample_node_def samples outbound_link_established_def mfind_def mput_def lxmf_consts)
  have "\<forall>e \<in> set (pend (links sample_node)). big_wire (snd e)"
    by (simp add: sample_node_def samples big_wire_def lxmf_consts)
  from in_link_packet_empty [OF this s] s show ?thesis by blast
qed

text \<open>Failed messages block the node: when the pending map holds 64 Failed entries, no run of
  callbacks, ticks and announces frees a place, and until a user retries one of them every
  further send is refused, although nothing is being delivered.\<close>

theorem failed_sends_block:
  assumes "wf_outbox (links n)" "run_ok unattended link_machine es (links n)"
    "distinct ks" "length ks = MAX_INFLIGHT_SENDS" "\<forall>k \<in> set ks. failed_at k (links n)"
    "initialized n" "payload pm \<noteq> []"
  defines "n1 \<equiv> n\<lparr>links := fst (run link_machine es (links n))\<rparr>"
  shows "send_prepared W n1 d pm st r =
    (n1, [], Inl (Refused ''Too many messages are still being delivered. Wait a moment, then resend.''))"
proof -
  let ?p = "pend (fst (run link_machine es (links n)))"
  have "\<forall>k \<in> set ks. failed_at k (fst (run link_machine es (links n)))"
    using failed_entries.run_rel [OF assms(1,2)] assms(5) by blast
  then have "set ks \<subseteq> set (mkeys ?p)"
    by (force simp: failed_at_def mkeys_def dest: mfind_mem split: option.splits)
  then have "length ks \<le> length ?p"
    using card_mono [of "set (mkeys ?p)" "set ks"] distinct_card [OF assms(3)] card_length [of "mkeys ?p"] by (simp add: mkeys_def)
  then show ?thesis using assms(4,6,7) by (simp add: n1_def send_prepared_def)
qed

definition stuck_keys :: "hash list" where
  "stuck_keys = map (\<lambda>i. [word_of_nat i]) [0..<64]"

definition stuck_node :: node where
  "stuck_node = sample_node\<lparr>links := sample_outbox\<lparr>pend :=
     map (\<lambda>k. (k, sample_pls\<lparr>status := Failed, retries_left := 0\<rparr>)) stuck_keys\<rparr>\<rparr>"

lemma stuck_distinct: "distinct stuck_keys"
  by (auto simp: stuck_keys_def distinct_map inj_on_def word_unat_eq_iff unat_of_nat_u8)

theorem failed_sends_block_witness:
  "send_prepared sample_world (stuck_node\<lparr>links := fst (run link_machine [(calm 10, Sweep)] (links stuck_node))\<rparr>) [2]
     sample_prepared [] blank_record =
    (stuck_node\<lparr>links := fst (run link_machine [(calm 10, Sweep)] (links stuck_node))\<rparr>, [],
     Inl (Refused ''Too many messages are still being delivered. Wait a moment, then resend.''))"
proof (rule failed_sends_block [where ks = stuck_keys])
  have k: "mkeys (pend (links stuck_node)) = stuck_keys"
    by (simp add: stuck_node_def mkeys_def comp_def)
  then show "wf_outbox (links stuck_node)"
    using stuck_distinct by (auto simp: wf_map_def stuck_node_def wf_pls_def sample_pls_def)
  show "\<forall>k \<in> set stuck_keys. failed_at k (links stuck_node)"
    by (auto simp: failed_at_def stuck_node_def sample_pls_def mfind_def map_of_map_restrict)
  show "run_ok unattended link_machine [(calm 10, Sweep)] (links stuck_node)"
    by (simp add: unattended_def automatic_def links_fresh_def)
qed (simp_all add: stuck_distinct, simp_all add: stuck_keys_def stuck_node_def sample_node_def lxmf_consts
    sample_prepared_def sample_payload_def reference_payload_def)

text \<open>The stamp cost of an announce arrives: for any display name of up to 96 bytes and any cost,
  a peer reads back the cost the node enforces, 0 for none.\<close>

theorem announced_cost_read:
  "length name \<le> 96 \<Longrightarrow> 1 \<le> depth \<Longrightarrow>
    \<exists>d. announce_data name (set_stamp_cost k) = Some d \<and> peer_stamp_cost depth d = Some (set_stamp_cost k)"
  using announce_cost [of name "set_stamp_cost k" "depth - 1"] by (simp add: set_stamp_cost_def)

theorem announced_cost_read_witness:
  "\<exists>d. announce_data [0x61] (set_stamp_cost 200) = Some d \<and> peer_stamp_cost 1 d = Some (set_stamp_cost 200)"
  by (rule announced_cost_read) simp_all

end
