(* ===== verification/Stamp.thy ===== *)
theory Stamp
  imports MsgPack Store
begin

text \<open>
  The proof-of-work engine of \<open>src/src/Discovery/Stamp.h\<close>: the workblock, the score and the
  validity of a digest, the search, and the background worker with its one-job slot, result
  cache and mailbox.

  SHA-256 and HKDF are library code and fields of \<open>crypto\<close>. A stream of \<open>update\<close> calls is the
  concatenation of what was fed. An abort is the sequence of answers \<open>should_abort\<close> gives at its
  polls. The worker's critical sections are steps of a machine, so every interleaving of the
  worker with submitters, cancellers and pollers is a run; a mutex that times out is the failing
  variant of a step.
\<close>

section \<open>Parameters\<close>

definition WORKBLOCK_EXPAND_ROUNDS :: nat where "WORKBLOCK_EXPAND_ROUNDS = 20"
definition HKDF_LEN_DISCOVERY :: nat where "HKDF_LEN_DISCOVERY = 32"
definition STAMP_SIZE :: nat where "STAMP_SIZE = 32"
definition LXMF_WORKBLOCK_EXPAND_ROUNDS :: nat where "LXMF_WORKBLOCK_EXPAND_ROUNDS = 3000"
definition LXMF_HKDF_LEN :: nat where "LXMF_HKDF_LEN = 256"

record crypto =
  sha256 :: "bytes \<Rightarrow> bytes"
  hkdf :: "nat \<Rightarrow> bytes \<Rightarrow> bytes \<Rightarrow> bytes"    \<comment> \<open>length, material, salt\<close>
  alloc_ok :: bool                         \<comment> \<open>the workblock can be allocated\<close>

section \<open>The workblock\<close>

fun expand_rounds :: "crypto \<Rightarrow> bytes \<Rightarrow> nat \<Rightarrow> (nat \<Rightarrow> bool) \<Rightarrow> nat \<Rightarrow> nat \<Rightarrow> bytes option" where
  "expand_rounds C material len ab 0 n = Some []"
| "expand_rounds C material len ab (Suc k) n =
    (let salt = sha256 C (material @ pack_int 4 (int n)); block = hkdf C len material salt in
     if length block \<noteq> len then None
     else if n mod 64 = 63 \<and> ab (n div 64) then None
     else map_option (\<lambda>wb. block @ wb) (expand_rounds C material len ab k (n + 1)))"

definition build_workblock :: "crypto \<Rightarrow> bytes \<Rightarrow> nat \<Rightarrow> nat \<Rightarrow> (nat \<Rightarrow> bool) \<Rightarrow> bytes option" where
  "build_workblock C material rs len ab =
    (if \<not> alloc_ok C then None else expand_rounds C material len ab rs 0)"

section \<open>Scores\<close>

text \<open>\<open>while ((b & 0x80) == 0) { zeros++; b <<= 1; }\<close>, for a byte that is not zero.\<close>

function byte_zeros :: "u8 \<Rightarrow> nat" where
  "byte_zeros b = (if b = 0 \<or> 128 \<le> b then 0 else Suc (byte_zeros (push_bit 1 b)))"
  by pat_completeness auto
termination
proof (relation "measure (\<lambda>b. 256 - unat b)")
  fix b :: u8 assume "\<not> (b = 0 \<or> 128 \<le> b)"
  then have "0 < unat b" "unat b < 128" by (simp_all add: unat_gt_0 word_le_nat_alt)
  moreover from this have "unat (push_bit 1 b) = 2 * unat b"
    by (simp add: push_bit_eq_mult unat_word_ariths)
  ultimately show "(push_bit 1 b, b) \<in> measure (\<lambda>b. 256 - unat b)" by simp
qed simp

declare byte_zeros.simps [simp del]

fun digest_value :: "bytes \<Rightarrow> nat" where
  "digest_value [] = 0"
| "digest_value (b # bs) = (if b = 0 then 8 + digest_value bs else byte_zeros b)"

lemma byte_half: "unat (drop_bit 1 (b :: u8)) = unat b div 2" "unat (b AND 1) = unat b mod 2"
  by (simp_all only: drop_bit_eq_div power_one_right and_one_eq unat_div unat_mod) simp_all

text \<open>\<open>while (b) { set\_bits += b & 1; b >>= 1; }\<close>\<close>

function byte_bits :: "u8 \<Rightarrow> nat" where
  "byte_bits b = (if b = 0 then 0 else unat (b AND 1) + byte_bits (drop_bit 1 b))"
  by pat_completeness auto
termination
proof (relation "measure unat")
  fix b :: u8 assume "b \<noteq> 0"
  then show "(drop_bit 1 b, b) \<in> measure unat"
    by (simp only: in_measure byte_half(1)) (simp add: word_unat_eq_iff)
qed simp

declare byte_bits.simps [simp del]

fun set_bits :: "nat \<Rightarrow> bytes \<Rightarrow> nat" where
  "set_bits n [] = n"
| "set_bits n (b # bs) = (if n \<ge> 2 then n else set_bits (n + byte_bits b) bs)"

definition digest_valid :: "bytes \<Rightarrow> nat \<Rightarrow> bool" where
  "digest_valid d k =
    (if k = 0 then True
     else if k > 256 then False
     else let zeros = digest_value d in
       if zeros \<ge> k then True
       else if zeros \<noteq> k - 1 then False
       else set_bits 0 d = 1)"

text \<open>The workblock is fed in pieces of 16 KiB, then the stamp.\<close>

function feed_pieces :: "bytes \<Rightarrow> bytes \<Rightarrow> bytes" where
  "feed_pieces fed left = (if left = [] then fed else feed_pieces (fed @ take 16384 left) (drop 16384 left))"
  by pat_completeness auto
termination by (relation "measure (\<lambda>(f, l). length l)") auto

declare feed_pieces.simps [simp del]

definition hash_workblock_stamp :: "crypto \<Rightarrow> bytes \<Rightarrow> bytes \<Rightarrow> bytes" where
  "hash_workblock_stamp C wb st = sha256 C (feed_pieces [] wb @ st)"

definition stamp_score :: "crypto \<Rightarrow> bytes \<Rightarrow> bytes \<Rightarrow> nat" where
  "stamp_score C wb st = digest_value (hash_workblock_stamp C wb st)"

definition stamp_ok :: "crypto \<Rightarrow> bytes \<Rightarrow> nat \<Rightarrow> bytes \<Rightarrow> bool" where
  "stamp_ok C st k wb = digest_valid (hash_workblock_stamp C wb st) k"

section \<open>The search\<close>

text \<open>The counter in the last eight bytes, least significant first.\<close>

definition candidate :: "64 word \<Rightarrow> bytes" where
  "candidate n = replicate (STAMP_SIZE - 8) 0 @ map (\<lambda>i. ucast (drop_bit (8 * i) n)) [0..<8]"

text \<open>\<open>k\<close> polls were made; \<open>Some None\<close> is an abort, \<open>None\<close> a search without end.\<close>

partial_function (option) search :: "(bytes \<Rightarrow> bool) \<Rightarrow> (nat \<Rightarrow> bool) \<Rightarrow> nat \<Rightarrow> 64 word \<Rightarrow> bytes option option" where
  "search ok ab k n =
    (if ok (candidate n) then Some (Some (candidate n))
     else if n + 1 AND 0xFF = 0 then (if ab k then Some None else search ok ab (k + 1) (n + 1))
     else search ok ab k (n + 1))"

text \<open>The digest of a candidate, from the state after the workblock.\<close>

definition generate_search :: "crypto \<Rightarrow> bytes \<Rightarrow> nat \<Rightarrow> (nat \<Rightarrow> bool) \<Rightarrow> (bytes \<times> nat) option option" where
  "generate_search C wb cost ab =
    (let base = feed_pieces [] wb in
     map_option (map_option (\<lambda>st. (st, digest_value (sha256 C (base @ st)))))
       (search (\<lambda>st. digest_valid (sha256 C (base @ st)) cost) ab 0 0))"

section \<open>The worker\<close>

record job_result =
  jr_stamp :: bytes
  jr_value :: nat
  jr_valid :: bool
  jr_ok :: bool

definition failed_result :: job_result where
  "failed_result = \<lparr>jr_stamp = [], jr_value = 0, jr_valid = False, jr_ok = False\<rparr>"

datatype job_kind = DiscoveryGenerate | LxmfGenerate | LxmfValue

record job =
  kind :: job_kind
  input :: bytes
  job_stamp :: bytes
  job_cost :: nat
  rounds :: nat
  hkdf_len :: nat

text \<open>Between its critical sections the worker has taken a job, published its key, or posted.\<close>

datatype phase = Taken | Keyed | Posted

record worker =
  pending_job :: "job option"
  running :: "(job \<times> phase) option"
  is_busy :: bool
  current_key :: bytes
  cancel_flag :: bool
  cache_key :: bytes
  cache_stamp :: bytes
  results :: "(bytes \<times> job_result) list"

definition RESULTS_MAX :: nat where "RESULTS_MAX = 8"

datatype stamp_out = Posted_result bytes job_result | Done_cb bytes

definition material_of :: "crypto \<Rightarrow> job \<Rightarrow> bytes" where
  "material_of C j = (if kind j = DiscoveryGenerate then sha256 C (input j) else input j)"

definition post_result :: "bytes \<Rightarrow> job_result \<Rightarrow> worker \<Rightarrow> worker" where
  "post_result key r w = w\<lparr>results := push_bounded RESULTS_MAX (key, r) (results w)\<rparr>"

definition submit_job :: "bool \<Rightarrow> job \<Rightarrow> worker \<Rightarrow> worker \<times> bool" where
  "submit_job locked j w =
    (if \<not> locked then (w, False)
     else if is_busy w \<or> pending_job w \<noteq> None then (w, False)
     else (w\<lparr>pending_job := Some j\<rparr>, True))"

definition cached :: "crypto \<Rightarrow> bytes \<Rightarrow> worker \<Rightarrow> bytes option" where
  "cached C material w = (if cache_key w = material \<and> length (cache_stamp w) = STAMP_SIZE then Some (cache_stamp w) else None)"

definition submit :: "crypto \<Rightarrow> bool \<Rightarrow> bool \<Rightarrow> bytes \<Rightarrow> nat \<Rightarrow> worker \<Rightarrow> worker \<times> stamp_out list \<times> bool" where
  "submit C lock1 lock2 dict k w =
    (if \<not> lock1 then (w, [], False)
     else case cached C (sha256 C dict) w of
         Some st \<Rightarrow> (w, [Done_cb st], True)
       | None \<Rightarrow>
           (case submit_job lock2 \<lparr>kind = DiscoveryGenerate, input = dict, job_stamp = [], job_cost = k,
               rounds = WORKBLOCK_EXPAND_ROUNDS, hkdf_len = HKDF_LEN_DISCOVERY\<rparr> w of (w', b) \<Rightarrow> (w', [], b)))"

definition submit_lxmf_generate :: "bool \<Rightarrow> bytes \<Rightarrow> nat \<Rightarrow> worker \<Rightarrow> worker \<times> bool" where
  "submit_lxmf_generate locked mid k =
    submit_job locked \<lparr>kind = LxmfGenerate, input = mid, job_stamp = [], job_cost = k,
      rounds = LXMF_WORKBLOCK_EXPAND_ROUNDS, hkdf_len = LXMF_HKDF_LEN\<rparr>"

definition submit_lxmf_value :: "bool \<Rightarrow> bytes \<Rightarrow> bytes \<Rightarrow> nat \<Rightarrow> worker \<Rightarrow> worker \<times> bool" where
  "submit_lxmf_value locked mid st k =
    submit_job locked \<lparr>kind = LxmfValue, input = mid, job_stamp = st, job_cost = k,
      rounds = LXMF_WORKBLOCK_EXPAND_ROUNDS, hkdf_len = LXMF_HKDF_LEN\<rparr>"

definition cancel :: "crypto \<Rightarrow> bool \<Rightarrow> bytes \<Rightarrow> worker \<Rightarrow> worker \<times> stamp_out list" where
  "cancel C locked material w =
    (if \<not> locked then (w, [])
     else let (w1, out) = (case pending_job w of
              None \<Rightarrow> (w, [])
            | Some j \<Rightarrow> if material_of C j = material
                then (post_result material failed_result (w\<lparr>pending_job := None\<rparr>), [Posted_result material failed_result])
                else (w, []))
       in ((if current_key w1 = material then w1\<lparr>cancel_flag := True\<rparr> else w1), out))"

fun take_first :: "bytes \<Rightarrow> (bytes \<times> job_result) list \<Rightarrow> ((bytes \<times> job_result) list \<times> job_result) option" where
  "take_first key [] = None"
| "take_first key ((k, r) # q) = (if k = key then Some (q, r) else map_option (\<lambda>(q', r'). ((k, r) # q', r')) (take_first key q))"

definition take_result_if :: "bool \<Rightarrow> bytes \<Rightarrow> worker \<Rightarrow> worker \<times> job_result option" where
  "take_result_if locked key w =
    (if \<not> locked then (w, None)
     else case take_first key (results w) of None \<Rightarrow> (w, None) | Some (q, r) \<Rightarrow> (w\<lparr>results := q\<rparr>, Some r))"

text \<open>\<open>busy, cached\<close>\<close>

definition status_of :: "bool \<Rightarrow> worker \<Rightarrow> bool \<times> bool" where
  "status_of locked w =
    (if locked then (is_busy w \<or> pending_job w \<noteq> None, length (cache_stamp w) = STAMP_SIZE) else (False, False))"

section \<open>What the worker computes\<close>

text \<open>\<open>None\<close>: the search never ends. \<open>ab1\<close> and \<open>ab2\<close> are the answers at the polls of the two phases.\<close>

definition run_generate :: "crypto \<Rightarrow> job \<Rightarrow> (nat \<Rightarrow> bool) \<Rightarrow> (nat \<Rightarrow> bool) \<Rightarrow> (bytes \<times> nat) option option" where
  "run_generate C j ab1 ab2 =
    (case build_workblock C (material_of C j) (rounds j) (hkdf_len j) ab1 of
       None \<Rightarrow> Some None
     | Some wb \<Rightarrow> if wb = [] then Some None else generate_search C wb (job_cost j) ab2)"

definition run_value :: "crypto \<Rightarrow> job \<Rightarrow> (nat \<Rightarrow> bool) \<Rightarrow> job_result" where
  "run_value C j ab1 =
    (case build_workblock C (material_of C j) (rounds j) (hkdf_len j) ab1 of
       None \<Rightarrow> failed_result
     | Some wb \<Rightarrow>
         if wb = [] then failed_result
         else failed_result\<lparr>jr_value := digest_value (hash_workblock_stamp C wb (job_stamp j)),
            jr_valid := digest_valid (hash_workblock_stamp C wb (job_stamp j)) (job_cost j), jr_ok := True\<rparr>)"

definition generate_result :: "(bytes \<times> nat) option \<Rightarrow> job_result" where
  "generate_result r = (case r of None \<Rightarrow> failed_result
     | Some (st, v) \<Rightarrow> \<lparr>jr_stamp = st, jr_value = v, jr_valid = True, jr_ok = True\<rparr>)"

text \<open>The discovery branch: the cache, else the search, whose stamp is cached.\<close>

definition run_discovery :: "crypto \<Rightarrow> job \<Rightarrow> (nat \<Rightarrow> bool) \<Rightarrow> (nat \<Rightarrow> bool) \<Rightarrow> worker \<Rightarrow> (worker \<times> stamp_out list) option" where
  "run_discovery C j ab1 ab2 w =
    (case cached C (material_of C j) w of
       Some st \<Rightarrow> Some (w, [Done_cb st])
     | None \<Rightarrow> (case run_generate C j ab1 ab2 of
           None \<Rightarrow> None
         | Some None \<Rightarrow> Some (w, [])
         | Some (Some (st, v)) \<Rightarrow> Some (w\<lparr>cache_key := material_of C j, cache_stamp := st\<rparr>, [Done_cb st])))"

section \<open>The machine\<close>

datatype stamp_event =
    SubmitDict bool bool bytes nat
  | SubmitGenerate bool bytes nat
  | SubmitValue bool bytes bytes nat
  | Cancel bool bytes
  | TakeResult bool bytes
  | WorkerTake
  | WorkerKey
  | WorkerCompute "nat \<Rightarrow> bool" "nat \<Rightarrow> bool"
  | WorkerClear

definition worker_compute :: "crypto \<Rightarrow> (nat \<Rightarrow> bool) \<Rightarrow> (nat \<Rightarrow> bool) \<Rightarrow> job \<Rightarrow> worker \<Rightarrow> worker \<times> stamp_out list" where
  "worker_compute C ab1 ab2 j w =
    (let stuck = (w, []); done = (\<lambda>w out. (w\<lparr>running := Some (j, Posted)\<rparr>, out)) in
     case kind j of
       DiscoveryGenerate \<Rightarrow> (case run_discovery C j ab1 ab2 w of None \<Rightarrow> stuck | Some (w', out) \<Rightarrow> done w' out)
     | LxmfGenerate \<Rightarrow> (case run_generate C j ab1 ab2 of
           None \<Rightarrow> stuck
         | Some r \<Rightarrow> done (post_result (material_of C j) (generate_result r) w)
             [Posted_result (material_of C j) (generate_result r)])
     | LxmfValue \<Rightarrow> done (post_result (material_of C j) (run_value C j ab1) w)
         [Posted_result (material_of C j) (run_value C j ab1)])"

fun stamp_step :: "crypto \<Rightarrow> worker \<Rightarrow> stamp_event \<Rightarrow> worker \<times> stamp_out list" where
  "stamp_step C w (SubmitDict l1 l2 dict k) = (case submit C l1 l2 dict k w of (w', out, _) \<Rightarrow> (w', out))"
| "stamp_step C w (SubmitGenerate l mid k) = (fst (submit_lxmf_generate l mid k w), [])"
| "stamp_step C w (SubmitValue l mid st k) = (fst (submit_lxmf_value l mid st k w), [])"
| "stamp_step C w (Cancel l key) = cancel C l key w"
| "stamp_step C w (TakeResult l key) = (fst (take_result_if l key w), [])"
| "stamp_step C w WorkerTake =
    (case (running w, pending_job w) of
       (None, Some j) \<Rightarrow> (w\<lparr>running := Some (j, Taken), pending_job := None, is_busy := True\<rparr>, [])
     | _ \<Rightarrow> (w, []))"
| "stamp_step C w WorkerKey =
    (case running w of
       Some (j, Taken) \<Rightarrow> (w\<lparr>running := Some (j, Keyed), current_key := material_of C j, cancel_flag := False\<rparr>, [])
     | _ \<Rightarrow> (w, []))"
| "stamp_step C w (WorkerCompute ab1 ab2) =
    (case running w of Some (j, Keyed) \<Rightarrow> worker_compute C ab1 ab2 j w | _ \<Rightarrow> (w, []))"
| "stamp_step C w WorkerClear =
    (case running w of
       Some (j, Posted) \<Rightarrow> (w\<lparr>running := None, current_key := [], cancel_flag := False, is_busy := False\<rparr>, [])
     | _ \<Rightarrow> (w, []))"

section \<open>Scores are powers of two\<close>

text \<open>The digest as a number, most significant byte first.\<close>

fun be_nat :: "bytes \<Rightarrow> nat" where
  "be_nat [] = 0"
| "be_nat (b # bs) = unat b * 256 ^ length bs + be_nat bs"

lemma be_nat_less: "be_nat d < 256 ^ length d"
proof (induction d)
  case (Cons b bs)
  have "unat b * 256 ^ length bs \<le> 255 * 256 ^ length bs" using unat_u8_less [of b] by (intro mult_right_mono) simp_all
  with Cons.IH show ?case by (simp only: be_nat.simps length_Cons power_Suc)
qed simp

lemma byte_zeros_bounds:
  "b \<noteq> 0 \<Longrightarrow> byte_zeros b \<le> 7 \<and> 2 ^ (7 - byte_zeros b) \<le> unat b \<and> unat b < 2 ^ (8 - byte_zeros b)"
proof (induction b rule: byte_zeros.induct)
  case (1 b)
  show ?case
  proof (cases "128 \<le> b")
    case True
    then show ?thesis using 1(2) unat_u8_less [of b] by (subst (1 2 3) byte_zeros.simps) (simp add: word_le_nat_alt)
  next
    case False
    then have u: "unat (push_bit 1 b) = 2 * unat b" "unat b < 128"
      by (simp_all add: push_bit_eq_mult unat_word_ariths word_le_nat_alt)
    have nz: "push_bit 1 b \<noteq> 0" using u 1(2) by (simp add: word_unat_eq_iff)
    let ?z = "byte_zeros (push_bit 1 b)"
    have ih: "?z \<le> 7" "2 ^ (7 - ?z) \<le> 2 * unat b" "2 * unat b < 2 ^ (8 - ?z)"
      using 1(1) [OF _ nz] False 1(2) u by auto
    have "?z \<noteq> 7"
    proof
      assume "?z = 7"
      with ih(3) 1(2) show False by (simp add: word_unat_eq_iff)
    qed
    with ih have "7 - ?z = Suc (7 - Suc ?z)" "8 - ?z = Suc (8 - Suc ?z)" by simp_all
    with ih(2,3) \<open>?z \<noteq> 7\<close> ih(1) have "Suc ?z \<le> 7 \<and> 2 ^ (7 - Suc ?z) \<le> unat b \<and> unat b < 2 ^ (8 - Suc ?z)" by simp
    moreover have "byte_zeros b = Suc ?z" using False 1(2) by (subst byte_zeros.simps) simp
    ultimately show ?thesis by simp
  qed
qed

lemma pow256: "(256 :: nat) ^ n = 2 ^ (8 * n)"
  by (simp add: power_mult)

lemma digest_value_bounds:
  "if be_nat d = 0 then digest_value d = 8 * length d
   else digest_value d < 8 * length d \<and> 2 ^ (8 * length d - 1 - digest_value d) \<le> be_nat d
     \<and> be_nat d < 2 ^ (8 * length d - digest_value d)"
proof (induction d)
  case (Cons b bs)
  let ?n = "8 * length bs" and ?z = "byte_zeros b"
  show ?case
  proof (cases "b = 0")
    case True
    with Cons show ?thesis by (auto simp: algebra_simps)
  next
    case False
    note z = byte_zeros_bounds [OF this]
    have r: "be_nat bs < 2 ^ ?n" using be_nat_less [of bs] by (simp add: pow256)
    have e: "8 * length (b # bs) - 1 - ?z = ?n + (7 - ?z)" "8 * length (b # bs) - ?z = ?n + (8 - ?z)"
      using z by simp_all
    have lo: "2 ^ (?n + (7 - ?z)) \<le> unat b * 2 ^ ?n"
      unfolding power_add using z by (subst mult.commute) (intro mult_right_mono, simp_all)
    have "(unat b + 1) * 2 ^ ?n \<le> 2 ^ (8 - ?z) * 2 ^ ?n"
      using z by (intro mult_right_mono) simp_all
    then have hi: "unat b * 2 ^ ?n + 2 ^ ?n \<le> 2 ^ (?n + (8 - ?z))"
      by (simp only: power_add add_mult_distrib mult_1 mult.commute)
    have "2 ^ (?n + (7 - ?z)) \<le> be_nat (b # bs) \<and> be_nat (b # bs) < 2 ^ (?n + (8 - ?z))"
      using r lo hi unfolding be_nat.simps pow256 by linarith
    moreover have "unat b \<noteq> 0" using False by (simp add: word_unat_eq_iff)
    ultimately show ?thesis using False z unfolding e [symmetric] by simp
  qed
qed simp

lemma byte_bits_step: "b \<noteq> 0 \<Longrightarrow> byte_bits b = unat b mod 2 + byte_bits (drop_bit 1 b)"
  by (subst byte_bits.simps) (simp only: byte_half if_False)

lemma byte_bits_zero: "byte_bits b = 0 \<longleftrightarrow> b = 0"
proof (induction b rule: byte_bits.induct)
  case (1 b)
  show ?case
  proof (cases "b = 0")
    case False
    have "drop_bit 1 b = 0 \<longleftrightarrow> unat b div 2 = 0" by (simp only: word_unat_eq_iff byte_half) simp
    with 1 [OF False] False byte_bits_step [OF False] show ?thesis
      by (auto simp: word_unat_eq_iff)
  qed (simp add: byte_bits.simps)
qed

lemma half_power: "(\<exists>k. (u :: nat) = 2 ^ k) \<longleftrightarrow> u = 1 \<or> (u mod 2 = 0 \<and> (\<exists>k. u div 2 = 2 ^ k))"
proof
  assume "\<exists>k. u = 2 ^ k"
  then obtain k where "u = 2 ^ k" by blast
  then show "u = 1 \<or> (u mod 2 = 0 \<and> (\<exists>k. u div 2 = 2 ^ k))" by (cases k) auto
next
  assume "u = 1 \<or> (u mod 2 = 0 \<and> (\<exists>k. u div 2 = 2 ^ k))"
  then show "\<exists>k. u = 2 ^ k"
  proof
    assume "u mod 2 = 0 \<and> (\<exists>k. u div 2 = 2 ^ k)"
    then obtain k where "u = 2 ^ Suc k" by (metis dvd_mult_div_cancel mod_0_imp_dvd power_Suc)
    then show ?thesis by blast
  qed (auto intro: exI [of _ 0])
qed

lemma byte_bits_one: "byte_bits b = 1 \<longleftrightarrow> (\<exists>k. unat b = 2 ^ k)"
proof (induction b rule: byte_bits.induct)
  case (1 b)
  show ?case
  proof (cases "b = 0")
    case False
    have d: "drop_bit 1 b = 0 \<longleftrightarrow> unat b div 2 = 0" by (simp only: word_unat_eq_iff byte_half) simp
    show ?thesis
    proof (cases "unat b mod 2 = 0")
      case True
      then have "byte_bits b = byte_bits (drop_bit 1 b)" using byte_bits_step [OF False] by simp
      then have "byte_bits b = 1 \<longleftrightarrow> (\<exists>k. unat b div 2 = 2 ^ k)" using 1 [OF False] by (simp only: byte_half)
      with True show ?thesis by (subst half_power) auto
    next
      case odd: False
      with byte_bits_step [OF False] byte_bits_zero [of "drop_bit 1 b"] d show ?thesis
        by (subst half_power) auto
    qed
  qed (simp add: byte_bits.simps)
qed

lemma set_bits_sum: "set_bits n d = 1 \<longleftrightarrow> n + sum_list (map byte_bits d) = 1"
  by (induction n d rule: set_bits.induct) auto

lemma power_split:
  assumes "v < 2 ^ n"
  shows "(\<exists>k. a * 2 ^ n + v = (2 :: nat) ^ k) \<longleftrightarrow> (a = 0 \<and> (\<exists>k. v = 2 ^ k)) \<or> (v = 0 \<and> (\<exists>k. a = 2 ^ k))"
proof
  assume "\<exists>k. a * 2 ^ n + v = (2 :: nat) ^ k"
  then obtain k where k: "a * 2 ^ n + v = 2 ^ k" by blast
  show "(a = 0 \<and> (\<exists>k. v = 2 ^ k)) \<or> (v = 0 \<and> (\<exists>k. a = 2 ^ k))"
  proof (cases "a = 0")
    case False
    then have "1 * 2 ^ n \<le> a * 2 ^ n" by (intro mult_right_mono) simp_all
    then have "(2 :: nat) ^ n \<le> 2 ^ k" using k by linarith
    then have "n \<le> k" by simp
    then have e: "(2 :: nat) ^ k = 2 ^ (k - n) * 2 ^ n" by (simp flip: power_add)
    have "v = (a * 2 ^ n + v) mod 2 ^ n" using assms by simp
    also have "\<dots> = 0" unfolding k e by simp
    finally have "v = 0" .
    with k e have "a = 2 ^ (k - n)" by simp
    with \<open>v = 0\<close> show ?thesis by blast
  qed (use k in auto)
next
  assume "(a = 0 \<and> (\<exists>k. v = 2 ^ k)) \<or> (v = 0 \<and> (\<exists>k. a = 2 ^ k))"
  then show "\<exists>k. a * 2 ^ n + v = 2 ^ k" by (auto simp flip: power_add)
qed

lemma all_zero: "sum_list (map byte_bits d) = 0 \<longleftrightarrow> be_nat d = 0"
  by (induction d) (auto simp: byte_bits_zero word_unat_eq_iff)

lemma one_bit: "sum_list (map byte_bits d) = 1 \<longleftrightarrow> (\<exists>k. be_nat d = 2 ^ k)"
proof (induction d)
  case (Cons b bs)
  have one: "x + y = 1 \<longleftrightarrow> (x = 0 \<and> y = 1) \<or> (y = 0 \<and> x = 1)" for x y :: nat by linarith
  have "sum_list (map byte_bits (b # bs)) = 1 \<longleftrightarrow>
      (byte_bits b = 0 \<and> sum_list (map byte_bits bs) = 1) \<or> (sum_list (map byte_bits bs) = 0 \<and> byte_bits b = 1)"
    by (simp only: list.map sum_list.Cons one)
  also have "\<dots> \<longleftrightarrow> (\<exists>k. be_nat (b # bs) = 2 ^ k)"
    unfolding Cons.IH all_zero byte_bits_one byte_bits_zero
    using power_split [of "be_nat bs" "8 * length bs" "unat b"] be_nat_less [of bs]
    by (simp add: pow256 word_unat_eq_iff)
  finally show ?case .
qed simp

lemma digest_valid_iff:
  assumes "length d = 32" "1 \<le> k" "k \<le> 256"
  shows "digest_valid d k \<longleftrightarrow> be_nat d \<le> 2 ^ (256 - k)"
proof -
  let ?z = "digest_value d" and ?v = "be_nat d"
  note b = digest_value_bounds [of d]
  consider (zero) "?v = 0" | (enough) "?v \<noteq> 0" "k \<le> ?z" | (edge) "?v \<noteq> 0" "?z = k - 1" | (low) "?v \<noteq> 0" "?z + 1 < k"
    using assms(2) by linarith
  then show ?thesis
  proof cases
    case zero
    then show ?thesis using b assms by (simp add: digest_valid_def)
  next
    case enough
    have "(2 :: nat) ^ (256 - ?z) \<le> 2 ^ (256 - k)" using enough assms by (intro power_increasing) simp_all
    moreover have "?v < 2 ^ (256 - ?z)" using b enough assms by simp
    ultimately have "?v \<le> 2 ^ (256 - k)" by linarith
    with enough assms show ?thesis by (simp add: digest_valid_def)
  next
    case edge
    have p: "2 ^ (256 - k) \<le> ?v" "?v < 2 ^ (257 - k)"
      using b edge assms by (simp_all add: Suc_diff_le)
    have "(\<exists>j. ?v = 2 ^ j) \<longleftrightarrow> ?v = 2 ^ (256 - k)"
    proof
      assume "\<exists>j. ?v = 2 ^ j"
      then obtain j where j: "?v = 2 ^ j" by blast
      then have "256 - k \<le> j" "j < 257 - k" using p by simp_all
      then have "j = 256 - k" using assms by linarith
      with j show "?v = 2 ^ (256 - k)" by simp
    qed blast
    then have "set_bits 0 d = 1 \<longleftrightarrow> ?v = 2 ^ (256 - k)" using set_bits_sum [of 0 d] one_bit [of d] by simp
    with edge p assms show ?thesis by (auto simp: digest_valid_def)
  next
    case low
    then have "(2 :: nat) ^ (256 - k) < 2 ^ (255 - ?z)" using assms by (intro power_strict_increasing) simp_all
    moreover have "2 ^ (255 - ?z) \<le> ?v" using b low assms by simp
    ultimately have "\<not> ?v \<le> 2 ^ (256 - k)" by linarith
    moreover have "digest_value d \<noteq> k - 1" using low(2) by linarith
    ultimately show ?thesis using low assms by (simp add: digest_valid_def)
  qed
qed

section \<open>The workblock is the reference one\<close>

definition reference_workblock :: "crypto \<Rightarrow> bytes \<Rightarrow> nat \<Rightarrow> nat \<Rightarrow> bytes" where
  "reference_workblock C material rs len =
    concat (map (\<lambda>n. hkdf C len material (sha256 C (material @ pack_int 4 (int n)))) [0..<rs])"

lemma expand_reference:
  assumes "\<And>m s l. length (hkdf C l m s) = l" "\<And>i. \<not> ab i"
  shows "expand_rounds C material len ab k n =
    Some (concat (map (\<lambda>i. hkdf C len material (sha256 C (material @ pack_int 4 (int i)))) [n..<n + k]))"
proof (induction k arbitrary: n)
  case (Suc k)
  have "[n..<n + Suc k] = n # [Suc n..<Suc n + k]" by (simp add: upt_rec)
  with Suc [of "Suc n"] assms show ?case by (simp add: Let_def)
qed simp

lemma feed_pieces_all: "feed_pieces fed left = fed @ left"
proof (induction fed left rule: feed_pieces.induct)
  case (1 fed left)
  then show ?case by (subst feed_pieces.simps) simp
qed

section \<open>What the search finds\<close>

text \<open>A stamp found is a valid candidate.\<close>

definition sound_find :: "(bytes \<Rightarrow> bool) \<Rightarrow> bytes option \<Rightarrow> bool" where
  "sound_find ok r \<longleftrightarrow> (\<forall>st. r = Some st \<longrightarrow> ok st \<and> (\<exists>m. st = candidate m))"

lemma search_sound: "search ok ab k n = Some r \<Longrightarrow> sound_find ok r"
proof (rule search.raw_induct [where P = "\<lambda>ok ab k n r. sound_find ok r"])
  fix self :: "(bytes \<Rightarrow> bool) \<Rightarrow> (nat \<Rightarrow> bool) \<Rightarrow> nat \<Rightarrow> 64 word \<Rightarrow> bytes option option" and ok ab k n r
  assume "\<And>ok ab k n r. self ok ab k n = Some r \<Longrightarrow> sound_find ok r"
    "(if ok (candidate n) then Some (Some (candidate n))
      else if n + 1 AND 0xFF = 0 then (if ab k then Some None else self ok ab (k + 1) (n + 1))
      else self ok ab k (n + 1)) = Some r"
  moreover have "sound_find ok None" "ok (candidate n) \<Longrightarrow> sound_find ok (Some (candidate n))"
    by (auto simp: sound_find_def)
  ultimately show "sound_find ok r" by (auto split: if_splits)
qed

text \<open>Without an abort the search returns, with the first valid candidate.\<close>

lemma search_first:
  assumes "ok (candidate m)" "\<And>i. \<not> ab i" "n \<le> m" "\<And>j. n \<le> j \<Longrightarrow> j < m \<Longrightarrow> \<not> ok (candidate j)"
  shows "search ok ab k n = Some (Some (candidate m))"
  using assms(3,4)
proof (induction "unat m - unat n" arbitrary: n k)
  case 0
  then have "n = m" by (simp add: word_le_nat_alt word_unat_eq_iff)
  with assms(1) show ?case by (subst search.simps) simp
next
  case (Suc x)
  then have lt: "n < m" by (auto simp: word_less_nat_alt word_le_nat_alt)
  then have no: "\<not> ok (candidate n)" using Suc.prems(2) [of n] by simp
  have u: "unat (n + 1) = unat n + 1"
    using lt by unat_arith
  have le: "n + 1 \<le> m" "x = unat m - unat (n + 1)" using lt Suc.hyps(2) u by (simp_all add: word_le_nat_alt word_less_nat_alt)
  have "\<And>j. n + 1 \<le> j \<Longrightarrow> j < m \<Longrightarrow> \<not> ok (candidate j)"
    using Suc.prems(2) u by (simp add: word_le_nat_alt)
  note ih = Suc.hyps(1) [OF le(2) le(1) this]
  show ?case using no assms(2) ih by (subst search.simps) simp
qed

lemma candidate_length: "length (candidate n) = STAMP_SIZE"
  by (simp add: candidate_def STAMP_SIZE_def)

section \<open>The worker's invariant\<close>

text \<open>One job at a time: while the worker holds one nobody can queue another; the mailbox is bounded,
  its key is published once taken, the cache holds a whole stamp or none.\<close>

definition wf_worker :: "crypto \<Rightarrow> worker \<Rightarrow> bool" where
  "wf_worker C w \<longleftrightarrow> length (results w) \<le> RESULTS_MAX \<and> (is_busy w \<longleftrightarrow> running w \<noteq> None)
     \<and> (running w \<noteq> None \<longrightarrow> pending_job w = None)
     \<and> (\<forall>j ph. running w = Some (j, ph) \<longrightarrow> ph \<noteq> Taken \<longrightarrow> current_key w = material_of C j)"

interpretation mailbox: bounded_queue RESULTS_MAX "push_bounded RESULTS_MAX"
  by (unfold_locales; (rule push_bounded_len push_bounded_suffix)?; simp add: RESULTS_MAX_def)

lemma post_fields [simp]:
  "pending_job (post_result k r w) = pending_job w" "running (post_result k r w) = running w"
  "is_busy (post_result k r w) = is_busy w" "current_key (post_result k r w) = current_key w"
  "cache_key (post_result k r w) = cache_key w" "cache_stamp (post_result k r w) = cache_stamp w"
  by (simp_all add: post_result_def)

lemma post_results: "length (results w) \<le> RESULTS_MAX \<Longrightarrow> length (results (post_result k r w)) \<le> RESULTS_MAX"
  by (simp add: post_result_def mailbox.push_len)

lemma wf_post: "wf_worker C w \<Longrightarrow> wf_worker C (post_result k r w)"
  by (simp add: wf_worker_def post_results)

lemma take_first_length: "take_first k q = Some (q', r) \<Longrightarrow> length q' < length q"
  by (induction k q arbitrary: q' rule: take_first.induct) (auto split: if_splits)

lemma wf_submit: "wf_worker C w \<Longrightarrow> wf_worker C (fst (submit_job l j w))"
  by (auto simp: submit_job_def wf_worker_def)

lemma wf_cancel: "wf_worker C w \<Longrightarrow> wf_worker C (fst (cancel C l k w))"
  by (auto simp: cancel_def wf_worker_def Let_def post_results split: option.split)

lemma wf_results: "wf_worker C w \<Longrightarrow> length q \<le> length (results w) \<Longrightarrow> wf_worker C (w\<lparr>results := q\<rparr>)"
  by (simp add: wf_worker_def)

lemma wf_take: "wf_worker C w \<Longrightarrow> wf_worker C (fst (take_result_if l k w))"
proof (cases "take_first k (results w)")
  case (Some qr)
  assume w: "wf_worker C w"
  obtain q r where "qr = (q, r)" by fastforce
  with Some take_first_length [of k "results w" q r] wf_results [OF w, of q] w show ?thesis
    by (simp add: take_result_if_def)
qed (simp add: take_result_if_def)

lemma wf_done: "wf_worker C w \<Longrightarrow> running w = Some (j, Keyed) \<Longrightarrow> wf_worker C (w\<lparr>running := Some (j, Posted)\<rparr>)"
  by (simp add: wf_worker_def)

lemma wf_cache: "wf_worker C w \<Longrightarrow> wf_worker C (w\<lparr>cache_key := k, cache_stamp := st\<rparr>)"
  by (simp add: wf_worker_def)

lemma wf_compute:
  assumes "wf_worker C w" "running w = Some (j, Keyed)"
  shows "wf_worker C (fst (worker_compute C ab1 ab2 j w))"
proof (cases "kind j")
  case DiscoveryGenerate
  have "wf_worker C w' \<and> running w' = Some (j, Keyed)" if "run_discovery C j ab1 ab2 w = Some (w', out)" for w' out
    using that assms wf_cache [OF assms(1)] by (auto simp: run_discovery_def split: option.splits)
  with DiscoveryGenerate assms show ?thesis
    by (cases "run_discovery C j ab1 ab2 w") (auto simp: worker_compute_def intro: wf_done)
next
  case LxmfGenerate
  with assms show ?thesis
    by (cases "run_generate C j ab1 ab2") (simp_all add: worker_compute_def wf_done wf_post)
next
  case LxmfValue
  with assms show ?thesis by (simp add: worker_compute_def wf_done wf_post)
qed

lemma wf_stamp_step: "wf_worker C w \<Longrightarrow> wf_worker C (fst (stamp_step C w e))"
proof (cases e)
  case (SubmitDict l1 l2 dict k)
  then show "wf_worker C w \<Longrightarrow> ?thesis" by (simp add: submit_def wf_submit split_beta split: option.split)
next
  case WorkerTake
  then show "wf_worker C w \<Longrightarrow> ?thesis" by (auto simp: wf_worker_def split: option.split)
next
  case WorkerKey
  then show "wf_worker C w \<Longrightarrow> ?thesis" by (auto simp: wf_worker_def split: option.split phase.split)
next
  case (WorkerCompute ab1 ab2)
  then show "wf_worker C w \<Longrightarrow> ?thesis" by (auto simp: wf_compute split: option.split phase.split)
next
  case WorkerClear
  then show "wf_worker C w \<Longrightarrow> ?thesis" by (auto simp: wf_worker_def split: option.split phase.split)
qed (simp_all add: submit_lxmf_generate_def submit_lxmf_value_def wf_submit wf_cancel wf_take)

section \<open>No job is lost\<close>

definition outstanding :: "bytes \<Rightarrow> worker \<Rightarrow> bool" where
  "outstanding key w \<longleftrightarrow>
     (\<exists>j. (pending_job w = Some j \<or> (\<exists>ph. running w = Some (j, ph) \<and> ph \<noteq> Posted)) \<and> kind j \<noteq> DiscoveryGenerate \<and> input j = key)"

definition resolves :: "worker \<Rightarrow> worker \<Rightarrow> stamp_out list \<Rightarrow> bool" where
  "resolves w w' out \<longleftrightarrow> (\<forall>key. outstanding key w \<longrightarrow> outstanding key w' \<or> (\<exists>r. Posted_result key r \<in> set out))"

lemma resolves_same: "pending_job w' = pending_job w \<Longrightarrow> running w' = running w \<Longrightarrow> resolves w w' out"
  by (simp add: resolves_def outstanding_def)

lemma resolves_submit: "resolves w (fst (submit_job l j w)) out"
  by (auto simp: submit_job_def resolves_def outstanding_def)

lemma resolves_cancel: "resolves w (fst (cancel C l k w)) (snd (cancel C l k w))"
  by (auto simp: cancel_def Let_def resolves_def outstanding_def material_of_def split: option.split)

lemma resolves_compute:
  assumes "running w = Some (j, Keyed)" "wf_worker C w"
  shows "resolves w (fst (worker_compute C ab1 ab2 j w)) (snd (worker_compute C ab1 ab2 j w))"
proof -
  have "pending_job w = None" using assms by (simp add: wf_worker_def)
  then have o: "outstanding key w \<longleftrightarrow> kind j \<noteq> DiscoveryGenerate \<and> input j = key" for key
    using assms(1) by (auto simp: outstanding_def)
  show ?thesis
  proof (cases "kind j")
    case DiscoveryGenerate
    then show ?thesis by (simp add: resolves_def o)
  next
    case LxmfGenerate
    then show ?thesis
      by (cases "run_generate C j ab1 ab2") (auto simp: worker_compute_def resolves_def o material_of_def)
  next
    case LxmfValue
    then show ?thesis by (auto simp: worker_compute_def resolves_def o material_of_def)
  qed
qed

lemma resolves_step: "wf_worker C w \<Longrightarrow> resolves w (fst (stamp_step C w e)) (snd (stamp_step C w e))"
proof (cases e)
  case (SubmitDict l1 l2 dict k)
  then show ?thesis by (simp add: submit_def resolves_submit resolves_same split_beta split: option.split)
next
  case WorkerTake
  then show ?thesis by (auto simp: resolves_def outstanding_def split: option.split)
next
  case WorkerKey
  then show ?thesis by (auto simp: resolves_def outstanding_def split: option.split phase.split)
next
  case (WorkerCompute ab1 ab2)
  then show "wf_worker C w \<Longrightarrow> ?thesis"
    by (auto simp: resolves_compute resolves_same split: option.split phase.split)
next
  case WorkerClear
  then show ?thesis by (auto simp: resolves_def outstanding_def split: option.split phase.split)
qed (simp_all add: submit_lxmf_generate_def submit_lxmf_value_def resolves_submit resolves_cancel resolves_same
  take_result_if_def split: option.split)

interpretation stamp_jobs: traced "stamp_step C" "wf_worker C" "\<lambda>_ _. True" resolves
proof unfold_locales
  fix w1 w2 w3 a b
  show "resolves w1 w2 a \<Longrightarrow> resolves w2 w3 b \<Longrightarrow> resolves w1 w3 (a @ b)"
    unfolding resolves_def by (metis UnI1 UnI2 set_append)
qed (simp_all add: wf_stamp_step resolves_step resolves_same)

lemma be_nat_zeros [simp]: "be_nat (replicate n 0) = 0"
  by (induction n) simp_all

lemma be_nat_append: "be_nat (a @ b) = be_nat a * 256 ^ length b + be_nat b"
  by (induction a) (simp_all add: power_add algebra_simps)

section \<open>Properties\<close>

text \<open>The validity test on a 32-byte digest is the reference one, the digest read as a
  number is at most \<open>1 << (256 - cost)\<close>, the equality included.\<close>
theorem digest_valid_reference:
  assumes "length d = 32" "k \<le> 256"
  shows "digest_valid d k \<longleftrightarrow> be_nat d \<le> 2 ^ (256 - k)"
proof (cases "k = 0")
  case True
  have "be_nat d < 2 ^ 256" using be_nat_less [of d] assms(1) by (simp add: pow256)
  with True show ?thesis by (simp add: digest_valid_def)
next
  case False
  with digest_valid_iff [of d k] assms show ?thesis by simp
qed

theorem digest_valid_reference_witness:
  "digest_valid (0 # 4 # replicate 30 0) 14 \<and> \<not> digest_valid (0 # 4 # replicate 29 0 @ [1]) 14"
  using digest_valid_reference [of "0 # 4 # replicate 30 0" 14] digest_valid_reference [of "0 # 4 # replicate 29 0 @ [1]" 14]
  by (simp add: be_nat_append)

definition idle :: "worker \<Rightarrow> bool" where
  "idle w \<longleftrightarrow> running w = None \<and> pending_job w = None \<and> \<not> is_busy w \<and> length (results w) < RESULTS_MAX"

lemma idle_wf: "idle w \<Longrightarrow> wf_worker C w"
  by (simp add: idle_def wf_worker_def)

lemma idle_submit:
  assumes "idle w"
  shows "submit_job True j w = (w\<lparr>pending_job := Some j\<rparr>, True)"
  using assms by (simp add: submit_job_def idle_def)

text \<open>The job of an accepted submission.\<close>

lemma submit_outstanding:
  "submit_job l j w = (w', True) \<Longrightarrow> kind j \<noteq> DiscoveryGenerate \<Longrightarrow> outstanding (input j) w'"
  by (auto simp: submit_job_def outstanding_def split: if_splits)

text \<open>C22. A stamp job the worker accepted is never lost: after any run of submissions, cancellations,
  polls and worker steps it is still queued or running, or its result was posted.\<close>
theorem jobs_resolve:
  assumes "wf_worker C w" "submit_lxmf_generate l mid k w = (w', True) \<or> submit_lxmf_value l mid st k w = (w', True)"
  shows "outstanding mid (fst (run (stamp_step C) es w')) \<or> (\<exists>r. Posted_result mid r \<in> set (snd (run (stamp_step C) es w')))"
proof -
  have "wf_worker C w'" using assms wf_submit by (metis fst_conv submit_lxmf_generate_def submit_lxmf_value_def)
  moreover have "run_ok (\<lambda>_ _. True) (stamp_step C) es w'" for es w' by (induction es arbitrary: w') (simp_all add: split_beta)
  ultimately have "resolves w' (fst (run (stamp_step C) es w')) (snd (run (stamp_step C) es w'))"
    by (rule stamp_jobs.run_rel)
  moreover have "outstanding mid w'"
    using assms(2) submit_outstanding by (fastforce simp: submit_lxmf_generate_def submit_lxmf_value_def)
  ultimately show ?thesis by (simp add: resolves_def)
qed

definition sample_crypto :: crypto where
  "sample_crypto = \<lparr>sha256 = \<lambda>x. replicate 31 0 @ [2], hkdf = \<lambda>l m s. replicate l 7, alloc_ok = True\<rparr>"

definition fresh_worker :: worker where
  "fresh_worker = \<lparr>pending_job = None, running = None, is_busy = False, current_key = [], cancel_flag = False,
     cache_key = [], cache_stamp = [], results = []\<rparr>"

lemma fresh_idle: "idle fresh_worker"
  by (simp add: idle_def fresh_worker_def RESULTS_MAX_def)

theorem jobs_resolve_witness:
  "let w' = fst (submit_lxmf_generate True [1] 9 fresh_worker); es = [WorkerTake, SubmitValue True [2] [3] 4] in
    outstanding [1] (fst (run (stamp_step sample_crypto) es w')) \<or>
    (\<exists>r. Posted_result [1] r \<in> set (snd (run (stamp_step sample_crypto) es w')))"
  unfolding Let_def by (rule jobs_resolve [OF idle_wf [OF fresh_idle], where l = True and mid = "[1]" and k = 9 and st = "[]"])
    (simp add: submit_lxmf_generate_def idle_submit [OF fresh_idle])

text \<open>C21. Without an abort the generation of a delivery stamp ends and posts the least candidate whose
  digest over the reference workblock is at most the target, with its score.\<close>
theorem stamp_generated:
  assumes "\<And>m s l. length (hkdf C l m s) = l" "\<And>x. length (sha256 C x) = 32" "alloc_ok C" "idle w" "k \<le> 256"
    and m: "be_nat (sha256 C (reference_workblock C mid 3000 256 @ candidate m)) \<le> 2 ^ (256 - k)"
    and least: "\<And>i. i < m \<Longrightarrow> be_nat (sha256 C (reference_workblock C mid 3000 256 @ candidate i)) > 2 ^ (256 - k)"
  shows "snd (run (stamp_step C) [SubmitGenerate True mid k, WorkerTake, WorkerKey, WorkerCompute (\<lambda>_. False) (\<lambda>_. False), WorkerClear] w) =
    [Posted_result mid \<lparr>jr_stamp = candidate m,
       jr_value = digest_value (sha256 C (reference_workblock C mid 3000 256 @ candidate m)), jr_valid = True, jr_ok = True\<rparr>]"
proof -
  let ?wb = "reference_workblock C mid 3000 256"
  let ?j = "\<lparr>kind = LxmfGenerate, input = mid, job_stamp = [], job_cost = k, rounds = 3000, hkdf_len = 256\<rparr>"
  have b: "build_workblock C mid 3000 256 (\<lambda>_. False) = Some ?wb"
    using assms(1,3) by (simp add: build_workblock_def expand_reference reference_workblock_def)
  have "length ?wb = 768000" using assms(1) by (simp add: reference_workblock_def length_concat comp_def sum_list_triv)
  then have ne: "?wb \<noteq> []" by auto
  have "search (\<lambda>st. digest_valid (sha256 C (?wb @ st)) k) (\<lambda>_. False) 0 0 = Some (Some (candidate m))"
    using m least assms(2,5) by (intro search_first) (simp_all add: digest_valid_reference not_le)
  then have g: "run_generate C ?j (\<lambda>_. False) (\<lambda>_. False) = Some (Some (candidate m, digest_value (sha256 C (?wb @ candidate m))))"
    using b ne by (simp add: run_generate_def material_of_def generate_search_def feed_pieces_all)
  show ?thesis using assms(4) g
    by (simp add: submit_lxmf_generate_def idle_submit LXMF_WORKBLOCK_EXPAND_ROUNDS_def LXMF_HKDF_LEN_def
      worker_compute_def material_of_def generate_result_def idle_def)
qed

theorem stamp_generated_witness:
  "snd (run (stamp_step sample_crypto) [SubmitGenerate True [5] 13, WorkerTake, WorkerKey, WorkerCompute (\<lambda>_. False) (\<lambda>_. False), WorkerClear] fresh_worker) =
    [Posted_result [5] \<lparr>jr_stamp = candidate 0,
       jr_value = digest_value (sha256 sample_crypto (reference_workblock sample_crypto [5] 3000 256 @ candidate 0)), jr_valid = True, jr_ok = True\<rparr>]"
  by (rule stamp_generated) (simp_all add: sample_crypto_def fresh_idle be_nat_append)

text \<open>A cancel that falls between the worker taking a job and publishing its key has no effect:
  nothing is posted, and the flag is clear when the search begins.\<close>
theorem cancel_lost:
  assumes "idle w"
  shows "case run (stamp_step C) [SubmitGenerate True mid k, WorkerTake, Cancel True mid, WorkerKey] w of
    (w', out) \<Rightarrow> out = [] \<and> \<not> cancel_flag w' \<and> outstanding mid w' \<and> current_key w' = mid"
  using assms by (simp add: submit_lxmf_generate_def idle_submit cancel_def idle_def outstanding_def material_of_def)

theorem cancel_lost_witness:
  "case run (stamp_step sample_crypto) [SubmitGenerate True [5] 13, WorkerTake, Cancel True [5], WorkerKey] fresh_worker of
    (w', out) \<Rightarrow> out = [] \<and> \<not> cancel_flag w' \<and> outstanding [5] w' \<and> current_key w' = [5]"
  by (rule cancel_lost [OF fresh_idle])

text \<open>A stamp that was found is a whole one.\<close>

lemma found_length: "run_generate C j ab1 ab2 = Some (Some (st, v)) \<Longrightarrow> length st = STAMP_SIZE"
  by (auto simp: run_generate_def generate_search_def Let_def sound_find_def candidate_length
    dest!: search_sound split: option.splits if_splits)

text \<open>The discovery cache is keyed by the announced dictionary alone: once a stamp was found at one
  cost, a resubmission at any other cost is answered with the same stamp.\<close>
theorem cached_stamp_ignores_cost:
  assumes "idle w" "cached C (sha256 C dict) w = None"
    and found: "run_generate C \<lparr>kind = DiscoveryGenerate, input = dict, job_stamp = [], job_cost = k,
      rounds = WORKBLOCK_EXPAND_ROUNDS, hkdf_len = HKDF_LEN_DISCOVERY\<rparr> ab1 ab2 = Some (Some (st, v))"
  shows "snd (run (stamp_step C) [SubmitDict True True dict k, WorkerTake, WorkerKey, WorkerCompute ab1 ab2, WorkerClear,
    SubmitDict True True dict k'] w) = [Done_cb st, Done_cb st]"
  using assms(1,2) found found_length [OF found]
  by (auto simp: submit_def idle_submit idle_def cached_def worker_compute_def run_discovery_def material_of_def
    submit_job_def split: if_splits)

theorem cached_stamp_ignores_cost_witness:
  "snd (run (stamp_step sample_crypto) [SubmitDict True True [9] 14, WorkerTake, WorkerKey,
      WorkerCompute (\<lambda>_. False) (\<lambda>_. False), WorkerClear, SubmitDict True True [9] 256] fresh_worker) =
    [Done_cb (candidate 0), Done_cb (candidate 0)] \<and>
   \<not> stamp_ok sample_crypto (candidate 0) 256 (reference_workblock sample_crypto (sha256 sample_crypto [9]) 20 32)"
proof -
  have d: "digest_valid (sha256 sample_crypto x) 14" "\<not> digest_valid (sha256 sample_crypto x) 256" for x
    using digest_valid_reference [of "sha256 sample_crypto x"] by (simp_all add: sample_crypto_def be_nat_append)
  have "build_workblock sample_crypto m 20 32 (\<lambda>_. False) = Some (reference_workblock sample_crypto m 20 32)" for m
    by (simp add: build_workblock_def sample_crypto_def expand_reference reference_workblock_def)
  moreover have "length (reference_workblock sample_crypto m 20 32) = 640" for m
    by (simp add: reference_workblock_def sample_crypto_def length_concat comp_def sum_list_triv)
  then have "reference_workblock sample_crypto m 20 32 \<noteq> []" for m by (metis list.size(3) zero_neq_numeral)
  moreover have "search (\<lambda>st. digest_valid (sha256 sample_crypto (x @ st)) 14) (\<lambda>_. False) 0 0 = Some (Some (candidate 0))" for x
    using d by (subst search.simps) simp
  ultimately have "\<exists>v. run_generate sample_crypto \<lparr>kind = DiscoveryGenerate, input = [9], job_stamp = [], job_cost = 14,
      rounds = WORKBLOCK_EXPAND_ROUNDS, hkdf_len = HKDF_LEN_DISCOVERY\<rparr> (\<lambda>_. False) (\<lambda>_. False) = Some (Some (candidate 0, v))"
    by (simp add: run_generate_def generate_search_def WORKBLOCK_EXPAND_ROUNDS_def HKDF_LEN_DISCOVERY_def feed_pieces_all)
  moreover have "cached sample_crypto (sha256 sample_crypto [9]) fresh_worker = None"
    by (simp add: cached_def fresh_worker_def STAMP_SIZE_def)
  ultimately show ?thesis
    using cached_stamp_ignores_cost [OF fresh_idle] d by (auto simp: stamp_ok_def hash_workblock_stamp_def)
qed

end
