(* ===== verification/LxmfInbound.thy ===== *)
theory LxmfInbound
  imports LxmfSendProps Stamp
begin

text \<open>
  The receiving side of \<open>src/src/LXMF/LXMFMinimal.h\<close>: the dispatch of packets, in-link packets
  and concluded resources to the instance of a destination, the common path through parser,
  duplicate check, signature and stamp policy, the queue of messages waiting for the
  background worker of \<open>Stamp\<close>, and the record handed to the delivery callback.

  An \<open>LXMFMinimal*\<close> is the number of its slot in the gateway's static array. What the RNS
  library, the clock and the storage answer are fields of \<open>rx_world\<close>. A C++ exception that
  leaves a handler is its last output; the callbacks of the user interface are outputs.
\<close>

section \<open>State\<close>

definition DELIVERED_DEDUP_MAX :: nat where "DELIVERED_DEDUP_MAX = 128"
definition PENDING_VALIDATION_MAX :: nat where "PENDING_VALIDATION_MAX = 8"
definition LXMF_MAX_ATTACHMENTS :: nat where "LXMF_MAX_ATTACHMENTS = 10"

record receiver =
  rx_hash :: hash
  rx_ready :: bool                 \<comment> \<open>\<open>_initialized\<close>\<close>
  rx_cost :: nat
  rx_enforce :: bool
  seen :: "hash list"              \<comment> \<open>\<open>_delivered_hashes\<close>\<close>
  rx_listens :: bool               \<comment> \<open>\<open>_on_delivery\<close> is set\<close>
  rx_reports :: bool               \<comment> \<open>\<open>_on_receive_complete\<close> is set\<close>

record parked =
  pv_owner :: nat
  pv_wire :: bytes
  pv_packet :: hash
  pv_prefix :: bool
  pv_sig :: bool
  pv_mid :: hash
  pv_stamp :: bytes
  pv_cost :: nat
  pv_submitted :: bool

record inbound =
  slots :: "nat \<Rightarrow> receiver"
  registry :: "hash \<Rightarrow> nat option"
  parked_q :: "parked list"
  rx_clk :: clock
  pow :: worker

record rx_world =
  rx_depth :: nat                          \<comment> \<open>stack for nested elements\<close>
  rx_now :: nat
  rx_ub :: int                             \<comment> \<open>an undefined cast\<close>
  rx_double :: "64 word \<Rightarrow> double"
  rx_full_hash :: "bytes \<Rightarrow> hash"
  rx_recall :: "hash \<Rightarrow> (bytes \<Rightarrow> bytes \<Rightarrow> bool) option"   \<comment> \<open>a known sender's \<open>validate\<close>\<close>
  rx_epoch :: nat
  rx_persist :: "nat \<Rightarrow> (bytes \<Rightarrow> hash \<Rightarrow> blob list \<Rightarrow> attachment_meta list) option"
  rx_crypto :: crypto

datatype rx_out =
    Proved hash
  | Received nat message_record
  | ReceiveComplete nat hash nat bool
  | RxClock clock_call
  | Pow_out stamp_out
  | Threw exc

section \<open>Duplicates\<close>

definition remember :: "'a \<Rightarrow> 'a list \<Rightarrow> 'a list" where
  "remember h q = (let q' = q @ [h] in if length q' > DELIVERED_DEDUP_MAX then tl q' else q')"

definition seen_delivery :: "hash \<Rightarrow> receiver \<Rightarrow> receiver \<times> bool" where
  "seen_delivery h r = (if h \<in> set (seen r) then (r, True) else (r\<lparr>seen := remember h (seen r)\<rparr>, False))"

definition calibrate_time :: "rx_world \<Rightarrow> double \<Rightarrow> inbound \<Rightarrow> inbound \<times> rx_out list" where
  "calibrate_time W ts s =
    (case report_time (rx_ub W) (rx_now W) RNS ts (rx_clk s) of (c, calls, _) \<Rightarrow> (s\<lparr>rx_clk := c\<rparr>, map RxClock calls))"

section \<open>The record\<close>

text \<open>\<open>source_hash || signature || payload\<close> of a wire, \<open>None\<close> when it is too short.\<close>

definition lxmf_body :: "bool \<Rightarrow> bytes \<Rightarrow> bytes option" where
  "lxmf_body prefix w =
    (if prefix \<and> length w < HASH_LEN then None
     else let raw = (if prefix then drop HASH_LEN w else w) in
       if length raw < HEADER_LEN + 5 then None else Some raw)"

definition persist_attachments :: "rx_world \<Rightarrow> nat \<Rightarrow> bytes \<Rightarrow> hash \<Rightarrow> blob list \<Rightarrow> attachment_meta list" where
  "persist_attachments W i p h fs =
    (if fs = [] then []
     else let capped = take LXMF_MAX_ATTACHMENTS fs in
       case rx_persist W i of
         None \<Rightarrow> map (\<lambda>f. blank_meta\<lparr>m_tag := b_tag f, m_size := wrap32 (b_len f)\<rparr>) capped
       | Some cb \<Rightarrow> cb p h capped)"

definition inbox_record :: "rx_world \<Rightarrow> nat \<Rightarrow> hash \<Rightarrow> bytes \<Rightarrow> hash \<Rightarrow> bool \<Rightarrow> bool \<Rightarrow> bool \<Rightarrow> int \<Rightarrow> parsed \<Rightarrow> message_record" where
  "inbox_record W i src p ph sig chk ok val m =
    \<lparr>rec_seq = 0, rec_ts = (case p_ts m of None \<Rightarrow> 0 | Some t \<Rightarrow> t), boot_epoch = rx_epoch W,
     received_ms = rx_now W, peer_hash = src, title = p_title m, content = p_content m,
     body_size = 0, incoming = True, signature_ok = sig, rec_status = Delivered, packet_hash = ph,
     has_telemetry = (p_telemetry m \<noteq> []),
     rec_telemetry = (if length (p_telemetry m) \<le> MAX_TELEMETRY_BLOB then p_telemetry m else []),
     rec_commands = p_commands m, rec_meta = p_meta m,
     stamp_checked = chk, stamp_valid = ok, stamp_value = val,
     attachments = persist_attachments W i p ph (p_fields m)\<rparr>"

definition complete_delivery :: "rx_world \<Rightarrow> nat \<Rightarrow> bytes \<Rightarrow> hash \<Rightarrow> bool \<Rightarrow> bool \<Rightarrow> bool \<Rightarrow> bool \<Rightarrow> int \<Rightarrow> inbound \<Rightarrow> rx_out list" where
  "complete_delivery W i w ph prefix sig chk ok val s =
    (case lxmf_body prefix w of
       None \<Rightarrow> []
     | Some raw \<Rightarrow>
         let p = drop HEADER_LEN raw in
         case parse_lxmf_payload (rx_depth W) True p of
           Inl e \<Rightarrow> [Threw e]
         | Inr None \<Rightarrow> []
         | Inr (Some m) \<Rightarrow>
             if rx_listens (slots s i) then [Received i (inbox_record W i (take HASH_LEN raw) p ph sig chk ok val m)]
             else [])"

section \<open>The common path\<close>

text \<open>The stamp policy, for a message that is not a duplicate.\<close>

definition stamp_policy :: "rx_world \<Rightarrow> nat \<Rightarrow> bytes \<Rightarrow> hash \<Rightarrow> bool \<Rightarrow> bool \<Rightarrow> hash \<Rightarrow> bytes \<Rightarrow> inbound \<Rightarrow> inbound \<times> rx_out list" where
  "stamp_policy W i w ph prefix sig mid st s =
    (let r = slots s i in
     if rx_cost r \<ge> 1 then
       (if st = [] then
          (if rx_enforce r then (s, [])
           else (s, complete_delivery W i w ph prefix sig True False (- 1) s))
        else if length (parked_q s) \<ge> PENDING_VALIDATION_MAX then
          (if rx_enforce r then (s, [])
           else (s, complete_delivery W i w ph prefix sig False False (- 1) s))
        else (s\<lparr>parked_q := parked_q s @ [\<lparr>pv_owner = i, pv_wire = w, pv_packet = ph, pv_prefix = prefix, pv_sig = sig,
             pv_mid = mid, pv_stamp = st, pv_cost = rx_cost r, pv_submitted = False\<rparr>]\<rparr>, []))
     else (s, complete_delivery W i w ph prefix sig False False (- 1) s))"

text \<open>The bytes the message hash covers.\<close>

definition rx_hashed :: "hash \<Rightarrow> bytes \<Rightarrow> bytes \<Rightarrow> split \<Rightarrow> bytes" where
  "rx_hashed d raw p sp = take HASH_LEN d @ take HASH_LEN raw @ hash_core p sp"

definition check_signature :: "rx_world \<Rightarrow> bytes \<Rightarrow> bytes \<Rightarrow> hash \<Rightarrow> bool" where
  "check_signature W raw hp mid =
    (case rx_recall W (take HASH_LEN raw) of
       None \<Rightarrow> False
     | Some validate \<Rightarrow> validate (take SIG_LEN (drop HASH_LEN raw)) (hp @ mid))"

text \<open>A well-formed message: its id, the duplicate check, the signature, the policy.\<close>

definition admit :: "rx_world \<Rightarrow> nat \<Rightarrow> bytes \<Rightarrow> hash \<Rightarrow> bool \<Rightarrow> bytes \<Rightarrow> split \<Rightarrow> inbound \<Rightarrow> inbound \<times> rx_out list" where
  "admit W i w ph prefix raw sp s =
    (let hp = rx_hashed (rx_hash (slots s i)) raw (drop HEADER_LEN raw) sp; mid = rx_full_hash W hp
     in case seen_delivery mid (slots s i) of
          (r, dup) \<Rightarrow>
            if dup then (s, [])
            else stamp_policy W i w ph prefix (check_signature W raw hp mid) mid (stamp sp) (s\<lparr>slots := (slots s)(i := r)\<rparr>))"

definition deliver_lxmf_payload :: "rx_world \<Rightarrow> nat \<Rightarrow> bytes \<Rightarrow> hash \<Rightarrow> bool \<Rightarrow> inbound \<Rightarrow> inbound \<times> rx_out list" where
  "deliver_lxmf_payload W i w ph prefix s =
    (case lxmf_body prefix w of
       None \<Rightarrow> (s, [])
     | Some raw \<Rightarrow>
         let p = drop HEADER_LEN raw in
         (case parse_lxmf_payload (rx_depth W) False p of
            Inl e \<Rightarrow> (s, [Threw e])
          | Inr None \<Rightarrow> (s, [])
          | Inr (Some m) \<Rightarrow>
              let ts = (case p_ts m of None \<Rightarrow> Fin 0 | Some t \<Rightarrow> rx_double W t);
                  (s1, o1) = (if dless (Fin 0) ts then calibrate_time W ts s else (s, []))
              in (case split_payload_stamp (rx_depth W) p of
                    Inl e \<Rightarrow> (s1, o1 @ [Threw e])
                  | Inr None \<Rightarrow> (s1, o1)
                  | Inr (Some sp) \<Rightarrow> (case admit W i w ph prefix raw sp s1 of (s2, o2) \<Rightarrow> (s2, o1 @ o2)))))"

section \<open>The validation queue\<close>

text \<open>One pass over the front entry; the two booleans are whether the worker's mutex was free.\<close>

definition tick_stamp_validations :: "rx_world \<Rightarrow> bool \<Rightarrow> bool \<Rightarrow> inbound \<Rightarrow> inbound \<times> rx_out list" where
  "tick_stamp_validations W l1 l2 s =
    (case parked_q s of
       [] \<Rightarrow> (s, [])
     | f # q \<Rightarrow>
         if \<not> rx_ready (slots s (pv_owner f)) then (s\<lparr>parked_q := q\<rparr>, [])
         else if \<not> pv_submitted f then
           (case submit_lxmf_value l1 (pv_mid f) (pv_stamp f) (pv_cost f) (pow s) of
              (w, b) \<Rightarrow> (s\<lparr>pow := w, parked_q := f\<lparr>pv_submitted := b\<rparr> # q\<rparr>, []))
         else
           (case take_result_if l2 (pv_mid f) (pow s) of
              (w, None) \<Rightarrow> (s\<lparr>pow := w\<rparr>, [])
            | (w, Some r) \<Rightarrow>
                let s1 = s\<lparr>pow := w, parked_q := q\<rparr>; i = pv_owner f;
                    finish = complete_delivery W i (pv_wire f) (pv_packet f) (pv_prefix f) (pv_sig f)
                in if \<not> rx_ready (slots s1 i) then (s1, [])
                   else if \<not> jr_ok r then
                     (if rx_enforce (slots s1 i) then (s1, []) else (s1, finish False False (- 1) s1))
                   else if \<not> jr_valid r \<and> rx_enforce (slots s1 i) then (s1, [])
                   else (s1, finish True (jr_valid r) (if jr_valid r then int (jr_value r) else - 1) s1)))"

section \<open>Dispatch\<close>

definition on_packet :: "rx_world \<Rightarrow> nat \<Rightarrow> bytes \<Rightarrow> hash \<Rightarrow> inbound \<Rightarrow> inbound \<times> rx_out list" where
  "on_packet W i d ph s = (case deliver_lxmf_payload W i d ph False s of (s1, out) \<Rightarrow> (s1, Proved ph # out))"

definition static_packet_callback :: "rx_world \<Rightarrow> hash \<Rightarrow> bytes \<Rightarrow> hash \<Rightarrow> inbound \<Rightarrow> inbound \<times> rx_out list" where
  "static_packet_callback W d b ph s = (case registry s d of None \<Rightarrow> (s, []) | Some i \<Rightarrow> on_packet W i b ph s)"

text \<open>The destination of the packet's link, \<open>None\<close> when the packet has no link.\<close>

definition static_inbound_link_packet :: "rx_world \<Rightarrow> hash option \<Rightarrow> bytes \<Rightarrow> hash \<Rightarrow> inbound \<Rightarrow> inbound \<times> rx_out list" where
  "static_inbound_link_packet W lnk b ph s =
    (case lnk of
       None \<Rightarrow> (s, [])
     | Some d \<Rightarrow> (case registry s d of None \<Rightarrow> (s, []) | Some i \<Rightarrow> deliver_lxmf_payload W i b ph True s))"

definition static_inbound_resource_concluded ::
  "rx_world \<Rightarrow> hash \<Rightarrow> hash \<Rightarrow> bytes \<Rightarrow> hash \<Rightarrow> nat \<Rightarrow> bool \<Rightarrow> inbound \<Rightarrow> inbound \<times> rx_out list" where
  "static_inbound_resource_concluded W d l b rh sz ok s =
    (case registry s d of
       None \<Rightarrow> (s, [])
     | Some i \<Rightarrow>
         let o1 = (if rx_reports (slots s i) then [ReceiveComplete i l (wrap32 sz) ok] else []) in
         if \<not> ok then (s, o1)
         else (case deliver_lxmf_payload W i b rh True s of (s1, out) \<Rightarrow> (s1, o1 @ out)))"

section \<open>Instances\<close>

definition init_instance :: "nat \<Rightarrow> hash \<Rightarrow> inbound \<Rightarrow> inbound" where
  "init_instance i d s =
    s\<lparr>registry := (registry s)(d \<mapsto> i), slots := (slots s)(i := (slots s i)\<lparr>rx_hash := d, rx_ready := True\<rparr>)\<rparr>"

definition shutdown :: "nat \<Rightarrow> inbound \<Rightarrow> inbound" where
  "shutdown i s =
    (if \<not> rx_ready (slots s i) then s
     else s\<lparr>registry := (registry s)(rx_hash (slots s i) := None),
            slots := (slots s)(i := (slots s i)\<lparr>rx_ready := False\<rparr>)\<rparr>)"

definition set_policy :: "nat \<Rightarrow> nat \<Rightarrow> bool \<Rightarrow> inbound \<Rightarrow> inbound" where
  "set_policy i c on s =
    s\<lparr>slots := (slots s)(i := (slots s i)\<lparr>rx_cost := set_stamp_cost c, rx_enforce := on\<rparr>)\<rparr>"

datatype rx_event =
    PacketIn hash bytes hash
  | LinkPacketIn "hash option" bytes hash
  | ResourceIn hash hash bytes hash nat bool
  | TickStamps bool bool
  | PowStep stamp_event
  | InitInstance nat hash
  | ShutdownInstance nat
  | SetPolicy nat nat bool

fun rx_step :: "inbound \<Rightarrow> rx_world \<times> rx_event \<Rightarrow> inbound \<times> rx_out list" where
  "rx_step s (W, PacketIn d b ph) = static_packet_callback W d b ph s"
| "rx_step s (W, LinkPacketIn l b ph) = static_inbound_link_packet W l b ph s"
| "rx_step s (W, ResourceIn d l b rh sz ok) = static_inbound_resource_concluded W d l b rh sz ok s"
| "rx_step s (W, TickStamps l1 l2) = tick_stamp_validations W l1 l2 s"
| "rx_step s (W, PowStep e) = (case stamp_step (rx_crypto W) (pow s) e of (w, out) \<Rightarrow> (s\<lparr>pow := w\<rparr>, map Pow_out out))"
| "rx_step s (W, InitInstance i d) = (init_instance i d s, [])"
| "rx_step s (W, ShutdownInstance i) = (shutdown i s, [])"
| "rx_step s (W, SetPolicy i c on) = (set_policy i c on s, [])"

section \<open>Bounds\<close>

lemma remember_len: "length q \<le> DELIVERED_DEDUP_MAX \<Longrightarrow> length (remember h q) = min DELIVERED_DEDUP_MAX (Suc (length q))"
  by (auto simp: remember_def Let_def min_def)

lemma remember_suffix: "\<exists>k \<le> 1. remember h q = drop k (q @ [h])"
  by (cases q; intro exI [of _ "if length q < DELIVERED_DEDUP_MAX then 0 else 1"])
    (simp_all add: remember_def Let_def drop_Suc DELIVERED_DEDUP_MAX_def)

interpretation dedup: bounded_queue DELIVERED_DEDUP_MAX remember
  by (unfold_locales; (rule remember_len remember_suffix)?; simp add: DELIVERED_DEDUP_MAX_def)

text \<open>What an event does to the list of an instance: nothing, or one hash more.\<close>

definition extends :: "nat \<Rightarrow> inbound \<Rightarrow> inbound \<Rightarrow> bool" where
  "extends i s s' \<longleftrightarrow> seen (slots s' i) = seen (slots s i) \<or> (\<exists>h. seen (slots s' i) = remember h (seen (slots s i)))"

lemma extends_same: "slots s' = slots s \<Longrightarrow> extends i s s'"
  by (simp add: extends_def)

lemma calibrate_fields [simp]:
  "slots (fst (calibrate_time W ts s)) = slots s" "parked_q (fst (calibrate_time W ts s)) = parked_q s"
  "pow (fst (calibrate_time W ts s)) = pow s" "registry (fst (calibrate_time W ts s)) = registry s"
  by (simp_all add: calibrate_time_def split_beta)

lemma stamp_policy_fields [simp]:
  "slots (fst (stamp_policy W i w ph prefix sig mid st s)) = slots s"
  "pow (fst (stamp_policy W i w ph prefix sig mid st s)) = pow s"
  by (simp_all add: stamp_policy_def Let_def)

lemma stamp_policy_parked:
  "length (parked_q s) \<le> PENDING_VALIDATION_MAX \<Longrightarrow>
    length (parked_q (fst (stamp_policy W i w ph prefix sig mid st s))) \<le> PENDING_VALIDATION_MAX"
  by (simp add: stamp_policy_def Let_def)

lemma tick_fields [simp]: "slots (fst (tick_stamp_validations W l1 l2 s)) = slots s"
  by (simp add: tick_stamp_validations_def Let_def split_beta split: list.split option.split)

lemma admit_extends: "extends j s (fst (admit W i w ph prefix raw sp s))"
  by (auto simp: admit_def Let_def seen_delivery_def extends_def)

lemma admit_pow [simp]: "pow (fst (admit W i w ph prefix raw sp s)) = pow s"
  by (simp add: admit_def Let_def split_beta)

lemma admit_parked:
  "length (parked_q s) \<le> PENDING_VALIDATION_MAX \<Longrightarrow>
    length (parked_q (fst (admit W i w ph prefix raw sp s))) \<le> PENDING_VALIDATION_MAX"
  by (simp add: admit_def Let_def split_beta stamp_policy_parked)

text \<open>A delivery is an admission after a calibration, or less.\<close>

lemma deliver_induct:
  assumes "\<And>s1. slots s1 = slots s \<Longrightarrow> parked_q s1 = parked_q s \<Longrightarrow> pow s1 = pow s \<Longrightarrow> P s1"
    "\<And>s1 raw sp. slots s1 = slots s \<Longrightarrow> parked_q s1 = parked_q s \<Longrightarrow> pow s1 = pow s \<Longrightarrow> P (fst (admit W i w ph prefix raw sp s1))"
  shows "P (fst (deliver_lxmf_payload W i w ph prefix s))"
  using assms by (simp add: deliver_lxmf_payload_def Let_def split_beta split: option.split sum.split)

lemma deliver_extends: "extends j s (fst (deliver_lxmf_payload W i w ph prefix s))"
proof (rule deliver_induct)
  fix s1 :: inbound and raw sp assume "slots s1 = slots s"
  with admit_extends [of j s1] show "extends j s (fst (admit W i w ph prefix raw sp s1))" by (simp add: extends_def)
qed (simp add: extends_same)

lemma deliver_bounds:
  "length (parked_q s) \<le> PENDING_VALIDATION_MAX \<Longrightarrow>
    length (parked_q (fst (deliver_lxmf_payload W i w ph prefix s))) \<le> PENDING_VALIDATION_MAX"
  by (rule deliver_induct) (simp_all add: admit_parked)

lemma deliver_pow [simp]: "pow (fst (deliver_lxmf_payload W i w ph prefix s)) = pow s"
  by (rule deliver_induct) simp_all

lemma rx_extends: "extends j s (fst (rx_step s (W, e)))"
proof (cases e)
  case (PacketIn d b ph)
  then show ?thesis
    by (simp add: static_packet_callback_def on_packet_def split_beta deliver_extends extends_same split: option.split)
next
  case (LinkPacketIn l b ph)
  then show ?thesis by (simp add: static_inbound_link_packet_def deliver_extends extends_same split: option.split)
next
  case (ResourceIn d l b rh sz ok)
  then show ?thesis
    by (simp add: static_inbound_resource_concluded_def Let_def split_beta deliver_extends extends_same split: option.split)
qed (simp_all add: extends_def init_instance_def shutdown_def set_policy_def split_beta)

text \<open>The bounds of the receiving side.\<close>

definition rx_bounds :: "inbound \<Rightarrow> bool" where
  "rx_bounds s \<longleftrightarrow> length (parked_q s) \<le> PENDING_VALIDATION_MAX \<and> (\<forall>i. length (seen (slots s i)) \<le> DELIVERED_DEDUP_MAX)"

lemma extends_bound:
  "extends i s s' \<Longrightarrow> length (seen (slots s i)) \<le> DELIVERED_DEDUP_MAX \<Longrightarrow> length (seen (slots s' i)) \<le> DELIVERED_DEDUP_MAX"
  by (auto simp: extends_def dedup.push_len)

lemma tick_parked: "length (parked_q (fst (tick_stamp_validations W l1 l2 s))) \<le> length (parked_q s)"
  by (simp add: tick_stamp_validations_def Let_def split_beta split: list.split option.split)

lemma parked_step:
  assumes "length (parked_q s) \<le> PENDING_VALIDATION_MAX"
  shows "length (parked_q (fst (rx_step s (W, e)))) \<le> PENDING_VALIDATION_MAX"
proof (cases e)
  case (TickStamps l1 l2)
  with assms tick_parked [of W l1 l2 s] show ?thesis by simp
qed (simp_all add: assms deliver_bounds static_packet_callback_def on_packet_def static_inbound_link_packet_def
  static_inbound_resource_concluded_def init_instance_def shutdown_def set_policy_def split_beta Let_def split: option.split)

interpretation inbound_machine: machine rx_step rx_bounds
proof unfold_locales
  fix s and e :: "rx_world \<times> rx_event"
  assume "rx_bounds s"
  then show "rx_bounds (fst (rx_step s e))"
    using parked_step extends_bound rx_extends unfolding rx_bounds_def by (cases e) blast
qed

section \<open>Duplicates\<close>

text \<open>The id an instance with the destination \<open>d\<close> computes for a message body.\<close>

definition rx_id :: "rx_world \<Rightarrow> hash \<Rightarrow> bytes \<Rightarrow> hash option" where
  "rx_id W d raw =
    (let p = drop HEADER_LEN raw in
     case parse_lxmf_payload (rx_depth W) False p of
       Inr (Some m) \<Rightarrow> (case split_payload_stamp (rx_depth W) p of
           Inr (Some sp) \<Rightarrow> Some (rx_full_hash W (rx_hashed d raw p sp)) | _ \<Rightarrow> None)
     | _ \<Rightarrow> None)"

definition quiet :: "rx_out list \<Rightarrow> bool" where
  "quiet out \<longleftrightarrow> (\<forall>i r. Received i r \<notin> set out)"

lemma quiet_simps [simp]: "quiet []" "quiet (Proved h # out) = quiet out" "quiet (map RxClock cs)"
    "quiet (a @ b) \<longleftrightarrow> quiet a \<and> quiet b" "quiet (ReceiveComplete i l n ok # out) = quiet out" "quiet (Threw e # out) = quiet out"
    "quiet (map Pow_out ps)"
  by (auto simp: quiet_def)

lemma quiet_calibrate [simp]: "quiet (snd (calibrate_time W ts s))"
  by (simp add: calibrate_time_def split_beta)

text \<open>The case of a message with an id.\<close>

lemma deliver_id:
  assumes "lxmf_body prefix w = Some raw" "rx_id W (rx_hash (slots s i)) raw = Some mid"
  obtains s1 o1 m sp where "slots s1 = slots s" "parked_q s1 = parked_q s" "pow s1 = pow s" "registry s1 = registry s" "quiet o1"
    "parse_lxmf_payload (rx_depth W) False (drop HEADER_LEN raw) = Inr (Some m)"
    "split_payload_stamp (rx_depth W) (drop HEADER_LEN raw) = Inr (Some sp)"
    "mid = rx_full_hash W (rx_hashed (rx_hash (slots s i)) raw (drop HEADER_LEN raw) sp)"
    "deliver_lxmf_payload W i w ph prefix s = (case admit W i w ph prefix raw sp s1 of (s2, o2) \<Rightarrow> (s2, o1 @ o2))"
proof -
  obtain m sp where e: "parse_lxmf_payload (rx_depth W) False (drop HEADER_LEN raw) = Inr (Some m)"
    "split_payload_stamp (rx_depth W) (drop HEADER_LEN raw) = Inr (Some sp)"
    "mid = rx_full_hash W (rx_hashed (rx_hash (slots s i)) raw (drop HEADER_LEN raw) sp)"
    using assms(2) by (auto simp: rx_id_def Let_def split: sum.splits option.splits)
  define r where "r = (let ts = (case p_ts m of None \<Rightarrow> Fin 0 | Some t \<Rightarrow> rx_double W t)
    in if dless (Fin 0) ts then calibrate_time W ts s else (s, []))"
  have "deliver_lxmf_payload W i w ph prefix s = (case admit W i w ph prefix raw sp (fst r) of (s2, o2) \<Rightarrow> (s2, snd r @ o2))"
    using assms(1) e by (simp add: deliver_lxmf_payload_def r_def Let_def split_beta)
  moreover have "slots (fst r) = slots s" "parked_q (fst r) = parked_q s" "pow (fst r) = pow s" "registry (fst r) = registry s"
    "quiet (snd r)" by (simp_all add: r_def Let_def)
  ultimately show thesis using that e by blast
qed

lemma deliver_duplicate:
  assumes "lxmf_body prefix w = Some raw" "rx_id W (rx_hash (slots s i)) raw = Some mid" "mid \<in> set (seen (slots s i))"
  shows "case deliver_lxmf_payload W i w ph prefix s of (s', out) \<Rightarrow>
    slots s' = slots s \<and> parked_q s' = parked_q s \<and> quiet out"
  by (rule deliver_id [where ph = ph, OF assms(1,2)]) (use assms(3) in \<open>simp add: admit_def Let_def seen_delivery_def\<close>)

lemma deliver_remembers:
  assumes "lxmf_body prefix w = Some raw" "rx_id W (rx_hash (slots s i)) raw = Some mid" "mid \<notin> set (seen (slots s i))"
  shows "seen (slots (fst (deliver_lxmf_payload W i w ph prefix s)) i) = remember mid (seen (slots s i))"
  by (rule deliver_id [where ph = ph, OF assms(1,2)]) (use assms(3) in \<open>simp add: admit_def Let_def seen_delivery_def split_beta\<close>)

text \<open>A hash among the last \<open>n\<close> is among the last \<open>n + k\<close> after \<open>k\<close> events.\<close>

lemma run_recent:
  assumes "rx_bounds s" "h \<in> set (take n (rev (seen (slots s i))))" "n + length es \<le> DELIVERED_DEDUP_MAX"
  shows "h \<in> set (take (n + length es) (rev (seen (slots (fst (run rx_step es s)) i))))"
  using assms
proof (induction es arbitrary: s n)
  case (Cons e es)
  let ?s = "fst (rx_step s e)"
  have b: "rx_bounds ?s" using Cons.prems(1) by (rule inbound_machine.step_inv)
  have "extends i s ?s" by (cases e) (simp only: rx_extends)
  moreover have "length (seen (slots s i)) \<le> DELIVERED_DEDUP_MAX" using Cons.prems(1) by (simp add: rx_bounds_def)
  ultimately have "h \<in> set (take (Suc n) (rev (seen (slots ?s i))))"
    using Cons.prems(2,3) dedup.push_recent [of "seen (slots s i)" n h]
    by (auto simp: extends_def dest: set_take_subset_set_take [THEN subsetD, rotated, of _ n _ "Suc n"])
  from Cons.IH [OF b this] Cons.prems(3) show ?case by (simp add: split_beta)
qed simp

section \<open>Delivery of what a sender prepared\<close>

lemma parse_want_less:
  assumes "parse_lxmf_payload n True d = Inr (Some r)"
  shows "\<exists>r'. parse_lxmf_payload n False d = Inr (Some r')"
proof -
  note P = assms [unfolded parse_lxmf_payload_def Let_def]
  have l: "\<not> length d < 2" using P by auto
  obtain k off where a: "array_header d (length d) = Some (k, off)" using P l by (cases "array_header d (length d)") auto
  have k: "\<not> k < 3" using P l a by auto
  obtain o1 where s: "skip_e n d (length d) off = Inr (True, o1)"
    using P l a k by (cases "skip_e n d (length d) off") (auto split: if_splits)
  obtain ti o2 where t: "read_e d (length d) o1 = Inr (ti, o2)"
    using P l a k s by (cases "read_e d (length d) o1") auto
  obtain co o3 where c: "read_e d (length d) o2 = Inr (co, o3)"
    using P l a k s t by (cases "read_e d (length d) o2") auto
  show ?thesis using l a k s t c by (simp add: parse_lxmf_payload_def Let_def)
qed

lemma sender_body:
  assumes "length src = HASH_LEN" "length sg = SIG_LEN" "5 \<le> length pw"
  shows "lxmf_body False (src @ sg @ pw) = Some (src @ sg @ pw)" "take HASH_LEN (src @ sg @ pw) = src"
    "take SIG_LEN (drop HASH_LEN (src @ sg @ pw)) = sg" "drop HEADER_LEN (src @ sg @ pw) = pw"
  using assms by (simp_all add: lxmf_body_def HEADER_LEN_def)

text \<open>The delivery of a new message to an instance that asks for no stamp.\<close>

lemma deliver_free:
  assumes "lxmf_body prefix w = Some raw" "parse_lxmf_payload (rx_depth W) True (drop HEADER_LEN raw) = Inr (Some m)"
    "split_payload_stamp (rx_depth W) (drop HEADER_LEN raw) = Inr (Some sp)"
    "mid = rx_full_hash W (rx_hashed (rx_hash (slots s i)) raw (drop HEADER_LEN raw) sp)"
    "mid \<notin> set (seen (slots s i))" "rx_cost (slots s i) = 0" "rx_listens (slots s i)"
  shows "\<exists>s' out. deliver_lxmf_payload W i w ph prefix s = (s', out @ [Received i (inbox_record W i (take HASH_LEN raw)
      (drop HEADER_LEN raw) ph (check_signature W raw (rx_hashed (rx_hash (slots s i)) raw (drop HEADER_LEN raw) sp) mid) False False (- 1) m)])
    \<and> quiet out \<and> seen (slots s' i) = remember mid (seen (slots s i))"
proof -
  obtain m' where m': "parse_lxmf_payload (rx_depth W) False (drop HEADER_LEN raw) = Inr (Some m')"
    using parse_want_less [OF assms(2)] by blast
  have "rx_id W (rx_hash (slots s i)) raw = Some mid" using m' assms(3,4) by (simp add: rx_id_def)
  from assms(1) this show ?thesis
  proof (rule deliver_id [where ph = ph])
    fix s1 :: inbound and o1 m'' sp' assume a: "slots s1 = slots s" "quiet o1" "split_payload_stamp (rx_depth W) (drop HEADER_LEN raw) = Inr (Some sp')"
      "deliver_lxmf_payload W i w ph prefix s = (case admit W i w ph prefix raw sp' s1 of (s2, o2) \<Rightarrow> (s2, o1 @ o2))"
    have "sp' = sp" using a(3) assms(3) by simp
    then show ?thesis using a assms
      by (simp add: admit_def Let_def seen_delivery_def stamp_policy_def complete_delivery_def)
  qed
qed

section \<open>Properties\<close>

text \<open>End to end: what a sender packed and signed arrives as one inbox record with the sender's
  address, timestamp, title, text and fields and a verified signature, under the sender's own
  message id, whether or not it carries a stamp, at an instance that asks for none.\<close>

theorem message_delivered:
  assumes "prepare_message V n d ti co as x r = (n1, acts, Inr (pm, r1))"
    "\<forall>a \<in> set as. carries (staged_read V n) a (body a)" "mp_cap ti co as x < 4294967296"
    "payload_wire (payload pm) st = Inr pw" "length st \<le> 255" "sendable body as (fields_of x) k" "3 \<le> k" "k < rx_depth W"
    "sign V (hashed_part n d (payload pm) @ message_id pm) = Some sg" "length sg = SIG_LEN" "length (own_hash n) = HASH_LEN"
    and rx: "registry s d = Some i" "rx_hash (slots s i) = d" "rx_cost (slots s i) = 0" "rx_listens (slots s i)"
    "rx_full_hash W = full_hash V" "rx_recall W (own_hash n) = Some v" "v sg (hashed_part n d (payload pm) @ message_id pm)"
    and new: "message_id pm \<notin> set (seen (slots s i))"
  shows "\<exists>s' out m. rx_step s (W, PacketIn d (own_hash n @ sg @ pw) ph) = (s', Proved ph # out @
      [Received i (inbox_record W i (own_hash n) pw ph True False False (- 1) m)]) \<and> quiet out
    \<and> view pw m = delivered (pm_ts pm) ti co body as (fields_of x)
    \<and> seen (slots s' i) = remember (message_id pm) (seen (slots s i))"
proof -
  obtain sp where sp: "split_payload_stamp (rx_depth W) pw = Inr (Some sp)" "stamp sp = st"
    "full_hash V (hashed_part n d (hash_core pw sp)) = message_id pm" and hc: "hash_core pw sp = payload pm"
    using prepared_split [OF assms(1-8)] by blast
  obtain m where m: "parse_lxmf_payload (rx_depth W) True pw = Inr (Some m)"
    "view pw m = delivered (pm_ts pm) ti co body as (fields_of x)"
    using prepared_parse [OF assms(1-8)] by blast
  have "5 \<le> length pw" by (rule prepared_length [OF assms(1-4)])
  note b = sender_body [OF assms(11,10) this]
  have mid: "hashed_part n d (hash_core pw sp) = rx_hashed d (own_hash n @ sg @ pw) pw sp"
    using b(2) assms(11) by (simp add: rx_hashed_def hashed_part_def)
  have v: "check_signature W (own_hash n @ sg @ pw) (rx_hashed d (own_hash n @ sg @ pw) pw sp) (message_id pm)"
    using rx b hc mid by (simp add: check_signature_def)
  show ?thesis
    using deliver_free [OF b(1), unfolded b, where W = W and s = s and i = i and ph = ph, OF m(1) sp(1) _ _ rx(3,4), unfolded rx(2,5)]
      m(2) mid sp(3) new v rx(1)
    by (fastforce simp: static_packet_callback_def on_packet_def)
qed

text \<open>An instance and a world for the examples.\<close>

definition sample_rx :: "rx_world" where
  "sample_rx = \<lparr>rx_depth = 4, rx_now = 5000, rx_ub = 0, rx_double = (\<lambda>_. Fin 1750000000), rx_full_hash = full_hash sample_world,
     rx_recall = (\<lambda>_. Some (\<lambda>sg b. sg = replicate 64 1)), rx_epoch = 1, rx_persist = (\<lambda>_. None), rx_crypto = sample_crypto\<rparr>"

definition sample_receiver :: "nat \<Rightarrow> bool \<Rightarrow> receiver" where
  "sample_receiver c on = \<lparr>rx_hash = replicate 16 5, rx_ready = True, rx_cost = c, rx_enforce = on, seen = [], rx_listens = True,
     rx_reports = True\<rparr>"

definition sample_inbound :: "nat \<Rightarrow> bool \<Rightarrow> inbound" where
  "sample_inbound c on = \<lparr>slots = (\<lambda>_. sample_receiver c on), registry = [replicate 16 5 \<mapsto> 0], parked_q = [], rx_clk = boot_clock,
     pow = fresh_worker\<rparr>"

lemmas rx_samples = sample_rx_def sample_receiver_def sample_inbound_def

lemma sample_keys: "own_hash sample_node = replicate 16 2" "length (own_hash sample_node) = HASH_LEN"
    "sign sample_world b = Some (replicate 64 1)" "length (replicate 64 (1 :: u8)) = SIG_LEN"
  by (simp_all add: send_samples HASH_LEN_def SIG_LEN_def)

theorem message_delivered_witness:
  "\<exists>s' out m. rx_step (sample_inbound 0 False) (sample_rx, PacketIn (replicate 16 5) (own_hash sample_node @ replicate 64 1 @ sample_wire) [7])
     = (s', Proved [7] # out @ [Received 0 (inbox_record sample_rx 0 (own_hash sample_node) sample_wire [7] True False False (- 1) m)]) \<and> quiet out
    \<and> view sample_wire m = delivered (pm_ts sample_prepared) [0x61] [0x62] att_data [sample_image] (fields_of None)
    \<and> seen (slots s' 0) = remember (message_id sample_prepared) (seen (slots (sample_inbound 0 False) 0))"
  by (rule message_delivered [where v = "\<lambda>sg b. sg = replicate 64 1", OF sample_prepares _ sample_cap sample_wired _ sample_sendable _ _ sample_keys(3,4,2)])
    (simp_all add: sample_carries rx_samples)

text \<open>C4. A message is delivered once: after its id was recorded, through any run of up to 127 further
  events at any instance, a copy of it on any route produces no record and queues nothing.\<close>

theorem duplicate_suppressed:
  assumes "rx_bounds s" "lxmf_body prefix w = Some raw" "rx_id W d raw = Some mid" "rx_hash (slots s i) = d"
    "length es < DELIVERED_DEDUP_MAX" "s2 = fst (run rx_step es (fst (deliver_lxmf_payload W i w ph prefix s)))"
    "mid \<notin> set (seen (slots s i))" "rx_hash (slots s2 i) = d"
    "lxmf_body prefix' w' = Some raw'" "rx_id W' d raw' = Some mid"
  shows "case deliver_lxmf_payload W' i w' ph' prefix' s2 of (s3, out) \<Rightarrow>
    slots s3 = slots s2 \<and> parked_q s3 = parked_q s2 \<and> quiet out"
proof -
  let ?s1 = "fst (deliver_lxmf_payload W i w ph prefix s)"
  have e: "extends j s ?s1" for j by (rule deliver_extends)
  have "rx_bounds ?s1" using assms(1) e extends_bound deliver_bounds unfolding rx_bounds_def by blast
  moreover have "mid \<in> set (take 1 (rev (seen (slots ?s1 i))))"
    using deliver_remembers [OF assms(2), of W s i mid ph] assms(3,4,7) dedup.push_newest [of "seen (slots s i)" mid] assms(1)
    by (simp add: rx_bounds_def)
  ultimately have "mid \<in> set (take (1 + length es) (rev (seen (slots s2 i))))"
    unfolding assms(6) by (rule run_recent) (use assms(5) in simp)
  then have "mid \<in> set (seen (slots s2 i))" by (auto dest: in_set_takeD)
  then show ?thesis using deliver_duplicate [OF assms(9), of W' s2 i mid ph'] assms(8,10) by simp
qed

text \<open>The receiver's state stays bounded through every run: at most 8 messages wait for the stamp
  worker and at most 128 ids are kept per instance.\<close>

theorem inbound_bounded:
  assumes "rx_bounds s"
  shows "length (parked_q (fst (run rx_step es s))) \<le> 8 \<and> length (seen (slots (fst (run rx_step es s)) i)) \<le> 128"
  using inbound_machine.run_inv [OF assms, of es]
  by (simp_all add: rx_bounds_def PENDING_VALIDATION_MAX_def DELIVERED_DEDUP_MAX_def)

section \<open>The stamp policy\<close>

text \<open>One round of the worker on the front of the queue, every mutex free and no cancel.\<close>

definition drain :: "rx_world \<Rightarrow> (rx_world \<times> rx_event) list" where
  "drain W = map (Pair W) [TickStamps True True, PowStep WorkerTake, PowStep WorkerKey,
     PowStep (WorkerCompute (\<lambda>_. False) (\<lambda>_. False)), PowStep WorkerClear, TickStamps True True]"

definition stamp_digest :: "crypto \<Rightarrow> hash \<Rightarrow> bytes \<Rightarrow> bytes" where
  "stamp_digest C mid st = sha256 C (reference_workblock C mid LXMF_WORKBLOCK_EXPAND_ROUNDS LXMF_HKDF_LEN @ st)"

lemma run_value_reference:
  assumes "\<And>m s l. length (hkdf C l m s) = l" "alloc_ok C" "kind j = LxmfValue" "rounds j = LXMF_WORKBLOCK_EXPAND_ROUNDS"
    "hkdf_len j = LXMF_HKDF_LEN"
  shows "run_value C j (\<lambda>_. False) = \<lparr>jr_stamp = [], jr_value = digest_value (stamp_digest C (input j) (job_stamp j)),
    jr_valid = digest_valid (stamp_digest C (input j) (job_stamp j)) (job_cost j), jr_ok = True\<rparr>"
proof -
  let ?wb = "reference_workblock C (input j) (rounds j) (hkdf_len j)"
  have "build_workblock C (input j) (rounds j) (hkdf_len j) (\<lambda>_. False) = Some ?wb"
    using assms(1,2) by (simp add: build_workblock_def expand_reference reference_workblock_def)
  moreover have "length ?wb = 768000"
    using assms(1) by (simp add: assms(4,5) LXMF_WORKBLOCK_EXPAND_ROUNDS_def LXMF_HKDF_LEN_def reference_workblock_def
      length_concat comp_def sum_list_triv)
  then have "?wb \<noteq> []" by auto
  ultimately show ?thesis
    by (simp add: run_value_def material_of_def assms(3-5) stamp_digest_def failed_result_def hash_workblock_stamp_def feed_pieces_all)
qed

lemma drain_run:
  assumes "parked_q s = [f]" "\<not> pv_submitted f" "rx_ready (slots s (pv_owner f))" "idle (pow s)" "results (pow s) = []"
    and C: "\<And>m s l. length (hkdf (rx_crypto W) l m s) = l" "alloc_ok (rx_crypto W)"
    and D: "D = stamp_digest (rx_crypto W) (pv_mid f) (pv_stamp f)"
    and "ok = digest_valid D (pv_cost f)"
  shows "\<exists>r s'. snd (run rx_step (drain W) s) = Pow_out r #
    (if ok \<or> \<not> rx_enforce (slots s (pv_owner f))
     then complete_delivery W (pv_owner f) (pv_wire f) (pv_packet f) (pv_prefix f) (pv_sig f) True ok
       (if ok then int (digest_value D) else - 1) s' else []) \<and> slots s' = slots s"
proof -
  let ?j = "\<lparr>kind = LxmfValue, input = pv_mid f, job_stamp = pv_stamp f, job_cost = pv_cost f,
    rounds = LXMF_WORKBLOCK_EXPAND_ROUNDS, hkdf_len = LXMF_HKDF_LEN\<rparr>"
  note r = run_value_reference [OF C, of ?j, simplified]
  let ?after = "s\<lparr>pow := (pow s)\<lparr>is_busy := False, current_key := [], cancel_flag := False\<rparr>, parked_q := []\<rparr>"
  show ?thesis
    using assms(1-5,9) unfolding D
    by (intro exI [of _ "Posted_result (pv_mid f) (run_value (rx_crypto W) ?j (\<lambda>_. False))"] exI [of _ ?after])
      (simp add: drain_def tick_stamp_validations_def submit_lxmf_value_def idle_submit idle_def
        worker_compute_def material_of_def r post_result_def push_bounded_def RESULTS_MAX_def take_result_if_def complete_delivery_def Let_def
        split: option.split sum.split)
qed



section \<open>Copies of a message\<close>

lemma sender_id:
  assumes "prepare_message V n d ti co as x r = (n1, acts, Inr (pm, r1))"
    "\<forall>a \<in> set as. carries (staged_read V n) a (body a)" "mp_cap ti co as x < 4294967296"
    "payload_wire (payload pm) st = Inr pw" "length st \<le> 255" "sendable body as (fields_of x) k" "3 \<le> k" "k < rx_depth W"
    "length sg = SIG_LEN" "length (own_hash n) = HASH_LEN" "rx_full_hash W = full_hash V"
  shows "lxmf_body False (own_hash n @ sg @ pw) = Some (own_hash n @ sg @ pw)"
    "rx_id W d (own_hash n @ sg @ pw) = Some (message_id pm)"
    "\<exists>sp. split_payload_stamp (rx_depth W) (drop HEADER_LEN (own_hash n @ sg @ pw)) = Inr (Some sp) \<and> stamp sp = st"
proof -
  note b = sender_body [OF assms(10,9) prepared_length [OF assms(1-4)]]
  obtain sp where sp: "split_payload_stamp (rx_depth W) pw = Inr (Some sp)" "stamp sp = st"
    "full_hash V (hashed_part n d (hash_core pw sp)) = message_id pm"
    using prepared_split [OF assms(1-8)] by blast
  obtain m where "parse_lxmf_payload (rx_depth W) False pw = Inr (Some m)"
    using prepared_parse [OF assms(1-8)] parse_want_less by blast
  then show "lxmf_body False (own_hash n @ sg @ pw) = Some (own_hash n @ sg @ pw)"
    "rx_id W d (own_hash n @ sg @ pw) = Some (message_id pm)"
    "\<exists>sp. split_payload_stamp (rx_depth W) (drop HEADER_LEN (own_hash n @ sg @ pw)) = Inr (Some sp) \<and> stamp sp = st"
    using b sp assms(10,11) by (simp_all add: rx_id_def rx_hashed_def hashed_part_def)
qed

text \<open>Two packets to one instance, the second a copy by id.\<close>

lemma copy_dropped:
  assumes "registry s d = Some i" "rx_hash (slots s i) = d" "mid \<in> set (seen (slots s i))"
    "lxmf_body False w = Some raw" "rx_id W d raw = Some mid"
  shows "\<exists>s' out. rx_step s (W, PacketIn d w ph) = (s', out) \<and> parked_q s' = parked_q s \<and> quiet out"
  using deliver_duplicate [OF assms(4), of W s i mid ph] assms
  by (auto simp: static_packet_callback_def on_packet_def split_beta)

lemma copy_recorded:
  assumes "rx_hash (slots s i) = d" "lxmf_body False w = Some raw" "rx_id W d raw = Some mid"
    "length (seen (slots s i)) \<le> DELIVERED_DEDUP_MAX"
  shows "mid \<in> set (seen (slots (fst (deliver_lxmf_payload W i w ph False s)) i))"
proof (cases "mid \<in> set (seen (slots s i))")
  case True
  then show ?thesis using deliver_duplicate [OF assms(2), of W s i mid ph] assms(1,3) by (simp add: split_beta)
next
  case False
  then show ?thesis
    using deliver_remembers [OF assms(2), of W s i mid ph] assms(1,3) dedup.push_last [OF assms(4)] by simp
qed

lemma deliver_keeps:
  "registry (fst (deliver_lxmf_payload W i w ph prefix s)) = registry s"
  "rx_hash (slots (fst (deliver_lxmf_payload W i w ph prefix s)) j) = rx_hash (slots s j)"
  by (auto simp: deliver_lxmf_payload_def admit_def Let_def split_beta stamp_policy_def seen_delivery_def split: option.split sum.split)

text \<open>Under enforcement, a copy without its stamp suppresses the message: anyone can strip the stamp
  off a message (the signature need not even be valid), the copy is refused but its id is recorded,
  and the stamped original that follows is dropped as a duplicate.\<close>

theorem stripped_copy_blocks:
  assumes "prepare_message V n d ti co as x r = (n1, acts, Inr (pm, r1))"
    "\<forall>a \<in> set as. carries (staged_read V n) a (body a)" "mp_cap ti co as x < 4294967296"
    "sendable body as (fields_of x) k" "3 \<le> k" "k < rx_depth W" "length (own_hash n) = HASH_LEN"
    "payload_wire (payload pm) [] = Inr pw0" "length sg0 = SIG_LEN"
    "payload_wire (payload pm) st = Inr pw1" "length st \<le> 255" "length sg1 = SIG_LEN"
    and rx: "registry s d = Some i" "rx_hash (slots s i) = d" "1 \<le> rx_cost (slots s i)" "rx_enforce (slots s i)" "rx_bounds s"
      "rx_full_hash W = full_hash V"
  shows "case run rx_step [(W, PacketIn d (own_hash n @ sg0 @ pw0) ph0), (W, PacketIn d (own_hash n @ sg1 @ pw1) ph1)] s of
    (s', out) \<Rightarrow> quiet out \<and> parked_q s' = parked_q s"
proof -
  let ?w0 = "own_hash n @ sg0 @ pw0" and ?w1 = "own_hash n @ sg1 @ pw1"
  note i0 = sender_id [where W = W, OF assms(1-3,8) _ assms(4-6,9,7) rx(6)]
  note i1 = sender_id [where W = W, OF assms(1-3,10,11,4-6,12,7) rx(6)]
  let ?s1 = "fst (deliver_lxmf_payload W i ?w0 ph0 False s)"
  have seen1: "message_id pm \<in> set (seen (slots ?s1 i))"
    by (rule copy_recorded [OF rx(2)]) (use i0 rx(5) in \<open>simp_all add: rx_bounds_def\<close>)
  have q: "quiet (snd (deliver_lxmf_payload W i ?w0 ph0 False s)) \<and> parked_q ?s1 = parked_q s"
  proof (rule deliver_id [where s = s and i = i and ph = ph0 and prefix = False and w = ?w0 and W = W])
    fix s0 :: inbound and o0 m0 sp0
    assume a: "slots s0 = slots s" "parked_q s0 = parked_q s" "quiet o0"
      "split_payload_stamp (rx_depth W) (drop HEADER_LEN ?w0) = Inr (Some sp0)"
      "deliver_lxmf_payload W i ?w0 ph0 False s = (case admit W i ?w0 ph0 False ?w0 sp0 s0 of (s2, o2) \<Rightarrow> (s2, o0 @ o2))"
    have "stamp sp0 = []" using a(4) i0(3) by auto
    then show ?thesis using a(1-3,5) rx(2-4)
      by (simp add: admit_def Let_def seen_delivery_def stamp_policy_def)
  qed (use i0 rx(2) in simp_all)
  have k: "registry ?s1 d = Some i" "rx_hash (slots ?s1 i) = d" using rx(1,2) by (simp_all add: deliver_keeps)
  obtain s' out where "rx_step ?s1 (W, PacketIn d ?w1 ph1) = (s', out)" "parked_q s' = parked_q ?s1" "quiet out"
    using copy_dropped [OF k seen1 i1(1,2)] by blast
  moreover have "rx_step s (W, PacketIn d ?w0 ph0) = (?s1, Proved ph0 # snd (deliver_lxmf_payload W i ?w0 ph0 False s))"
    using rx(1) by (simp add: static_packet_callback_def on_packet_def split_beta)
  ultimately show ?thesis using q by (simp del: rx_step.simps)
qed

theorem stripped_copy_blocks_witness:
  "case run rx_step [(sample_rx, PacketIn (replicate 16 5) (own_hash sample_node @ replicate 64 0 @ payload sample_prepared) [1]),
      (sample_rx, PacketIn (replicate 16 5) (own_hash sample_node @ replicate 64 1 @ sample_wire) [2])] (sample_inbound 20 True) of
    (s', out) \<Rightarrow> quiet out \<and> parked_q s' = parked_q (sample_inbound 20 True)"
  by (rule stripped_copy_blocks [OF sample_prepares _ sample_cap sample_sendable _ _ sample_keys(2) _ _ sample_wired])
    (simp_all add: sample_carries payload_wire_def rx_samples SIG_LEN_def rx_bounds_def PENDING_VALIDATION_MAX_def)

text \<open>Duplicates are recognised before the signature is checked: a copy with a forged signature is
  delivered as unverified, and the genuine message behind it is dropped.\<close>

theorem forged_copy_replaces:
  assumes "prepare_message V n d ti co as x r = (n1, acts, Inr (pm, r1))"
    "\<forall>a \<in> set as. carries (staged_read V n) a (body a)" "mp_cap ti co as x < 4294967296"
    "payload_wire (payload pm) st = Inr pw" "length st \<le> 255" "sendable body as (fields_of x) k" "3 \<le> k" "k < rx_depth W"
    "length (own_hash n) = HASH_LEN" "length sg0 = SIG_LEN" "length sg = SIG_LEN"
    and rx: "registry s d = Some i" "rx_hash (slots s i) = d" "rx_cost (slots s i) = 0" "rx_listens (slots s i)"
      "rx_bounds s" "rx_full_hash W = full_hash V"
    and new: "message_id pm \<notin> set (seen (slots s i))"
    and forged: "rx_recall W (own_hash n) = Some v" "\<not> v sg0 (hashed_part n d (payload pm) @ message_id pm)"
  shows "\<exists>out0 m out1. snd (run rx_step [(W, PacketIn d (own_hash n @ sg0 @ pw) ph0), (W, PacketIn d (own_hash n @ sg @ pw) ph1)] s)
    = out0 @ [Received i (inbox_record W i (own_hash n) pw ph0 False False False (- 1) m)] @ out1 \<and> quiet out0 \<and> quiet out1"
proof -
  let ?w0 = "own_hash n @ sg0 @ pw" and ?w1 = "own_hash n @ sg @ pw"
  note i0 = sender_id [where W = W, OF assms(1-8,10,9) rx(6)]
  note i1 = sender_id [where W = W, OF assms(1-8,11,9) rx(6)]
  note b = sender_body [OF assms(9,10) prepared_length [OF assms(1-4)]]
  let ?s1 = "fst (deliver_lxmf_payload W i ?w0 ph0 False s)"
  have seen1: "message_id pm \<in> set (seen (slots ?s1 i))"
    by (rule copy_recorded [OF rx(2)]) (use i0 rx(5) in \<open>simp_all add: rx_bounds_def\<close>)
  obtain sp where sp: "split_payload_stamp (rx_depth W) pw = Inr (Some sp)"
    "full_hash V (hashed_part n d (hash_core pw sp)) = message_id pm" "hash_core pw sp = payload pm"
    using prepared_split [OF assms(1-8)] by blast
  obtain m where m: "parse_lxmf_payload (rx_depth W) True pw = Inr (Some m)"
    using prepared_parse [OF assms(1-8)] by blast
  have hp: "rx_hashed d ?w0 pw sp = hashed_part n d (payload pm)" using b(2) assms(9) sp(3) by (simp add: rx_hashed_def hashed_part_def)
  have c: "\<not> check_signature W ?w0 (rx_hashed d ?w0 pw sp) (message_id pm)"
    using forged b hp by (simp add: check_signature_def)
  obtain s' out where d: "deliver_lxmf_payload W i ?w0 ph0 False s = (s', out @ [Received i (inbox_record W i (own_hash n) pw ph0
      False False False (- 1) m)])" "quiet out"
    using deliver_free [OF b(1), unfolded b, where W = W and s = s and i = i and ph = ph0, OF m sp(1) _ _ rx(3,4), unfolded rx(2,6)]
      hp sp(2,3) new c by fastforce
  have k: "registry ?s1 d = Some i" "rx_hash (slots ?s1 i) = d" using rx(1,2) by (simp_all add: deliver_keeps)
  obtain s2 out2 where "rx_step ?s1 (W, PacketIn d ?w1 ph1) = (s2, out2)" "quiet out2"
    using copy_dropped [OF k seen1 i1(1,2)] by blast
  moreover have "rx_step s (W, PacketIn d ?w0 ph0) = (?s1, Proved ph0 # out @ [Received i (inbox_record W i (own_hash n) pw ph0
      False False False (- 1) m)])"
    using rx(1) d(1) by (simp add: static_packet_callback_def on_packet_def)
  ultimately show ?thesis using d(2)
    by (intro exI [of _ "Proved ph0 # out"] exI [of _ m] exI [of _ out2]) (simp del: rx_step.simps)
qed

theorem forged_copy_replaces_witness:
  "\<exists>out0 m out1. snd (run rx_step [(sample_rx, PacketIn (replicate 16 5) (own_hash sample_node @ replicate 64 0 @ sample_wire) [1]),
      (sample_rx, PacketIn (replicate 16 5) (own_hash sample_node @ replicate 64 1 @ sample_wire) [2])] (sample_inbound 0 False))
    = out0 @ [Received 0 (inbox_record sample_rx 0 (own_hash sample_node) sample_wire [1] False False False (- 1) m)] @ out1
      \<and> quiet out0 \<and> quiet out1"
  by (rule forged_copy_replaces [where v = "\<lambda>sg b. sg = replicate 64 1", OF sample_prepares _ sample_cap sample_wired _ sample_sendable _ _ sample_keys(2)])
    (simp_all add: sample_carries rx_samples SIG_LEN_def rx_bounds_def PENDING_VALIDATION_MAX_def)

lemma sample_bounds: "rx_bounds (sample_inbound c on)"
  by (simp add: rx_bounds_def rx_samples)

lemma sample_ids:
  assumes "length sg = SIG_LEN"
  shows "lxmf_body False (own_hash sample_node @ sg @ sample_wire) = Some (own_hash sample_node @ sg @ sample_wire)"
    "rx_id sample_rx (replicate 16 5) (own_hash sample_node @ sg @ sample_wire) = Some (message_id sample_prepared)"
proof -
  have c: "\<forall>a \<in> set [sample_image]. carries (staged_read sample_world sample_node) a (att_data a)" by (simp add: sample_carries)
  have w: "length [9, 9 :: u8] \<le> 255" "3 \<le> (3 :: nat)" "3 < rx_depth sample_rx" "rx_full_hash sample_rx = full_hash sample_world"
    by (simp_all add: rx_samples)
  note i = sender_id [OF sample_prepares c sample_cap sample_wired w(1) sample_sendable w(2,3) assms sample_keys(2) w(4)]
  show "lxmf_body False (own_hash sample_node @ sg @ sample_wire) = Some (own_hash sample_node @ sg @ sample_wire)"
    "rx_id sample_rx (replicate 16 5) (own_hash sample_node @ sg @ sample_wire) = Some (message_id sample_prepared)"
    by (rule i(1), rule i(2))
qed

theorem duplicate_suppressed_witness:
  "case deliver_lxmf_payload sample_rx 0 (own_hash sample_node @ replicate 64 1 @ sample_wire) [2] False
      (fst (run rx_step [(sample_rx, TickStamps True True)]
        (fst (deliver_lxmf_payload sample_rx 0 (own_hash sample_node @ replicate 64 1 @ sample_wire) [1] False (sample_inbound 0 False))))) of
    (s3, out) \<Rightarrow> slots s3 = slots (fst (run rx_step [(sample_rx, TickStamps True True)]
        (fst (deliver_lxmf_payload sample_rx 0 (own_hash sample_node @ replicate 64 1 @ sample_wire) [1] False (sample_inbound 0 False)))))
     \<and> parked_q s3 = parked_q (fst (run rx_step [(sample_rx, TickStamps True True)]
        (fst (deliver_lxmf_payload sample_rx 0 (own_hash sample_node @ replicate 64 1 @ sample_wire) [1] False (sample_inbound 0 False)))))
     \<and> quiet out"
proof -
  have h: "rx_hash (slots (fst (run rx_step [(sample_rx, TickStamps True True)] s)) 0) = rx_hash (slots s 0)" for s
    by (simp add: split_beta)
  show ?thesis
    by (rule duplicate_suppressed [OF sample_bounds [of 0 False] sample_ids(1) sample_ids(2) _ _ refl _ _ sample_ids(1) sample_ids(2)])
      (simp_all only: h deliver_keeps sample_keys(4), simp_all add: rx_samples DELIVERED_DEDUP_MAX_def)
qed

theorem inbound_bounded_witness:
  "length (parked_q (fst (run rx_step [(sample_rx, PacketIn (replicate 16 5) [1, 2] [3])] (sample_inbound 20 True)))) \<le> 8
    \<and> length (seen (slots (fst (run rx_step [(sample_rx, PacketIn (replicate 16 5) [1, 2] [3])] (sample_inbound 20 True))) 0)) \<le> 128"
  by (rule inbound_bounded [OF sample_bounds])

text \<open>A message parked for the stamp worker is tied to a slot, not to an identity: when the
  identity is deleted and another is created in its slot before the result arrives, the message
  sent to the first is delivered to the second.\<close>

theorem reused_slot_receives:
  assumes "parked_q s = f # q" "pv_submitted f" "pv_owner f = i" "rx_ready (slots s i)" "rx_listens (slots s i)"
    "take_first (pv_mid f) (results (pow s)) = Some (rest, res)" "jr_ok res" "jr_valid res"
    "lxmf_body (pv_prefix f) (pv_wire f) = Some raw" "parse_lxmf_payload (rx_depth W) True (drop HEADER_LEN raw) = Inr (Some m)"
  shows "\<exists>s'. run rx_step [(W, ShutdownInstance i), (W, InitInstance i d), (W, TickStamps l True)] s =
      (s', [Received i (inbox_record W i (take HASH_LEN raw) (drop HEADER_LEN raw) (pv_packet f) (pv_sig f) True True (int (jr_value res)) m)])
    \<and> rx_hash (slots s' i) = d \<and> registry s' d = Some i"
  using assms
  by (simp add: shutdown_def init_instance_def tick_stamp_validations_def take_result_if_def complete_delivery_def Let_def)

definition sample_parked :: "parked" where
  "sample_parked = \<lparr>pv_owner = 0, pv_wire = own_hash sample_node @ replicate 64 1 @ sample_wire, pv_packet = [7], pv_prefix = False,
     pv_sig = True, pv_mid = message_id sample_prepared, pv_stamp = [9, 9], pv_cost = 20, pv_submitted = True\<rparr>"

theorem reused_slot_receives_witness:
  "\<exists>s' m. run rx_step [(sample_rx, ShutdownInstance 0), (sample_rx, InitInstance 0 (replicate 16 8)), (sample_rx, TickStamps True True)]
      ((sample_inbound 20 True)\<lparr>parked_q := [sample_parked], pow := fresh_worker\<lparr>results :=
         [(message_id sample_prepared, \<lparr>jr_stamp = [], jr_value = 30, jr_valid = True, jr_ok = True\<rparr>)]\<rparr>\<rparr>) =
      (s', [Received 0 (inbox_record sample_rx 0 (own_hash sample_node) sample_wire [7] True True True 30 m)])
    \<and> rx_hash (slots s' 0) = replicate 16 8 \<and> registry s' (replicate 16 8) = Some 0"
proof -
  have c: "\<forall>a \<in> set [sample_image]. carries (staged_read sample_world sample_node) a (att_data a)" by (simp add: sample_carries)
  obtain m where m: "parse_lxmf_payload 4 True sample_wire = Inr (Some m)"
    using prepared_parse [OF sample_prepares c sample_cap sample_wired _ sample_sendable, of 4] by auto
  note b = sender_body [OF sample_keys(2,4) prepared_length [OF sample_prepares c sample_cap sample_wired]]
  let ?s = "(sample_inbound 20 True)\<lparr>parked_q := [sample_parked], pow := fresh_worker\<lparr>results :=
    [(message_id sample_prepared, \<lparr>jr_stamp = [], jr_value = 30, jr_valid = True, jr_ok = True\<rparr>)]\<rparr>\<rparr>"
  have p: "parked_q ?s = [sample_parked]" "pv_submitted sample_parked" "pv_owner sample_parked = 0" "rx_ready (slots ?s 0)"
    "rx_listens (slots ?s 0)" "take_first (pv_mid sample_parked) (results (pow ?s)) =
      Some ([], \<lparr>jr_stamp = [], jr_value = 30, jr_valid = True, jr_ok = True\<rparr>)"
    "lxmf_body (pv_prefix sample_parked) (pv_wire sample_parked) = Some (own_hash sample_node @ replicate 64 1 @ sample_wire)"
    using b(1) by (simp_all add: sample_parked_def rx_samples)
  have q: "pv_packet sample_parked = [7]" "pv_sig sample_parked" by (simp_all add: sample_parked_def)
  have m': "parse_lxmf_payload (rx_depth sample_rx) True (drop HEADER_LEN (own_hash sample_node @ replicate 64 1 @ sample_wire)) = Inr (Some m)"
    unfolding b using m by (simp add: rx_samples)
  note r = reused_slot_receives [OF p(1-6) _ _ p(7) m', of "replicate 16 8" True, unfolded b q]
  then show ?thesis using q(2) by (simp only: job_result.simps simp_thms) (use b q in auto)
qed

end
