(* ===== verification/LxmfInbox.thy ===== *)
theory LxmfInbox
  imports LxmfInbound
begin

text \<open>
  The mailbox of an identity, \<open>src/src/LXMF/LXMFInbox.h\<close>: the bounded ring of records, retention by
  age and by count, sequence numbers, and the spool file with one JSON document per record.

  The spool is the sequence of what was written: complete documents, fragments of documents and
  newlines. A document holds what ArduinoJson parses from it. \<open>toHex\<close>, \<open>assignHex\<close>, the JSON form of
  a double and the outcome of the file system calls are fields of \<open>box_env\<close>. The callback on
  removal is an output.
\<close>

section \<open>Retention\<close>

datatype ret_kind = KNone | KTime | KCount

record retention =
  ret_kind :: ret_kind
  ret_value :: nat

definition no_retention :: retention where "no_retention = \<lparr>ret_kind = KNone, ret_value = 0\<rparr>"

fun retention_kind_name :: "ret_kind \<Rightarrow> string" where
  "retention_kind_name KTime = ''time''"
| "retention_kind_name KCount = ''count''"
| "retention_kind_name KNone = ''none''"

definition retention_kind_from_str :: "string option \<Rightarrow> ret_kind" where
  "retention_kind_from_str s =
    (if s = Some ''time'' then KTime else if s = Some ''count'' then KCount else KNone)"

section \<open>Documents\<close>

record att_doc =
  a_t :: "nat option"
  a_s :: "nat option"
  a_f :: "bytes option"
  a_d :: "bytes option"
  a_m :: "bytes option"
  a_b :: "bytes option"

record rec_doc =
  d_seq :: "nat option"
  d_ts :: "64 word option"
  d_boot :: "nat option"
  d_recv :: "nat option"
  d_peer :: "string option"
  d_title :: "bytes option"
  d_body :: "bytes option"
  d_body_size :: "nat option"
  d_in :: "bool option"
  d_sig :: "bool option"
  d_status :: "string option"
  d_pkt :: "string option"
  d_tel :: "bool option"
  d_telb :: "string option"
  d_stamp_ok :: "bool option"
  d_stampv :: "int option"
  d_att :: "att_doc list option"

datatype spool_item = Doc rec_doc | Fragment | Newline

datatype write_result = Written | NoNewline | Torn | NothingWritten | CannotOpen

record box_env =
  to_hex :: "bytes \<Rightarrow> string"
  of_hex :: "string \<Rightarrow> bytes"
  dval :: "64 word \<Rightarrow> double"
  json_dbl :: "64 word \<Rightarrow> 64 word"       \<comment> \<open>a double through its JSON text\<close>
  box_now :: double                       \<comment> \<open>\<open>_now_epoch\<close>\<close>
  on_remove :: bool
  append_result :: write_result
  rewrite_opens :: bool
  rewrite_writes :: "nat \<Rightarrow> bool"         \<comment> \<open>the record at this position is written\<close>

text \<open>\<open>outbox\_status\_name\<close>\<close>

fun outbox_status_name :: "outbox_status \<Rightarrow> string" where
  "outbox_status_name Queued = ''queued''"
| "outbox_status_name Sent = ''sent''"
| "outbox_status_name Delivered = ''delivered''"
| "outbox_status_name Failed = ''failed''"
| "outbox_status_name FindingRoute = ''finding_route''"
| "outbox_status_name GeneratingStamp = ''generating_stamp''"

definition status_from_name :: "string \<Rightarrow> outbox_status" where
  "status_from_name s =
    (if s = ''queued'' then Queued else if s = ''sent'' then Sent else if s = ''failed'' then Failed
     else if s = ''generating_stamp'' then GeneratingStamp else Delivered)"

definition attachment_doc :: "attachment_meta \<Rightarrow> att_doc" where
  "attachment_doc a = \<lparr>a_t = Some (unat (m_tag a)), a_s = Some (m_size a), a_f = Some (m_filename a),
     a_d = (if m_display a = [] then None else Some (m_display a)), a_m = (if m_mime a = [] then None else Some (m_mime a)),
     a_b = (if m_backend a = [] then None else Some (m_backend a))\<rparr>"

definition record_to_doc :: "box_env \<Rightarrow> message_record \<Rightarrow> rec_doc" where
  "record_to_doc E r =
    \<lparr>d_seq = Some (rec_seq r), d_ts = Some (json_dbl E (rec_ts r)), d_boot = Some (boot_epoch r),
     d_recv = Some (received_ms r), d_peer = Some (to_hex E (peer_hash r)), d_title = Some (title r),
     d_body = Some (content r), d_body_size = Some (if body_size r > 0 then body_size r else wrap32 (length (content r))),
     d_in = Some (incoming r), d_sig = Some (signature_ok r), d_status = Some (outbox_status_name (rec_status r)),
     d_pkt = (if packet_hash r = [] then None else Some (to_hex E (packet_hash r))),
     d_tel = (if has_telemetry r then Some True else None),
     d_telb = (if rec_telemetry r = [] then None else Some (to_hex E (rec_telemetry r))),
     d_stamp_ok = (if stamp_checked r then Some (stamp_valid r) else None),
     d_stampv = (if stamp_checked r \<and> stamp_value r \<ge> 0 then Some (stamp_value r) else None),
     d_att = (if attachments r = [] then None else Some (map attachment_doc (attachments r)))\<rparr>"

text \<open>\<open>doc[k] | 0\<close> reads an \<open>int\<close>: a number that does not fit gives the default. A \<open>const char*\<close> ends
  at the first NUL.\<close>

definition int_or0 :: "nat option \<Rightarrow> nat" where
  "int_or0 v = (case v of None \<Rightarrow> 0 | Some n \<Rightarrow> if n < 2147483648 then n else 0)"

definition c_str :: "bytes option \<Rightarrow> bytes" where
  "c_str s = (case s of None \<Rightarrow> [] | Some b \<Rightarrow> takeWhile (\<lambda>c. c \<noteq> 0) b)"

definition flash_name :: bytes where "flash_name = [0x66, 0x6C, 0x61, 0x73, 0x68]"

definition doc_attachment :: "att_doc \<Rightarrow> attachment_meta" where
  "doc_attachment o' = \<lparr>m_tag = word_of_nat (int_or0 (a_t o')), m_size = int_or0 (a_s o'), m_filename = c_str (a_f o'),
     m_display = c_str (a_d o'), m_mime = c_str (a_m o'),
     m_backend = (case a_b o' of None \<Rightarrow> flash_name | Some b \<Rightarrow> c_str (Some b))\<rparr>"

definition doc_to_record :: "box_env \<Rightarrow> rec_doc \<Rightarrow> message_record" where
  "doc_to_record E d =
    (let body = c_str (d_body d) in
     \<lparr>rec_seq = int_or0 (d_seq d), rec_ts = (case d_ts d of None \<Rightarrow> 0 | Some t \<Rightarrow> t), boot_epoch = int_or0 (d_boot d),
      received_ms = int_or0 (d_recv d), peer_hash = of_hex E (case d_peer d of None \<Rightarrow> '''' | Some h \<Rightarrow> h),
      title = c_str (d_title d), content = body,
      body_size = (case d_body_size d of None \<Rightarrow> wrap32 (length body) | Some n \<Rightarrow> n),
      incoming = (d_in d = Some True), signature_ok = (d_sig d = Some True),
      rec_status = status_from_name (case d_status d of None \<Rightarrow> ''delivered'' | Some s \<Rightarrow> s),
      packet_hash = (case d_pkt d of None \<Rightarrow> [] | Some h \<Rightarrow> of_hex E h),
      has_telemetry = (d_tel d = Some True),
      rec_telemetry = (case d_telb d of None \<Rightarrow> [] | Some h \<Rightarrow> of_hex E h),
      rec_commands = [], rec_meta = [],
      stamp_checked = (d_stamp_ok d \<noteq> None), stamp_valid = (d_stamp_ok d = Some True),
      stamp_value = (if d_stamp_ok d = None then - 1 else case d_stampv d of None \<Rightarrow> - 1 | Some v \<Rightarrow> v),
      attachments = (case d_att d of None \<Rightarrow> [] | Some l \<Rightarrow> map doc_attachment l)\<rparr>)"

section \<open>State\<close>

record mailbox =
  ring :: "message_record list"
  ram_capacity :: nat
  default_retention :: retention
  peer_retention :: "(string, retention) omap"
  next_seq :: nat
  spool :: "spool_item list option"       \<comment> \<open>\<open>None\<close>: no file\<close>

datatype box_out = Removed message_record

definition DEFAULT_RAM_CAPACITY :: nat where "DEFAULT_RAM_CAPACITY = 200"

definition new_mailbox :: "spool_item list option \<Rightarrow> nat \<Rightarrow> retention \<Rightarrow> mailbox" where
  "new_mailbox f cap r = \<lparr>ring = [], ram_capacity = cap, default_retention = r, peer_retention = [], next_seq = 0, spool = f\<rparr>"

text \<open>Remove from the front while there are more than \<open>n\<close>.\<close>

definition trim :: "nat \<Rightarrow> 'a list \<Rightarrow> 'a list" where
  "trim n q = drop (length q - n) q"

section \<open>The spool\<close>

text \<open>The records a rewrite puts into the fresh file.\<close>

definition rewrite_items :: "box_env \<Rightarrow> message_record list \<Rightarrow> spool_item list" where
  "rewrite_items E rs = concat (map (\<lambda>i. if rewrite_writes E i then [Doc (record_to_doc E (rs ! i)), Newline] else []) [0..<length rs])"

definition rewrite_spool :: "box_env \<Rightarrow> mailbox \<Rightarrow> mailbox" where
  "rewrite_spool E m = m\<lparr>spool := (if rewrite_opens E then Some (rewrite_items E (ring m)) else None)\<rparr>"

definition apply_doc_to_ring :: "box_env \<Rightarrow> rec_doc \<Rightarrow> mailbox \<Rightarrow> mailbox" where
  "apply_doc_to_ring E d m =
    (let r = doc_to_record E d in
     m\<lparr>next_seq := max (next_seq m) (rec_seq r), ring := trim (ram_capacity m) (ring m @ [r])\<rparr>)"

text \<open>The loop of \<open>load\<close>, with the number of parsed documents. A fragment does not parse; what follows
  it on its line is skipped with it.\<close>

fun read_spool :: "box_env \<Rightarrow> spool_item list \<Rightarrow> bool \<Rightarrow> mailbox \<Rightarrow> nat \<Rightarrow> mailbox \<times> nat" where
  "read_spool E [] skip m n = (m, n)"
| "read_spool E (Newline # f) skip m n = read_spool E f False m n"
| "read_spool E (Fragment # f) skip m n = read_spool E f True m n"
| "read_spool E (Doc d # f) skip m n =
    (if skip then read_spool E f True m n else read_spool E f False (apply_doc_to_ring E d m) (n + 1))"

definition load :: "box_env \<Rightarrow> mailbox \<Rightarrow> mailbox" where
  "load E m =
    (let m0 = m\<lparr>ring := [], next_seq := 0\<rparr> in
     case spool m of
       None \<Rightarrow> m0
     | Some f \<Rightarrow>
         if f = [] then m0
         else (case read_spool E f False m0 0 of
             (m1, parsed) \<Rightarrow> if parsed > length (ring m1) then rewrite_spool E m1 else m1))"

section \<open>Pruning\<close>

definition effective_retention_for :: "mailbox \<Rightarrow> string \<Rightarrow> retention" where
  "effective_retention_for m p = (case mfind (peer_retention m) p of Some r \<Rightarrow> r | None \<Rightarrow> default_retention m)"

definition removed :: "box_env \<Rightarrow> message_record list \<Rightarrow> box_out list" where
  "removed E rs = (if on_remove E then map Removed rs else [])"

text \<open>\<open>now - value\<close>\<close>

fun dminus :: "double \<Rightarrow> nat \<Rightarrow> double" where
  "dminus (Fin q) n = Fin (q - of_nat n)"
| "dminus d n = d"

definition expired :: "box_env \<Rightarrow> mailbox \<Rightarrow> message_record \<Rightarrow> bool" where
  "expired E m r =
    (let t = effective_retention_for m (to_hex E (peer_hash r)) in
     if ret_kind t \<noteq> KTime \<or> ret_value t = 0 \<or> \<not> dless (Fin 0) (dval E (rec_ts r)) \<and> dval E (rec_ts r) \<noteq> NaN then False
     else dless (dval E (rec_ts r)) (dminus (box_now E) (ret_value t)))"

text \<open>The indices of each peer, in order, and those its count drops.\<close>

definition peer_indices :: "box_env \<Rightarrow> message_record list \<Rightarrow> string \<Rightarrow> nat list" where
  "peer_indices E rs p = filter (\<lambda>i. to_hex E (peer_hash (rs ! i)) = p) [0..<length rs]"

definition peer_drop :: "box_env \<Rightarrow> mailbox \<Rightarrow> message_record list \<Rightarrow> string \<Rightarrow> nat list" where
  "peer_drop E m rs p =
    (let t = effective_retention_for m p; ix = peer_indices E rs p in
     if ret_kind t \<noteq> KCount \<or> ret_value t = 0 then []
     else if length ix \<le> ret_value t then []
     else take (length ix - ret_value t) ix)"

definition count_drop :: "box_env \<Rightarrow> mailbox \<Rightarrow> message_record list \<Rightarrow> nat list" where
  "count_drop E m rs = rev (sort (concat (map (peer_drop E m rs) (remdups (map (\<lambda>r. to_hex E (peer_hash r)) rs)))))"

fun erase_indices :: "nat list \<Rightarrow> message_record list \<Rightarrow> message_record list \<times> message_record list" where
  "erase_indices [] rs = (rs, [])"
| "erase_indices (i # is) rs =
    (if i < length rs
     then (case erase_indices is (take i rs @ drop (Suc i) rs) of (rs', gone) \<Rightarrow> (rs', rs ! i # gone))
     else erase_indices is rs)"

definition time_pass :: "box_env \<Rightarrow> mailbox \<Rightarrow> message_record list \<Rightarrow> message_record list \<times> message_record list" where
  "time_pass E m rs =
    (if dless (Fin 0) (box_now E) then (filter (\<lambda>r. \<not> expired E m r) rs, filter (expired E m) rs) else (rs, []))"

definition prune_expired :: "box_env \<Rightarrow> mailbox \<Rightarrow> mailbox \<times> box_out list" where
  "prune_expired E m =
    (if peer_retention m = [] \<and> ret_kind (default_retention m) = KNone
     then (m\<lparr>ring := trim (ram_capacity m) (ring m)\<rparr>, [])
     else
       (case time_pass E m (ring m) of (r1, old) \<Rightarrow>
        case erase_indices (count_drop E m r1) r1 of (r2, gone) \<Rightarrow>
          let m' = m\<lparr>ring := trim (ram_capacity m) r2\<rparr>
          in (if length (ring m') \<noteq> length (ring m) then rewrite_spool E m' else m', removed E old @ removed E gone)))"

section \<open>Operations\<close>

definition set_capacity :: "box_env \<Rightarrow> nat \<Rightarrow> mailbox \<Rightarrow> mailbox" where
  "set_capacity E cap m =
    (let m' = m\<lparr>ram_capacity := cap, ring := trim cap (ring m)\<rparr> in
     if length (ring m) > cap then rewrite_spool E m' else m')"

definition set_default_retention :: "box_env \<Rightarrow> retention \<Rightarrow> mailbox \<Rightarrow> mailbox \<times> box_out list" where
  "set_default_retention E r m = prune_expired E (m\<lparr>default_retention := r\<rparr>)"

definition set_peer_retention :: "box_env \<Rightarrow> string \<Rightarrow> retention \<Rightarrow> mailbox \<Rightarrow> mailbox \<times> box_out list \<times> bool" where
  "set_peer_retention E p r m =
    (if mfind (peer_retention m) p = Some r then (m, [], False)
     else (case prune_expired E (m\<lparr>peer_retention := mput (\<lambda>_ _. False) p r (peer_retention m)\<rparr>) of
         (m', out) \<Rightarrow> (m', out, True)))"

definition clear_peer_retention :: "box_env \<Rightarrow> string \<Rightarrow> mailbox \<Rightarrow> mailbox \<times> box_out list \<times> bool" where
  "clear_peer_retention E p m =
    (if mfind (peer_retention m) p = None then (m, [], False)
     else (case prune_expired E (m\<lparr>peer_retention := merase p (peer_retention m)\<rparr>) of
         (m', out) \<Rightarrow> (m', out, True)))"

definition clear_all_peer_retention :: "mailbox \<Rightarrow> mailbox" where
  "clear_all_peer_retention m = m\<lparr>peer_retention := []\<rparr>"

definition append_record :: "box_env \<Rightarrow> message_record \<Rightarrow> mailbox \<Rightarrow> mailbox \<times> box_out list \<times> message_record \<times> bool" where
  "append_record E r m =
    (let m1 = (if rec_seq r = 0 then m\<lparr>next_seq := wrap32 (next_seq m + 1)\<rparr>
               else if rec_seq r > next_seq m then m\<lparr>next_seq := rec_seq r\<rparr> else m);
         r1 = (if rec_seq r = 0 then r\<lparr>rec_seq := next_seq m1\<rparr> else r)\<lparr>body_size := wrap32 (length (content r))\<rparr>;
         add = (\<lambda>items. m1\<lparr>spool := Some ((case spool m1 of None \<Rightarrow> [] | Some f \<Rightarrow> f) @ items)\<rparr>)
     in case append_result E of
          CannotOpen \<Rightarrow> (m1, [], r1, False)
        | NothingWritten \<Rightarrow> (add [Newline], [], r1, False)
        | Torn \<Rightarrow> (add [Fragment], [], r1, False)
        | NoNewline \<Rightarrow> (add [Doc (record_to_doc E r1)], [], r1, False)
        | Written \<Rightarrow>
            let m2 = add [Doc (record_to_doc E r1), Newline]; q = ring m2 @ [r1]; m3 = m2\<lparr>ring := trim (ram_capacity m2) q\<rparr>
            in (case prune_expired E m3 of
                  (m4, out) \<Rightarrow> (m4, removed E (take (length q - ram_capacity m2) q) @ out, r1, True)))"

definition update_status :: "box_env \<Rightarrow> hash \<Rightarrow> outbox_status \<Rightarrow> mailbox \<Rightarrow> mailbox \<times> bool" where
  "update_status E h st m =
    (if \<exists>r \<in> set (ring m). packet_hash r = h
     then (rewrite_spool E (m\<lparr>ring := map (\<lambda>r. if packet_hash r = h then r\<lparr>rec_status := st\<rparr> else r) (ring m)\<rparr>), True)
     else (m, False))"

definition mark_delivered :: "box_env \<Rightarrow> hash \<Rightarrow> mailbox \<Rightarrow> mailbox \<times> bool" where
  "mark_delivered E h = update_status E h Delivered"

fun mutate_first :: "nat \<Rightarrow> (message_record \<Rightarrow> message_record) \<Rightarrow> message_record list \<Rightarrow> message_record list option" where
  "mutate_first s f [] = None"
| "mutate_first s f (r # rs) = (if rec_seq r \<noteq> s then map_option (\<lambda>l. r # l) (mutate_first s f rs) else Some (f r # rs))"

definition mutate_by_seq :: "box_env \<Rightarrow> nat \<Rightarrow> (message_record \<Rightarrow> message_record) \<Rightarrow> mailbox \<Rightarrow> mailbox \<times> bool" where
  "mutate_by_seq E s f m =
    (case mutate_first s f (ring m) of None \<Rightarrow> (m, False) | Some l \<Rightarrow> (rewrite_spool E (m\<lparr>ring := l\<rparr>), True))"

definition move_backend :: "bytes \<Rightarrow> bytes \<Rightarrow> attachment_meta \<Rightarrow> attachment_meta" where
  "move_backend frm to a = (if m_backend a = frm then a\<lparr>m_backend := to\<rparr> else a)"

definition update_attachment_backends :: "box_env \<Rightarrow> bytes \<Rightarrow> bytes \<Rightarrow> mailbox \<Rightarrow> mailbox \<times> nat" where
  "update_attachment_backends E frm to m =
    (let n = sum_list (map (\<lambda>r. length (filter (\<lambda>a. m_backend a = frm) (attachments r))) (ring m));
         m' = m\<lparr>ring := map (\<lambda>r. r\<lparr>attachments := map (move_backend frm to) (attachments r)\<rparr>) (ring m)\<rparr>
     in (if n > 0 then rewrite_spool E m' else m', n))"

definition purge_peer :: "box_env \<Rightarrow> hash \<Rightarrow> mailbox \<Rightarrow> mailbox \<times> box_out list \<times> nat" where
  "purge_peer E p m =
    (let keep = filter (\<lambda>r. peer_hash r \<noteq> p) (ring m); gone = filter (\<lambda>r. peer_hash r = p) (ring m); m' = m\<lparr>ring := keep\<rparr>
     in (if length gone > 0 then rewrite_spool E m' else m', removed E gone, length gone))"

definition find_by_seq :: "nat \<Rightarrow> mailbox \<Rightarrow> message_record option" where
  "find_by_seq s m = List.find (\<lambda>r. rec_seq r = s) (ring m)"

definition reserve_seq :: "mailbox \<Rightarrow> mailbox \<times> nat" where
  "reserve_seq m = (let n = wrap32 (next_seq m + 1) in (m\<lparr>next_seq := n\<rparr>, n))"

section \<open>The machine\<close>

datatype box_event =
    Append message_record
  | UpdateStatus hash outbox_status
  | Mutate nat "message_record \<Rightarrow> message_record"
  | MoveBackends bytes bytes
  | PurgePeer hash
  | Prune
  | SetDefault retention
  | SetPeer string retention
  | ClearPeer string
  | ClearAll
  | Reserve
  | SetCapacity nat
  | Reload

fun box_step :: "mailbox \<Rightarrow> box_env \<times> box_event \<Rightarrow> mailbox \<times> box_out list" where
  "box_step m (E, Append r) = (case append_record E r m of (m', out, _) \<Rightarrow> (m', out))"
| "box_step m (E, UpdateStatus h st) = (fst (update_status E h st m), [])"
| "box_step m (E, Mutate s f) = (fst (mutate_by_seq E s f m), [])"
| "box_step m (E, MoveBackends a b) = (fst (update_attachment_backends E a b m), [])"
| "box_step m (E, PurgePeer p) = (case purge_peer E p m of (m', out, _) \<Rightarrow> (m', out))"
| "box_step m (E, Prune) = prune_expired E m"
| "box_step m (E, SetDefault r) = set_default_retention E r m"
| "box_step m (E, SetPeer p r) = (case set_peer_retention E p r m of (m', out, _) \<Rightarrow> (m', out))"
| "box_step m (E, ClearPeer p) = (case clear_peer_retention E p m of (m', out, _) \<Rightarrow> (m', out))"
| "box_step m (E, ClearAll) = (clear_all_peer_retention m, [])"
| "box_step m (E, Reserve) = (fst (reserve_seq m), [])"
| "box_step m (E, SetCapacity n) = (set_capacity E n m, [])"
| "box_step m (E, Reload) = (load E m, [])"

section \<open>The ring is bounded\<close>

definition fits :: "mailbox \<Rightarrow> bool" where
  "fits m \<longleftrightarrow> length (ring m) \<le> ram_capacity m"

lemma trim_length [simp]: "length (trim n q) = min n (length q)"
  by (simp add: trim_def min_def)

lemma trim_short [simp]: "length q \<le> n \<Longrightarrow> trim n q = q"
  by (simp add: trim_def)

lemma trim_trim: "trim n (trim n q @ [x]) = trim n (q @ [x])"
  by (cases "n \<le> length q") (simp_all add: trim_def Suc_diff_le)

lemma trim_map: "trim n (map f q) = map f (trim n q)"
  by (simp add: trim_def drop_map)

lemma rewrite_fields [simp]:
  "ring (rewrite_spool E m) = ring m" "ram_capacity (rewrite_spool E m) = ram_capacity m"
  "next_seq (rewrite_spool E m) = next_seq m" "peer_retention (rewrite_spool E m) = peer_retention m"
  "default_retention (rewrite_spool E m) = default_retention m"
  by (simp_all add: rewrite_spool_def)

lemma min_bound: "min a b = c \<Longrightarrow> c \<le> (a :: nat)"
  by simp

lemma prune_fits: "fits (fst (prune_expired E m))"
  by (auto simp: prune_expired_def fits_def Let_def split_beta dest: min_bound)

lemma prune_capacity [simp]: "ram_capacity (fst (prune_expired E m)) = ram_capacity m"
  by (simp add: prune_expired_def Let_def split_beta)

lemma mutate_first_length: "mutate_first s f rs = Some l \<Longrightarrow> length l = length rs"
  by (induction rs arbitrary: l) (auto split: if_splits)

lemma apply_fits: "fits (apply_doc_to_ring E d m)"
  by (simp add: apply_doc_to_ring_def fits_def Let_def)

lemma apply_capacity [simp]: "ram_capacity (apply_doc_to_ring E d m) = ram_capacity m"
  by (simp add: apply_doc_to_ring_def Let_def)

lemma read_fits: "fits m \<Longrightarrow> fits (fst (read_spool E f b m n))"
  by (induction E f b m n rule: read_spool.induct) (simp_all add: apply_fits)

lemma fits_step: "fits m \<Longrightarrow> fits (fst (box_step m e))"
proof -
  assume m: "fits m"
  obtain E ev where e: "e = (E, ev)" by (cases e)
  show ?thesis
  proof (cases ev)
    case (Append r)
    then show ?thesis using m
      by (simp add: e append_record_def Let_def split_beta prune_fits split: write_result.split) (simp add: fits_def)
  next
    case (Mutate s f)
    then show ?thesis using m
      by (auto simp: e mutate_by_seq_def fits_def dest: mutate_first_length split: option.split)
  next
    case (PurgePeer p)
    then show ?thesis using m
      by (auto simp: e purge_peer_def Let_def fits_def intro: le_trans [OF length_filter_le])
  next
    case Reload
    have "fits (m\<lparr>ring := [], next_seq := 0\<rparr>)" by (simp add: fits_def)
    from read_fits [OF this] Reload show ?thesis
      by (simp add: e load_def Let_def split_beta split: option.split) (simp add: fits_def)
  qed (use m in \<open>simp_all add: e prune_fits set_default_retention_def set_peer_retention_def clear_peer_retention_def
      split_beta\<close>, use m in \<open>simp_all add: fits_def update_status_def update_attachment_backends_def
      clear_all_peer_retention_def reserve_seq_def set_capacity_def Let_def\<close>)
qed

interpretation mailbox_machine: machine box_step fits
  by unfold_locales (rule fits_step)

section \<open>The count pass\<close>

text \<open>How many records of the same peer are newer than the one at \<open>i\<close>.\<close>

definition newer_same :: "box_env \<Rightarrow> message_record list \<Rightarrow> nat \<Rightarrow> nat" where
  "newer_same E rs i =
    length (filter (\<lambda>j. to_hex E (peer_hash (rs ! j)) = to_hex E (peer_hash (rs ! i))) [Suc i..<length rs])"

definition kept_by_count :: "box_env \<Rightarrow> mailbox \<Rightarrow> message_record list \<Rightarrow> nat \<Rightarrow> bool" where
  "kept_by_count E m rs i =
    (let t = effective_retention_for m (to_hex E (peer_hash (rs ! i))) in
     ret_kind t \<noteq> KCount \<or> ret_value t = 0 \<or> newer_same E rs i < ret_value t)"

lemma upt_split: "i < n \<Longrightarrow> [0..<n] = [0..<i] @ i # [Suc i..<n]"
  using upt_add_eq_append [of 0 i "n - i"] by (simp add: upt_conv_Cons)

lemma take_filter_upt:
  assumes "i < n" "P i"
  shows "i \<in> set (take k (filter P [0..<n])) \<longleftrightarrow> length (filter P [0..<i]) < k"
proof -
  have f: "filter P [0..<n] = filter P [0..<i] @ i # filter P [Suc i..<n]"
    by (subst upt_split [OF assms(1)]) (simp add: assms(2))
  have no: "i \<notin> set (take j (filter P [0..<i]))" for j by (auto dest: in_set_takeD)
  show ?thesis
  proof (cases "length (filter P [0..<i]) < k")
    case True
    then obtain j where "k = length (filter P [0..<i]) + Suc j" using less_imp_Suc_add by fastforce
    then show ?thesis by (simp add: f)
  qed (simp add: f no)
qed

lemma filter_split_length:
  assumes "i < n" "P i"
  shows "length (filter P [0..<n]) = length (filter P [0..<i]) + 1 + length (filter P [Suc i..<n])"
  by (subst upt_split [OF assms(1)]) (simp add: assms(2))

lemma peer_drop_iff:
  assumes "i < length rs"
  shows "i \<in> set (peer_drop E m rs (to_hex E (peer_hash (rs ! i)))) \<longleftrightarrow> \<not> kept_by_count E m rs i"
proof -
  let ?P = "\<lambda>j. to_hex E (peer_hash (rs ! j)) = to_hex E (peer_hash (rs ! i))"
  let ?t = "effective_retention_for m (to_hex E (peer_hash (rs ! i)))"
  have n: "length (filter ?P [0..<length rs]) = length (filter ?P [0..<i]) + 1 + newer_same E rs i"
    unfolding newer_same_def by (rule filter_split_length) (use assms in simp_all)
  have k: "i \<in> set (take k (filter ?P [0..<length rs])) \<longleftrightarrow> length (filter ?P [0..<i]) < k" for k
    by (rule take_filter_upt) (use assms in simp_all)
  have d: "peer_drop E m rs (to_hex E (peer_hash (rs ! i))) =
    (if ret_kind ?t \<noteq> KCount \<or> ret_value ?t = 0 \<or> length (filter ?P [0..<length rs]) \<le> ret_value ?t then []
     else take (length (filter ?P [0..<length rs]) - ret_value ?t) (filter ?P [0..<length rs]))"
    by (simp add: peer_drop_def peer_indices_def Let_def)
  show ?thesis
  proof (cases "ret_kind ?t \<noteq> KCount \<or> ret_value ?t = 0 \<or> length (filter ?P [0..<length rs]) \<le> ret_value ?t")
    case True
    then have "newer_same E rs i < ret_value ?t \<or> ret_kind ?t \<noteq> KCount \<or> ret_value ?t = 0" using n by linarith
    with True show ?thesis by (auto simp: d kept_by_count_def Let_def)
  next
    case False
    then have "i \<in> set (peer_drop E m rs (to_hex E (peer_hash (rs ! i)))) \<longleftrightarrow>
        length (filter ?P [0..<i]) < length (filter ?P [0..<length rs]) - ret_value ?t"
      unfolding d by (simp only: if_False k)
    also have "\<dots> \<longleftrightarrow> \<not> newer_same E rs i < ret_value ?t" using n False by linarith
    finally show ?thesis using False by (simp add: kept_by_count_def Let_def)
  qed
qed

lemma peer_drop_peer: "i \<in> set (peer_drop E m rs p) \<Longrightarrow> i < length rs \<and> to_hex E (peer_hash (rs ! i)) = p"
  by (auto simp: peer_drop_def peer_indices_def Let_def split: if_splits dest!: in_set_takeD)

lemma count_drop_set: "set (count_drop E m rs) = {i. i < length rs \<and> \<not> kept_by_count E m rs i}"
proof -
  have "i \<in> set (count_drop E m rs) \<longleftrightarrow> i < length rs \<and> \<not> kept_by_count E m rs i" for i
  proof
    assume "i \<in> set (count_drop E m rs)"
    then obtain p where "i \<in> set (peer_drop E m rs p)" by (auto simp: count_drop_def)
    with peer_drop_peer [OF this] peer_drop_iff [of i rs E m] show "i < length rs \<and> \<not> kept_by_count E m rs i" by blast
  next
    assume i: "i < length rs \<and> \<not> kept_by_count E m rs i"
    then have "i \<in> set (peer_drop E m rs (to_hex E (peer_hash (rs ! i))))" by (simp add: peer_drop_iff)
    moreover have "rs ! i \<in> set rs" using i by simp
    ultimately show "i \<in> set (count_drop E m rs)" unfolding count_drop_def by (auto simp: image_iff)
  qed
  then show ?thesis by blast
qed

lemma distinct_concat_map:
  assumes "\<And>p. distinct (f p)" "\<And>p q. p \<noteq> q \<Longrightarrow> set (f p) \<inter> set (f q) = {}"
  shows "distinct ps \<Longrightarrow> distinct (concat (map f ps))"
proof (induction ps)
  case (Cons a ps)
  have "set (f a) \<inter> set (f q) = {}" if "q \<in> set ps" for q using assms(2) [of a q] that Cons.prems by auto
  then have "set (f a) \<inter> (\<Union>q \<in> set ps. set (f q)) = {}" by blast
  with Cons assms(1) show ?case by simp
qed simp

lemma count_drop_desc: "sorted_wrt (>) (count_drop E m rs)"
proof -
  let ?l = "concat (map (peer_drop E m rs) (remdups (map (\<lambda>r. to_hex E (peer_hash r)) rs)))"
  have "distinct ?l"
  proof (rule distinct_concat_map)
    fix p q :: string show "distinct (peer_drop E m rs p)" by (simp add: peer_drop_def peer_indices_def Let_def)
    show "p \<noteq> q \<Longrightarrow> set (peer_drop E m rs p) \<inter> set (peer_drop E m rs q) = {}" using peer_drop_peer by blast
  qed simp
  then have "sorted_wrt (<) (sort ?l)" by (simp add: strict_sorted_iff)
  then show ?thesis by (simp add: count_drop_def sorted_wrt_rev)
qed

text \<open>Erasing indices from the greatest down leaves the others.\<close>

definition others :: "'a list \<Rightarrow> nat set \<Rightarrow> 'a list" where
  "others rs A = map ((!) rs) (filter (\<lambda>i. i \<notin> A) [0..<length rs])"

lemma others_drop:
  assumes "i < length rs" "\<forall>j \<in> A. j < i"
  shows "others (take i rs @ drop (Suc i) rs) A = others rs (insert i A)"
proof -
  let ?rs = "take i rs @ drop (Suc i) rs" and ?n = "length rs"
  have l: "length ?rs = ?n - 1" "[0..<?n - 1] = [0..<i] @ [i..<?n - 1]"
    using assms(1) upt_add_eq_append [of 0 i "?n - 1 - i"] by simp_all
  have hi: "filter (\<lambda>j. j \<notin> A) [i..<?n - Suc 0] = [i..<?n - Suc 0]" "filter (\<lambda>j. j \<noteq> i \<and> j \<notin> A) [Suc i..<?n] = [Suc i..<?n]"
    using assms(2) by (auto simp: filter_id_conv)
  have lo: "filter (\<lambda>j. j \<noteq> i \<and> j \<notin> A) [0..<i] = filter (\<lambda>j. j \<notin> A) [0..<i]" by (rule filter_cong) auto
  have m: "map ((!) ?rs) (filter (\<lambda>j. j \<notin> A) [0..<i]) = map ((!) rs) (filter (\<lambda>j. j \<notin> A) [0..<i])"
    using assms(1) by (auto simp: nth_append)
  have "map ((!) ?rs) [i..<?n - 1] = drop (Suc i) rs"
    by (rule nth_equalityI) (use assms(1) in \<open>auto simp: nth_append\<close>)
  moreover have "map ((!) rs) [Suc i..<?n] = drop (Suc i) rs"
    by (rule nth_equalityI) (use assms(1) in auto)
  ultimately show ?thesis
    unfolding others_def l upt_split [OF assms(1)] by (simp add: hi lo m)
qed

lemma erase_indices_others:
  "sorted_wrt (>) is \<Longrightarrow> \<forall>i \<in> set is. i < length rs \<Longrightarrow> erase_indices is rs = (others rs (set is), map ((!) rs) is)"
proof (induction "is" arbitrary: rs)
  case Nil
  then show ?case by (simp add: others_def map_nth)
next
  case (Cons i "is")
  let ?rs = "take i rs @ drop (Suc i) rs"
  have i: "i < length rs" "\<forall>j \<in> set is. j < i" using Cons.prems by auto
  have "erase_indices is ?rs = (others ?rs (set is), map ((!) ?rs) is)"
    using Cons.IH [of ?rs] Cons.prems(1) i by fastforce
  moreover have "map ((!) ?rs) is = map ((!) rs) is" using i by (auto simp: nth_append)
  ultimately show ?case using i others_drop [OF i] by simp
qed

text \<open>The count pass as a filter.\<close>

lemma count_pass:
  "fst (erase_indices (count_drop E m rs) rs) = map ((!) rs) (filter (kept_by_count E m rs) [0..<length rs])"
proof -
  have "fst (erase_indices (count_drop E m rs) rs) = others rs (set (count_drop E m rs))"
    using erase_indices_others [OF count_drop_desc, of E m rs rs] by (simp add: count_drop_set)
  moreover have "filter (\<lambda>i. i \<notin> set (count_drop E m rs)) [0..<length rs] = filter (kept_by_count E m rs) [0..<length rs]"
    by (rule filter_cong) (simp_all add: count_drop_set)
  ultimately show ?thesis by (simp add: others_def)
qed

section \<open>The spool and the ring agree\<close>

definition spool_lines :: "rec_doc list \<Rightarrow> spool_item list" where
  "spool_lines ds = concat (map (\<lambda>d. [Doc d, Newline]) ds)"

text \<open>The file holds whole lines, and its last \<open>ram_capacity\<close> documents are the ring's.\<close>

definition synced :: "box_env \<Rightarrow> mailbox \<Rightarrow> bool" where
  "synced E m \<longleftrightarrow> fits m \<and> (\<exists>ds. (spool m = Some (spool_lines ds) \<or> spool m = None \<and> ds = [])
     \<and> trim (ram_capacity m) ds = map (record_to_doc E) (ring m))"

definition stored :: "box_env \<Rightarrow> message_record \<Rightarrow> message_record" where
  "stored E r = doc_to_record E (record_to_doc E r)"

text \<open>An event of one session with a working file system.\<close>

definition file_ok :: "box_env \<Rightarrow> bool" where
  "file_ok E \<longleftrightarrow> append_result E = Written \<and> rewrite_opens E \<and> (\<forall>i. rewrite_writes E i)"

definition same_coding :: "box_env \<Rightarrow> box_env \<Rightarrow> bool" where
  "same_coding E F \<longleftrightarrow> to_hex F = to_hex E \<and> of_hex F = of_hex E \<and> json_dbl F = json_dbl E"

definition session_event :: "box_env \<Rightarrow> mailbox \<Rightarrow> box_env \<times> box_event \<Rightarrow> bool" where
  "session_event E m e \<longleftrightarrow> same_coding E (fst e) \<and> file_ok (fst e) \<and> (\<forall>n. snd e \<noteq> SetCapacity n) \<and> snd e \<noteq> Reload"

lemma coding_doc: "same_coding E F \<Longrightarrow> record_to_doc F = record_to_doc E"
  by (rule ext) (simp add: same_coding_def record_to_doc_def)

lemma rewrite_lines: "\<forall>i. rewrite_writes F i \<Longrightarrow> rewrite_items F rs = spool_lines (map (record_to_doc F) rs)"
proof -
  assume "\<forall>i. rewrite_writes F i"
  then have "rewrite_items F rs = concat (map (\<lambda>i. [Doc (record_to_doc F (rs ! i)), Newline]) [0..<length rs])"
    by (simp add: rewrite_items_def)
  also have "\<dots> = concat (map (\<lambda>r. [Doc (record_to_doc F r), Newline]) (map ((!) rs) [0..<length rs]))" by (simp add: comp_def)
  finally show ?thesis by (simp only: map_nth spool_lines_def map_map comp_def)
qed

lemma synced_rewrite: "same_coding E F \<Longrightarrow> file_ok F \<Longrightarrow> fits m \<Longrightarrow> synced E (rewrite_spool F m)"
  unfolding synced_def
  by (intro conjI exI [of _ "map (record_to_doc E) (ring m)"])
    (simp_all add: rewrite_spool_def file_ok_def rewrite_lines coding_doc fits_def)

lemma synced_same: "synced E m \<Longrightarrow> ring m' = ring m \<Longrightarrow> spool m' = spool m \<Longrightarrow> ram_capacity m' = ram_capacity m \<Longrightarrow> synced E m'"
  by (simp add: synced_def fits_def)

lemma synced_fits: "synced E m \<Longrightarrow> fits m"
  by (simp add: synced_def)

lemma length_filter_eq_id: "length (filter P l) = length l \<Longrightarrow> filter P l = l"
  by (metis filter_True length_filter_less less_irrefl)

lemma synced_prune:
  assumes "same_coding E F" "file_ok F" "synced E m"
  shows "synced E (fst (prune_expired F m))"
proof (cases "peer_retention m = [] \<and> ret_kind (default_retention m) = KNone")
  case True
  have "trim (ram_capacity m) (ring m) = ring m" using synced_fits [OF assms(3)] by (simp add: fits_def)
  with True assms(3) show ?thesis by (simp add: prune_expired_def)
next
  case False
  define r1 where "r1 = fst (time_pass F m (ring m))"
  define m' where "m' = m\<lparr>ring := trim (ram_capacity m) (fst (erase_indices (count_drop F m r1) r1))\<rparr>"
  have p: "fst (prune_expired F m) = (if length (ring m') \<noteq> length (ring m) then rewrite_spool F m' else m')"
    unfolding prune_expired_def if_not_P [OF False] by (simp add: split_beta Let_def r1_def m'_def)
  have same: "ring m' = ring m" if "length (ring m') = length (ring m)"
  proof -
    have c: "length (ring m) \<le> ram_capacity m" using synced_fits [OF assms(3)] by (simp add: fits_def)
    let ?r2 = "fst (erase_indices (count_drop F m r1) r1)"
    have l: "length ?r2 \<le> length r1" "length r1 \<le> length (ring m)"
      by (simp_all add: count_pass le_trans [OF length_filter_le] r1_def time_pass_def)
    then have e: "length r1 = length (ring m)" "length ?r2 = length r1" using that by (simp_all add: m'_def)
    have "r1 = ring m" using e(1) by (auto simp: r1_def time_pass_def dest: length_filter_eq_id split: if_splits)
    moreover have "filter (kept_by_count F m r1) [0..<length r1] = [0..<length r1]"
      by (rule length_filter_eq_id) (use e(2) in \<open>simp add: count_pass\<close>)
    then have "?r2 = r1" by (simp add: count_pass map_nth)
    ultimately show ?thesis using c by (simp add: m'_def)
  qed
  have f: "fits m'" "spool m' = spool m" "ram_capacity m' = ram_capacity m" by (simp_all add: m'_def fits_def)
  show ?thesis
    using p synced_rewrite [OF assms(1,2) f(1)] synced_same [OF assms(3) same f(2,3)] by auto
qed

lemma trim_append: "trim n (trim n q @ l) = trim n (q @ l)"
proof (induction l rule: rev_induct)
  case (snoc x l)
  have "trim n (trim n q @ l @ [x]) = trim n (trim n (trim n q @ l) @ [x])" by (simp only: trim_trim append_assoc)
  also have "\<dots> = trim n (q @ l @ [x])" by (simp only: snoc trim_trim append_assoc)
  finally show ?case by simp
qed (simp add: trim_def)

lemma lines_append: "spool_lines ds @ [Doc d, Newline] = spool_lines (ds @ [d])"
  by (simp add: spool_lines_def)

lemma synced_append:
  assumes "same_coding E F" "file_ok F" "synced E m"
  shows "synced E (fst (append_record F r m))"
proof -
  obtain ds where ds: "spool m = Some (spool_lines ds) \<or> spool m = None \<and> ds = []"
    "trim (ram_capacity m) ds = map (record_to_doc E) (ring m)" using assms(3) by (auto simp: synced_def)
  define m1 where "m1 = (if rec_seq r = 0 then m\<lparr>next_seq := wrap32 (next_seq m + 1)\<rparr>
     else if rec_seq r > next_seq m then m\<lparr>next_seq := rec_seq r\<rparr> else m)"
  define r1 where "r1 = (if rec_seq r = 0 then r\<lparr>rec_seq := next_seq m1\<rparr> else r)\<lparr>body_size := wrap32 (length (content r))\<rparr>"
  define m3 where "m3 = m1\<lparr>spool := Some (spool_lines (ds @ [record_to_doc E r1])), ring := trim (ram_capacity m1) (ring m1 @ [r1])\<rparr>"
  have s: "(case spool m1 of None \<Rightarrow> [] | Some f \<Rightarrow> f) = spool_lines ds" "ring m1 = ring m" "ram_capacity m1 = ram_capacity m"
    using ds(1) by (auto simp: m1_def spool_lines_def)
  have "trim (ram_capacity m) (ds @ [record_to_doc E r1]) = map (record_to_doc E) (trim (ram_capacity m) (ring m @ [r1]))"
    using trim_trim [of "ram_capacity m" ds "record_to_doc E r1"] ds(2) by (simp add: trim_map [symmetric])
  then have "synced E m3" unfolding synced_def
    by (intro conjI exI [of _ "ds @ [record_to_doc E r1]"]) (simp_all add: m3_def fits_def s)
  moreover have "fst (append_record F r m) = fst (prune_expired F m3)"
    using assms(2) by (simp add: append_record_def m1_def [symmetric] r1_def [symmetric] Let_def split_beta file_ok_def
        coding_doc [OF assms(1)] m3_def s lines_append)
  ultimately show ?thesis using synced_prune [OF assms(1,2)] by simp
qed

lemma mutate_ring: "mutate_first s f rs = Some l \<Longrightarrow> length l = length rs"
  by (rule mutate_first_length)

lemma synced_step:
  assumes "session_event E m e" "synced E m"
  shows "synced E (fst (box_step m e))"
proof -
  obtain F ev where e: "e = (F, ev)" by (cases e)
  have c: "same_coding E F" "file_ok F" using assms(1) by (simp_all add: session_event_def e)
  note ft = synced_fits [OF assms(2)] and rw = synced_rewrite [OF c] and pr = synced_prune [OF c]
  have sm: "synced E (m\<lparr>peer_retention := q\<rparr>)" "synced E (m\<lparr>default_retention := d\<rparr>)" "synced E (m\<lparr>next_seq := n\<rparr>)" for q d n
    using synced_same [OF assms(2)] by simp_all
  show ?thesis
  proof (cases ev)
    case (Append r)
    then show ?thesis using synced_append [OF c assms(2)] by (simp add: e split_beta)
  next
    case (Mutate s f)
    then show ?thesis using assms(2) ft
      by (auto simp: e mutate_by_seq_def fits_def dest: mutate_first_length intro!: rw split: option.split)
  next
    case (PurgePeer p)
    have "filter (\<lambda>r. peer_hash r \<noteq> p) (ring m) = ring m" if "filter (\<lambda>r. peer_hash r = p) (ring m) = []"
      using that by (auto simp: filter_empty_conv filter_id_conv)
    with PurgePeer show ?thesis using assms(2) ft synced_same [OF assms(2)]
      by (auto simp: e purge_peer_def Let_def fits_def intro!: rw intro: le_trans [OF length_filter_le])
  next
    case (UpdateStatus h st)
    then show ?thesis using assms(2) ft by (auto simp: e update_status_def fits_def intro!: rw)
  next
    case (MoveBackends a b)
    have "map (\<lambda>r. r\<lparr>attachments := map (move_backend a b) (attachments r)\<rparr>) (ring m) = ring m"
      if "(\<Sum>r\<leftarrow>ring m. length (filter (\<lambda>x. m_backend x = a) (attachments r))) = 0"
    proof (rule map_idI)
      fix r assume "r \<in> set (ring m)"
      then have "filter (\<lambda>x. m_backend x = a) (attachments r) = []" using that by (auto simp: sum_list_eq_0_iff)
      then have "map (move_backend a b) (attachments r) = attachments r"
        by (auto simp: filter_empty_conv move_backend_def intro!: map_idI)
      then show "r\<lparr>attachments := map (move_backend a b) (attachments r)\<rparr> = r" by simp
    qed
    with MoveBackends show ?thesis using ft synced_same [OF assms(2)]
      by (auto simp: e update_attachment_backends_def Let_def fits_def intro!: rw)
  qed (use assms ft in \<open>auto simp: e session_event_def set_default_retention_def set_peer_retention_def clear_peer_retention_def
      clear_all_peer_retention_def reserve_seq_def Let_def split_beta intro!: pr sm\<close>)
qed

definition stays_synced :: "box_env \<Rightarrow> mailbox \<Rightarrow> mailbox \<Rightarrow> box_out list \<Rightarrow> bool" where
  "stays_synced E m m' out \<longleftrightarrow> (synced E m \<longrightarrow> synced E m')"

interpretation spool_file: traced box_step fits "session_event E" "stays_synced E"
  by unfold_locales (simp_all add: stays_synced_def synced_step)

text \<open>What \<open>load\<close> reads from whole lines.\<close>

lemma read_lines:
  "ram_capacity (fst (read_spool E (spool_lines ds) False m n)) = ram_capacity m"
  "length (ring m) \<le> ram_capacity m \<Longrightarrow>
    ring (fst (read_spool E (spool_lines ds) False m n)) = trim (ram_capacity m) (ring m @ map (doc_to_record E) ds)"
  "next_seq (fst (read_spool E (spool_lines ds) False m n)) = foldl max (next_seq m) (map (\<lambda>d. rec_seq (doc_to_record E d)) ds)"
proof (induction ds arbitrary: m n)
  case (Cons d ds)
  have s: "read_spool E (spool_lines (d # ds)) False m n = read_spool E (spool_lines ds) False (apply_doc_to_ring E d m) (n + 1)" for m n
    by (simp add: spool_lines_def)
  { case 1 show ?case by (simp only: s Cons.IH(1) apply_capacity) }
  { case 2
    have "length (ring (apply_doc_to_ring E d m)) \<le> ram_capacity (apply_doc_to_ring E d m)"
      using apply_fits [of E d m] by (simp add: fits_def)
    from Cons.IH(2) [OF this] show ?case
      by (simp only: s apply_capacity) (simp add: apply_doc_to_ring_def Let_def trim_append) }
  { case 3 show ?case by (simp only: s Cons.IH(3)) (simp add: apply_doc_to_ring_def Let_def) }
qed (simp_all add: spool_lines_def)

lemma load_synced:
  assumes "synced E m"
  shows "ring (load E m) = map (stored E) (ring m)"
proof -
  obtain ds where ds: "spool m = Some (spool_lines ds) \<or> spool m = None \<and> ds = []"
    "trim (ram_capacity m) ds = map (record_to_doc E) (ring m)" using assms by (auto simp: synced_def)
  show ?thesis
  proof (cases "ds = []")
    case True
    then show ?thesis using ds by (auto simp: load_def spool_lines_def)
  next
    case False
    then have "spool m = Some (spool_lines ds)" "spool_lines ds \<noteq> []" using ds(1) by (cases ds; simp add: spool_lines_def)+
    then have "ring (load E m) = ring (fst (read_spool E (spool_lines ds) False (m\<lparr>ring := [], next_seq := 0\<rparr>) 0))"
      by (simp add: load_def Let_def split_beta)
    also have "\<dots> = map (doc_to_record E) (trim (ram_capacity m) ds)"
      by (subst read_lines(2)) (simp_all add: trim_map)
    finally show ?thesis by (simp add: ds(2) stored_def comp_def)
  qed
qed

section \<open>Properties\<close>

text \<open>A record that survives its JSON form.\<close>

definition plain :: "bytes \<Rightarrow> bool" where
  "plain b \<longleftrightarrow> 0 \<notin> set b"

definition storable_att :: "attachment_meta \<Rightarrow> bool" where
  "storable_att a \<longleftrightarrow> m_size a < 2147483648 \<and> plain (m_filename a) \<and> plain (m_display a) \<and> plain (m_mime a)
     \<and> plain (m_backend a) \<and> m_backend a \<noteq> []"

definition storable :: "box_env \<Rightarrow> message_record \<Rightarrow> bool" where
  "storable E r \<longleftrightarrow> rec_seq r < 2147483648 \<and> boot_epoch r < 2147483648 \<and> received_ms r < 2147483648
     \<and> of_hex E (to_hex E (peer_hash r)) = peer_hash r \<and> of_hex E (to_hex E (packet_hash r)) = packet_hash r
     \<and> of_hex E (to_hex E (rec_telemetry r)) = rec_telemetry r \<and> plain (title r) \<and> plain (content r)
     \<and> body_size r = wrap32 (length (content r)) \<and> rec_status r \<noteq> FindingRoute \<and> rec_commands r = [] \<and> rec_meta r = []
     \<and> - 1 \<le> stamp_value r \<and> (stamp_checked r \<or> \<not> stamp_valid r \<and> stamp_value r = - 1) \<and> (\<forall>a \<in> set (attachments r). storable_att a)"

lemma c_str_plain [simp]: "plain b \<Longrightarrow> c_str (Some b) = b"
  by (auto simp: c_str_def plain_def takeWhile_eq_all_conv)

lemma status_name: "s \<noteq> FindingRoute \<Longrightarrow> status_from_name (outbox_status_name s) = s"
  by (cases s) (simp_all add: status_from_name_def)

lemma attachment_back: "storable_att a \<Longrightarrow> doc_attachment (attachment_doc a) = a"
proof -
  assume a: "storable_att a"
  have "int_or0 (Some (unat (m_tag a))) = unat (m_tag a)" using unat_u8_less [of "m_tag a"] by (simp add: int_or0_def)
  with a show ?thesis
    by (simp add: storable_att_def doc_attachment_def attachment_doc_def int_or0_def) (simp add: c_str_def)
qed

lemma int_back: "n < 2147483648 \<Longrightarrow> int_or0 (Some n) = n"
  by (simp add: int_or0_def)

lemma stored_storable:
  assumes "storable E r"
  shows "stored E r = r\<lparr>rec_ts := json_dbl E (rec_ts r)\<rparr>"
proof -
  note r = assms [unfolded storable_def]
  have att: "(case if attachments r = [] then None else Some (map attachment_doc (attachments r)) of None \<Rightarrow> []
      | Some l \<Rightarrow> map doc_attachment l) = attachments r"
    using r by (auto simp: comp_def attachment_back intro!: map_idI)
  have hex: "(case if packet_hash r = [] then None else Some (to_hex E (packet_hash r)) of None \<Rightarrow> [] | Some h \<Rightarrow> of_hex E h) = packet_hash r"
    "(case if rec_telemetry r = [] then None else Some (to_hex E (rec_telemetry r)) of None \<Rightarrow> [] | Some h \<Rightarrow> of_hex E h) = rec_telemetry r"
    using r by simp_all
  have tel: "((if has_telemetry r then Some True else None) = Some True) = has_telemetry r" by simp
  have st: "((if stamp_checked r then Some (stamp_valid r) else None) \<noteq> None) = stamp_checked r"
    "((if stamp_checked r then Some (stamp_valid r) else None) = Some True) = stamp_valid r"
    "(if (if stamp_checked r then Some (stamp_valid r) else None) = None then - 1
      else case if stamp_checked r \<and> 0 \<le> stamp_value r then Some (stamp_value r) else None of None \<Rightarrow> - 1 | Some v \<Rightarrow> v) = stamp_value r"
    using r by auto
  have sn: "status_from_name (outbox_status_name (rec_status r)) = rec_status r" using r status_name by blast
  have bs: "(if 0 < body_size r then body_size r else wrap32 (length (content r))) = body_size r" using r by auto
  have "stored E r = \<lparr>rec_seq = rec_seq r, rec_ts = json_dbl E (rec_ts r), boot_epoch = boot_epoch r, received_ms = received_ms r,
      peer_hash = peer_hash r, title = title r, content = content r, body_size = body_size r, incoming = incoming r,
      signature_ok = signature_ok r, rec_status = rec_status r, packet_hash = packet_hash r, has_telemetry = has_telemetry r,
      rec_telemetry = rec_telemetry r, rec_commands = [], rec_meta = [], stamp_checked = stamp_checked r,
      stamp_valid = stamp_valid r, stamp_value = stamp_value r, attachments = attachments r\<rparr>"
    unfolding stored_def doc_to_record_def record_to_doc_def Let_def rec_doc.simps att hex tel st bs
      option.case sn
    using r by (simp only: int_back c_str_plain option.inject) simp
  then show ?thesis using r by (cases r) simp
qed

text \<open>What a reboot makes of a record: within the limits of the JSON form only the time stamp is rounded.\<close>

definition reloaded :: "box_env \<Rightarrow> message_record \<Rightarrow> message_record" where
  "reloaded E r = (if storable E r then r\<lparr>rec_ts := json_dbl E (rec_ts r)\<rparr> else stored E r)"

lemma stored_reloaded: "stored E = reloaded E"
  by (rule ext) (simp add: reloaded_def stored_storable)

text \<open>C23. A reboot loses nothing: after any session of appends, status updates, purges, prunes and
  retention changes on a working file system, reading the spool back gives the ring, record by
  record as its JSON form; a record within the limits of that form comes back as it was but for the
  decimal rounding of its time stamp.\<close>

theorem session_reload:
  assumes "synced E m" "run_ok (session_event E) box_step es m"
  shows "ring (load E (fst (run box_step es m))) = map (reloaded E) (ring (fst (run box_step es m)))"
proof -
  have "stays_synced E m (fst (run box_step es m)) (snd (run box_step es m))"
    using synced_fits [OF assms(1)] assms(2) by (rule spool_file.run_rel)
  then have "synced E (fst (run box_step es m))" using assms(1) by (simp add: stays_synced_def)
  then show ?thesis using load_synced by (simp add: stored_reloaded)
qed

definition sample_box :: "box_env" where
  "sample_box = \<lparr>to_hex = map (\<lambda>b. char_of (unat b)), of_hex = map (\<lambda>c. word_of_nat (of_char c)), dval = (\<lambda>_. Fin 1750000000),
     json_dbl = (\<lambda>t. t), box_now = Fin 1750000100, on_remove = True, append_result = Written, rewrite_opens = True,
     rewrite_writes = (\<lambda>_. True)\<rparr>"

definition sample_mail :: "nat \<Rightarrow> hash \<Rightarrow> message_record" where
  "sample_mail q p = blank_record\<lparr>rec_seq := q, peer_hash := p, content := [0x68, 0x69], body_size := 2\<rparr>"

definition empty_box :: "nat \<Rightarrow> mailbox" where
  "empty_box cap = new_mailbox None cap no_retention"

lemma empty_synced: "synced E (empty_box cap)"
  by (simp add: synced_def empty_box_def new_mailbox_def fits_def trim_def)

lemma sample_file: "file_ok sample_box" "same_coding sample_box sample_box"
  by (simp_all add: file_ok_def same_coding_def sample_box_def)

theorem session_reload_witness:
  "ring (load sample_box (fst (run box_step [(sample_box, Append (sample_mail 0 [1])), (sample_box, UpdateStatus [] Failed)] (empty_box 5)))) =
      map (reloaded sample_box) (ring (fst (run box_step [(sample_box, Append (sample_mail 0 [1])), (sample_box, UpdateStatus [] Failed)] (empty_box 5))))"
  by (rule session_reload [OF empty_synced]) (simp add: session_event_def sample_file)

text \<open>C24. Pruning is a filter: what stays of the ring are the records that are not expired and that have
  fewer newer records of their peer than the peer's count allows, in order, cut to the capacity.\<close>

theorem prune_reference:
  "ring (fst (prune_expired E m)) =
    (let rs = (if dless (Fin 0) (box_now E) then filter (\<lambda>r. \<not> expired E m r) (ring m) else ring m)
     in trim (ram_capacity m) (map ((!) rs) (filter (kept_by_count E m rs) [0..<length rs])))"
proof (cases "peer_retention m = [] \<and> ret_kind (default_retention m) = KNone")
  case True
  then have t: "ret_kind (effective_retention_for m p) = KNone" for p by (simp add: effective_retention_for_def mfind_def)
  then have "\<not> expired E m r" "kept_by_count E m rs i" for r rs i by (simp_all add: expired_def kept_by_count_def Let_def)
  with True show ?thesis by (simp add: prune_expired_def map_nth)
next
  case False
  then show ?thesis
    unfolding prune_expired_def if_not_P [OF False] by (simp add: split_beta Let_def count_pass time_pass_def)
qed

section \<open>Where it goes wrong\<close>

definition no_policy :: "mailbox \<Rightarrow> bool" where
  "no_policy m \<longleftrightarrow> peer_retention m = [] \<and> ret_kind (default_retention m) = KNone"

lemma append_plain:
  assumes "file_ok E" "no_policy m"
  obtains m1 r1 where "append_record E r m = (m1, removed E (take (Suc (length (ring m)) - ram_capacity m) (ring m @ [r1])), r1, True)"
    "ring m1 = trim (ram_capacity m) (ring m @ [r1])" "no_policy m1" "ram_capacity m1 = ram_capacity m"
    "spool m1 = Some ((case spool m of None \<Rightarrow> [] | Some f \<Rightarrow> f) @ [Doc (record_to_doc E r1), Newline])"
    "rec_seq r1 = (if rec_seq r = 0 then wrap32 (next_seq m + 1) else rec_seq r)" "peer_hash r1 = peer_hash r"
    "packet_hash r1 = packet_hash r" "next_seq m1 = (if rec_seq r = 0 then wrap32 (next_seq m + 1) else max (next_seq m) (rec_seq r))"
proof -
  define m0 where "m0 = (if rec_seq r = 0 then m\<lparr>next_seq := wrap32 (next_seq m + 1)\<rparr>
     else if rec_seq r > next_seq m then m\<lparr>next_seq := rec_seq r\<rparr> else m)"
  define r1 where "r1 = (if rec_seq r = 0 then r\<lparr>rec_seq := next_seq m0\<rparr> else r)\<lparr>body_size := wrap32 (length (content r))\<rparr>"
  define m1 where "m1 = m0\<lparr>spool := Some ((case spool m of None \<Rightarrow> [] | Some f \<Rightarrow> f) @ [Doc (record_to_doc E r1), Newline]),
    ring := trim (ram_capacity m) (ring m @ [r1])\<rparr>"
  have s: "spool m0 = spool m" "ring m0 = ring m" "ram_capacity m0 = ram_capacity m" "no_policy m0"
    "next_seq m0 = (if rec_seq r = 0 then wrap32 (next_seq m + 1) else max (next_seq m) (rec_seq r))"
    using assms(2) by (auto simp: m0_def no_policy_def)
  have np: "no_policy m1" using s(4) by (simp add: m1_def no_policy_def)
  have "prune_expired E m1 = (m1, [])"
    using np by (simp add: prune_expired_def no_policy_def) (simp add: m1_def s)
  then have "append_record E r m = (m1, removed E (take (Suc (length (ring m)) - ram_capacity m) (ring m @ [r1])), r1, True)"
    using assms(1) by (simp add: append_record_def m0_def [symmetric] r1_def [symmetric] Let_def file_ok_def s m1_def)
  from that [OF this] show thesis using np s(5) by (simp add: m1_def s) (simp add: r1_def s(5) m0_def)
qed

lemma read_policy:
  "peer_retention (fst (read_spool E f b m n)) = peer_retention m \<and> default_retention (fst (read_spool E f b m n)) = default_retention m"
  by (induction E f b m n rule: read_spool.induct) (simp_all add: apply_doc_to_ring_def Let_def)

lemma load_policy: "no_policy (load E m) = no_policy m"
proof (cases "spool m")
  case (Some f)
  show ?thesis using read_policy [of E f False "m\<lparr>ring := [], next_seq := 0\<rparr>" 0]
    by (simp add: Some load_def Let_def split_beta no_policy_def)
qed (simp add: load_def no_policy_def)

lemma load_seq:
  assumes "synced E m" "length (ring m) < ram_capacity m" "\<forall>r \<in> set (ring m). rec_seq r < 2147483648"
  shows "next_seq (load E m) = foldl max 0 (map rec_seq (ring m))"
proof -
  obtain ds where ds: "spool m = Some (spool_lines ds) \<or> spool m = None \<and> ds = []"
    "trim (ram_capacity m) ds = map (record_to_doc E) (ring m)" using assms(1) by (auto simp: synced_def)
  have "length (trim (ram_capacity m) ds) = length (ring m)" using ds(2) by simp
  then have "length ds \<le> ram_capacity m" using assms(2) by (simp add: min_def split: if_splits)
  then have d: "ds = map (record_to_doc E) (ring m)" using ds(2) by simp
  have s: "rec_seq (doc_to_record E (record_to_doc E r)) = rec_seq r" if "r \<in> set (ring m)" for r
    using assms(3) that by (simp add: doc_to_record_def record_to_doc_def Let_def int_back)
  then have q: "map (\<lambda>d. rec_seq (doc_to_record E d)) ds = map rec_seq (ring m)" by (simp add: d comp_def cong: map_cong)
  show ?thesis
  proof (cases "ds = []")
    case True
    then show ?thesis using ds d by (auto simp: load_def spool_lines_def)
  next
    case False
    then have "spool m = Some (spool_lines ds)" "spool_lines ds \<noteq> []" using ds(1) by (cases ds; simp add: spool_lines_def)+
    then have "next_seq (load E m) = next_seq (fst (read_spool E (spool_lines ds) False (m\<lparr>ring := [], next_seq := 0\<rparr>) 0))"
      by (simp add: load_def Let_def split_beta)
    then show ?thesis by (simp add: read_lines(3) q)
  qed
qed

lemma foldl_max_ge: "x \<in> set l \<or> x \<le> (a :: nat) \<Longrightarrow> x \<le> foldl max a l"
proof (induction l arbitrary: a)
  case (Cons y l)
  then show ?case by (simp only: foldl_Cons) (rule Cons.IH, auto)
qed simp

text \<open>A number is given twice: purging the conversation that holds the newest record and rebooting
  makes the next message reuse its sequence number, although numbers are to continue across
  reboots.\<close>

theorem seq_reused:
  assumes "file_ok E" "no_policy m" "synced E m" "length (ring m) < ram_capacity m"
    "next_seq m = foldl max 0 (map rec_seq (ring m))" "next_seq m < 2147483647" "\<forall>q \<in> set (ring m). peer_hash q \<noteq> p"
    "rec_seq r = 0" "peer_hash r = p" "rec_seq r' = 0"
    "append_record E r m = (m1, o1, r1, ok)" "purge_peer E p m1 = (m2, o2, k)" "append_record E r' (load E m2) = (m3, o3, r3, ok')"
  shows "rec_seq r1 = next_seq m + 1 \<and> rec_seq r3 = rec_seq r1"
proof -
  have c: "same_coding E E" by (simp add: same_coding_def)
  obtain m1' r1' where a: "append_record E r m = (m1', removed E (take (Suc (length (ring m)) - ram_capacity m) (ring m @ [r1'])), r1', True)"
    "ring m1' = trim (ram_capacity m) (ring m @ [r1'])" "no_policy m1'" "ram_capacity m1' = ram_capacity m"
    "rec_seq r1' = wrap32 (next_seq m + 1)" "peer_hash r1' = p"
    using append_plain [OF assms(1,2), of r] assms(8,9) by metis
  have e: "m1' = m1" "r1' = r1" using a(1) assms(11) by simp_all
  have s1: "rec_seq r1 = next_seq m + 1" using a(5) assms(6) by (simp add: e wrap32_def)
  have r1: "ring m1 = ring m @ [r1]" using a(2) assms(4) by (simp add: e)
  have y1: "synced E m1" using synced_append [OF c assms(1,3), of r] assms(11) by simp
  have m2: "m2 = fst (box_step m1 (E, PurgePeer p))" using assms(12) by simp
  then have y2: "synced E m2" by (simp only:) (rule synced_step [OF _ y1], simp add: session_event_def c assms(1))
  have r2: "ring m2 = ring m" "ram_capacity m2 = ram_capacity m" "no_policy m2"
    using assms(7,12) r1 a(3,4,6) by (auto simp: purge_peer_def Let_def e filter_id_conv no_policy_def split: if_splits)
  have "\<forall>q \<in> set (ring m2). rec_seq q < 2147483648"
    using foldl_max_ge [of _ "map rec_seq (ring m)" 0] assms(5,6) by (fastforce simp: r2)
  then have "next_seq (load E m2) = next_seq m" using load_seq [OF y2] r2 assms(4,5) by simp
  moreover have "no_policy (load E m2)" using r2 by (simp add: load_policy)
  ultimately have "rec_seq r3 = wrap32 (next_seq m + 1)"
    using append_plain [OF assms(1), of "load E m2" r'] assms(10,13) by (metis Pair_inject)
  with s1 assms(6) show ?thesis by (simp add: wrap32_def)
qed

theorem seq_reused_witness:
  "let m = empty_box 5; m1 = fst (append_record sample_box (sample_mail 0 [1]) m); m2 = fst (purge_peer sample_box [1] m1) in
    rec_seq (fst (snd (snd (append_record sample_box (sample_mail 0 [1]) m)))) = next_seq m + 1
    \<and> rec_seq (fst (snd (snd (append_record sample_box (sample_mail 0 [2]) (load sample_box m2))))) =
      rec_seq (fst (snd (snd (append_record sample_box (sample_mail 0 [1]) m))))"
proof -
  obtain m1 o1 r1 ok where a: "append_record sample_box (sample_mail 0 [1]) (empty_box 5) = (m1, o1, r1, ok)" by (metis prod_cases4)
  obtain m2 o2 k where p: "purge_peer sample_box [1] m1 = (m2, o2, k)" by (metis prod_cases3)
  obtain m3 o3 r3 ok' where b: "append_record sample_box (sample_mail 0 [2]) (load sample_box m2) = (m3, o3, r3, ok')" by (metis prod_cases4)
  have n: "no_policy (empty_box 5)" "length (ring (empty_box 5)) < ram_capacity (empty_box 5)" "\<forall>q \<in> set (ring (empty_box 5)). peer_hash q \<noteq> [1]"
    "next_seq (empty_box 5) = foldl max 0 (map rec_seq (ring (empty_box 5)))" "next_seq (empty_box 5) < 2147483647"
    by (simp_all add: empty_box_def new_mailbox_def no_policy_def no_retention_def)
  have r: "rec_seq (sample_mail 0 [1]) = 0" "peer_hash (sample_mail 0 [1]) = [1]" "rec_seq (sample_mail 0 [2]) = 0"
    by (simp_all add: sample_mail_def)
  show ?thesis using seq_reused [OF sample_file(1) n(1) empty_synced n(2,4,5,3) r a p b] by (simp add: a p b Let_def)
qed

text \<open>The outbox finds a record by its packet hash, and every message sent over a reused link carries
  the hash of that link: a status meant for the newest message overwrites the status of the earlier
  ones, so a failed send turns a delivered message into a failed one.\<close>

theorem status_hits_earlier_message:
  assumes "choose_link (net W) d (links n) = (s1, a1, Some (l, True))" "send_direct W n d csize w r = (n', acts, Inr r')"
    "file_ok E" "no_policy m" "length (ring m) < ram_capacity m" "q \<in> set (ring m)" "packet_hash q = l"
    "append_record E r' m = (m1, o1, r1, ok)" "update_status E l st m1 = (m2, found)"
  shows "found \<and> q\<lparr>rec_status := st\<rparr> \<in> set (ring m2) \<and> r1\<lparr>rec_status := st\<rparr> \<in> set (ring m2)"
proof -
  have h: "packet_hash r' = l"
    using assms(1,2) by (auto simp: send_direct_def Let_def split_beta)
  obtain m1' r1' where a: "append_record E r' m = (m1', removed E (take (Suc (length (ring m)) - ram_capacity m) (ring m @ [r1'])), r1', True)"
    "ring m1' = trim (ram_capacity m) (ring m @ [r1'])" "packet_hash r1' = packet_hash r'"
    using append_plain [OF assms(3,4), of r'] by metis
  have e: "m1' = m1" "r1' = r1" using a(1) assms(8) by simp_all
  have r: "ring m1 = ring m @ [r1]" using a(2) assms(5) by (simp add: e)
  have "m2 = rewrite_spool E (m1\<lparr>ring := map (\<lambda>r. if packet_hash r = l then r\<lparr>rec_status := st\<rparr> else r) (ring m1)\<rparr>) \<and> found"
    using assms(7,9) assms(6) by (auto simp: update_status_def r split: if_splits)
  then show ?thesis using assms(6,7) a(3) h by (auto simp: r e image_iff intro: bexI [of _ q])
qed

definition idle_node :: node where
  "idle_node = sample_node\<lparr>links := sample_outbox\<lparr>pend := []\<rparr>\<rparr>"

definition sent_box :: mailbox where
  "sent_box = (empty_box 5)\<lparr>ring := [blank_record\<lparr>rec_seq := 1, packet_hash := [1]\<rparr>], next_seq := 1\<rparr>"

theorem status_hits_earlier_message_witness:
  "let r' = projr (snd (snd (send_direct sample_world idle_node [2] 0 [] blank_record))); a = append_record sample_box r' sent_box;
      u = update_status sample_box [1] Failed (fst a)
    in snd u \<and> blank_record\<lparr>rec_seq := 1, packet_hash := [1], rec_status := Failed\<rparr> \<in> set (ring (fst u))
      \<and> fst (snd (snd a))\<lparr>rec_status := Failed\<rparr> \<in> set (ring (fst u))"
proof -
  have c: "choose_link (net sample_world) [2] (links idle_node) = (links idle_node, [], Some ([1], True))"
    by (simp add: choose_link_def idle_node_def send_samples samples mfind_def)
  obtain n' acts r' where s: "send_direct sample_world idle_node [2] 0 [] blank_record = (n', acts, Inr r')"
    by (simp add: send_direct_def c Let_def split_beta)
  obtain m1 o1 r1 ok where a: "append_record sample_box r' sent_box = (m1, o1, r1, ok)" by (metis prod_cases4)
  obtain m2 f where u: "update_status sample_box [1] Failed m1 = (m2, f)" by (metis surj_pair)
  have b: "no_policy sent_box" "length (ring sent_box) < ram_capacity sent_box"
    "blank_record\<lparr>rec_seq := 1, packet_hash := [1]\<rparr> \<in> set (ring sent_box)" "packet_hash (blank_record\<lparr>rec_seq := 1, packet_hash := [1]\<rparr>) = [1]"
    by (simp_all add: sent_box_def empty_box_def new_mailbox_def no_policy_def no_retention_def)
  from status_hits_earlier_message [OF c s sample_file(1) b a u] show ?thesis by (simp add: s a u Let_def)
qed

text \<open>Without a retention policy the spool is never compacted while the node runs: \<open>n\<close> appends add \<open>n\<close>
  lines to the file although the ring keeps its capacity.\<close>

theorem spool_grows:
  assumes "file_ok E" "no_policy m" "fits m" "spool m = Some f"
  shows "length (ring (fst (run box_step (map (\<lambda>r. (E, Append r)) rs) m))) \<le> ram_capacity m
    \<and> (\<exists>f'. spool (fst (run box_step (map (\<lambda>r. (E, Append r)) rs) m)) = Some f' \<and> length f' = length f + 2 * length rs)"
  using assms(2-4)
proof (induction rs arbitrary: m f)
  case (Cons r rs)
  obtain m1 r1 where a: "append_record E r m = (m1, removed E (take (Suc (length (ring m)) - ram_capacity m) (ring m @ [r1])), r1, True)"
    "ring m1 = trim (ram_capacity m) (ring m @ [r1])" "no_policy m1" "ram_capacity m1 = ram_capacity m"
    "spool m1 = Some ((case spool m of None \<Rightarrow> [] | Some f \<Rightarrow> f) @ [Doc (record_to_doc E r1), Newline])"
    using append_plain [OF assms(1) Cons.prems(1), of r] by metis
  have "fits m1" using a(2,4) by (simp add: fits_def)
  from Cons.IH [OF a(3) this a(5)] show ?case using Cons.prems(3) a(1,4) by (simp add: split_beta)
qed (simp add: fits_def)

theorem spool_grows_witness:
  "length (ring (fst (run box_step (map (\<lambda>r. (sample_box, Append r)) [sample_mail 0 [1], sample_mail 0 [2]]) (new_mailbox (Some []) 1 no_retention)))) \<le> 1
    \<and> (\<exists>f'. spool (fst (run box_step (map (\<lambda>r. (sample_box, Append r)) [sample_mail 0 [1], sample_mail 0 [2]]) (new_mailbox (Some []) 1 no_retention)))
      = Some f' \<and> length f' = 4)"
  using spool_grows [OF sample_file(1), of "new_mailbox (Some []) 1 no_retention" "[]" "[sample_mail 0 [1], sample_mail 0 [2]]"]
  by (simp add: new_mailbox_def no_policy_def no_retention_def fits_def del: run.simps)

end
