(* ===== verification/Ratchets.thy ===== *)
theory Ratchets
  imports LxmfTypes
begin

text \<open>
  The ring of X25519 ratchet keys of an identity, \<open>src/src/LXMF/RatchetStore.h\<close>: rotation, lookup
  from the newest back, and its file. A fresh key pair and the outcome of the file system calls
  are parameters; a file is its bytes.
\<close>

section \<open>The ring\<close>

definition LXMF_RATCHET_RING_MAX :: nat where "LXMF_RATCHET_RING_MAX = 16"
definition RATCHET_BYTES :: nat where "RATCHET_BYTES = 32"
definition FILE_MAGIC :: nat where "FILE_MAGIC = 0x52415443"
definition FILE_VERSION :: u8 where "FILE_VERSION = 1"

lemmas ratchet_consts = LXMF_RATCHET_RING_MAX_def RATCHET_BYTES_def FILE_MAGIC_def FILE_VERSION_def

record ratchet =
  key_ms :: "64 word"
  privkey :: bytes
  pubkey :: bytes

definition rotate_ring :: "64 word \<Rightarrow> bytes \<times> bytes \<Rightarrow> ratchet list \<Rightarrow> ratchet list" where
  "rotate_ring t k es =
    push_bounded LXMF_RATCHET_RING_MAX \<lparr>key_ms = t, privkey = fst k, pubkey = snd k\<rparr> es"

definition at_newest_first :: "nat \<Rightarrow> ratchet list \<Rightarrow> ratchet option" where
  "at_newest_first i es = (if i \<ge> length es then None else Some (es ! (length es - 1 - i)))"

section \<open>The file\<close>

definition le64 :: "64 word \<Rightarrow> bytes" where
  "le64 t = map (\<lambda>b. ucast (drop_bit (8 * b) t)) [0..<8]"

definition of_le64 :: "bytes \<Rightarrow> 64 word" where
  "of_le64 p = foldl (\<lambda>t b. t OR push_bit (8 * b) (ucast (p ! b))) 0 [0..<8]"

text \<open>The loop of \<open>save\<close>; a key of the wrong size ends it with \<open>None\<close>.\<close>

fun save_entries :: "ratchet list \<Rightarrow> bytes option" where
  "save_entries [] = Some []"
| "save_entries (e # es) =
    (if length (privkey e) \<noteq> RATCHET_BYTES \<or> length (pubkey e) \<noteq> RATCHET_BYTES then None
     else map_option (\<lambda>b. le64 (key_ms e) @ privkey e @ pubkey e @ b) (save_entries es))"

definition save_ring :: "ratchet list \<Rightarrow> bytes option" where
  "save_ring es =
    map_option (\<lambda>b. [byte_at 24 FILE_MAGIC, byte_at 16 FILE_MAGIC, byte_at 8 FILE_MAGIC, byte_at 0 FILE_MAGIC,
        FILE_VERSION, word_of_nat (min (length es) 0xFF)] @ b) (save_entries (take 0xFF es))"

text \<open>The loop of \<open>load\<close>: what it appended so far, and whether the file held all \<open>count\<close> entries.\<close>

fun load_entries :: "nat \<Rightarrow> bytes \<Rightarrow> ratchet list \<Rightarrow> ratchet list \<times> bool" where
  "load_entries 0 p es = (es, True)"
| "load_entries (Suc n) p es =
    (if 8 + RATCHET_BYTES * 2 > length p then (es, False)
     else load_entries n (drop (8 + RATCHET_BYTES * 2) p)
       (es @ [\<lparr>key_ms = of_le64 (take 8 p), privkey = take RATCHET_BYTES (drop 8 p),
               pubkey = take RATCHET_BYTES (drop (8 + RATCHET_BYTES) p)\<rparr>]))"

definition load_ring :: "bytes option \<Rightarrow> ratchet list \<times> bool" where
  "load_ring f =
    (case f of
       None \<Rightarrow> ([], False)
     | Some b \<Rightarrow>
         if length b < 6 then ([], False)
         else if be32 (b ! 0) (b ! 1) (b ! 2) (b ! 3) \<noteq> FILE_MAGIC then ([], False)
         else if b ! 4 \<noteq> FILE_VERSION then ([], False)
         else load_entries (unat (b ! 5)) (drop 6 b) [])"

section \<open>Lemmas\<close>

interpretation ratchet_ring: bounded_queue LXMF_RATCHET_RING_MAX "push_bounded LXMF_RATCHET_RING_MAX :: ratchet \<Rightarrow> _"
proof
  fix q :: "ratchet list" and x assume "length q \<le> LXMF_RATCHET_RING_MAX"
  then show "\<exists>k \<le> 1. push_bounded LXMF_RATCHET_RING_MAX x q = drop k (q @ [x])" by (rule push_bounded_suffix)
qed (simp_all add: push_bounded_len LXMF_RATCHET_RING_MAX_def)

lemma rotate_bounded: "length es \<le> LXMF_RATCHET_RING_MAX \<Longrightarrow> length (rotate_ring t k es) \<le> LXMF_RATCHET_RING_MAX"
  by (simp add: rotate_ring_def ratchet_ring.push_len)

lemma at_newest_rev: "at_newest_first i es = (if i < length es then Some (rev es ! i) else None)"
  by (simp add: at_newest_first_def rev_nth)

text \<open>Key pairs announced one after the other.\<close>

definition rotations :: "(64 word \<times> bytes \<times> bytes) list \<Rightarrow> ratchet list \<Rightarrow> ratchet list" where
  "rotations ks es = foldl (\<lambda>es tk. rotate_ring (fst tk) (snd tk) es) es ks"

lemma push_tail: "push_bounded n x q = drop (length q + 1 - n) q @ (if n = 0 then [] else [x])"
  by (simp add: push_bounded_def Let_def)

lemma drop_again: "0 < n \<Longrightarrow> drop (length (drop (length q - n) q) + 1 - n) (drop (length q - n) q) = drop (Suc (length q) - n) q"
  by (cases "n \<le> length q") (simp_all add: Suc_diff_le)

lemma rev_drop_last: "rev (drop (length q - n) q) = take n (rev q)"
  by (cases "n \<le> length q") (simp_all add: rev_drop)

lemma rotations_ring:
  "length es \<le> LXMF_RATCHET_RING_MAX \<Longrightarrow>
    rotations ks es = (let q = es @ map (\<lambda>tk. \<lparr>key_ms = fst tk, privkey = fst (snd tk), pubkey = snd (snd tk)\<rparr>) ks
      in drop (length q - LXMF_RATCHET_RING_MAX) q)"
proof (induction ks rule: rev_induct)
  case (snoc k ks)
  define x where "x = \<lparr>key_ms = fst k, privkey = fst (snd k), pubkey = snd (snd k)\<rparr>"
  define q where "q = es @ map (\<lambda>tk. \<lparr>key_ms = fst tk, privkey = fst (snd tk), pubkey = snd (snd tk)\<rparr>) ks"
  have r: "rotations ks es = drop (length q - LXMF_RATCHET_RING_MAX) q" using snoc by (simp add: q_def Let_def)
  have "rotations (ks @ [k]) es = push_bounded LXMF_RATCHET_RING_MAX x (rotations ks es)"
    by (simp add: rotations_def rotate_ring_def x_def)
  also have "\<dots> = drop (length (q @ [x]) - LXMF_RATCHET_RING_MAX) (q @ [x])"
    unfolding r push_tail using drop_again [of LXMF_RATCHET_RING_MAX q] by (simp add: LXMF_RATCHET_RING_MAX_def)
  finally show ?case by (simp add: q_def x_def Let_def)
qed (simp add: rotations_def)

lemma le64_length [simp]: "length (le64 t) = 8"
  by (simp add: le64_def)

lemma bit_u8_high: "8 \<le> j \<Longrightarrow> \<not> bit (x :: u8) j"
  using bit_imp_le_length [of x j] by auto

lemma bit_foldl_or: "bit (foldl (\<lambda>t b. t OR f b) (a :: 64 word) bs) n \<longleftrightarrow> bit a n \<or> (\<exists>b \<in> set bs. bit (f b) n)"
  by (induction bs arbitrary: a) (auto simp: bit_or_iff)

lemma bit_of_le64:
  assumes "length p = 8" "n < 64"
  shows "bit (of_le64 p) n = bit (p ! (n div 8)) (n mod 8)"
proof -
  have e: "bit (push_bit (8 * b) (ucast (x :: u8)) :: 64 word) n \<longleftrightarrow> n div 8 = b \<and> bit x (n mod 8)" if "b < 8" for b x
  proof -
    have "bit (push_bit (8 * b) (ucast x) :: 64 word) n \<longleftrightarrow> 8 * b \<le> n \<and> bit x (n - 8 * b)"
      using assms(2) bit_imp_le_length [of x "n - 8 * b"] by (auto simp: bit_push_bit_iff bit_ucast_iff)
    also have "\<dots> \<longleftrightarrow> n div 8 = b \<and> bit x (n mod 8)"
    proof (cases "n div 8 = b")
      case True
      then have "n - 8 * b = n mod 8" "8 * b \<le> n" using div_mult_mod_eq [of n 8] by linarith+
      with True show ?thesis by simp
    next
      case False
      then have "8 * b \<le> n \<Longrightarrow> 8 \<le> n - 8 * b" by linarith
      with False bit_u8_high show ?thesis by auto
    qed
    finally show ?thesis .
  qed
  have "n div 8 < 8" using assms(2) by linarith
  then have "(\<exists>b \<in> set [0..<8]. n div 8 = b \<and> bit (p ! b) (n mod 8)) = bit (p ! (n div 8)) (n mod 8)" by auto
  then show ?thesis unfolding of_le64_def bit_foldl_or using e by (simp only: set_upt) auto
qed

lemma of_le64_le64 [simp]: "of_le64 (le64 t) = t"
proof (rule bit_word_eqI)
  fix n :: nat assume n: "n < LENGTH(64)"
  then have d: "n div 8 < 8" by simp
  have "n mod 8 < 8" "8 * (n div 8) + n mod 8 = n" by simp_all
  then show "bit (of_le64 (le64 t)) n = bit t n"
    using n d by (simp add: bit_of_le64) (simp add: le64_def bit_ucast_iff bit_drop_bit_eq)
qed

lemma magic_bytes [simp]: "byte_at 24 FILE_MAGIC = 0x52" "byte_at 16 FILE_MAGIC = 0x41" "byte_at 8 FILE_MAGIC = 0x54"
    "byte_at 0 FILE_MAGIC = 0x43"
  by (rule word_unat_eq_iff [THEN iffD2], simp add: FILE_MAGIC_def)+

definition entry_bytes :: "ratchet \<Rightarrow> bytes" where
  "entry_bytes e = le64 (key_ms e) @ privkey e @ pubkey e"

definition sized :: "ratchet \<Rightarrow> bool" where
  "sized e \<longleftrightarrow> length (privkey e) = RATCHET_BYTES \<and> length (pubkey e) = RATCHET_BYTES"

lemma save_entries_sized: "\<forall>e \<in> set es. sized e \<Longrightarrow> save_entries es = Some (concat (map entry_bytes es))"
  by (induction es) (simp_all add: sized_def entry_bytes_def)

lemma load_entries_saved: "\<forall>e \<in> set es. sized e \<Longrightarrow>
  load_entries (length es) (concat (map entry_bytes es)) acc = (acc @ es, True)"
proof (induction es arbitrary: acc)
  case (Cons e es)
  then have s: "length (privkey e) = 32" "length (pubkey e) = 32" by (simp_all add: sized_def RATCHET_BYTES_def)
  with Cons show ?case by (simp add: entry_bytes_def RATCHET_BYTES_def)
qed simp

section \<open>Properties\<close>

text \<open>The ring survives a reboot: a saved ring of sized keys is read back entry by entry.\<close>

theorem ratchet_roundtrip:
  assumes "length es \<le> LXMF_RATCHET_RING_MAX" "\<forall>e \<in> set es. sized e" "save_ring es = Some f"
  shows "load_ring (Some f) = (es, True)"
proof -
  have l: "length es \<le> 16" using assms(1) by (simp add: ratchet_consts)
  then have "take 0xFF es = es" "min (length es) 0xFF = length es" by simp_all
  then have f: "f = [0x52, 0x41, 0x54, 0x43, 1, word_of_nat (length es)] @ concat (map entry_bytes es)"
    using assms(2,3) by (simp add: save_ring_def save_entries_sized FILE_VERSION_def)
  have u: "unat (word_of_nat (length es) :: u8) = length es" using l by (simp add: unat_of_nat_u8)
  show ?thesis
    using load_entries_saved [OF assms(2), of "[]"] by (simp add: f load_ring_def be32_def FILE_VERSION_def FILE_MAGIC_def u)
qed

text \<open>The decrypt window: a key announced \<open>k\<close> announces ago is found at index \<open>k\<close> while \<open>k\<close> is below
  16, and no older one is.\<close>

theorem ratchet_window:
  assumes "length es \<le> LXMF_RATCHET_RING_MAX" "k < length ks"
  shows "at_newest_first k (rotations ks es) =
    (if k < LXMF_RATCHET_RING_MAX
     then Some (let tk = rev ks ! k in \<lparr>key_ms = fst tk, privkey = fst (snd tk), pubkey = snd (snd tk)\<rparr>) else None)"
proof -
  let ?f = "\<lambda>tk. \<lparr>key_ms = fst tk, privkey = fst (snd tk), pubkey = snd (snd tk)\<rparr>"
  define q where "q = es @ map ?f ks"
  have r: "rotations ks es = drop (length q - LXMF_RATCHET_RING_MAX) q"
    using rotations_ring [OF assms(1), of ks] by (simp add: q_def Let_def)
  have "rev (rotations ks es) = take LXMF_RATCHET_RING_MAX (rev q)" by (simp only: r rev_drop_last)
  then have n: "rev (rotations ks es) ! k = rev q ! k" if "k < LXMF_RATCHET_RING_MAX" using that by simp
  have "rev q ! k = rev (map ?f ks) ! k" using assms(2) by (simp add: q_def nth_append)
  also have "\<dots> = ?f (rev ks ! k)" using assms(2) by (simp add: rev_map)
  finally have v: "rev q ! k = ?f (rev ks ! k)" .
  have l: "length (rotations ks es) = min LXMF_RATCHET_RING_MAX (length q)" by (simp add: r min_def)
  have "k < length q" using assms(2) by (simp add: q_def)
  then show ?thesis by (simp add: at_newest_rev l n v Let_def)
qed

definition sample_ratchet :: ratchet where
  "sample_ratchet = \<lparr>key_ms = 0x0102030405060708, privkey = replicate 32 1, pubkey = replicate 32 2\<rparr>"

theorem ratchet_roundtrip_witness: "load_ring (Some (the (save_ring [sample_ratchet]))) = ([sample_ratchet], True)"
proof (rule ratchet_roundtrip)
  show "save_ring [sample_ratchet] = Some (the (save_ring [sample_ratchet]))"
    by (simp add: save_ring_def sample_ratchet_def ratchet_consts)
qed (simp_all add: sized_def sample_ratchet_def ratchet_consts)

theorem ratchet_window_witness:
  "at_newest_first 0 (rotations [(7, [1], [2]), (8, [3], [4])] []) = Some \<lparr>key_ms = 8, privkey = [3], pubkey = [4]\<rparr>"
  by (subst ratchet_window) (simp_all add: ratchet_consts Let_def)

end
