(* ===== verification/Gateway.thy ===== *)
theory Gateway
  imports LxmfInbox Ratchets
begin

text \<open>
  The identities of a node, \<open>src/src/LXMF/LXMFGateway.h\<close>: the four slots, their settings, directories,
  mailboxes, ratchets and stamp policy; creating, deleting and loading identities, the screen
  identity, the announce timer, and the callbacks \<open>activate\<close> installs.

  An \<open>LXMFIdentity*\<close> is the number of its slot; the \<open>LXMFMinimal\<close> in a slot is the instance of that
  number in \<open>LxmfInbound\<close>. A directory holds what the code stores in it; attachments and sidecars
  are files by path on the flash file system or the SD card. Keys, hashes, the password
  derivation and the outcome of file operations are fields of \<open>gw_env\<close>; calls into the web
  server, the display and the telemetry modules are outputs.
\<close>

section \<open>State\<close>

type_synonym iden_id = string
type_synonym rns_key = bytes             \<comment> \<open>\<open>[]\<close>: no identity\<close>

definition LXMF_GATEWAY_MAX_IDENTITIES :: nat where "LXMF_GATEWAY_MAX_IDENTITIES = 4"
definition LXMF_DEFAULT_ANNOUNCE_INTERVAL_MS :: nat where "LXMF_DEFAULT_ANNOUNCE_INTERVAL_MS = 300000"
definition LXMF_GATEWAY_ROOT :: string where "LXMF_GATEWAY_ROOT = ''/lxmf''"

record settings =
  announce_every :: nat
  keep_sent :: bool                      \<comment> \<open>\<open>persist_outbound_attachments\<close>\<close>
  pol_cost :: nat
  pol_enforce :: bool
  tel_location :: bool
  tel_environment :: bool
  tel_battery :: bool
  tel_compass :: bool
  tel_share :: nat
  tel_rate :: nat
  screen :: bool

record iden =
  iid :: iden_id
  label :: bytes
  rkey :: rns_key
  ibox :: "mailbox option"
  obox :: "mailbox option"
  last_announce :: nat
  conf :: settings
  active :: bool
  pw_hash :: bytes
  pw_salt :: bytes
  ratchets :: "ratchet list"

definition default_settings :: settings where
  "default_settings = \<lparr>announce_every = LXMF_DEFAULT_ANNOUNCE_INTERVAL_MS, keep_sent = True, pol_cost = 0, pol_enforce = False,
     tel_location = True, tel_environment = False, tel_battery = False, tel_compass = False, tel_share = 0, tel_rate = 60,
     screen = False\<rparr>"

definition blank_iden :: iden where
  "blank_iden = \<lparr>iid = '''', label = [], rkey = [], ibox = None, obox = None, last_announce = 0, conf = default_settings,
     active = False, pw_hash = [], pw_salt = [], ratchets = []\<rparr>"

text \<open>\<open>meta.json\<close>, and \<open>conversation\_config.json\<close> as its entries.\<close>

record meta_doc =
  j_display :: "bytes option"
  j_created :: "nat option"
  j_interval :: "nat option"
  j_keep :: "bool option"
  j_cost :: "nat option"
  j_enforce :: "bool option"
  j_screen :: "bool option"
  j_location :: "bool option"
  j_environment :: "bool option"
  j_battery :: "bool option"
  j_compass :: "bool option"
  j_share :: "nat option"
  j_rate :: "nat option"
  j_hash :: "string option"
  j_salt :: "string option"

type_synonym conv_doc = "(string \<times> string option \<times> nat option) list"

record iden_dir =
  d_key :: "rns_key option"              \<comment> \<open>identity.dat; \<open>Some []\<close>: unreadable\<close>
  d_meta :: "meta_doc option"
  d_inbox :: "spool_item list option"
  d_outbox :: "spool_item list option"
  d_conv :: "conv_doc option"
  d_ratchet :: "bytes option"

definition empty_dir :: iden_dir where
  "empty_dir = \<lparr>d_key = None, d_meta = None, d_inbox = None, d_outbox = None, d_conv = None, d_ratchet = None\<rparr>"

record gw_extra = extra_fields +
  visible :: bool

record pending_identity =
  q_iden :: iden_id
  q_dest :: hash
  q_title :: bytes
  q_content :: bytes
  q_atts :: "attachment list"
  q_extra :: gw_extra
  q_seq :: nat
  q_attempts :: nat
  q_next :: nat
  q_request :: nat

record pending_stamp =
  s_iden :: iden_id
  s_dest :: hash
  s_mid :: hash
  s_seq :: nat
  s_cost :: nat
  s_sidecar :: string
  s_handle :: nat
  s_payload :: bytes
  s_submitted :: bool
  s_stamp :: bytes
  s_value :: nat
  s_attempts :: nat
  s_next :: nat

type_synonym file_system = "string \<Rightarrow> bytes option"

record gateway =
  idens :: "iden list"
  dirs :: "(iden_id, iden_dir) omap"
  rx :: inbound
  g_links :: outbox
  g_opps :: opp_map
  g_stage :: staging
  id_queue :: "pending_identity list"
  st_queue :: "pending_stamp list"
  announced :: "hash list"
  sd_fs :: file_system
  fl_fs :: file_system
  is_setup :: bool

record gw_env =
  gw :: world
  inw :: rx_world
  inb :: box_env
  outb :: box_env
  default_policy :: retention            \<comment> \<open>\<open>InboxConfig::current\<close>\<close>
  key_id :: "rns_key \<Rightarrow> hash"
  key_dest :: "rns_key \<Rightarrow> hash"         \<comment> \<open>the lxmf.delivery destination\<close>
  fresh_key :: rns_key
  key_saved :: bool
  fresh_salt :: bytes
  derive :: "bytes \<Rightarrow> bytes \<Rightarrow> bytes"
  fresh_ratchet :: "bytes \<times> bytes"
  ratchet_file :: "bytes \<Rightarrow> bytes option" \<comment> \<open>what the file holds after this was written\<close>
  sd_here :: bool                        \<comment> \<open>\<open>SDCard::present\<close>\<close>
  sd_ok :: "string \<Rightarrow> bool"              \<comment> \<open>a write of this file on the card is complete\<close>
  fl_ok :: "string \<Rightarrow> bool"
  rd_ok :: "string \<Rightarrow> bool"              \<comment> \<open>the file opens and is read\<close>
  ram_ok :: "nat \<Rightarrow> bool"                \<comment> \<open>memory for a payload of this size\<close>
  sidecar_job :: "string \<Rightarrow> nat"            \<comment> \<open>the SD writer's job for a sidecar, 0: none\<close>
  job_poll :: "nat \<Rightarrow> int"              \<comment> \<open>\<open>SdWriter::poll\<close>\<close>
  app_data :: "hash \<Rightarrow> bytes"            \<comment> \<open>\<open>recall\_app\_data\<close>\<close>
  owner :: "hash \<Rightarrow> nat"                \<comment> \<open>the owner of the entry with this record hash\<close>
  feed_from :: "iden_id \<Rightarrow> hash \<Rightarrow> bool"  \<comment> \<open>\<open>TelemetryShare::has\_feed\<close>\<close>
  has_location :: "bytes \<Rightarrow> bool"        \<comment> \<open>the telemetry decodes to a position\<close>
  gpx_size :: "string \<Rightarrow> nat"            \<comment> \<open>\<open>GpxTrack::create\<close>\<close>
  gpx_name :: "nat \<Rightarrow> bytes"
  pow_free :: bool                       \<comment> \<open>the worker's mutex is taken in time\<close>

datatype gw_out =
    Did action
  | Pow_did stamp_out
  | Announced nat bytes
  | MessengerScreen bool string
  | MessengerStatus hash outbox_status
  | TelemetryStatus hash outbox_status
  | PublishIncoming iden_id message_record
  | PublishOutbound iden_id message_record
  | PublishStatus iden_id hash outbox_status
  | PublishSeq iden_id nat string hash
  | PublishFinished iden_id hash
  | Commands iden_id hash bytes
  | LiveOffer iden_id hash bytes
  | TelemetryIn iden_id hash bytes
  | GpxCreate bool string
  | FeedGpx iden_id hash string bool
  | ScreenNotify message_record
  | HandleReleased nat
  | StagingReleased nat
  | Rx rx_out
  | Escaped exc

definition ms :: "gw_env \<Rightarrow> nat" where "ms E = now (net (gw E))"

definition hexs :: "gw_env \<Rightarrow> bytes \<Rightarrow> string" where "hexs E = to_hex (inb E)"

definition boot_gateway :: "(iden_id, iden_dir) omap \<Rightarrow> file_system \<Rightarrow> file_system \<Rightarrow> inbound \<Rightarrow> outbox \<Rightarrow> staging \<Rightarrow> gateway" where
  "boot_gateway ds sd fl r l st =
    \<lparr>idens = replicate LXMF_GATEWAY_MAX_IDENTITIES blank_iden, dirs = ds, rx = r, g_links = l, g_opps = [], g_stage = st,
     id_queue = [], st_queue = [], announced = [], sd_fs = sd, fl_fs = fl, is_setup = False\<rparr>"

section \<open>Slots\<close>

fun first_index :: "('a \<Rightarrow> bool) \<Rightarrow> 'a list \<Rightarrow> nat option" where
  "first_index P [] = None"
| "first_index P (x # xs) = (if P x then Some 0 else map_option Suc (first_index P xs))"

definition first_free_slot :: "gateway \<Rightarrow> nat option" where
  "first_free_slot g = first_index (\<lambda>a. \<not> active a) (idens g)"

definition identity_by_id :: "iden_id \<Rightarrow> gateway \<Rightarrow> nat option" where
  "identity_by_id x g = (if x = '''' then None else first_index (\<lambda>a. active a \<and> iid a = x) (idens g))"

definition screen_identity :: "gateway \<Rightarrow> nat option" where
  "screen_identity g = first_index (\<lambda>a. active a \<and> screen (conf a)) (idens g)"

definition on_slot :: "nat \<Rightarrow> (iden \<Rightarrow> iden) \<Rightarrow> gateway \<Rightarrow> gateway" where
  "on_slot i f g = g\<lparr>idens := (idens g)[i := f (idens g ! i)]\<rparr>"

definition iden_path :: "iden_id \<Rightarrow> string" where
  "iden_path x = LXMF_GATEWAY_ROOT @ ''/identities/'' @ x"

definition dir_of :: "iden_id \<Rightarrow> gateway \<Rightarrow> iden_dir" where
  "dir_of x g = (case mfind (dirs g) x of None \<Rightarrow> empty_dir | Some d \<Rightarrow> d)"

definition on_dir :: "iden_id \<Rightarrow> (iden_dir \<Rightarrow> iden_dir) \<Rightarrow> gateway \<Rightarrow> gateway" where
  "on_dir x f g = g\<lparr>dirs := mput (\<lambda>_ _. False) x (f (dir_of x g)) (dirs g)\<rparr>"

definition address_of :: "gateway \<Rightarrow> nat \<Rightarrow> hash" where
  "address_of g i = rx_hash (slots (rx g) i)"

definition is_own_destination :: "hash \<Rightarrow> gateway \<Rightarrow> bool" where
  "is_own_destination d g = (\<exists>i \<in> set [0..<length (idens g)]. active (idens g ! i) \<and> address_of g i = d)"

section \<open>\<open>meta.json\<close>\<close>

definition meta_of :: "gw_env \<Rightarrow> iden \<Rightarrow> meta_doc" where
  "meta_of E a =
    (let c = conf a in
     \<lparr>j_display = Some (label a), j_created = Some (ms E), j_interval = Some (announce_every c), j_keep = Some (keep_sent c),
      j_cost = Some (pol_cost c), j_enforce = Some (pol_enforce c), j_screen = Some (screen c),
      j_location = Some (tel_location c), j_environment = Some (tel_environment c), j_battery = Some (tel_battery c),
      j_compass = Some (tel_compass c), j_share = Some (tel_share c), j_rate = Some (tel_rate c),
      j_hash = (if pw_hash a = [] then None else Some (hexs E (pw_hash a))),
      j_salt = (if pw_salt a = [] then None else Some (hexs E (pw_salt a)))\<rparr>)"

definition write_meta :: "gw_env \<Rightarrow> nat \<Rightarrow> gateway \<Rightarrow> gateway" where
  "write_meta E i g = on_dir (iid (idens g ! i)) (\<lambda>d. d\<lparr>d_meta := Some (meta_of E (idens g ! i))\<rparr>) g"

text \<open>\<open>doc[k] | k'\<close> on an \<open>int\<close>\<close>

definition int_or :: "nat \<Rightarrow> nat option \<Rightarrow> nat" where
  "int_or k v = (case v of None \<Rightarrow> k | Some n \<Rightarrow> if n < 2147483648 then n else k)"

definition bool_or :: "bool \<Rightarrow> bool option \<Rightarrow> bool" where
  "bool_or k v = (case v of None \<Rightarrow> k | Some b \<Rightarrow> b)"

definition default_label :: bytes where
  "default_label = [0x4C, 0x58, 0x4D, 0x46, 0x20, 0x49, 0x64, 0x65, 0x6E, 0x74, 0x69, 0x74, 0x79]"   \<comment> \<open>LXMF Identity\<close>

definition read_settings :: "meta_doc \<Rightarrow> settings" where
  "read_settings d =
    (let sc = int_or 0 (j_cost d) in
     \<lparr>announce_every = int_or LXMF_DEFAULT_ANNOUNCE_INTERVAL_MS (j_interval d), keep_sent = bool_or True (j_keep d),
      pol_cost = (if 1 \<le> sc \<and> sc \<le> 254 then sc else 0), pol_enforce = bool_or False (j_enforce d),
      tel_location = bool_or True (j_location d), tel_environment = bool_or False (j_environment d),
      tel_battery = bool_or False (j_battery d), tel_compass = bool_or False (j_compass d),
      tel_share = int_or 0 (j_share d), tel_rate = int_or 60 (j_rate d), screen = bool_or False (j_screen d)\<rparr>)"

text \<open>\<open>if (!h.empty()) field.assignHex(h)\<close>\<close>

definition hex_or :: "gw_env \<Rightarrow> bytes \<Rightarrow> string option \<Rightarrow> bytes" where
  "hex_or E old h = (case h of None \<Rightarrow> old | Some x \<Rightarrow> if x = '''' then old else of_hex (inb E) x)"

definition read_meta :: "gw_env \<Rightarrow> meta_doc option \<Rightarrow> iden \<Rightarrow> iden" where
  "read_meta E md a =
    (case md of
       None \<Rightarrow> a
     | Some d \<Rightarrow> a\<lparr>label := (case j_display d of None \<Rightarrow> default_label | Some n \<Rightarrow> c_str (Some n)), conf := read_settings d,
         pw_hash := hex_or E (pw_hash a) (j_hash d), pw_salt := hex_or E (pw_salt a) (j_salt d)\<rparr>)"

section \<open>Settings\<close>

text \<open>The setters: find the identity, change it, write its meta file.\<close>

definition change :: "gw_env \<Rightarrow> iden_id \<Rightarrow> (nat \<Rightarrow> gateway \<Rightarrow> gateway) \<Rightarrow> gateway \<Rightarrow> gateway \<times> bool" where
  "change E x f g = (case identity_by_id x g of None \<Rightarrow> (g, False) | Some i \<Rightarrow> (write_meta E i (f i g), True))"

definition on_conf :: "(settings \<Rightarrow> settings) \<Rightarrow> nat \<Rightarrow> gateway \<Rightarrow> gateway" where
  "on_conf f i = on_slot i (\<lambda>a. a\<lparr>conf := f (conf a)\<rparr>)"

definition set_announce_interval :: "gw_env \<Rightarrow> iden_id \<Rightarrow> nat \<Rightarrow> gateway \<Rightarrow> gateway \<times> bool" where
  "set_announce_interval E x n =
    change E x (\<lambda>i g. on_slot i (\<lambda>a. a\<lparr>last_announce := ms E\<rparr>) (on_conf (\<lambda>c. c\<lparr>announce_every := n\<rparr>) i g))"

definition set_persist_outbound_attachments :: "gw_env \<Rightarrow> iden_id \<Rightarrow> bool \<Rightarrow> gateway \<Rightarrow> gateway \<times> bool" where
  "set_persist_outbound_attachments E x on = change E x (on_conf (\<lambda>c. c\<lparr>keep_sent := on\<rparr>))"

definition set_gw_stamp_cost :: "gw_env \<Rightarrow> iden_id \<Rightarrow> nat \<Rightarrow> gateway \<Rightarrow> gateway \<times> bool" where
  "set_gw_stamp_cost E x k =
    change E x (\<lambda>i g. on_conf (\<lambda>c. c\<lparr>pol_cost := (if 1 \<le> k \<and> k \<le> 254 then k else 0)\<rparr>) i
      (g\<lparr>rx := set_policy i (if 1 \<le> k \<and> k \<le> 254 then k else 0) (rx_enforce (slots (rx g) i)) (rx g)\<rparr>))"

definition set_enforce_stamps :: "gw_env \<Rightarrow> iden_id \<Rightarrow> bool \<Rightarrow> gateway \<Rightarrow> gateway \<times> bool" where
  "set_enforce_stamps E x on =
    change E x (\<lambda>i g. on_conf (\<lambda>c. c\<lparr>pol_enforce := on\<rparr>) i (g\<lparr>rx := set_policy i (rx_cost (slots (rx g) i)) on (rx g)\<rparr>))"

definition set_telemetry_defaults :: "gw_env \<Rightarrow> iden_id \<Rightarrow> bool \<Rightarrow> bool \<Rightarrow> bool \<Rightarrow> bool \<Rightarrow> nat \<Rightarrow> nat \<Rightarrow> gateway \<Rightarrow> gateway \<times> bool" where
  "set_telemetry_defaults E x l e b c sh rt =
    change E x (on_conf (\<lambda>cf. cf\<lparr>tel_location := l, tel_environment := e, tel_battery := b, tel_compass := c, tel_share := sh, tel_rate := rt\<rparr>))"

definition set_gw_display_name :: "gw_env \<Rightarrow> iden_id \<Rightarrow> bytes \<Rightarrow> gateway \<Rightarrow> gateway \<times> bool" where
  "set_gw_display_name E x n = change E x (\<lambda>i. on_slot i (\<lambda>a. a\<lparr>label := n\<rparr>))"

definition set_screen_identity :: "gw_env \<Rightarrow> iden_id \<Rightarrow> bool \<Rightarrow> gateway \<Rightarrow> gateway \<times> gw_out list \<times> (string + unit)" where
  "set_screen_identity E x enable g =
    (case identity_by_id x g of
       None \<Rightarrow> (g, [], Inl ''No such identity is logged in on this device.'')
     | Some i \<Rightarrow>
         if enable \<and> (case screen_identity g of None \<Rightarrow> False | Some h \<Rightarrow> iid (idens g ! h) \<noteq> iid (idens g ! i))
         then (g, [], Inl ''Another identity already shows on the screen. Turn it off there first.'')
         else (write_meta E i (on_conf (\<lambda>c. c\<lparr>screen := enable\<rparr>) i g), [MessengerScreen enable (iden_path x)], Inr ()))"

section \<open>Files of an identity\<close>

definition text_of :: "bytes \<Rightarrow> string" where
  "text_of b = map (\<lambda>c. char_of (unat c)) (c_str (Some b))"

definition sd_name :: bytes where "sd_name = [0x73, 0x64]"

definition remove_file :: "gw_env \<Rightarrow> bool \<Rightarrow> string \<Rightarrow> gateway \<Rightarrow> gateway" where
  "remove_file E sd p g =
    (if sd then (if sd_here E then g\<lparr>sd_fs := (sd_fs g)(p := None)\<rparr> else g) else g\<lparr>fl_fs := (fl_fs g)(p := None)\<rparr>)"

definition remove_attachment :: "gw_env \<Rightarrow> iden_id \<Rightarrow> attachment_meta \<Rightarrow> gateway \<Rightarrow> gateway" where
  "remove_attachment E x a g =
    (if m_filename a = [] then g
     else remove_file E (m_backend a = sd_name) (iden_path x @ ''/attachments/'' @ text_of (m_filename a)) g)"

definition remove_attachments :: "gw_env \<Rightarrow> iden_id \<Rightarrow> attachment_meta list \<Rightarrow> gateway \<Rightarrow> gateway" where
  "remove_attachments E x as g = foldl (\<lambda>g a. remove_attachment E x a g) g as"

definition body_path :: "iden_id \<Rightarrow> message_record \<Rightarrow> string" where
  "body_path x r = iden_path x @ ''/'' @ (if incoming r then ''inbox'' else ''outbox'') @ ''/'' @ decimal (rec_seq r) @ ''.body''"

section \<open>Sidecars of stamped sends\<close>

definition PENDING_STAMP_MAX :: nat where "PENDING_STAMP_MAX = 8"
definition STAMP_SIDECAR_HDR :: nat where "STAMP_SIDECAR_HDR = 4 + 1 + 16 + 1 + 32"

definition pending_stamp_sidecar_path :: "iden_id \<Rightarrow> nat \<Rightarrow> string" where
  "pending_stamp_sidecar_path x q = iden_path x @ ''/pending_stamp_'' @ decimal q @ ''.bin''"

definition fill_stamp_header :: "hash \<Rightarrow> nat \<Rightarrow> hash \<Rightarrow> bytes option" where
  "fill_stamp_header d k mid =
    (if length d \<noteq> 16 \<or> length mid \<noteq> 32 then None
     else Some ([0x4C, 0x58, 0x53, 0x50, 1] @ d @ [word_of_nat k] @ mid))"

text \<open>Destination, cost, message id and payload.\<close>

definition read_pending_stamp_sidecar :: "gw_env \<Rightarrow> string \<Rightarrow> gateway \<Rightarrow> (hash \<times> nat \<times> hash \<times> bytes) option" where
  "read_pending_stamp_sidecar E p g =
    (case (if sd_here E \<and> sd_fs g p \<noteq> None then sd_fs g p else fl_fs g p) of
       None \<Rightarrow> None
     | Some f \<Rightarrow>
         if \<not> rd_ok E p \<or> length f \<le> STAMP_SIDECAR_HDR \<or> take 4 f \<noteq> [0x4C, 0x58, 0x53, 0x50] \<or> f ! 4 \<noteq> 1 then None
         else Some (take 16 (drop 5 f), unat (f ! 21), take 32 (drop 22 f), drop STAMP_SIDECAR_HDR f))"

definition remove_pending_stamp_sidecar :: "gw_env \<Rightarrow> string \<Rightarrow> gateway \<Rightarrow> gateway" where
  "remove_pending_stamp_sidecar E p g = (if p = '''' then g else remove_file E False p (remove_file E True p g))"

definition cancel_job :: "gw_env \<Rightarrow> hash \<Rightarrow> gateway \<Rightarrow> gateway \<times> gw_out list" where
  "cancel_job E mid g =
    (case cancel (rx_crypto (inw E)) (pow_free E) mid (pow (rx g)) of
       (w, out) \<Rightarrow> (g\<lparr>rx := (rx g)\<lparr>pow := w\<rparr>\<rparr>, map Pow_did out))"

text \<open>Abort the proof of work of an entry and drop its sidecar.\<close>

definition abort_stamp :: "gw_env \<Rightarrow> pending_stamp \<Rightarrow> gateway \<Rightarrow> gateway \<times> gw_out list" where
  "abort_stamp E f g =
    (case cancel_job E (s_mid f) g of
       (g1, o1) \<Rightarrow> (remove_pending_stamp_sidecar E (s_sidecar f) g1, o1 @ (if s_handle f \<noteq> 0 then [HandleReleased (s_handle f)] else [])))"

definition cancel_pending_stamp :: "gw_env \<Rightarrow> iden_id \<Rightarrow> nat \<Rightarrow> gateway \<Rightarrow> gateway \<times> gw_out list" where
  "cancel_pending_stamp E x q g =
    (case first_index (\<lambda>f. s_iden f = x \<and> s_seq f = q) (st_queue g) of
       None \<Rightarrow> (g, [])
     | Some k \<Rightarrow>
         (case abort_stamp E (st_queue g ! k) g of
            (g1, out) \<Rightarrow> (g1\<lparr>st_queue := take k (st_queue g) @ drop (Suc k) (st_queue g)\<rparr>, out)))"

section \<open>Records that leave a mailbox\<close>

text \<open>The \<open>on_remove\<close> callback of both mailboxes.\<close>

definition record_removed :: "gw_env \<Rightarrow> nat \<Rightarrow> message_record \<Rightarrow> gateway \<Rightarrow> gateway \<times> gw_out list" where
  "record_removed E i r g =
    (let x = iid (idens g ! i);
         (g1, o1) = (if \<not> incoming r \<and> rec_status r = GeneratingStamp
           then (case cancel_pending_stamp E x (rec_seq r) g of
                   (g', out) \<Rightarrow> (remove_pending_stamp_sidecar E (pending_stamp_sidecar_path x (rec_seq r)) g', out))
           else (g, []));
         g2 = remove_attachments E x (attachments r) g1
     in (remove_file E False (body_path x r) (remove_file E True (body_path x r) g2), o1))"

fun removed_all :: "gw_env \<Rightarrow> nat \<Rightarrow> box_out list \<Rightarrow> gateway \<Rightarrow> gateway \<times> gw_out list" where
  "removed_all E i [] g = (g, [])"
| "removed_all E i (Removed r # rs) g =
    (case record_removed E i r g of (g1, o1) \<Rightarrow> case removed_all E i rs g1 of (g2, o2) \<Rightarrow> (g2, o1 @ o2))"

text \<open>Operations on a mounted mailbox.\<close>

definition live :: "box_env \<Rightarrow> box_env" where "live B = B\<lparr>on_remove := True\<rparr>"

definition on_inbox :: "gw_env \<Rightarrow> nat \<Rightarrow> (box_env \<Rightarrow> mailbox \<Rightarrow> mailbox \<times> box_out list) \<Rightarrow> gateway \<Rightarrow> gateway \<times> gw_out list" where
  "on_inbox E i f g =
    (case ibox (idens g ! i) of
       None \<Rightarrow> (g, [])
     | Some m \<Rightarrow> (case f (live (inb E)) m of (m', out) \<Rightarrow> removed_all E i out (on_slot i (\<lambda>a. a\<lparr>ibox := Some m'\<rparr>) g)))"

definition on_outbox :: "gw_env \<Rightarrow> nat \<Rightarrow> (box_env \<Rightarrow> mailbox \<Rightarrow> mailbox \<times> box_out list) \<Rightarrow> gateway \<Rightarrow> gateway \<times> gw_out list" where
  "on_outbox E i f g =
    (case obox (idens g ! i) of
       None \<Rightarrow> (g, [])
     | Some m \<Rightarrow> (case f (live (outb E)) m of (m', out) \<Rightarrow> removed_all E i out (on_slot i (\<lambda>a. a\<lparr>obox := Some m'\<rparr>) g)))"

definition mutate_outbox :: "gw_env \<Rightarrow> nat \<Rightarrow> nat \<Rightarrow> (message_record \<Rightarrow> message_record) \<Rightarrow> gateway \<Rightarrow> gateway" where
  "mutate_outbox E i q f g = fst (on_outbox E i (\<lambda>B m. (fst (mutate_by_seq B q f m), [])) g)"

section \<open>Retention\<close>

definition read_conversation_config :: "conv_doc option \<Rightarrow> (string, retention) omap" where
  "read_conversation_config d =
    (case d of
       None \<Rightarrow> []
     | Some es \<Rightarrow> foldl (\<lambda>m (p, k, v). mput (\<lambda>_ _. False) p
         \<lparr>ret_kind = retention_kind_from_str (case k of None \<Rightarrow> Some ''none'' | Some t \<Rightarrow> Some t), ret_value = int_or 0 v\<rparr> m) [] es)"

definition write_conversation_config :: "(string, retention) omap \<Rightarrow> conv_doc" where
  "write_conversation_config m = map (\<lambda>(p, r). (p, Some (retention_kind_name (ret_kind r)), Some (ret_value r))) m"

definition persist_conversation_config :: "nat \<Rightarrow> (string, retention) omap \<Rightarrow> gateway \<Rightarrow> gateway" where
  "persist_conversation_config i m g = on_dir (iid (idens g ! i)) (\<lambda>d. d\<lparr>d_conv := Some (write_conversation_config m)\<rparr>) g"

text \<open>The request that sets (\<open>Some\<close>) or clears the retention of a conversation: at most ten years, or
  the capacity of the ring.\<close>

definition retention_too_large :: "retention option \<Rightarrow> bool" where
  "retention_too_large r =
    (case r of
       None \<Rightarrow> False
     | Some t \<Rightarrow> ret_kind t = KTime \<and> ret_value t > 10 * 365 * 86400 \<or> ret_kind t = KCount \<and> ret_value t > DEFAULT_RAM_CAPACITY)"

definition set_conversation_retention :: "gw_env \<Rightarrow> iden_id \<Rightarrow> string \<Rightarrow> retention option \<Rightarrow> gateway \<Rightarrow> gateway \<times> gw_out list \<times> bool" where
  "set_conversation_retention E x p r g =
    (case identity_by_id x g of
       None \<Rightarrow> (g, [], False)
     | Some i \<Rightarrow>
         if ibox (idens g ! i) = None \<or> obox (idens g ! i) = None \<or> retention_too_large r then (g, [], False)
         else
           let f = (\<lambda>B m. case (case r of None \<Rightarrow> clear_peer_retention B p m | Some t \<Rightarrow> set_peer_retention B p t m) of (m', out, _) \<Rightarrow> (m', out));
               (g1, o1) = on_inbox E i f g; (g2, o2) = on_outbox E i f g1
           in (persist_conversation_config i (case ibox (idens g2 ! i) of None \<Rightarrow> [] | Some m \<Rightarrow> peer_retention m) g2, o1 @ o2, True))"

fun each_slot :: "(nat \<Rightarrow> gateway \<Rightarrow> gateway \<times> gw_out list) \<Rightarrow> nat list \<Rightarrow> gateway \<Rightarrow> gateway \<times> gw_out list" where
  "each_slot f [] g = (g, [])"
| "each_slot f (i # is) g =
    (case (if active (idens g ! i) then f i g else (g, [])) of (g1, o1) \<Rightarrow> case each_slot f is g1 of (g2, o2) \<Rightarrow> (g2, o1 @ o2))"

definition slot_list :: "gateway \<Rightarrow> nat list" where "slot_list g = [0..<length (idens g)]"

definition apply_inbox_config_to_all :: "gw_env \<Rightarrow> gateway \<Rightarrow> gateway \<times> gw_out list" where
  "apply_inbox_config_to_all E g =
    each_slot (\<lambda>i g. case on_inbox E i (\<lambda>B. set_default_retention B (default_policy E)) g of (g1, o1) \<Rightarrow>
      case on_outbox E i (\<lambda>B. set_default_retention B (default_policy E)) g1 of (g2, o2) \<Rightarrow> (g2, o1 @ o2)) (slot_list g) g"

definition prune_both :: "gw_env \<Rightarrow> nat \<Rightarrow> gateway \<Rightarrow> gateway \<times> gw_out list" where
  "prune_both E i g =
    (case on_inbox E i prune_expired g of (g1, o1) \<Rightarrow> case on_outbox E i prune_expired g1 of (g2, o2) \<Rightarrow> (g2, o1 @ o2))"

definition prune_all :: "gw_env \<Rightarrow> gateway \<Rightarrow> gateway \<times> gw_out list" where
  "prune_all E g = each_slot (prune_both E) (slot_list g) g"
section \<open>Activation\<close>

text \<open>A fresh mailbox object: retention overrides, then the spool; \<open>on_remove\<close> is not installed yet.\<close>

definition mounted :: "box_env \<Rightarrow> retention \<Rightarrow> (string, retention) omap \<Rightarrow> spool_item list option \<Rightarrow> mailbox" where
  "mounted B dflt over f =
    (let B = B\<lparr>on_remove := False\<rparr> in
     load B (foldl (\<lambda>m (p, r). fst (set_peer_retention B p r m)) (new_mailbox f DEFAULT_RAM_CAPACITY dflt) over))"

text \<open>One record still waiting for its stamp: queue it again from its sidecar, or mark it failed.\<close>

definition resume_one :: "gw_env \<Rightarrow> nat \<Rightarrow> nat \<Rightarrow> gateway \<Rightarrow> gateway" where
  "resume_one E i q g =
    (let x = iid (idens g ! i); p = pending_stamp_sidecar_path x q;
         failed = remove_pending_stamp_sidecar E p (mutate_outbox E i q (\<lambda>r. r\<lparr>rec_status := Failed\<rparr>) g)
     in if length (st_queue g) \<ge> PENDING_STAMP_MAX then failed
        else (case read_pending_stamp_sidecar E p g of
            None \<Rightarrow> failed
          | Some (d, k, mid, _) \<Rightarrow>
              if k < 1 then failed
              else g\<lparr>st_queue := st_queue g @ [\<lparr>s_iden = x, s_dest = d, s_mid = mid, s_seq = q, s_cost = k, s_sidecar = p,
                  s_handle = 0, s_payload = [], s_submitted = False, s_stamp = [], s_value = 0, s_attempts = 0, s_next = 0\<rparr>]\<rparr>))"

definition waiting_seqs :: "mailbox option \<Rightarrow> nat list" where
  "waiting_seqs b =
    (case b of None \<Rightarrow> [] | Some m \<Rightarrow> map rec_seq (filter (\<lambda>r. \<not> incoming r \<and> rec_status r = GeneratingStamp) (ring m)))"

definition resume_all :: "gw_env \<Rightarrow> nat \<Rightarrow> gateway \<Rightarrow> gateway" where
  "resume_all E i g = foldl (\<lambda>g q. resume_one E i q g) g (waiting_seqs (obox (idens g ! i)))"

text \<open>\<open>lxmf.init\<close>, the stamp policy and the callbacks.\<close>

definition start_instance :: "gw_env \<Rightarrow> nat \<Rightarrow> gateway \<Rightarrow> gateway" where
  "start_instance E i g =
    (let a = idens g ! i; r = set_policy i (pol_cost (conf a)) (pol_enforce (conf a)) (init_instance i (key_dest E (rkey a)) (rx g))
     in g\<lparr>rx := r\<lparr>slots := (slots r)(i := (slots r i)\<lparr>rx_listens := True, rx_reports := True\<rparr>)\<rparr>\<rparr>)"

definition activate :: "gw_env \<Rightarrow> nat \<Rightarrow> gateway \<Rightarrow> gateway \<times> gw_out list" where
  "activate E i g =
    (let d = dir_of (iid (idens g ! i)) g; over = read_conversation_config (d_conv d);
         g1 = on_slot i (\<lambda>a. a\<lparr>active := True, ibox := Some (mounted (inb E) (default_policy E) over (d_inbox d)),
                obox := Some (mounted (outb E) (default_policy E) over (d_outbox d))\<rparr>) g
     in (case prune_both E i g1 of
           (g2, out) \<Rightarrow> (on_slot i (\<lambda>a. a\<lparr>last_announce := 0\<rparr>) (resume_all E i (start_instance E i g2)), out)))"

section \<open>Creating, deleting, loading\<close>

definition create_identity :: "gw_env \<Rightarrow> bytes \<Rightarrow> bytes \<Rightarrow> gateway \<Rightarrow> gateway \<times> gw_out list \<times> iden_id" where
  "create_identity E name pw g =
    (if \<not> is_setup g then (g, [], '''')
     else (case first_free_slot g of
         None \<Rightarrow> (g, [], '''')
       | Some i \<Rightarrow>
           let k = fresh_key E; hx = hexs E (key_id E k); x = take 16 hx in
           if hx = '''' then (g, [], '''')
           else let g1 = on_dir x (\<lambda>d. d) (on_slot i (\<lambda>a. a\<lparr>iid := x, label := name, rkey := k, pw_salt := fresh_salt E,
                      pw_hash := derive E pw (fresh_salt E)\<rparr>) g) in
             if \<not> key_saved E then (on_slot i (\<lambda>a. a\<lparr>active := False\<rparr>) g1, [], '''')
             else (case activate E i (write_meta E i (on_dir x (\<lambda>d. d\<lparr>d_key := Some k\<rparr>) g1)) of (g2, out) \<Rightarrow> (g2, out, x))))"

definition read_password_material :: "iden_id \<Rightarrow> gateway \<Rightarrow> (bytes \<times> bytes) option" where
  "read_password_material x g = map_option (\<lambda>i. (pw_salt (idens g ! i), pw_hash (idens g ! i))) (identity_by_id x g)"

definition unlink_box :: "gw_env \<Rightarrow> iden_id \<Rightarrow> mailbox option \<Rightarrow> gateway \<Rightarrow> gateway" where
  "unlink_box E x b g =
    (case b of None \<Rightarrow> g | Some m \<Rightarrow> foldl (\<lambda>g r. remove_attachments E x (attachments r) g) g (ring m))"

fun drop_stamps :: "gw_env \<Rightarrow> iden_id \<Rightarrow> pending_stamp list \<Rightarrow> gateway \<Rightarrow> gateway \<times> gw_out list" where
  "drop_stamps E x [] g = (g\<lparr>st_queue := []\<rparr>, [])"
| "drop_stamps E x (f # q) g =
    (if s_iden f = x then (case abort_stamp E f g of (g1, o1) \<Rightarrow> case drop_stamps E x q g1 of (g2, o2) \<Rightarrow> (g2, o1 @ o2))
     else (case drop_stamps E x q g of (g2, o2) \<Rightarrow> (g2\<lparr>st_queue := f # st_queue g2\<rparr>, o2)))"

definition delete_identity :: "gw_env \<Rightarrow> iden_id \<Rightarrow> gateway \<Rightarrow> gateway \<times> gw_out list \<times> bool" where
  "delete_identity E x g =
    (case identity_by_id x g of
       None \<Rightarrow> (g, [], False)
     | Some i \<Rightarrow>
         let a = idens g ! i; g1 = g\<lparr>rx := shutdown i (rx g)\<rparr>; g2 = unlink_box E x (obox a) (unlink_box E x (ibox a) g1) in
         (case drop_stamps E x (st_queue g2) g2 of
            (g3, out) \<Rightarrow>
              let g4 = on_dir x (\<lambda>d. d\<lparr>d_key := None, d_meta := None, d_inbox := None, d_outbox := None\<rparr>) g3 in
              (on_slot i (\<lambda>a. a\<lparr>ibox := None, obox := None, rkey := [], iid := '''', label := [], active := False\<rparr>) g4, out, True)))"

text \<open>The loop over the entries of the identities directory.\<close>

fun load_loop :: "gw_env \<Rightarrow> iden_id list \<Rightarrow> nat \<Rightarrow> gateway \<Rightarrow> gateway \<times> gw_out list" where
  "load_loop E [] n g = (g, [])"
| "load_loop E (x # xs) n g =
    (if n \<ge> LXMF_GATEWAY_MAX_IDENTITIES then load_loop E xs n g
     else (case first_free_slot g of
         None \<Rightarrow> (g, [])
       | Some i \<Rightarrow>
           (case d_key (dir_of x g) of
              None \<Rightarrow> load_loop E xs n g
            | Some k \<Rightarrow>
                if k = [] then load_loop E xs n g
                else let g1 = on_slot i (\<lambda>a. (read_meta E (d_meta (dir_of x g)) (a\<lparr>iid := x, rkey := k, label := default_label\<rparr>))
                           \<lparr>ratchets := fst (load_ring (d_ratchet (dir_of x g)))\<rparr>) g in
                  (case activate E i g1 of (g2, o1) \<Rightarrow> case load_loop E xs (n + 1) g2 of (g3, o2) \<Rightarrow> (g3, o1 @ o2)))))"

text \<open>Keep the first holder of the screen flag.\<close>

fun single_screen :: "gw_env \<Rightarrow> nat list \<Rightarrow> nat option \<Rightarrow> gateway \<Rightarrow> gateway \<times> nat option" where
  "single_screen E [] h g = (g, h)"
| "single_screen E (i # is) h g =
    (if \<not> active (idens g ! i) \<or> \<not> screen (conf (idens g ! i)) then single_screen E is h g
     else if h = None then single_screen E is (Some i) g
     else single_screen E is h (write_meta E i (on_conf (\<lambda>c. c\<lparr>screen := False\<rparr>) i g)))"

definition load_existing_identities :: "gw_env \<Rightarrow> gateway \<Rightarrow> gateway \<times> gw_out list" where
  "load_existing_identities E g =
    (case load_loop E (mkeys (dirs g)) 0 g of
       (g1, o1) \<Rightarrow> (case single_screen E (slot_list g1) None g1 of
           (g2, h) \<Rightarrow> (g2, o1 @ (case h of None \<Rightarrow> [] | Some i \<Rightarrow> [MessengerScreen True (iden_path (iid (idens g2 ! i)))]))))"

definition gw_setup :: "gw_env \<Rightarrow> gateway \<Rightarrow> gateway \<times> gw_out list" where
  "gw_setup E g = (if is_setup g then (g, []) else (case load_existing_identities E g of (g', out) \<Rightarrow> (g'\<lparr>is_setup := True\<rparr>, out)))"

section \<open>Announces and ratchets\<close>

definition announce_slot :: "nat \<Rightarrow> gateway \<Rightarrow> gw_out list" where
  "announce_slot i g =
    (let r = slots (rx g) i in
     if \<not> rx_ready r then []
     else (case announce_data (c_str (Some (label (idens g ! i)))) (rx_cost r) of None \<Rightarrow> [] | Some d \<Rightarrow> [Announced i d]))"

definition announce_identity :: "gw_env \<Rightarrow> iden_id \<Rightarrow> gateway \<Rightarrow> gateway \<times> gw_out list \<times> bool" where
  "announce_identity E x g =
    (case identity_by_id x g of
       None \<Rightarrow> (g, [], False)
     | Some i \<Rightarrow> (on_slot i (\<lambda>a. a\<lparr>last_announce := ms E\<rparr>) g, announce_slot i g, True))"

definition announce_due :: "gw_env \<Rightarrow> iden \<Rightarrow> bool" where
  "announce_due E a \<longleftrightarrow> announce_every (conf a) \<noteq> 0 \<and> sub32 (ms E) (last_announce a) \<ge> announce_every (conf a)"

definition tick_announces :: "gw_env \<Rightarrow> gateway \<Rightarrow> gateway \<times> gw_out list" where
  "tick_announces E g =
    each_slot (\<lambda>i g. if announce_due E (idens g ! i) then (on_slot i (\<lambda>a. a\<lparr>last_announce := ms E\<rparr>) g, announce_slot i g) else (g, []))
      (slot_list g) g"

definition rotate_outbound_ratchet :: "gw_env \<Rightarrow> hash \<Rightarrow> gateway \<Rightarrow> gateway \<times> bytes option" where
  "rotate_outbound_ratchet E d g =
    (case first_index (\<lambda>i. active (idens g ! i) \<and> address_of g i = d) (slot_list g) of
       None \<Rightarrow> (g, None)
     | Some i \<Rightarrow>
         let es = rotate_ring (word_of_nat (ms E)) (fresh_ratchet E) (ratchets (idens g ! i));
             g1 = on_slot i (\<lambda>a. a\<lparr>ratchets := es\<rparr>) g;
             g2 = (case save_ring es of None \<Rightarrow> g1 | Some b \<Rightarrow> on_dir (iid (idens g ! i)) (\<lambda>dd. dd\<lparr>d_ratchet := ratchet_file E b\<rparr>) g1)
         in (g2, if length (pubkey (last es)) \<noteq> RATCHET_BYTES then None else Some (pubkey (last es))))"

definition inbound_ratchet_privkey :: "gw_env \<Rightarrow> hash \<Rightarrow> nat \<Rightarrow> gateway \<Rightarrow> bytes option" where
  "inbound_ratchet_privkey E h k g =
    (case first_index (\<lambda>a. active a \<and> key_id E (rkey a) = h) (idens g) of
       None \<Rightarrow> None
     | Some i \<Rightarrow>
         (case at_newest_first k (ratchets (idens g ! i)) of
            None \<Rightarrow> None
          | Some e \<Rightarrow> if length (privkey e) \<noteq> RATCHET_BYTES then None else Some (privkey e)))"

section \<open>Attachment files\<close>

definition LXMF_MAX_ATTACHMENT_NAME :: nat where "LXMF_MAX_ATTACHMENT_NAME = 256"

definition hex_digit :: "nat \<Rightarrow> char" where
  "hex_digit n = char_of (if n < 10 then 48 + n else 87 + n)"

fun hex_of :: "nat \<Rightarrow> nat \<Rightarrow> string" where
  "hex_of 0 n = ''''"
| "hex_of (Suc k) n = hex_of k (n div 16) @ [hex_digit (n mod 16)]"

definition bytes_of :: "string \<Rightarrow> bytes" where "bytes_of s = map (\<lambda>c. word_of_nat (of_char c)) s"

text \<open>\<open>snprintf\<close> of \<open>\%s_\%02x_\%u.bin\<close> into 96 characters\<close>

definition attachment_name :: "gw_env \<Rightarrow> hash \<Rightarrow> u8 \<Rightarrow> nat \<Rightarrow> string" where
  "attachment_name E h t i = take 95 (hexs E h @ ''_'' @ hex_of 2 (unat t) @ ''_'' @ decimal i @ ''.bin'')"

text \<open>The card first, then flash; \<open>None\<close> when neither took all bytes.\<close>

definition attachment_backend :: "gw_env \<Rightarrow> string \<Rightarrow> bytes option" where
  "attachment_backend E p = (if sd_here E \<and> sd_ok E p then Some sd_name else if fl_ok E p then Some flash_name else None)"

definition stored_meta :: "gw_env \<Rightarrow> iden_id \<Rightarrow> hash \<Rightarrow> u8 \<Rightarrow> nat \<Rightarrow> nat \<Rightarrow> attachment_meta option" where
  "stored_meta E x h t i n =
    (let f = attachment_name E h t i in
     map_option (\<lambda>b. blank_meta\<lparr>m_tag := t, m_size := wrap32 n, m_filename := bytes_of f, m_backend := b\<rparr>)
       (attachment_backend E (iden_path x @ ''/attachments/'' @ f)))"

definition received_display :: "blob \<Rightarrow> bytes" where
  "received_display f =
    take LXMF_MAX_ATTACHMENT_NAME
      (if b_tag f = FIELD_IMAGE \<and> b_name f \<noteq> [] then bytes_of ''image.'' @ b_name f
       else if b_tag f = FIELD_FILE_ATTACHMENTS then b_name f else [])"

text \<open>What the attachment callbacks answer; the files themselves are not part of the state.\<close>

definition persist_received :: "gw_env \<Rightarrow> gateway \<Rightarrow> nat \<Rightarrow> hash \<Rightarrow> blob list \<Rightarrow> attachment_meta list" where
  "persist_received E g i h fs =
    (if \<not> active (idens g ! i) then []
     else concat (map (\<lambda>k. let f = fs ! k in
        case stored_meta E (iid (idens g ! i)) h (b_tag f) k (b_len f) of None \<Rightarrow> [] | Some m \<Rightarrow> [m\<lparr>m_display := received_display f\<rparr>])
        [0..<length fs]))"

definition persist_sent :: "gw_env \<Rightarrow> gateway \<Rightarrow> nat \<Rightarrow> hash \<Rightarrow> attachment list \<Rightarrow> attachment_meta list" where
  "persist_sent E g i h as =
    (if \<not> active (idens g ! i) \<or> \<not> keep_sent (conf (idens g ! i)) then []
     else map (\<lambda>k. let a = as ! k in
        if staging_id a = 0 \<and> att_data a = [] then blank_meta
        else (case stored_meta E (iid (idens g ! i)) h (att_tag a) k (byte_count a) of None \<Rightarrow> blank_meta | Some m \<Rightarrow> m)) [0..<length as])"

definition gw_rx_world :: "gw_env \<Rightarrow> gateway \<Rightarrow> rx_world" where
  "gw_rx_world E g = (inw E)\<lparr>rx_persist := (\<lambda>i. Some (\<lambda>p h fs. persist_received E g i h fs))\<rparr>"

section \<open>Delivery\<close>

definition urtn_msg :: bytes where "urtn_msg = bytes_of ''urtn_msg''"

fun marks_loop :: "nat \<Rightarrow> bytes \<Rightarrow> nat \<Rightarrow> nat \<Rightarrow> exc + bool" where
  "marks_loop depth d 0 off = Inr False"
| "marks_loop depth d (Suc n) off =
    (if off \<ge> length d then Inr False
     else and_also (read_e d (length d) off) (\<lambda>(key, off).
       if key = [] then Inr False
       else if key = urtn_msg then Inr True
       else and_also (skip_e depth d (length d) off) (\<lambda>(ok, off). if \<not> ok then Inr False else marks_loop depth d n off)))"

definition meta_marks_message :: "nat \<Rightarrow> bytes \<Rightarrow> exc + bool" where
  "meta_marks_message depth d =
    (if d = [] then Inr False
     else if hd d AND 0xF0 = 0x80 then marks_loop depth d (unat (hd d AND 0x0F)) 1
     else if hd d = 0xDE \<and> 2 < length d then marks_loop depth d (be16 (d ! 1) (d ! 2)) 3
     else Inr False)"

text \<open>Commands and bare telemetry stay out of the inbox.\<close>

definition machinery_only :: "gw_env \<Rightarrow> message_record \<Rightarrow> exc + bool" where
  "machinery_only E r =
    (if content r = [] \<and> attachments r = [] \<and> (rec_commands r \<noteq> [] \<or> has_telemetry r)
     then and_also (meta_marks_message (rx_depth (inw E)) (rec_meta r)) (\<lambda>b. Inr (\<not> b))
     else Inr False)"

text \<open>A position from a live feed starts a GPX track on the record.\<close>

definition start_track :: "gw_env \<Rightarrow> iden_id \<Rightarrow> message_record \<Rightarrow> mailbox \<Rightarrow> mailbox \<times> message_record \<times> gw_out list" where
  "start_track E x r m =
    (if \<not> (has_telemetry r \<and> feed_from E x (peer_hash r) \<and> has_location E (rec_telemetry r)) then (m, r, [])
     else (case reserve_seq m of (m1, q) \<Rightarrow>
       let name = take 79 (hexs E (peer_hash r) @ ''_'' @ hex_of 8 q @ ''.bin''); full = iden_path x @ ''/attachments/'' @ name;
           r1 = r\<lparr>rec_seq := q\<rparr>; sz = gpx_size E full
       in if sz = 0 then (m1, r1, [GpxCreate (sd_here E) full])
          else (m1, r1\<lparr>attachments := attachments r1 @ [\<lparr>m_tag = FIELD_FILE_ATTACHMENTS, m_size = sz, m_filename = bytes_of name,
                m_display = gpx_name E q, m_mime = bytes_of ''application/gpx+xml'',
                m_backend = (if sd_here E then sd_name else flash_name)\<rparr>]\<rparr>,
              [GpxCreate (sd_here E) full, FeedGpx x (peer_hash r) full (sd_here E)])))"

definition on_delivery :: "gw_env \<Rightarrow> nat \<Rightarrow> message_record \<Rightarrow> gateway \<Rightarrow> gateway \<times> gw_out list" where
  "on_delivery E i r g =
    (let a = idens g ! i; x = iid a in
     case ibox a of
       None \<Rightarrow> (g, [])
     | Some m \<Rightarrow>
         if \<not> active a then (g, [])
         else
           let o1 = (if rec_commands r \<noteq> [] then [Commands x (peer_hash r) (rec_commands r)] else [])
                 @ (if rec_meta r \<noteq> [] then [LiveOffer x (peer_hash r) (rec_meta r)] else [])
                 @ (if rec_telemetry r \<noteq> [] then [TelemetryIn x (peer_hash r) (rec_telemetry r)] else [])
           in (case machinery_only E r of
                 Inl e \<Rightarrow> (g, o1 @ [Escaped e])
               | Inr True \<Rightarrow> (g, o1)
               | Inr False \<Rightarrow>
                   (case start_track E x (r\<lparr>rec_seq := 0, rec_commands := [], rec_meta := []\<rparr>) m of
                      (m1, l, o2) \<Rightarrow>
                        (case append_record (live (inb E)) l m1 of
                           (m2, gone, l1, ok) \<Rightarrow>
                             (case removed_all E i gone (on_slot i (\<lambda>a. a\<lparr>ibox := Some m2\<rparr>) g) of
                                (g1, o3) \<Rightarrow> (g1, o1 @ o2 @ o3 @ [PublishIncoming x l1]
                                  @ (if screen (conf a) then [ScreenNotify l1] else [])))))))"

definition on_outbox_status :: "gw_env \<Rightarrow> nat \<Rightarrow> hash \<Rightarrow> outbox_status \<Rightarrow> gateway \<Rightarrow> gateway \<times> gw_out list" where
  "on_outbox_status E i h st g =
    (if \<not> active (idens g ! i) \<or> obox (idens g ! i) = None then (g, [])
     else (fst (on_outbox E i (\<lambda>B m. (fst (update_status B h st m), [])) g),
       [TelemetryStatus h st, MessengerStatus h st, PublishStatus (iid (idens g ! i)) h st]
       @ (if st = Delivered \<or> st = Sent \<or> st = Failed then [PublishFinished (iid (idens g ! i)) h] else [])))"

text \<open>A receiving event, with its deliveries handed to the identities.\<close>

fun handle_rx :: "gw_env \<Rightarrow> rx_out list \<Rightarrow> gateway \<Rightarrow> gateway \<times> gw_out list" where
  "handle_rx E [] g = (g, [])"
| "handle_rx E (e # es) g =
    (case (case e of Received i r \<Rightarrow> on_delivery E i r g | _ \<Rightarrow> (g, [Rx e])) of
       (g1, o1) \<Rightarrow> case handle_rx E es g1 of (g2, o2) \<Rightarrow> (g2, o1 @ o2))"

definition gw_receive :: "gw_env \<Rightarrow> rx_event \<Rightarrow> gateway \<Rightarrow> gateway \<times> gw_out list" where
  "gw_receive E e g = (case rx_step (rx g) (gw_rx_world E g, e) of (r, out) \<Rightarrow> handle_rx E out (g\<lparr>rx := r\<rparr>))"

end
