(* ===== verification/GatewaySend.thy ===== *)
theory GatewaySend
  imports Gateway
begin

text \<open>
  Sending from an identity, \<open>src/src/LXMF/LXMFGateway.h\<close>: \<open>send\<close>, the queue of messages waiting for a
  route, the queue of messages waiting for a stamp with their sidecar files, the ticks that move
  both, announce-triggered acceleration, and the main loop that drives them with the send
  machinery of \<open>LxmfSend\<close>.

  The SD writer's stream of a sidecar is its handle; the file is on the card when the poll reports
  it written. The \<open>owner\<close> pointer of a pending entry is the field \<open>owner\<close> of the environment.
\<close>

section \<open>The node of a slot\<close>

definition node_of :: "gateway \<Rightarrow> nat \<Rightarrow> node" where
  "node_of g i = \<lparr>initialized = rx_ready (slots (rx g) i), own_hash = address_of g i, links = g_links g, opps = g_opps g,
     stage = g_stage g, clk = rx_clk (rx g)\<rparr>"

definition put_node :: "node \<Rightarrow> gateway \<Rightarrow> gateway" where
  "put_node n g = g\<lparr>g_links := links n, g_opps := opps n, g_stage := stage n\<rparr>"

definition tx_world :: "gw_env \<Rightarrow> gateway \<Rightarrow> nat \<Rightarrow> world" where
  "tx_world E g i = (gw E)\<lparr>persist := Some (persist_sent E g i)\<rparr>"

text \<open>Status callbacks reach the outbox of the entry's owner.\<close>

fun run_actions :: "gw_env \<Rightarrow> (hash \<Rightarrow> nat) \<Rightarrow> action list \<Rightarrow> gateway \<Rightarrow> gateway \<times> gw_out list" where
  "run_actions E own [] g = (g, [])"
| "run_actions E own (a # as) g =
    (case (case a of StatusCb h st \<Rightarrow> (case on_outbox_status E (own h) h st g of (g', out) \<Rightarrow> (g', Did a # out)) | _ \<Rightarrow> (g, [Did a])) of
       (g1, o1) \<Rightarrow> case run_actions E own as g1 of (g2, o2) \<Rightarrow> (g2, o1 @ o2))"

definition release_staged :: "gw_env \<Rightarrow> attachment list \<Rightarrow> gateway \<Rightarrow> gateway" where
  "release_staged E as g = g\<lparr>g_stage := release_all (disk (gw E)) as (g_stage g)\<rparr>"

section \<open>Waiting for a route\<close>

definition PENDING_ID_MAX :: nat where "PENDING_ID_MAX = 8"
definition PENDING_ID_MAX_ATTEMPTS :: nat where "PENDING_ID_MAX_ATTEMPTS = 6"
definition PENDING_ID_BACKOFF_MS :: nat where "PENDING_ID_BACKOFF_MS = 4000"
definition PENDING_ATTACH_MAX_ATTEMPTS :: nat where "PENDING_ATTACH_MAX_ATTEMPTS = 8"
definition PENDING_ATTACH_REQUEST_MS :: nat where "PENDING_ATTACH_REQUEST_MS = 7000"
definition PENDING_ATTACH_RECHECK_MS :: nat where "PENDING_ATTACH_RECHECK_MS = 2000"
definition STAMP_DISPATCH_MAX_ATTEMPTS :: nat where "STAMP_DISPATCH_MAX_ATTEMPTS = 6"
definition STAMP_DISPATCH_BACKOFF_MS :: nat where "STAMP_DISPATCH_BACKOFF_MS = 4000"
definition ANNOUNCED_SLOTS :: nat where "ANNOUNCED_SLOTS = 8"

lemmas gw_consts = PENDING_ID_MAX_def PENDING_ID_MAX_ATTEMPTS_def PENDING_ID_BACKOFF_MS_def PENDING_ATTACH_MAX_ATTEMPTS_def
  PENDING_ATTACH_REQUEST_MS_def PENDING_ATTACH_RECHECK_MS_def STAMP_DISPATCH_MAX_ATTEMPTS_def STAMP_DISPATCH_BACKOFF_MS_def
  PENDING_STAMP_MAX_def ANNOUNCED_SLOTS_def

definition no_extra :: gw_extra where
  "no_extra = \<lparr>telemetry = [], commands = [], custom_meta = [], visible = False\<rparr>"

definition extra_empty :: "gw_extra \<Rightarrow> bool" where
  "extra_empty x \<longleftrightarrow> telemetry x = [] \<and> commands x = [] \<and> custom_meta x = []"

definition queue_pending_identity_send ::
  "gw_env \<Rightarrow> nat \<Rightarrow> iden_id \<Rightarrow> hash \<Rightarrow> bytes \<Rightarrow> bytes \<Rightarrow> attachment list \<Rightarrow> gw_extra option \<Rightarrow> gateway \<Rightarrow> gateway \<times> nat" where
  "queue_pending_identity_send E i x d ti co as ex g =
    (let q = id_queue g;
         twin = (if as = [] then first_index (\<lambda>p. q_atts p = [] \<and> q_iden p = x \<and> q_dest p = d \<and> q_title p = ti \<and> q_content p = co) q
                 else None)
     in case twin of
          Some k \<Rightarrow>
            let p = (q ! k)\<lparr>q_attempts := 0, q_next := ms E + PENDING_ID_BACKOFF_MS\<rparr>;
                p' = (case ex of None \<Rightarrow> p | Some e \<Rightarrow> p\<lparr>q_extra := e\<rparr>)
            in (g\<lparr>id_queue := q[k := p']\<rparr>, q_seq p')
        | None \<Rightarrow>
            if length q \<ge> PENDING_ID_MAX then (g, 0)
            else (case obox (idens g ! i) of
                None \<Rightarrow> (g, 0)
              | Some m \<Rightarrow>
                  (case reserve_seq m of (m', n) \<Rightarrow>
                    let p = \<lparr>q_iden = x, q_dest = d, q_title = ti, q_content = co, q_atts = as,
                          q_extra = (case ex of None \<Rightarrow> no_extra | Some e \<Rightarrow> e), q_seq = n, q_attempts = 0,
                          q_next = ms E + (if as \<noteq> [] then PENDING_ATTACH_RECHECK_MS else PENDING_ID_BACKOFF_MS),
                          q_request = (if as \<noteq> [] then ms E + PENDING_ATTACH_REQUEST_MS else 0)\<rparr>
                    in ((on_slot i (\<lambda>a. a\<lparr>obox := Some m'\<rparr>) g)\<lparr>id_queue := q @ [p]\<rparr>, n))))"

text \<open>The record of the bubble shown while the route is looked for.\<close>

definition optimistic_record :: "gw_env \<Rightarrow> nat \<Rightarrow> hash \<Rightarrow> bytes \<Rightarrow> bytes \<Rightarrow> attachment list \<Rightarrow> gateway \<Rightarrow> message_record" where
  "optimistic_record E n d ti co as g =
    blank_record\<lparr>rec_seq := n, peer_hash := d, title := ti, content := co, body_size := wrap32 (length co), incoming := False,
      signature_ok := True, rec_status := FindingRoute, boot_epoch := epoch_no (gw E), received_ms := ms E,
      rec_ts := bits (gw E) (get_timestamp (ms E) (rx_clk (rx g))),
      attachments := map (\<lambda>a. blank_meta\<lparr>m_tag := att_tag a, m_size := wrap32 (byte_count a), m_filename := filename a,
        m_mime := mime a\<rparr>) as\<rparr>"

section \<open>Waiting for a stamp\<close>

text \<open>The sidecar in one piece: the card first, then flash.\<close>

definition write_pending_stamp_sidecar :: "gw_env \<Rightarrow> string \<Rightarrow> hash \<Rightarrow> nat \<Rightarrow> hash \<Rightarrow> bytes \<Rightarrow> gateway \<Rightarrow> gateway \<times> bool" where
  "write_pending_stamp_sidecar E p d k mid pl g =
    (if pl = [] then (g, False)
     else (case fill_stamp_header d k mid of
         None \<Rightarrow> (g, False)
       | Some h \<Rightarrow>
           if sd_here E \<and> sd_ok E p then (g\<lparr>sd_fs := (sd_fs g)(p := Some (h @ pl))\<rparr>, True)
           else let g1 = (if sd_here E then g\<lparr>sd_fs := (sd_fs g)(p := None)\<rparr> else g) in
             if fl_ok E p then (g1\<lparr>fl_fs := (fl_fs g1)(p := Some (h @ pl))\<rparr>, True)
             else (g1\<lparr>fl_fs := (fl_fs g1)(p := None)\<rparr>, False)))"

definition begin_sd_stamp_sidecar :: "gw_env \<Rightarrow> string \<Rightarrow> hash \<Rightarrow> nat \<Rightarrow> hash \<Rightarrow> bytes \<Rightarrow> nat" where
  "begin_sd_stamp_sidecar E p d k mid pl =
    (if \<not> sd_here E \<or> pl = [] \<or> fill_stamp_header d k mid = None then 0 else sidecar_job E p)"

definition fail_pending_stamp :: "gw_env \<Rightarrow> nat \<Rightarrow> pending_stamp \<Rightarrow> gateway \<Rightarrow> gateway \<times> gw_out list" where
  "fail_pending_stamp E i f g =
    (remove_pending_stamp_sidecar E (s_sidecar f) (mutate_outbox E i (s_seq f) (\<lambda>r. r\<lparr>rec_status := Failed\<rparr>) g),
     PublishSeq (s_iden f) (s_seq f) ''failed'' [] # (if s_handle f \<noteq> 0 then [HandleReleased (s_handle f)] else []))"

datatype send_result = Rejected send_error | Parked message_record | Accepted_as message_record

text \<open>Append to the outbox; the record comes back with its number.\<close>

definition append_outbox :: "gw_env \<Rightarrow> nat \<Rightarrow> message_record \<Rightarrow> mailbox \<Rightarrow> gateway \<Rightarrow> gateway \<times> gw_out list \<times> message_record" where
  "append_outbox E i r m g =
    (case append_record (live (outb E)) r m of
       (m', gone, r', ok) \<Rightarrow> (case removed_all E i gone (on_slot i (\<lambda>a. a\<lparr>obox := Some m'\<rparr>) g) of (g', out) \<Rightarrow> (g', out, r')))"

definition send_with_stamp ::
  "gw_env \<Rightarrow> nat \<Rightarrow> iden_id \<Rightarrow> hash \<Rightarrow> bytes \<Rightarrow> bytes \<Rightarrow> attachment list \<Rightarrow> nat \<Rightarrow> nat \<Rightarrow> gw_extra option \<Rightarrow> message_record \<Rightarrow> gateway
    \<Rightarrow> gateway \<times> gw_out list \<times> send_result" where
  "send_with_stamp E i x d ti co as k us ex r g =
    (if length (st_queue g) \<ge> PENDING_STAMP_MAX then
       (release_staged E as g, [], Rejected (Refused ''Too many messages are already waiting on stamp generation. Please resend in a moment.''))
     else (case obox (idens g ! i) of
         None \<Rightarrow> (release_staged E as g, [], Rejected (Refused ''This identity has no outbox spool.''))
       | Some m \<Rightarrow>
           (case prepare_message (tx_world E g i) (node_of g i) d ti co as (map_option extra_fields.truncate ex) r of
              (n, acts, Inl e) \<Rightarrow> (put_node n g, map Did acts, Rejected e)
            | (n, acts, Inr (pm, r1)) \<Rightarrow>
                let r2 = r1\<lparr>rec_status := GeneratingStamp, rec_seq := (if us \<noteq> 0 then us else rec_seq r1)\<rparr> in
                (case append_outbox E i r2 m (put_node n g) of
                   (g1, o1, r3) \<Rightarrow>
                     let p = pending_stamp_sidecar_path (iid (idens g1 ! i)) (rec_seq r3);
                         f = \<lparr>s_iden = x, s_dest = d, s_mid = message_id pm, s_seq = rec_seq r3, s_cost = k, s_sidecar = '''', s_handle = 0,
                              s_payload = [], s_submitted = False, s_stamp = [], s_value = 0, s_attempts = 0, s_next = 0\<rparr>;
                         h = begin_sd_stamp_sidecar E p d k (message_id pm) (payload pm);
                         (g2, f') = (if h \<noteq> 0 then (g1, f\<lparr>s_sidecar := p, s_handle := h, s_payload := payload pm\<rparr>)
                           else (case write_pending_stamp_sidecar E p d k (message_id pm) (payload pm) g1 of
                               (g', ok) \<Rightarrow> (g', if ok then f\<lparr>s_sidecar := p\<rparr> else f\<lparr>s_payload := payload pm\<rparr>)))
                     in (g2\<lparr>st_queue := st_queue g2 @ [f']\<rparr>, map Did acts @ o1 @ [PublishOutbound x r3], Accepted_as r3)))))"

section \<open>Sending\<close>

definition send_now ::
  "gw_env \<Rightarrow> nat \<Rightarrow> iden_id \<Rightarrow> hash \<Rightarrow> bytes \<Rightarrow> bytes \<Rightarrow> attachment list \<Rightarrow> gw_extra option \<Rightarrow> nat \<Rightarrow> message_record \<Rightarrow> gateway
    \<Rightarrow> gateway \<times> gw_out list \<times> send_result" where
  "send_now E i x d ti co as ex us r g =
    (case send_message (tx_world E g i) (node_of g i) d ti co as (map_option extra_fields.truncate ex) r of
       (n, acts, res) \<Rightarrow>
         (case run_actions E (\<lambda>_. i) acts (put_node n g) of
            (g1, o1) \<Rightarrow>
              (case res of
                 Inl e \<Rightarrow> (g1, o1, Rejected e)
               | Inr r1 \<Rightarrow>
                   (case obox (idens g1 ! i) of
                      None \<Rightarrow> (g1, o1, Accepted_as r1)
                    | Some m \<Rightarrow>
                        if (case ex of None \<Rightarrow> False | Some e \<Rightarrow> \<not> extra_empty e \<and> \<not> visible e \<and> ti = [] \<and> co = [] \<and> as = [])
                        then (g1, o1, Accepted_as r1)
                        else (case append_outbox E i (if us \<noteq> 0 then r1\<lparr>rec_seq := us\<rparr> else r1) m g1 of
                            (g2, o2, r2) \<Rightarrow> (g2, o1 @ o2 @ [PublishOutbound x r2], Accepted_as r2))))))"

text \<open>With a route: pay the recipient's cost first, if it has one.\<close>

definition send_routed ::
  "gw_env \<Rightarrow> nat \<Rightarrow> iden_id \<Rightarrow> hash \<Rightarrow> bytes \<Rightarrow> bytes \<Rightarrow> attachment list \<Rightarrow> gw_extra option \<Rightarrow> nat \<Rightarrow> message_record \<Rightarrow> gateway
    \<Rightarrow> gateway \<times> gw_out list \<times> send_result" where
  "send_routed E i x d ti co as ex us r g =
    (case peer_stamp_cost (rx_depth (inw E)) (app_data E d) of
       None \<Rightarrow> (g, [Escaped StackExhausted], Rejected Thrown)
     | Some k \<Rightarrow> if k \<ge> 1 then send_with_stamp E i x d ti co as k us ex r g else send_now E i x d ti co as ex us r g)"

definition has_route :: "gw_env \<Rightarrow> hash \<Rightarrow> bool" where
  "has_route E d \<longleftrightarrow> has_path (net (gw E)) d \<and> recall (net (gw E)) d"

definition gw_send ::
  "gw_env \<Rightarrow> iden_id \<Rightarrow> hash \<Rightarrow> bytes \<Rightarrow> bytes \<Rightarrow> attachment list \<Rightarrow> gw_extra option \<Rightarrow> nat \<Rightarrow> message_record \<Rightarrow> gateway
    \<Rightarrow> gateway \<times> gw_out list \<times> send_result" where
  "gw_send E x d ti co as ex us r g =
    (case identity_by_id x g of
       None \<Rightarrow> (g, [], Rejected (Refused ''No such identity is logged in on this device.''))
     | Some i \<Rightarrow>
         if has_route E d then send_routed E i x d ti co as ex us r g
         else (case queue_pending_identity_send E i x d ti co as ex g of
             (g1, n) \<Rightarrow>
               if n \<noteq> 0 then (g1, [Did (RequestPath d)], Parked (optimistic_record E n d ti co as g1))
               else if as = [] then
                 (g1, [Did (RequestPath d)],
                  Rejected (Refused ''No route to the recipient yet and the auto-send queue is full. Please resend in a moment.''))
               else (case send_routed E i x d ti co as ex us r g1 of (g2, out, res) \<Rightarrow> (g2, Did (RequestPath d) # out, res))))"

section \<open>The tick of the route queue\<close>

definition auto_send :: "gw_env \<Rightarrow> pending_identity \<Rightarrow> gateway \<Rightarrow> gateway \<times> gw_out list \<times> send_result" where
  "auto_send E p g =
    gw_send E (q_iden p) (q_dest p) (q_title p) (q_content p) (q_atts p) (if extra_empty (q_extra p) then None else Some (q_extra p))
      (q_seq p) blank_record g"

definition gave_up :: "pending_identity \<Rightarrow> gw_out" where
  "gave_up p = PublishSeq (q_iden p) (q_seq p) ''failed'' []"

datatype visit = Keep pending_identity | Gone | Stop

definition visit_sendable :: "gw_env \<Rightarrow> pending_identity \<Rightarrow> gateway \<Rightarrow> gateway \<times> gw_out list \<times> visit" where
  "visit_sendable E p g =
    (case auto_send E p g of
       (g1, out, Accepted_as r) \<Rightarrow> (g1, out, Gone)
     | (g1, out, Rejected Thrown) \<Rightarrow> (g1, out, Stop)
     | (g1, out, _) \<Rightarrow> (g1, out @ [gave_up p], Gone))"

definition visit_waiting :: "gw_env \<Rightarrow> pending_identity \<Rightarrow> gateway \<Rightarrow> gateway \<times> gw_out list \<times> visit" where
  "visit_waiting E p g =
    (if q_atts p \<noteq> [] then
       (if ms E \<ge> q_request p then
          (let p1 = p\<lparr>q_attempts := (q_attempts p + 1) mod 256\<rparr> in
           if q_attempts p1 \<ge> PENDING_ATTACH_MAX_ATTEMPTS then (release_staged E (q_atts p) g, [gave_up p], Gone)
           else (g, [Did (RequestPath (q_dest p))],
             Keep (p1\<lparr>q_request := ms E + PENDING_ATTACH_REQUEST_MS, q_next := ms E + PENDING_ATTACH_RECHECK_MS\<rparr>)))
        else (g, [], Keep (p\<lparr>q_next := ms E + PENDING_ATTACH_RECHECK_MS\<rparr>)))
     else
       (let p1 = p\<lparr>q_attempts := (q_attempts p + 1) mod 256\<rparr> in
        if q_attempts p1 \<ge> PENDING_ID_MAX_ATTEMPTS then (g, [gave_up p], Gone)
        else (g, [Did (RequestPath (q_dest p))], Keep (p1\<lparr>q_next := ms E + PENDING_ID_BACKOFF_MS * q_attempts p1\<rparr>))))"

definition visit_pending :: "gw_env \<Rightarrow> pending_identity \<Rightarrow> gateway \<Rightarrow> gateway \<times> gw_out list \<times> visit" where
  "visit_pending E p g =
    (if ms E < q_next p then (g, [], Keep p)
     else if has_route E (q_dest p) then visit_sendable E p g
     else visit_waiting E p g)"

text \<open>The entries kept; an exception leaves the rest of the queue as it is.\<close>

fun visit_all :: "gw_env \<Rightarrow> pending_identity list \<Rightarrow> gateway \<Rightarrow> gateway \<times> gw_out list \<times> pending_identity list" where
  "visit_all E [] g = (g, [], [])"
| "visit_all E (p # q) g =
    (case visit_pending E p g of
       (g1, o1, Stop) \<Rightarrow> (g1, o1, p # q)
     | (g1, o1, Gone) \<Rightarrow> (case visit_all E q g1 of (g2, o2, k) \<Rightarrow> (g2, o1 @ o2, k))
     | (g1, o1, Keep p') \<Rightarrow> (case visit_all E q g1 of (g2, o2, k) \<Rightarrow> (g2, o1 @ o2, p' # k)))"

definition tick_pending_identity_sends :: "gw_env \<Rightarrow> gateway \<Rightarrow> gateway \<times> gw_out list" where
  "tick_pending_identity_sends E g =
    (case visit_all E (id_queue g) g of (g1, out, k) \<Rightarrow> (g1\<lparr>id_queue := k\<rparr>, out))"

section \<open>The tick of the stamp queue\<close>

definition set_front :: "pending_stamp \<Rightarrow> gateway \<Rightarrow> gateway" where
  "set_front f g = g\<lparr>st_queue := f # tl (st_queue g)\<rparr>"

definition pop_front :: "gateway \<Rightarrow> gateway" where
  "pop_front g = g\<lparr>st_queue := tl (st_queue g)\<rparr>"

text \<open>Give up on the front entry.\<close>

definition fail_front :: "gw_env \<Rightarrow> nat \<Rightarrow> pending_stamp \<Rightarrow> gateway \<Rightarrow> gateway \<times> gw_out list" where
  "fail_front E i f g = (case fail_pending_stamp E i f g of (g1, out) \<Rightarrow> (pop_front g1, out))"

text \<open>The payload of the front entry, from memory or from its sidecar; the reason when there is none.\<close>

definition stamp_payload :: "gw_env \<Rightarrow> pending_stamp \<Rightarrow> gateway \<Rightarrow> bytes option" where
  "stamp_payload E f g =
    (if s_payload f \<noteq> [] then Some (s_payload f)
     else if s_sidecar f = '''' then None
     else (case read_pending_stamp_sidecar E (s_sidecar f) g of
         None \<Rightarrow> None
       | Some (d, k, mid, pl) \<Rightarrow> if ram_ok E (length pl) \<and> mid = s_mid f then Some pl else None))"

definition sent_form :: "message_record \<Rightarrow> nat \<Rightarrow> message_record \<Rightarrow> message_record" where
  "sent_form sent v r =
    r\<lparr>rec_status := rec_status sent, packet_hash := packet_hash sent, stamp_checked := True, stamp_valid := True,
      stamp_value := (if v > 0x7FFF then 0x7FFF else int v)\<rparr>"

definition dispatch_front :: "gw_env \<Rightarrow> nat \<Rightarrow> pending_stamp \<Rightarrow> gateway \<Rightarrow> gateway \<times> gw_out list" where
  "dispatch_front E i f g =
    (if ms E < s_next f then (g, [])
     else (case stamp_payload E f g of
         None \<Rightarrow> fail_front E i f g
       | Some pl \<Rightarrow>
           (case send_prepared (tx_world E g i) (node_of g i) (s_dest f) \<lparr>payload = pl, message_id = s_mid f, pm_ts = 0\<rparr> (s_stamp f) blank_record of
              (n, acts, res) \<Rightarrow>
                (case run_actions E (\<lambda>_. i) acts (put_node n g) of
                   (g1, o1) \<Rightarrow>
                     (case res of
                        Inl Thrown \<Rightarrow> (g1, o1 @ [Escaped CppThrow])
                      | Inl (Refused why) \<Rightarrow>
                          (let f1 = f\<lparr>s_attempts := (s_attempts f + 1) mod 256\<rparr> in
                           if s_attempts f1 \<ge> STAMP_DISPATCH_MAX_ATTEMPTS then
                             (case fail_front E i f1 g1 of (g2, o2) \<Rightarrow> (g2, o1 @ o2))
                           else (set_front (f1\<lparr>s_next := ms E + STAMP_DISPATCH_BACKOFF_MS * s_attempts f1\<rparr>) g1, o1))
                      | Inr sent \<Rightarrow>
                          (pop_front (remove_pending_stamp_sidecar E (s_sidecar f) (mutate_outbox E i (s_seq f) (sent_form sent (s_value f)) g1)),
                           o1 @ [PublishSeq (s_iden f) (s_seq f) (outbox_status_name (rec_status sent)) (packet_hash sent)]))))))"

text \<open>Hand the job to the worker, or take its answer.\<close>

definition generate_front :: "gw_env \<Rightarrow> nat \<Rightarrow> pending_stamp \<Rightarrow> gateway \<Rightarrow> gateway \<times> gw_out list" where
  "generate_front E i f g =
    (if \<not> s_submitted f then
       (case submit_lxmf_generate (pow_free E) (s_mid f) (s_cost f) (pow (rx g)) of
          (w, ok) \<Rightarrow> (set_front (f\<lparr>s_submitted := ok\<rparr>) (g\<lparr>rx := (rx g)\<lparr>pow := w\<rparr>\<rparr>), []))
     else (case take_result_if (pow_free E) (s_mid f) (pow (rx g)) of
         (w, None) \<Rightarrow> (g\<lparr>rx := (rx g)\<lparr>pow := w\<rparr>\<rparr>, [])
       | (w, Some r) \<Rightarrow>
           let g1 = g\<lparr>rx := (rx g)\<lparr>pow := w\<rparr>\<rparr> in
           if \<not> jr_ok r \<or> jr_stamp r = [] then fail_front E i f g1
           else let f1 = f\<lparr>s_stamp := jr_stamp r, s_value := jr_value r\<rparr> in dispatch_front E i f1 (set_front f1 g1)))"

text \<open>Resolve the sidecar's stream; \<open>None\<close>: still writing.\<close>

definition resolve_sidecar :: "gw_env \<Rightarrow> pending_stamp \<Rightarrow> gateway \<Rightarrow> (gateway \<times> pending_stamp \<times> gw_out list) option" where
  "resolve_sidecar E f g =
    (if s_handle f = 0 then Some (g, f, [])
     else let w = job_poll E (s_handle f); f0 = f\<lparr>s_handle := 0\<rparr>; out = [HandleReleased (s_handle f)] in
       if w < 0 then None
       else if w = 1 then
         Some (case fill_stamp_header (s_dest f) (s_cost f) (s_mid f) of
             None \<Rightarrow> g | Some h \<Rightarrow> g\<lparr>sd_fs := (sd_fs g)(s_sidecar f := Some (h @ s_payload f))\<rparr>,
           f0\<lparr>s_payload := []\<rparr>, out)
       else Some (g, f0\<lparr>s_sidecar := ''''\<rparr>, out))"

definition tick_pending_stamp_sends :: "gw_env \<Rightarrow> gateway \<Rightarrow> gateway \<times> gw_out list" where
  "tick_pending_stamp_sends E g =
    (case st_queue g of
       [] \<Rightarrow> (g, [])
     | f # q \<Rightarrow>
         (case identity_by_id (s_iden f) g of
            None \<Rightarrow> (case abort_stamp E f g of (g1, out) \<Rightarrow> (pop_front g1, out))
          | Some i \<Rightarrow>
              if obox (idens g ! i) = None then (case abort_stamp E f g of (g1, out) \<Rightarrow> (pop_front g1, out))
              else (case resolve_sidecar E f g of
                  None \<Rightarrow> (g, [])
                | Some (g1, f1, o1) \<Rightarrow>
                    (case (if s_stamp f1 = [] then generate_front E i f1 (set_front f1 g1) else dispatch_front E i f1 (set_front f1 g1)) of
                       (g2, o2) \<Rightarrow> (g2, o1 @ o2)))))"

section \<open>Announced peers\<close>

definition note_peer_announced :: "hash \<Rightarrow> gateway \<Rightarrow> gateway" where
  "note_peer_announced d g =
    (if length d \<noteq> 16 \<or> d \<in> set (announced g) \<or> length (announced g) \<ge> ANNOUNCED_SLOTS then g
     else g\<lparr>announced := announced g @ [d]\<rparr>)"

definition hurry :: "nat \<Rightarrow> hash \<Rightarrow> pending_identity \<Rightarrow> pending_identity" where
  "hurry t d p = (if q_dest p = d \<and> q_next p > t then p\<lparr>q_next := t\<rparr> else p)"

definition accelerate_peer :: "gw_env \<Rightarrow> gateway \<Rightarrow> hash \<Rightarrow> gateway" where
  "accelerate_peer E g d =
    g\<lparr>g_links := accelerate_pending_for (net (gw E)) d (g_links g), g_opps := accelerate_opp_for (ms E) d (g_opps g),
      id_queue := map (hurry (ms E) d) (id_queue g)\<rparr>"

definition drain_peer_announcements :: "gw_env \<Rightarrow> gateway \<Rightarrow> gateway" where
  "drain_peer_announcements E g = foldl (accelerate_peer E) (g\<lparr>announced := []\<rparr>) (announced g)"

section \<open>The main loop\<close>

definition tick_links :: "gw_env \<Rightarrow> (env \<Rightarrow> outbox \<Rightarrow> result) \<Rightarrow> gateway \<Rightarrow> gateway \<times> gw_out list" where
  "tick_links E f g = (case f (net (gw E)) (g_links g) of (s, acts) \<Rightarrow> run_actions E (owner E) acts (g\<lparr>g_links := s\<rparr>))"

definition tick_opps :: "gw_env \<Rightarrow> opp_env \<Rightarrow> gateway \<Rightarrow> gateway \<times> gw_out list" where
  "tick_opps E T g = (case tick_opportunistic_receipts T (g_opps g) of (m, acts) \<Rightarrow> run_actions E (owner E) acts (g\<lparr>g_opps := m\<rparr>))"

definition tick_validations :: "gw_env \<Rightarrow> gateway \<Rightarrow> gateway \<times> gw_out list" where
  "tick_validations E g = gw_receive E (TickStamps (pow_free E) (pow_free E)) g"

text \<open>One step after the other.\<close>

fun in_order :: "(gateway \<Rightarrow> gateway \<times> gw_out list) list \<Rightarrow> gateway \<Rightarrow> gateway \<times> gw_out list" where
  "in_order [] g = (g, [])"
| "in_order (f # fs) g = (case f g of (g1, o1) \<Rightarrow> case in_order fs g1 of (g2, o2) \<Rightarrow> (g2, o1 @ o2))"

definition gw_loop :: "gw_env \<Rightarrow> opp_env \<Rightarrow> gateway \<Rightarrow> gateway \<times> gw_out list" where
  "gw_loop E T g =
    (if \<not> is_setup g then (g, [])
     else in_order [tick_announces E, tick_links E tick_retries, tick_links E sweep_orphaned_pending, tick_links E tick_clean_links,
       tick_opps E T, (\<lambda>g. (drain_peer_announcements E g, [])), tick_pending_identity_sends E, tick_validations E,
       tick_pending_stamp_sends E] g)"

end
