(* ===== verification/GatewayProps.thy ===== *)
theory GatewayProps
  imports GatewaySend
begin

text \<open>
  The gateway as one machine, and its properties: the screen identity, settings over a reboot, the
  announce timer, what a reused slot inherits, the path of a received message into its inbox, and
  the queues of messages waiting for a route or a stamp.
\<close>

section \<open>The machine\<close>

datatype gw_event =
    Loop opp_env
  | Receive rx_event
  | LinkCallback link_event
  | SendMsg iden_id hash bytes bytes "attachment list" "gw_extra option"
  | Create bytes bytes
  | Delete iden_id
  | SetScreen iden_id bool
  | SetInterval iden_id nat
  | SetKeepSent iden_id bool
  | SetCost iden_id nat
  | SetEnforce iden_id bool
  | SetTelemetry iden_id bool bool bool bool nat nat
  | SetName iden_id bytes
  | SetRetention iden_id string "retention option"
  | ApplyConfig
  | PruneAll
  | AnnounceNow iden_id
  | RotateRatchet hash
  | PeerAnnounced hash

text \<open>The receiving events of the outside; instances start and stop only with their identity.\<close>

fun outside :: "rx_event \<Rightarrow> bool" where
  "outside (InitInstance i d) = False"
| "outside (ShutdownInstance i) = False"
| "outside (SetPolicy i c on) = False"
| "outside e = True"

fun gw_step :: "gateway \<Rightarrow> gw_env \<times> gw_event \<Rightarrow> gateway \<times> gw_out list" where
  "gw_step g (E, Loop T) = gw_loop E T g"
| "gw_step g (E, Receive e) = (if outside e then gw_receive E e g else (g, []))"
| "gw_step g (E, LinkCallback e) = tick_links E (\<lambda>net. link_step net e) g"
| "gw_step g (E, SendMsg x d ti co as ex) = (case gw_send E x d ti co as ex 0 blank_record g of (g', out, _) \<Rightarrow> (g', out))"
| "gw_step g (E, Create n pw) = (case create_identity E n pw g of (g', out, _) \<Rightarrow> (g', out))"
| "gw_step g (E, Delete x) = (case delete_identity E x g of (g', out, _) \<Rightarrow> (g', out))"
| "gw_step g (E, SetScreen x on) = (case set_screen_identity E x on g of (g', out, _) \<Rightarrow> (g', out))"
| "gw_step g (E, SetInterval x n) = (fst (set_announce_interval E x n g), [])"
| "gw_step g (E, SetKeepSent x on) = (fst (set_persist_outbound_attachments E x on g), [])"
| "gw_step g (E, SetCost x k) = (fst (set_gw_stamp_cost E x k g), [])"
| "gw_step g (E, SetEnforce x on) = (fst (set_enforce_stamps E x on g), [])"
| "gw_step g (E, SetTelemetry x l e b c sh rt) = (fst (set_telemetry_defaults E x l e b c sh rt g), [])"
| "gw_step g (E, SetName x n) = (fst (set_gw_display_name E x n g), [])"
| "gw_step g (E, SetRetention x p r) = (case set_conversation_retention E x p r g of (g', out, _) \<Rightarrow> (g', out))"
| "gw_step g (E, ApplyConfig) = apply_inbox_config_to_all E g"
| "gw_step g (E, PruneAll) = prune_all E g"
| "gw_step g (E, AnnounceNow x) = (case announce_identity E x g of (g', out, _) \<Rightarrow> (g', out))"
| "gw_step g (E, RotateRatchet d) = (fst (rotate_outbound_ratchet E d g), [])"
| "gw_step g (E, PeerAnnounced d) = (note_peer_announced d g, [])"

section \<open>What an operation leaves alone\<close>

text \<open>An identity without its mailboxes, timer and ratchets, and the dispatch of the instances.\<close>

definition face :: "iden \<Rightarrow> iden" where
  "face a = a\<lparr>ibox := None, obox := None, last_announce := 0, ratchets := []\<rparr>"

definition wiring :: "inbound \<Rightarrow> (hash \<Rightarrow> nat option) \<times> (nat \<Rightarrow> hash \<times> bool)" where
  "wiring r = (registry r, \<lambda>i. (rx_hash (slots r i), rx_ready (slots r i)))"

definition core :: "gateway \<Rightarrow> iden list \<times> (iden_id, iden_dir) omap \<times> bool \<times> (hash \<Rightarrow> nat option) \<times> (nat \<Rightarrow> hash \<times> bool)" where
  "core g = (map face (idens g), dirs g, is_setup g, wiring (rx g))"

lemma wiring_pow [simp]: "wiring (r\<lparr>pow := w\<rparr>) = wiring r"
  by (simp add: wiring_def)

lemma core_fields [simp]:
  "core (g\<lparr>st_queue := a\<rparr>) = core g" "core (g\<lparr>id_queue := b\<rparr>) = core g" "core (g\<lparr>sd_fs := c\<rparr>) = core g"
  "core (g\<lparr>fl_fs := d\<rparr>) = core g" "core (g\<lparr>g_links := e\<rparr>) = core g" "core (g\<lparr>g_opps := f\<rparr>) = core g"
  "core (g\<lparr>g_stage := h\<rparr>) = core g" "core (g\<lparr>announced := i\<rparr>) = core g"
  "core (g\<lparr>rx := (rx g)\<lparr>pow := w\<rparr>\<rparr>) = core g"
  by (simp_all add: core_def)

lemma core_slot:
  assumes "face (f (idens g ! i)) = face (idens g ! i)"
  shows "core (on_slot i f g) = core g"
proof (cases "i < length (idens g)")
  case True
  then have "map face ((idens g)[i := f (idens g ! i)]) = map face (idens g)"
    by (simp add: map_update assms) (metis list_update_id nth_map)
  then show ?thesis by (simp add: core_def on_slot_def)
next
  case False
  then show ?thesis by (simp add: core_def on_slot_def list_update_beyond)
qed

lemma core_boxes [simp]:
  "core (on_slot i (\<lambda>a. a\<lparr>ibox := b\<rparr>) g) = core g" "core (on_slot i (\<lambda>a. a\<lparr>obox := b\<rparr>) g) = core g"
  "core (on_slot i (\<lambda>a. a\<lparr>last_announce := t\<rparr>) g) = core g" "core (on_slot i (\<lambda>a. a\<lparr>ratchets := es\<rparr>) g) = core g"
  by (rule core_slot, simp add: face_def)+

lemma core_remove_file [simp]: "core (remove_file E sd p g) = core g"
  by (simp add: remove_file_def)

lemma core_foldl: "(\<And>g x. core (f g x) = core g) \<Longrightarrow> core (foldl f g xs) = core g"
  by (induction xs arbitrary: g) auto

lemma core_attachments [simp]: "core (remove_attachments E x as g) = core g"
  by (simp add: remove_attachments_def remove_attachment_def core_foldl)

lemma core_sidecar [simp]: "core (remove_pending_stamp_sidecar E p g) = core g"
  by (simp add: remove_pending_stamp_sidecar_def)

lemma core_cancel_job [simp]: "core (fst (cancel_job E mid g)) = core g"
  by (simp add: cancel_job_def split_beta)

lemma core_abort [simp]: "core (fst (abort_stamp E f g)) = core g"
  by (simp add: abort_stamp_def split_beta)

lemma core_cancel [simp]: "core (fst (cancel_pending_stamp E x q g)) = core g"
  by (simp add: cancel_pending_stamp_def split_beta split: option.split)

lemma core_removed [simp]: "core (fst (record_removed E i r g)) = core g"
  by (simp add: record_removed_def Let_def split_beta)

lemma core_removed_all [simp]: "core (fst (removed_all E i rs g)) = core g"
proof (induction rs arbitrary: g)
  case (Cons r rs)
  then show ?case by (cases r) (simp add: split_beta)
qed simp

lemma core_on_box [simp]: "core (fst (on_inbox E i f g)) = core g" "core (fst (on_outbox E i f g)) = core g"
  by (simp_all add: on_inbox_def on_outbox_def split_beta split: option.split)

lemma core_mutate [simp]: "core (mutate_outbox E i q f g) = core g"
  by (simp add: mutate_outbox_def)

lemma core_each: "(\<And>i g. core (fst (f i g)) = core g) \<Longrightarrow> core (fst (each_slot f is g)) = core g"
  by (induction "is" arbitrary: g) (simp_all add: split_beta)

lemma core_prune [simp]: "core (fst (prune_both E i g)) = core g"
  by (simp add: prune_both_def split_beta)

lemma core_on_delivery [simp]: "core (fst (on_delivery E i r g)) = core g"
  by (simp add: on_delivery_def Let_def split_beta split: option.split sum.split bool.split)

lemma core_status [simp]: "core (fst (on_outbox_status E i h st g)) = core g"
  by (simp add: on_outbox_status_def)

lemma core_handle_rx [simp]: "core (fst (handle_rx E es g)) = core g"
proof (induction es arbitrary: g)
  case (Cons e es)
  then show ?case by (cases e) (simp_all add: split_beta)
qed simp

lemma deliver_wiring [simp]: "wiring (fst (deliver_lxmf_payload W i w ph prefix s)) = wiring s"
proof -
  have "rx_ready (slots (fst (deliver_lxmf_payload W i w ph prefix s)) j) = rx_ready (slots s j)" for j
    by (auto simp: deliver_lxmf_payload_def admit_def Let_def split_beta stamp_policy_def seen_delivery_def split: option.split sum.split)
  then show ?thesis by (simp add: wiring_def deliver_keeps)
qed

lemma tick_wiring [simp]: "wiring (fst (tick_stamp_validations W l1 l2 s)) = wiring s"
proof -
  have "registry (fst (tick_stamp_validations W l1 l2 s)) = registry s"
    by (simp add: tick_stamp_validations_def Let_def split_beta split: list.split option.split)
  then show ?thesis by (simp add: wiring_def)
qed

lemma rx_wiring: "outside e \<Longrightarrow> wiring (fst (rx_step s (W, e))) = wiring s"
  by (cases e) (simp_all add: static_packet_callback_def on_packet_def static_inbound_link_packet_def
      static_inbound_resource_concluded_def Let_def split_beta split: option.split)

lemma core_rx: "wiring r = wiring (rx g) \<Longrightarrow> core (g\<lparr>rx := r\<rparr>) = core g"
  by (simp add: core_def)

lemma core_receive: "outside e \<Longrightarrow> core (fst (gw_receive E e g)) = core g"
  by (simp add: gw_receive_def split_beta core_rx rx_wiring)

lemma core_run_actions [simp]: "core (fst (run_actions E own as g)) = core g"
proof (induction as arbitrary: g)
  case (Cons a as)
  then show ?case by (cases a) (simp_all add: split_beta)
qed simp

lemma core_release [simp]: "core (release_staged E as g) = core g"
  by (simp add: release_staged_def)

lemma core_put_node [simp]: "core (put_node n g) = core g"
  by (simp add: put_node_def core_def)

lemma core_append [simp]: "core (fst (append_outbox E i r m g)) = core g"
  by (simp add: append_outbox_def split_beta)

lemma core_queue [simp]: "core (fst (queue_pending_identity_send E i x d ti co as ex g)) = core g"
  by (simp add: queue_pending_identity_send_def Let_def split_beta split: option.split)

lemma core_sidecar_write [simp]: "core (fst (write_pending_stamp_sidecar E p d k mid pl g)) = core g"
  by (simp add: write_pending_stamp_sidecar_def Let_def split: option.split)

lemma core_with_stamp [simp]: "core (fst (send_with_stamp E i x d ti co as k us ex r g)) = core g"
  by (simp add: send_with_stamp_def Let_def split_beta split: option.split sum.split)

lemma core_send_now [simp]: "core (fst (send_now E i x d ti co as ex us r g)) = core g"
  by (simp add: send_now_def split_beta split: option.split sum.split)

lemma core_routed [simp]: "core (fst (send_routed E i x d ti co as ex us r g)) = core g"
  by (simp add: send_routed_def split: option.split)

lemma core_send [simp]: "core (fst (gw_send E x d ti co as ex us r g)) = core g"
  by (simp add: gw_send_def split_beta split: option.split)

lemma core_visit [simp]: "core (fst (visit_pending E p g)) = core g"
  by (simp add: visit_pending_def visit_sendable_def visit_waiting_def auto_send_def Let_def split_beta
      split: send_result.split send_error.split)

lemma core_visit_all [simp]: "core (fst (visit_all E q g)) = core g"
proof (induction q arbitrary: g)
  case (Cons p q)
  then show ?case by (simp add: split_beta split: visit.split)
qed simp

lemma core_tick_ids [simp]: "core (fst (tick_pending_identity_sends E g)) = core g"
  by (simp add: tick_pending_identity_sends_def split_beta)

lemma core_front [simp]: "core (set_front f g) = core g" "core (pop_front g) = core g"
  by (simp_all add: set_front_def pop_front_def)

lemma core_fail_front [simp]: "core (fst (fail_front E i f g)) = core g"
  by (simp add: fail_front_def fail_pending_stamp_def)

lemma core_dispatch [simp]: "core (fst (dispatch_front E i f g)) = core g"
  by (simp add: dispatch_front_def Let_def split_beta split: option.split sum.split send_error.split)

lemma core_generate [simp]: "core (fst (generate_front E i f g)) = core g"
  by (simp add: generate_front_def Let_def split_beta split: option.split)

lemma core_resolve: "resolve_sidecar E f g = Some r \<Longrightarrow> core (fst r) = core g"
  by (auto simp: resolve_sidecar_def Let_def split: if_splits option.splits)

lemma core_tick_stamps [simp]: "core (fst (tick_pending_stamp_sends E g)) = core g"
  by (auto simp: tick_pending_stamp_sends_def split_beta dest: core_resolve split: list.split option.split)

lemma core_accelerate: "core (accelerate_peer E g d) = core g"
  by (simp add: accelerate_peer_def core_def)

lemma core_drain [simp]: "core (drain_peer_announcements E g) = core g"
  by (simp add: drain_peer_announcements_def core_foldl core_accelerate)

lemma core_tick_links [simp]: "core (fst (tick_links E f g)) = core g"
  by (simp add: tick_links_def split_beta)

lemma core_tick_opps [simp]: "core (fst (tick_opps E T g)) = core g"
  by (simp add: tick_opps_def split_beta)

lemma core_announces [simp]: "core (fst (tick_announces E g)) = core g"
  by (simp add: tick_announces_def core_each)

lemma core_loop [simp]: "core (fst (gw_loop E T g)) = core g"
  by (simp add: gw_loop_def split_beta tick_validations_def core_receive)

text \<open>The events that change nothing of the core.\<close>

fun quiet_event :: "gw_event \<Rightarrow> bool" where
  "quiet_event (Loop t) = True"
| "quiet_event (Receive e) = True"
| "quiet_event (LinkCallback e) = True"
| "quiet_event (SendMsg x d ti co as ex) = True"
| "quiet_event ApplyConfig = True"
| "quiet_event PruneAll = True"
| "quiet_event (AnnounceNow x) = True"
| "quiet_event (PeerAnnounced d) = True"
| "quiet_event e = False"

lemma core_quiet: "quiet_event e \<Longrightarrow> core (fst (gw_step g (E, e))) = core g"
  by (cases e) (simp_all add: split_beta core_receive apply_inbox_config_to_all_def prune_all_def core_each
      announce_identity_def note_peer_announced_def split: option.split)

text \<open>The retention of a conversation and a ratchet change the identity's directory besides.\<close>

lemma core_split: "core g' = core (g\<lparr>dirs := dirs g'\<rparr>) \<longleftrightarrow>
  map face (idens g') = map face (idens g) \<and> is_setup g' = is_setup g \<and> wiring (rx g') = wiring (rx g)"
  by (auto simp: core_def)

lemma core_on_dir: "core g1 = core g \<Longrightarrow> core (on_dir x f g1) = core (g\<lparr>dirs := dirs (on_dir x f g)\<rparr>)"
  by (simp add: core_def on_dir_def dir_of_def)

lemma face_iid: "map face (idens g1) = map face (idens g) \<Longrightarrow> i < length (idens g) \<Longrightarrow> iid (idens g1 ! i) = iid (idens g ! i)"
proof -
  assume m: "map face (idens g1) = map face (idens g)" "i < length (idens g)"
  then have "length (idens g1) = length (idens g)" by (metis length_map)
  with m have "face (idens g1 ! i) = face (idens g ! i)" by (metis nth_map)
  then show ?thesis by (simp add: face_def) (metis iden.select_convs(1) iden.surjective iden.update_convs(4,5,6,11))
qed

section \<open>Identities and their directories\<close>

definition faces :: "gateway \<Rightarrow> iden list" where "faces g = map face (idens g)"

lemma face_simps [simp]:
  "iid (face a) = iid a" "label (face a) = label a" "rkey (face a) = rkey a" "conf (face a) = conf a" "active (face a) = active a"
  "pw_hash (face a) = pw_hash a" "pw_salt (face a) = pw_salt a" "meta_of E (face a) = meta_of E a"
  by (simp_all add: face_def meta_of_def)

lemma faces_nth: "i < length (idens g) \<Longrightarrow> faces g ! i = face (idens g ! i)"
  by (simp add: faces_def)

lemma faces_length [simp]: "length (faces g) = length (idens g)"
  by (simp add: faces_def)

lemma core_faces: "core g' = core g \<longleftrightarrow> faces g' = faces g \<and> dirs g' = dirs g \<and> is_setup g' = is_setup g \<and> wiring (rx g') = wiring (rx g)"
  by (simp add: core_def faces_def)

lemma faces_slot: "i < length (idens g) \<Longrightarrow> faces (on_slot i f g) = (faces g)[i := face (f (idens g ! i))]"
  by (simp add: faces_def on_slot_def map_update)

lemma slot_fields [simp]:
  "dirs (on_slot i f g) = dirs g" "is_setup (on_slot i f g) = is_setup g" "rx (on_slot i f g) = rx g"
  "length (idens (on_slot i f g)) = length (idens g)"
  by (simp_all add: on_slot_def)

lemma dir_fields [simp]:
  "idens (on_dir x f g) = idens g" "is_setup (on_dir x f g) = is_setup g" "rx (on_dir x f g) = rx g" "faces (on_dir x f g) = faces g"
  by (simp_all add: on_dir_def faces_def)

lemma slot_nth: "i < length (idens g) \<Longrightarrow> idens (on_slot i f g) ! j = (if j = i then f (idens g ! i) else idens g ! j)"
  by (simp add: on_slot_def)

lemma dir_find [simp]: "mfind (dirs (on_dir x f g)) y = (if y = x then Some (f (dir_of x g)) else mfind (dirs g) y)"
  by (simp add: on_dir_def omap.find_put)

lemma dir_of_on_dir: "dir_of y (on_dir x f g) = (if y = x then f (dir_of x g) else dir_of y g)"
  by (simp add: dir_of_def)

lemma dir_distinct [simp]: "distinct (mkeys (dirs g)) \<Longrightarrow> distinct (mkeys (dirs (on_dir x f g)))"
  by (simp add: on_dir_def omap.inv_put)

lemma first_index_Some: "first_index P xs = Some i \<Longrightarrow> i < length xs \<and> P (xs ! i) \<and> (\<forall>j < i. \<not> P (xs ! j))"
proof (induction xs arbitrary: i)
  case (Cons x xs)
  show ?case
  proof (cases "P x")
    case False
    then obtain k where "first_index P xs = Some k" "i = Suc k" using Cons.prems by auto
    with Cons.IH [of k] False show ?thesis by (auto simp: less_Suc_eq_0_disj)
  qed (use Cons.prems in auto)
qed simp

lemma first_index_None: "first_index P xs = None \<longleftrightarrow> (\<forall>x \<in> set xs. \<not> P x)"
  by (induction xs) auto

lemma identity_found: "identity_by_id x g = Some i \<Longrightarrow> i < length (idens g) \<and> active (idens g ! i) \<and> iid (idens g ! i) = x \<and> x \<noteq> ''''"
  using first_index_Some [of "\<lambda>a. active a \<and> iid a = x" "idens g" i] by (auto simp: identity_by_id_def split: if_splits)

section \<open>Activation\<close>

definition start_wiring :: "nat \<Rightarrow> hash \<Rightarrow> (hash \<Rightarrow> nat option) \<times> (nat \<Rightarrow> hash \<times> bool) \<Rightarrow> (hash \<Rightarrow> nat option) \<times> (nat \<Rightarrow> hash \<times> bool)" where
  "start_wiring i d w = ((fst w)(d \<mapsto> i), (snd w)(i := (d, True)))"

lemma start_core:
  "faces (start_instance E i g) = faces g" "dirs (start_instance E i g) = dirs g" "is_setup (start_instance E i g) = is_setup g"
  "wiring (rx (start_instance E i g)) = start_wiring i (key_dest E (rkey (idens g ! i))) (wiring (rx g))"
  by (auto simp: start_instance_def Let_def faces_def wiring_def start_wiring_def init_instance_def set_policy_def)

lemma core_resume_one: "core (resume_one E i q g) = core g"
  by (simp add: resume_one_def Let_def split_beta split: option.split)

lemma core_resume [simp]: "core (resume_all E i g) = core g"
  by (simp add: resume_all_def core_foldl core_resume_one)

lemma activate_core:
  assumes "i < length (idens g)"
  shows "faces (fst (activate E i g)) = (faces g)[i := (face (idens g ! i))\<lparr>active := True\<rparr>]"
    "dirs (fst (activate E i g)) = dirs g" "is_setup (fst (activate E i g)) = is_setup g"
    "wiring (rx (fst (activate E i g))) = start_wiring i (key_dest E (rkey (idens g ! i))) (wiring (rx g))"
proof -
  define d where "d = dir_of (iid (idens g ! i)) g"
  define over where "over = read_conversation_config (d_conv d)"
  define g1 where "g1 = on_slot i (\<lambda>a. a\<lparr>active := True, ibox := Some (mounted (inb E) (default_policy E) over (d_inbox d)),
      obox := Some (mounted (outb E) (default_policy E) over (d_outbox d))\<rparr>) g"
  define g2 where "g2 = fst (prune_both E i g1)"
  have f: "fst (activate E i g) = on_slot i (\<lambda>a. a\<lparr>last_announce := 0\<rparr>) (resume_all E i (start_instance E i g2))"
    by (simp add: activate_def d_def [symmetric] over_def [symmetric] g1_def [symmetric] g2_def Let_def split_beta)
  have "core g2 = core g1" by (simp add: g2_def)
  then have 2: "faces g2 = faces g1" "dirs g2 = dirs g1" "is_setup g2 = is_setup g1" "wiring (rx g2) = wiring (rx g1)"
    by (simp_all add: core_faces)
  have "face (a\<lparr>active := True, ibox := b, obox := c\<rparr>) = (face a)\<lparr>active := True\<rparr>" for a b c
    by (cases a) (simp add: face_def)
  then have 1: "faces g1 = (faces g)[i := (face (idens g ! i))\<lparr>active := True\<rparr>]"
    using assms by (simp add: g1_def faces_slot)
  have l: "i < length (idens g2)" using assms 2(1) 1 by (metis faces_length length_list_update)
  have k: "rkey (idens g2 ! i) = rkey (idens g ! i)"
    using assms faces_nth [OF l] 2(1) 1 by simp (metis face_simps(3) iden.select_convs(3) iden.surjective iden.update_convs(8))
  have "core (fst (activate E i g)) = core (start_instance E i g2)" by (simp add: f)
  then show "faces (fst (activate E i g)) = (faces g)[i := (face (idens g ! i))\<lparr>active := True\<rparr>]"
    "dirs (fst (activate E i g)) = dirs g" "is_setup (fst (activate E i g)) = is_setup g"
    "wiring (rx (fst (activate E i g))) = start_wiring i (key_dest E (rkey (idens g ! i))) (wiring (rx g))"
    by (simp_all add: core_faces start_core 1 2 k) (simp_all add: g1_def)
qed

section \<open>Loading is a reference function of the disk\<close>

definition loaded :: "gw_env \<Rightarrow> (iden_id, iden_dir) omap \<Rightarrow> iden_id \<Rightarrow> iden" where
  "loaded E ds x =
    (case mfind ds x of
       None \<Rightarrow> blank_iden
     | Some d \<Rightarrow> (read_meta E (d_meta d) (blank_iden\<lparr>iid := x, rkey := the (d_key d), label := default_label\<rparr>))\<lparr>active := True\<rparr>)"

definition has_key :: "(iden_id, iden_dir) omap \<Rightarrow> iden_id \<Rightarrow> bool" where
  "has_key ds x \<longleftrightarrow> (\<exists>d k. mfind ds x = Some d \<and> d_key d = Some k \<and> k \<noteq> [])"

lemma face_blank [simp]: "face blank_iden = blank_iden"
  by (simp add: face_def blank_iden_def)

lemma face_loaded [simp]: "face (loaded E ds x) = loaded E ds x"
  by (simp add: loaded_def face_def blank_iden_def read_meta_def split: option.split)

lemma loaded_active: "has_key ds x \<Longrightarrow> active (loaded E ds x) \<and> iid (loaded E ds x) = x"
  by (auto simp: has_key_def loaded_def read_meta_def split: option.split)

lemma blank_inactive [simp]: "\<not> active blank_iden" "\<not> screen (conf blank_iden)"
  by (simp_all add: blank_iden_def default_settings_def)

lemma first_index_app: "\<forall>x \<in> set xs. \<not> P x \<Longrightarrow> first_index P (xs @ ys) = map_option (\<lambda>i. length xs + i) (first_index P ys)"
  by (cases "first_index P ys"; induction xs) simp_all

lemma first_index_map: "first_index P (map f xs) = first_index (\<lambda>x. P (f x)) xs"
  by (induction xs) simp_all

lemma free_slot_faces: "first_free_slot g = first_index (\<lambda>a. \<not> active a) (faces g)"
  by (simp add: first_free_slot_def faces_def first_index_map)

definition mounts :: "(iden_id, iden_dir) omap \<Rightarrow> iden_id list \<Rightarrow> iden_id list \<Rightarrow> iden_id list" where
  "mounts ds L xs = take LXMF_GATEWAY_MAX_IDENTITIES (L @ filter (has_key ds) xs)"

definition mounted_faces :: "gw_env \<Rightarrow> (iden_id, iden_dir) omap \<Rightarrow> iden_id list \<Rightarrow> iden list" where
  "mounted_faces E ds L = map (loaded E ds) L @ replicate (LXMF_GATEWAY_MAX_IDENTITIES - length L) blank_iden"

lemma load_reference:
  assumes "faces g = mounted_faces E (dirs g) L" "\<forall>x \<in> set L. has_key (dirs g) x" "length L \<le> LXMF_GATEWAY_MAX_IDENTITIES"
  shows "faces (fst (load_loop E xs (length L) g)) = mounted_faces E (dirs g) (mounts (dirs g) L xs)
    \<and> dirs (fst (load_loop E xs (length L) g)) = dirs g \<and> is_setup (fst (load_loop E xs (length L) g)) = is_setup g"
  using assms
proof (induction xs arbitrary: L g)
  case Nil
  then show ?case by (simp add: mounts_def)
next
  case (Cons x xs)
  have act: "\<forall>a \<in> set (map (loaded E (dirs g)) L). active a" using Cons.prems(2) loaded_active by auto
  show ?case
  proof (cases "length L \<ge> LXMF_GATEWAY_MAX_IDENTITIES")
    case True
    then show ?thesis using Cons.IH [OF Cons.prems] Cons.prems(3) by (simp add: mounts_def)
  next
    case False
    then obtain n where n: "LXMF_GATEWAY_MAX_IDENTITIES - length L = Suc n" using not_le_imp_less Suc_diff_Suc by metis
    have i: "first_free_slot g = Some (length L)"
      using act n by (simp add: free_slot_faces Cons.prems(1) mounted_faces_def first_index_app)
    show ?thesis
    proof (cases "has_key (dirs g) x")
      case no: False
      then have "load_loop E (x # xs) (length L) g = load_loop E xs (length L) g"
        using False i by (auto simp: has_key_def dir_of_def empty_dir_def split: option.split)
      then show ?thesis using Cons.IH [OF Cons.prems] no by (simp add: mounts_def)
    next
      case True
      then obtain d k where d: "mfind (dirs g) x = Some d" "d_key d = Some k" "k \<noteq> []" by (auto simp: has_key_def)
      define g1 where "g1 = on_slot (length L) (\<lambda>a. (read_meta E (d_meta d) (a\<lparr>iid := x, rkey := k, label := default_label\<rparr>))
          \<lparr>ratchets := fst (load_ring (d_ratchet d))\<rparr>) g"
      define g2 where "g2 = fst (activate E (length L) g1)"
      have "length (faces g) = LXMF_GATEWAY_MAX_IDENTITIES" using Cons.prems(1,3) by (simp add: mounted_faces_def)
      then have len: "length L < length (idens g)" using False by simp
      have b: "face (idens g ! length L) = blank_iden"
        using faces_nth [OF len] Cons.prems(1) n by (simp add: mounted_faces_def nth_append)
      have "face ((read_meta E (d_meta d) (a\<lparr>iid := x, rkey := k, label := default_label\<rparr>))\<lparr>ratchets := r\<rparr>) =
          face (read_meta E (d_meta d) ((face a)\<lparr>iid := x, rkey := k, label := default_label\<rparr>))" for a r
        by (simp add: face_def read_meta_def split: option.split)
      then have f: "(face (idens g1 ! length L))\<lparr>active := True\<rparr> = loaded E (dirs g) x"
        using len d by (simp add: g1_def slot_nth b loaded_def) (simp add: face_def read_meta_def blank_iden_def split: option.split)
      have g2: "faces g2 = (faces g)[length L := loaded E (dirs g) x]" "dirs g2 = dirs g" "is_setup g2 = is_setup g"
        using activate_core [of "length L" g1 E] len by (simp_all add: g2_def f) (simp_all add: g1_def faces_slot)
      have "fst (load_loop E (x # xs) (length L) g) = fst (load_loop E xs (length (L @ [x])) g2)"
        using False i d by (simp add: dir_of_def g1_def g2_def split_beta Let_def)
      moreover have "faces g2 = mounted_faces E (dirs g2) (L @ [x])"
        using n by (simp add: g2 Cons.prems(1) mounted_faces_def list_update_append)
      moreover have "\<forall>y \<in> set (L @ [x]). has_key (dirs g2) y" using Cons.prems(2) True g2(2) by simp
      ultimately show ?thesis
        using Cons.IH [of g2 "L @ [x]"] False True g2(2,3) by (simp add: mounts_def)
    qed
  qed
qed

section \<open>The invariant of identities, screen and disk\<close>

definition ids_ok :: "iden list \<Rightarrow> bool" where
  "ids_ok fs \<longleftrightarrow> length fs = LXMF_GATEWAY_MAX_IDENTITIES \<and> (\<forall>i < length fs. active (fs ! i) \<longrightarrow> iid (fs ! i) \<noteq> '''')
     \<and> (\<forall>i < length fs. \<forall>j < length fs. active (fs ! i) \<longrightarrow> active (fs ! j) \<longrightarrow> iid (fs ! i) = iid (fs ! j) \<longrightarrow> i = j)"

definition screen_ok :: "iden list \<Rightarrow> bool" where
  "screen_ok fs \<longleftrightarrow> (\<forall>i < length fs. screen (conf (fs ! i)) \<longrightarrow> active (fs ! i))
     \<and> (\<forall>i < length fs. \<forall>j < length fs. screen (conf (fs ! i)) \<longrightarrow> screen (conf (fs ! j)) \<longrightarrow> i = j)"

definition paper :: "gateway \<Rightarrow> iden_id \<Rightarrow> rns_key option \<times> meta_doc option" where
  "paper g y = (d_key (dir_of y g), d_meta (dir_of y g))"

text \<open>Every active identity has its key and its settings on disk, and no other directory has a key.\<close>

definition disk_ok :: "gw_env \<Rightarrow> gateway \<Rightarrow> bool" where
  "disk_ok E g \<longleftrightarrow> distinct (mkeys (dirs g))
     \<and> (\<forall>a \<in> set (faces g). active a \<longrightarrow> rkey a \<noteq> [] \<and> (\<exists>t. paper g (iid a) = (Some (rkey a), Some ((meta_of E a)\<lparr>j_created := Some t\<rparr>))))
     \<and> (\<forall>y. fst (paper g y) \<noteq> None \<longrightarrow> (\<exists>a \<in> set (faces g). active a \<and> iid a = y))"

definition gw_inv :: "gateway \<Rightarrow> bool" where
  "gw_inv g \<longleftrightarrow> ids_ok (faces g) \<and> screen_ok (faces g)"

text \<open>A fresh key has a new directory; the holder of the screen is not deleted.\<close>

definition careful :: "gw_env \<Rightarrow> gateway \<Rightarrow> gw_env \<times> gw_event \<Rightarrow> bool" where
  "careful E g e \<longleftrightarrow> hexs (fst e) = hexs E \<and>
    (case snd e of
       Create n pw \<Rightarrow> (let x = take 16 (hexs E (key_id (fst e) (fresh_key (fst e)))) in
         fresh_key (fst e) \<noteq> [] \<and> (\<forall>a \<in> set (faces g). active a \<longrightarrow> iid a \<noteq> x) \<and> fst (paper g x) = None)
     | Delete x \<Rightarrow> (\<forall>i. identity_by_id x g = Some i \<longrightarrow> \<not> screen (conf (idens g ! i)))
     | _ \<Rightarrow> True)"

lemma meta_same: "hexs F = hexs E \<Longrightarrow> meta_of F a = (meta_of E a)\<lparr>j_created := Some (ms F)\<rparr>"
  by (simp add: meta_of_def Let_def)

lemma paper_on_dir: "paper (on_dir x f g) y = (if y = x then (d_key (f (dir_of x g)), d_meta (f (dir_of x g))) else paper g y)"
  by (simp add: paper_def dir_of_on_dir)

lemma paper_dirs: "dirs g' = dirs g \<Longrightarrow> paper g' = paper g"
  by (rule ext) (simp add: paper_def dir_of_def)

lemma paper_slot [simp]: "paper (on_slot i f g) = paper g"
  by (rule paper_dirs) simp

lemma inv_core: "core g' = core g \<Longrightarrow> gw_inv g' = gw_inv g \<and> disk_ok E g' = disk_ok E g"
  using paper_dirs [of g' g] by (simp add: core_faces gw_inv_def disk_ok_def)

lemma inv_papers: "faces g' = faces g \<Longrightarrow> paper g' = paper g \<Longrightarrow> distinct (mkeys (dirs g')) = distinct (mkeys (dirs g)) \<Longrightarrow>
  gw_inv g' = gw_inv g \<and> disk_ok E g' = disk_ok E g"
  by (simp add: gw_inv_def disk_ok_def)

text \<open>A slot that changes.\<close>

lemma ids_update:
  assumes "ids_ok fs" "i < length fs" "active a \<longrightarrow> iid a \<noteq> ''''"
    "active a \<longrightarrow> (\<forall>j < length fs. j \<noteq> i \<longrightarrow> active (fs ! j) \<longrightarrow> iid (fs ! j) \<noteq> iid a)"
  shows "ids_ok (fs[i := a])"
  unfolding ids_ok_def length_list_update
proof (intro conjI allI impI)
  show "length fs = LXMF_GATEWAY_MAX_IDENTITIES" using assms(1) by (simp add: ids_ok_def)
next
  fix j assume "j < length fs" "active (fs[i := a] ! j)"
  then show "iid (fs[i := a] ! j) \<noteq> ''''" using assms(1,3) by (cases "j = i") (simp_all add: ids_ok_def)
next
  fix j k assume "j < length fs" "k < length fs" "active (fs[i := a] ! j)" "active (fs[i := a] ! k)" "iid (fs[i := a] ! j) = iid (fs[i := a] ! k)"
  moreover have "active (fs ! j) \<Longrightarrow> active (fs ! k) \<Longrightarrow> iid (fs ! j) = iid (fs ! k) \<Longrightarrow> j = k" if "j < length fs" "k < length fs"
    using assms(1) that by (simp add: ids_ok_def)
  ultimately show "j = k" using assms(2,4) by (cases "j = i"; cases "k = i") (simp_all, metis)
qed

lemma screen_update:
  assumes "screen_ok fs" "i < length fs" "screen (conf a) \<longrightarrow> active a"
    "screen (conf a) \<longrightarrow> (\<forall>j < length fs. j \<noteq> i \<longrightarrow> \<not> screen (conf (fs ! j)))"
  shows "screen_ok (fs[i := a])"
  unfolding screen_ok_def length_list_update
proof (intro conjI allI impI)
  fix j assume "j < length fs" "screen (conf (fs[i := a] ! j))"
  then show "active (fs[i := a] ! j)" using assms(1,3) by (cases "j = i") (simp_all add: screen_ok_def)
next
  fix j k assume "j < length fs" "k < length fs" "screen (conf (fs[i := a] ! j))" "screen (conf (fs[i := a] ! k))"
  moreover have "screen (conf (fs ! j)) \<Longrightarrow> screen (conf (fs ! k)) \<Longrightarrow> j = k" if "j < length fs" "k < length fs"
    using assms(1) that by (simp add: screen_ok_def)
  ultimately show "j = k" using assms(2,4) by (cases "j = i"; cases "k = i") simp_all
qed

lemma screen_same:
  assumes "screen_ok fs" "i < length fs" "screen (conf a) = screen (conf (fs ! i))" "screen (conf a) \<longrightarrow> active a"
  shows "screen_ok (fs[i := a])"
  by (rule screen_update [OF assms(1,2,4)]) (use assms in \<open>auto simp: screen_ok_def\<close>)

lemma ids_same:
  assumes "ids_ok fs" "i < length fs" "active (fs ! i)" "iid a = iid (fs ! i)"
  shows "ids_ok (fs[i := a])"
  by (rule ids_update [OF assms(1,2)]) (use assms in \<open>auto simp: ids_ok_def\<close>)

lemma set_update_cases: "b \<in> set (fs[i := a]) \<Longrightarrow> i < length fs \<Longrightarrow> b = a \<or> (\<exists>j < length fs. j \<noteq> i \<and> b = fs ! j)"
  by (metis in_set_conv_nth length_list_update nth_list_update_eq nth_list_update_neq)

lemma nth_other_mem: "j < length fs \<Longrightarrow> j \<noteq> i \<Longrightarrow> fs ! j \<in> set (fs[i := a])"
  by (metis length_list_update nth_list_update_neq nth_mem)

text \<open>A setting changes and is written.\<close>

lemma change_inv:
  assumes "identity_by_id x g = Some i" "faces g1 = (faces g)[i := face a]" "dirs g1 = dirs g" "idens g1 ! i = a"
    "iid a = x" "active a" "rkey a = rkey (idens g ! i)" "screen_ok ((faces g)[i := face a])" "gw_inv g" "hexs F = hexs E"
  shows "gw_inv (write_meta F i g1) \<and> (disk_ok E g \<longrightarrow> disk_ok E (write_meta F i g1))"
proof -
  have i: "i < length (idens g)" "active (idens g ! i)" "iid (idens g ! i) = x" "x \<noteq> ''''" using identity_found [OF assms(1)] by simp_all
  then have f: "i < length (faces g)" "active (faces g ! i)" "iid (faces g ! i) = x" "rkey (faces g ! i) = rkey a"
    by (simp_all add: faces_nth assms(7))
  have ids: "ids_ok ((faces g)[i := face a])"
    by (rule ids_same) (use assms(5,9) f in \<open>simp_all add: gw_inv_def\<close>)
  have w: "faces (write_meta F i g1) = (faces g)[i := face a]" by (simp add: write_meta_def assms(2))
  have p: "paper (write_meta F i g1) y = (if y = x then (fst (paper g x), Some ((meta_of E a)\<lparr>j_created := Some (ms F)\<rparr>)) else paper g y)" for y
    by (simp add: write_meta_def paper_on_dir assms(4,5) meta_same [OF assms(10)]) (simp add: paper_def dir_of_def assms(3))
  have "disk_ok E (write_meta F i g1)" if d: "disk_ok E g"
  proof -
    have "\<forall>b \<in> set ((faces g)[i := face a]). active b \<longrightarrow> rkey b \<noteq> []
        \<and> (\<exists>t. paper (write_meta F i g1) (iid b) = (Some (rkey b), Some ((meta_of E b)\<lparr>j_created := Some t\<rparr>)))"
    proof (intro ballI impI)
      fix b assume b: "b \<in> set ((faces g)[i := face a])" "active b"
      from set_update_cases [OF b(1) f(1)] show "rkey b \<noteq> [] \<and>
        (\<exists>t. paper (write_meta F i g1) (iid b) = (Some (rkey b), Some ((meta_of E b)\<lparr>j_created := Some t\<rparr>)))"
      proof
        assume e: "b = face a"
        have "faces g ! i \<in> set (faces g)" using f(1) by simp
        then have "rkey a \<noteq> [] \<and> fst (paper g x) = Some (rkey a)" using d f unfolding disk_ok_def by (metis fst_conv)
        then show ?thesis by (simp add: e p assms(5)) blast
      next
        assume "\<exists>j < length (faces g). j \<noteq> i \<and> b = faces g ! j"
        then obtain j where j: "j < length (faces g)" "j \<noteq> i" "b = faces g ! j" by blast
        then have "iid b \<noteq> x" using assms(9) f b(2) unfolding gw_inv_def ids_ok_def by metis
        moreover have "b \<in> set (faces g)" using j by simp
        ultimately show ?thesis using d b(2) by (simp add: p disk_ok_def)
      qed
    qed
    moreover have "\<exists>b \<in> set ((faces g)[i := face a]). active b \<and> iid b = y" if "fst (paper (write_meta F i g1) y) \<noteq> None" for y
    proof -
      have "fst (paper g y) \<noteq> None" using that by (simp add: p split: if_splits)
      then obtain b where b: "b \<in> set (faces g)" "active b" "iid b = y" using d unfolding disk_ok_def by blast
      then obtain j where j: "j < length (faces g)" "b = faces g ! j" by (metis in_set_conv_nth)
      show ?thesis
      proof (cases "j = i")
        case True
        then have "y = x" using b j f by simp
        then show ?thesis using f(1) assms(5,6) by (intro bexI [of _ "face a"]) (simp_all add: set_update_memI)
      qed (use b j nth_other_mem [of j "faces g" i] in auto)
    qed
    moreover have "distinct (mkeys (dirs (write_meta F i g1)))" using d by (simp add: write_meta_def disk_ok_def assms(3) on_dir_def omap.inv_put)
    ultimately show ?thesis by (simp add: disk_ok_def w)
  qed
  then show ?thesis using ids assms(8) by (simp add: gw_inv_def w)
qed

end
