(* ===== verification/GatewayInv.thy ===== *)
theory GatewayInv
  imports GatewayProps
begin

text \<open>
  The identities of the gateway over whole runs: every step keeps them distinct, the screen with
  one holder, and the disk in agreement with the slots; what a power cycle gives back; and what a
  deleted identity leaves in its slot.
\<close>

section \<open>Every step keeps the invariant\<close>

lemma slot_twice: "on_slot i f (on_slot i h g) = on_slot i (\<lambda>a. f (h a)) g"
  by (cases "i < length (idens g)") (simp_all add: on_slot_def list_update_beyond)

lemma setter_inv:
  assumes "gw_inv g" "hexs F = hexs E" "\<And>i g. f i g = on_slot i h (g\<lparr>rx := q i g\<rparr>)"
    "\<And>a. iid (h a) = iid a \<and> active (h a) = active a \<and> rkey (h a) = rkey a \<and> screen (conf (h a)) = screen (conf a)"
  shows "gw_inv (fst (change F x f g)) \<and> (disk_ok E g \<longrightarrow> disk_ok E (fst (change F x f g)))"
proof (cases "identity_by_id x g")
  case None
  then show ?thesis using assms(1) by (simp add: change_def)
next
  case (Some i)
  define a where "a = h (idens g ! i)"
  note i = identity_found [OF Some]
  have g1: "faces (f i g) = (faces g)[i := face a]" "dirs (f i g) = dirs g" "idens (f i g) ! i = a"
    using i by (simp_all add: assms(3) faces_def on_slot_def a_def map_update)
  have s: "screen_ok ((faces g)[i := face a])"
  proof (rule screen_same)
    show "screen_ok (faces g)" "i < length (faces g)" using assms(1) i by (simp_all add: gw_inv_def)
    show "screen (conf (face a)) = screen (conf (faces g ! i))" using i by (simp add: a_def assms(4) faces_nth)
    show "screen (conf (face a)) \<longrightarrow> active (face a)" using i by (simp add: a_def assms(4))
  qed
  have k: "iid a = x" "active a" "rkey a = rkey (idens g ! i)" using i by (simp_all add: a_def assms(4))
  show ?thesis using change_inv [OF Some g1 k s assms(1,2)] by (simp add: change_def Some)
qed

lemma on_conf_abs: "on_conf f = (\<lambda>i. on_slot i (\<lambda>a. a\<lparr>conf := f (conf a)\<rparr>))"
  by (rule ext) (simp add: on_conf_def)

lemmas setter_defs = on_conf_abs slot_twice set_announce_interval_def set_persist_outbound_attachments_def set_gw_stamp_cost_def
  set_enforce_stamps_def set_telemetry_defaults_def set_gw_display_name_def

lemma setters_inv:
  assumes "gw_inv g" "hexs F = hexs E"
    "e \<in> {SetInterval x n, SetKeepSent x on, SetCost x k, SetEnforce x on, SetTelemetry x l en b c sh rt, SetName x nm}"
  shows "gw_inv (fst (gw_step g (F, e))) \<and> (disk_ok E g \<longrightarrow> disk_ok E (fst (gw_step g (F, e))))"
proof -
  have u: "(\<And>i g. f i g = on_slot i h (g\<lparr>rx := q i g\<rparr>)) \<Longrightarrow>
    (\<And>a. iid (h a) = iid a \<and> active (h a) = active a \<and> rkey (h a) = rkey a \<and> screen (conf (h a)) = screen (conf a)) \<Longrightarrow>
    gw_inv (fst (change F x f g)) \<and> (disk_ok E g \<longrightarrow> disk_ok E (fst (change F x f g)))" for f h q
    using setter_inv [OF assms(1,2)] by blast
  have plain: "on_slot i h g' = on_slot i h (g'\<lparr>rx := rx g'\<rparr>)" for i h g' by simp
  from assms(3) consider "e = SetInterval x n" | "e = SetKeepSent x on" | "e = SetCost x k" | "e = SetEnforce x on"
    | "e = SetTelemetry x l en b c sh rt" | "e = SetName x nm" by blast
  then show ?thesis
  proof cases
    case 3 show ?thesis unfolding 3 gw_step.simps fst_conv set_gw_stamp_cost_def on_conf_def by (rule u [OF refl]) simp
  next
    case 4 show ?thesis unfolding 4 gw_step.simps fst_conv set_enforce_stamps_def on_conf_def by (rule u [OF refl]) simp
  qed (simp only: gw_step.simps fst_conv setter_defs, rule u, rule plain, simp)+
qed

lemma screen_set_inv:
  assumes "gw_inv g" "hexs F = hexs E"
  shows "gw_inv (fst (set_screen_identity F x on g)) \<and> (disk_ok E g \<longrightarrow> disk_ok E (fst (set_screen_identity F x on g)))"
proof (cases "identity_by_id x g")
  case None
  then show ?thesis using assms by (simp add: set_screen_identity_def)
next
  case (Some i)
  define a where "a = (idens g ! i)\<lparr>conf := (conf (idens g ! i))\<lparr>screen := on\<rparr>\<rparr>"
  define g1 where "g1 = on_conf (\<lambda>c. c\<lparr>screen := on\<rparr>) i g"
  note i = identity_found [OF Some]
  have g1: "faces g1 = (faces g)[i := face a]" "dirs g1 = dirs g" "idens g1 ! i = a"
    using i by (simp_all add: g1_def on_conf_def faces_def on_slot_def a_def map_update)
  have k: "iid a = x" "active a" "rkey a = rkey (idens g ! i)" using i by (simp_all add: a_def)
  show ?thesis
  proof (cases "on \<and> (case screen_identity g of None \<Rightarrow> False | Some h \<Rightarrow> iid (idens g ! h) \<noteq> iid (idens g ! i))")
    case True
    then show ?thesis using assms by (simp add: set_screen_identity_def Some)
  next
    case False
    have s: "screen_ok ((faces g)[i := face a])"
    proof (rule screen_update)
      show "screen_ok (faces g)" "i < length (faces g)" using assms(1) i by (simp_all add: gw_inv_def)
      show "screen (conf (face a)) \<longrightarrow> active (face a)" using k by simp
      show "screen (conf (face a)) \<longrightarrow> (\<forall>j < length (faces g). j \<noteq> i \<longrightarrow> \<not> screen (conf (faces g ! j)))"
      proof (intro impI allI notI)
        fix j assume j: "screen (conf (face a))" "j < length (faces g)" "j \<noteq> i" "screen (conf (faces g ! j))"
        then have "active (faces g ! j)" using assms(1) by (simp add: gw_inv_def screen_ok_def)
        then have aj: "active (idens g ! j)" "screen (conf (idens g ! j))" using j by (simp_all add: faces_nth)
        obtain h where h: "screen_identity g = Some h"
          using aj j(2) first_index_None [of "\<lambda>a. active a \<and> screen (conf a)" "idens g"] by (cases "screen_identity g") (auto simp: screen_identity_def)
        then have hh: "h < length (idens g)" "active (idens g ! h)" "screen (conf (idens g ! h))"
          using first_index_Some [of "\<lambda>a. active a \<and> screen (conf a)" "idens g" h] by (auto simp: screen_identity_def)
        then have "h = j" using assms(1) aj j(2) by (simp add: gw_inv_def screen_ok_def faces_nth)
        moreover have "iid (idens g ! h) = iid (idens g ! i)" using False h j(1) by (auto simp: a_def)
        then have "h = i" using assms(1) hh i by (simp add: gw_inv_def ids_ok_def faces_nth)
        ultimately show False using j(3) by simp
      qed
    qed
    have f: "fst (set_screen_identity F x on g) = write_meta F i g1"
      using False by (simp only: set_screen_identity_def Some option.case if_False fst_conv g1_def)
    show ?thesis unfolding f by (rule change_inv [OF Some g1 k s assms(1,2)])
  qed
qed
lemma dir_inv:
  assumes "faces g' = faces g" "paper g' = paper g" "distinct (mkeys (dirs g)) \<Longrightarrow> distinct (mkeys (dirs g'))"
  shows "gw_inv g' = gw_inv g \<and> (disk_ok E g \<longrightarrow> disk_ok E g')"
  using assms by (simp add: gw_inv_def disk_ok_def)

lemma paper_dir_same:
  assumes "\<And>d. d_key (f d) = d_key d" "\<And>d. d_meta (f d) = d_meta d"
  shows "paper (on_dir x f g) = paper g"
  by (rule ext) (simp add: paper_def dir_of_on_dir assms)

lemma side_dir_inv:
  assumes "core g1 = core g" "\<And>d. d_key (f d) = d_key d" "\<And>d. d_meta (f d) = d_meta d"
  shows "gw_inv (on_dir x f g1) = gw_inv g \<and> (disk_ok E g \<longrightarrow> disk_ok E (on_dir x f g1))"
proof (rule dir_inv)
  have c: "faces g1 = faces g" "dirs g1 = dirs g" using assms(1) by (simp_all add: core_faces)
  show "faces (on_dir x f g1) = faces g" using c by simp
  show "paper (on_dir x f g1) = paper g" using paper_dir_same [OF assms(2,3)] paper_dirs [OF c(2)] by simp
  show "distinct (mkeys (dirs (on_dir x f g1)))" if "distinct (mkeys (dirs g))" using that c by simp
qed

lemma retention_inv: "gw_inv (fst (set_conversation_retention E' x p r g)) = gw_inv g
    \<and> (disk_ok E g \<longrightarrow> disk_ok E (fst (set_conversation_retention E' x p r g)))"
proof (cases "identity_by_id x g")
  case None
  then show ?thesis by (simp add: set_conversation_retention_def)
next
  case (Some i)
  show ?thesis
  proof (cases "ibox (idens g ! i) = None \<or> obox (idens g ! i) = None \<or> retention_too_large r")
    case True
    then show ?thesis by (simp only: set_conversation_retention_def Some option.case if_True fst_conv simp_thms)
  next
    case False
    show ?thesis unfolding set_conversation_retention_def Some option.case if_not_P [OF False] Let_def split_beta fst_conv persist_conversation_config_def
      by (rule side_dir_inv) simp_all
  qed
qed

lemma rotate_inv: "gw_inv (fst (rotate_outbound_ratchet F d g)) = gw_inv g
    \<and> (disk_ok E g \<longrightarrow> disk_ok E (fst (rotate_outbound_ratchet F d g)))"
proof (cases "first_index (\<lambda>i. active (idens g ! i) \<and> address_of g i = d) (slot_list g)")
  case None
  then show ?thesis by (simp add: rotate_outbound_ratchet_def)
next
  case (Some i)
  define es where "es = rotate_ring (word_of_nat (ms F)) (fresh_ratchet F) (ratchets (idens g ! i))"
  show ?thesis
  proof (cases "save_ring es")
    case None
    then show ?thesis
      using inv_core [of "on_slot i (\<lambda>a. a\<lparr>ratchets := es\<rparr>) g" g] by (simp add: rotate_outbound_ratchet_def Some Let_def es_def)
  next
    case s: (Some b)
    have "fst (rotate_outbound_ratchet F d g) =
        on_dir (iid (idens g ! i)) (\<lambda>dd. dd\<lparr>d_ratchet := ratchet_file F b\<rparr>) (on_slot i (\<lambda>a. a\<lparr>ratchets := es\<rparr>) g)"
      using s by (simp add: rotate_outbound_ratchet_def Some Let_def es_def)
    moreover have "gw_inv (on_dir (iid (idens g ! i)) (\<lambda>dd. dd\<lparr>d_ratchet := ratchet_file F b\<rparr>) (on_slot i (\<lambda>a. a\<lparr>ratchets := es\<rparr>) g)) = gw_inv g
        \<and> (disk_ok E g \<longrightarrow> disk_ok E (on_dir (iid (idens g ! i)) (\<lambda>dd. dd\<lparr>d_ratchet := ratchet_file F b\<rparr>) (on_slot i (\<lambda>a. a\<lparr>ratchets := es\<rparr>) g)))"
      by (rule side_dir_inv) simp_all
    ultimately show ?thesis by simp
  qed
qed

text \<open>A slot that leaves, and one that is filled.\<close>

lemma vacate_inv:
  assumes "gw_inv g" "i < length (faces g)" "active (faces g ! i)" "iid (faces g ! i) = x" "\<not> active a" "\<not> screen (conf a)"
    "faces g' = (faces g)[i := a]" "paper g' = (paper g)(x := (None, None))" "distinct (mkeys (dirs g)) \<Longrightarrow> distinct (mkeys (dirs g'))"
  shows "gw_inv g' \<and> (disk_ok E g \<longrightarrow> disk_ok E g')"
proof -
  have "gw_inv g'"
    using assms(1,5,6) ids_update [OF _ assms(2), of a] screen_update [OF _ assms(2), of a] by (simp add: gw_inv_def assms(7))
  moreover have other: "iid (faces g ! j) \<noteq> x" if "j < length (faces g)" "j \<noteq> i" "active (faces g ! j)" for j
    using that assms(1-4) unfolding gw_inv_def ids_ok_def by metis
  have "disk_ok E g'" if d: "disk_ok E g"
  proof -
    have "rkey b \<noteq> [] \<and> (\<exists>t. paper g' (iid b) = (Some (rkey b), Some ((meta_of E b)\<lparr>j_created := Some t\<rparr>)))"
      if b: "b \<in> set (faces g')" "active b" for b
    proof -
      obtain j where j: "j < length (faces g)" "j \<noteq> i" "b = faces g ! j"
        using set_update_cases [of b "faces g" i a] b assms(2,5,7) by auto
      moreover have "b \<in> set (faces g)" using j by simp
      ultimately show ?thesis using d b(2) other [of j] by (simp add: assms(8) disk_ok_def)
    qed
    moreover have "\<exists>b \<in> set (faces g'). active b \<and> iid b = y" if "fst (paper g' y) \<noteq> None" for y
    proof -
      have y: "y \<noteq> x" "fst (paper g y) \<noteq> None" using that by (auto simp: assms(8) split: if_splits)
      then obtain b where b: "b \<in> set (faces g)" "active b" "iid b = y" using d unfolding disk_ok_def by blast
      then obtain j where j: "j < length (faces g)" "b = faces g ! j" by (metis in_set_conv_nth)
      then have "j \<noteq> i" using b y assms(4) by auto
      then show ?thesis using b j nth_other_mem [of j "faces g" i a] by (auto simp: assms(7))
    qed
    ultimately show ?thesis using d assms(9) by (simp add: disk_ok_def)
  qed
  ultimately show ?thesis by blast
qed

lemma fill_inv:
  assumes "gw_inv g" "i < length (faces g)" "\<not> active (faces g ! i)" "active a" "iid a = x" "x \<noteq> ''''" "rkey a \<noteq> []"
    "\<forall>b \<in> set (faces g). active b \<longrightarrow> iid b \<noteq> x" "\<not> screen (conf a)"
    "faces g' = (faces g)[i := a]" "paper g' = (paper g)(x := (Some (rkey a), Some ((meta_of E a)\<lparr>j_created := Some t\<rparr>)))"
    "distinct (mkeys (dirs g)) \<Longrightarrow> distinct (mkeys (dirs g'))"
  shows "gw_inv g' \<and> (disk_ok E g \<longrightarrow> disk_ok E g')"
proof -
  have "iid (faces g ! j) \<noteq> iid a" if "j < length (faces g)" "active (faces g ! j)" for j using that assms(5,8) by simp
  then have "gw_inv g'"
    using assms(1,5,6,9) ids_update [OF _ assms(2), of a] screen_update [OF _ assms(2), of a] by (simp add: gw_inv_def assms(10))
  moreover have "disk_ok E g'" if d: "disk_ok E g"
  proof -
    have "rkey b \<noteq> [] \<and> (\<exists>t. paper g' (iid b) = (Some (rkey b), Some ((meta_of E b)\<lparr>j_created := Some t\<rparr>)))"
      if b: "b \<in> set (faces g')" "active b" for b
    proof (cases "b = a")
      case True
      then show ?thesis using assms(5,7) by (simp add: assms(11)) blast
    next
      case False
      then have m: "b \<in> set (faces g)" using set_update_cases [of b "faces g" i a] b assms(2,10) by auto
      then have "iid b \<noteq> x" using assms(8) b(2) by blast
      then show ?thesis using d m b(2) by (simp add: assms(11) disk_ok_def)
    qed
    moreover have "\<exists>b \<in> set (faces g'). active b \<and> iid b = y" if y: "fst (paper g' y) \<noteq> None" for y
    proof (cases "y = x")
      case True
      then show ?thesis using assms(2,4,5) by (intro bexI [of _ a]) (simp_all add: assms(10) set_update_memI)
    next
      case False
      then obtain b where b: "b \<in> set (faces g)" "active b" "iid b = y" using d y unfolding disk_ok_def assms(11) by (metis fun_upd_apply)
      then obtain j where j: "j < length (faces g)" "b = faces g ! j" by (metis in_set_conv_nth)
      then have "j \<noteq> i" using b assms(3) by auto
      then show ?thesis using b j nth_other_mem [of j "faces g" i a] by (auto simp: assms(10))
    qed
    ultimately show ?thesis using d assms(12) by (simp add: disk_ok_def)
  qed
  ultimately show ?thesis by blast
qed
lemma core_drop [simp]: "core (fst (drop_stamps E x q g)) = core g"
  by (induction q arbitrary: g) (simp_all add: split_beta)

lemma core_unlink [simp]: "core (unlink_box E x b g) = core g"
  by (simp add: unlink_box_def core_foldl split: option.split)

definition vacated :: "iden \<Rightarrow> iden" where
  "vacated a = a\<lparr>rkey := [], iid := '''', label := [], active := False\<rparr>"

lemma delete_core:
  assumes "identity_by_id x g = Some i"
  shows "faces (fst (delete_identity F x g)) = (faces g)[i := vacated (faces g ! i)]"
    "paper (fst (delete_identity F x g)) = (paper g)(x := (None, None))"
    "distinct (mkeys (dirs g)) \<Longrightarrow> distinct (mkeys (dirs (fst (delete_identity F x g))))"
    "is_setup (fst (delete_identity F x g)) = is_setup g"
proof -
  note i = identity_found [OF assms]
  define g2 where "g2 = unlink_box F x (obox (idens g ! i)) (unlink_box F x (ibox (idens g ! i)) (g\<lparr>rx := shutdown i (rx g)\<rparr>))"
  define g3 where "g3 = fst (drop_stamps F x (st_queue g2) g2)"
  define f where "f = (\<lambda>a :: iden. a\<lparr>ibox := None, obox := None, rkey := [], iid := '''', label := [], active := False\<rparr>)"
  have e: "fst (delete_identity F x g) =
      on_slot i f (on_dir x (\<lambda>d. d\<lparr>d_key := None, d_meta := None, d_inbox := None, d_outbox := None\<rparr>) g3)"
    by (simp add: delete_identity_def assms Let_def split_beta g2_def g3_def f_def)
  have "core g3 = core (g\<lparr>rx := shutdown i (rx g)\<rparr>)" by (simp add: g3_def g2_def)
  then have c: "faces g3 = faces g" "dirs g3 = dirs g" "is_setup g3 = is_setup g" by (simp_all add: core_faces) (simp_all add: faces_def)
  then have l: "i < length (idens g3)" using i by (metis faces_length)
  have "face (f (idens g3 ! i)) = vacated (face (idens g3 ! i))" by (simp add: f_def face_def vacated_def)
  also have "face (idens g3 ! i) = faces g ! i" using faces_nth [OF l] c(1) by simp
  finally show "faces (fst (delete_identity F x g)) = (faces g)[i := vacated (faces g ! i)]" using l c(1) by (simp add: e faces_slot)
  show "paper (fst (delete_identity F x g)) = (paper g)(x := (None, None))"
    by (rule ext) (simp add: e paper_on_dir paper_dirs [OF c(2)])
  show "distinct (mkeys (dirs (fst (delete_identity F x g))))" if "distinct (mkeys (dirs g))" using that by (simp add: e c(2))
  show "is_setup (fst (delete_identity F x g)) = is_setup g" by (simp add: e c(3))
qed

definition filled :: "gw_env \<Rightarrow> bytes \<Rightarrow> bytes \<Rightarrow> iden \<Rightarrow> iden" where
  "filled F n pw a = a\<lparr>iid := take 16 (hexs F (key_id F (fresh_key F))), label := n, rkey := fresh_key F, pw_salt := fresh_salt F,
     pw_hash := derive F pw (fresh_salt F)\<rparr>"

lemma filled_abs: "filled F n pw = (\<lambda>a. a\<lparr>iid := take 16 (hexs F (key_id F (fresh_key F))), label := n, rkey := fresh_key F,
     pw_salt := fresh_salt F, pw_hash := derive F pw (fresh_salt F)\<rparr>)"
  by (rule ext) (simp add: filled_def)

lemma face_filled [simp]: "face (filled F n pw a) = filled F n pw (face a)"
  by (simp add: filled_def face_def)

lemma create_core:
  assumes "is_setup g" "first_free_slot g = Some i" "hexs F (key_id F (fresh_key F)) \<noteq> ''''" "key_saved F"
    and a_def: "a = (filled F n pw (faces g ! i))\<lparr>active := True\<rparr>" and x_def: "x = take 16 (hexs F (key_id F (fresh_key F)))"
  shows "faces (fst (create_identity F n pw g)) = (faces g)[i := a]"
    "paper (fst (create_identity F n pw g)) = (paper g)(x := (Some (fresh_key F), Some (meta_of F a)))"
    "distinct (mkeys (dirs g)) \<Longrightarrow> distinct (mkeys (dirs (fst (create_identity F n pw g))))"
    "is_setup (fst (create_identity F n pw g)) = is_setup g"
proof -
  have i: "i < length (idens g)" using first_index_Some [of "\<lambda>a. \<not> active a" "idens g" i] assms(2) by (simp add: first_free_slot_def)
  define g1 where "g1 = on_dir x (\<lambda>d. d) (on_slot i (filled F n pw) g)"
  define g2 where "g2 = write_meta F i (on_dir x (\<lambda>d. d\<lparr>d_key := Some (fresh_key F)\<rparr>) g1)"
  have e: "fst (create_identity F n pw g) = fst (activate F i g2)"
    using assms(1-4) by (simp add: create_identity_def Let_def split_beta g1_def g2_def x_def filled_abs)
  have l: "i < length (idens g2)" and s: "idens g2 ! i = filled F n pw (idens g ! i)"
    using i by (simp_all add: g2_def g1_def write_meta_def slot_nth)
  have a: "(face (idens g2 ! i))\<lparr>active := True\<rparr> = a" using i by (simp add: s a_def faces_nth)
  have x: "iid (filled F n pw b) = x" for b by (simp add: filled_def x_def)
  have f: "faces g2 = (faces g)[i := filled F n pw (faces g ! i)]" using i by (simp add: g2_def g1_def write_meta_def faces_slot faces_nth)
  note act = activate_core [OF l, of F, unfolded a]
  show "faces (fst (create_identity F n pw g)) = (faces g)[i := a]" using act(1) f by (simp add: e)
  have m: "meta_of F a = meta_of F (filled F n pw (idens g ! i))"
    using i by (simp add: a_def faces_nth face_def meta_of_def filled_def)
  have "paper (fst (create_identity F n pw g)) = paper g2" unfolding e by (rule paper_dirs) (rule act(2))
  also have "\<dots> = (paper g)(x := (Some (fresh_key F), Some (meta_of F a)))"
    using i by (intro ext) (simp add: g2_def g1_def write_meta_def slot_nth paper_on_dir dir_of_on_dir x m)
  finally show "paper (fst (create_identity F n pw g)) = (paper g)(x := (Some (fresh_key F), Some (meta_of F a)))" .
  show "distinct (mkeys (dirs (fst (create_identity F n pw g))))" if "distinct (mkeys (dirs g))"
    using that by (simp add: e act(2)) (simp add: g2_def g1_def write_meta_def)
  show "is_setup (fst (create_identity F n pw g)) = is_setup g" by (simp add: e act(3)) (simp add: g2_def g1_def write_meta_def)
qed

lemma delete_inv:
  assumes "gw_inv g" "\<forall>i. identity_by_id x g = Some i \<longrightarrow> \<not> screen (conf (idens g ! i))"
  shows "gw_inv (fst (delete_identity F x g)) \<and> (disk_ok E g \<longrightarrow> disk_ok E (fst (delete_identity F x g)))"
proof (cases "identity_by_id x g")
  case None
  then show ?thesis using assms by (simp add: delete_identity_def)
next
  case (Some i)
  note i = identity_found [OF Some]
  show ?thesis
    by (rule vacate_inv [OF assms(1) _ _ _ _ _ delete_core(1,2,3) [OF Some]])
      (use i assms(2) Some in \<open>simp_all add: faces_nth vacated_def\<close>)
qed

lemma create_inv:
  assumes "gw_inv g" "hexs F = hexs E" "fresh_key F \<noteq> []"
    "\<forall>a \<in> set (faces g). active a \<longrightarrow> iid a \<noteq> take 16 (hexs E (key_id F (fresh_key F)))"
    "fst (paper g (take 16 (hexs E (key_id F (fresh_key F))))) = None"
  shows "gw_inv (fst (create_identity F n pw g)) \<and> (disk_ok E g \<longrightarrow> disk_ok E (fst (create_identity F n pw g)))"
proof (cases "\<not> is_setup g \<or> first_free_slot g = None \<or> hexs F (key_id F (fresh_key F)) = ''''")
  case True
  then show ?thesis using assms(1) by (auto simp: create_identity_def Let_def split: option.split)
next
  case False
  then obtain i where i: "first_free_slot g = Some i" by auto
  then have l: "i < length (idens g)" "\<not> active (faces g ! i)"
    using first_index_Some [of "\<lambda>a. \<not> active a" "idens g" i] by (simp_all add: first_free_slot_def faces_nth)
  then have ns: "\<not> screen (conf (faces g ! i))" using assms(1) by (auto simp: gw_inv_def screen_ok_def)
  show ?thesis
  proof (cases "key_saved F")
    case True
    define a where "a = (filled F n pw (faces g ! i))\<lparr>active := True\<rparr>"
    note c = create_core [OF _ i _ True a_def refl]
    have p: "paper (fst (create_identity F n pw g)) = (paper g)(take 16 (hexs E (key_id F (fresh_key F))) :=
        (Some (rkey a), Some ((meta_of E a)\<lparr>j_created := Some (ms F)\<rparr>)))"
      using c(2) False i True meta_same [OF assms(2), of a] by (simp add: assms(2) a_def filled_def)
    show ?thesis
      by (rule fill_inv [OF assms(1) _ _ _ _ _ _ assms(4) _ c(1) p c(3)])
        (use False i True l assms(2,3) ns in \<open>simp_all add: a_def filled_def\<close>)
  next
    case no: False
    define f where "f = (\<lambda>a. (filled F n pw a)\<lparr>active := False\<rparr>)"
    have e: "fst (create_identity F n pw g) = on_dir (take 16 (hexs F (key_id F (fresh_key F)))) (\<lambda>d. d) (on_slot i f g)"
      using False i no by (simp add: create_identity_def Let_def filled_def f_def on_dir_def on_slot_def dir_of_def l)
    have "face (f (idens g ! i)) = f (faces g ! i)" using l by (simp add: f_def faces_nth) (simp add: face_def filled_def)
    then have ff: "faces (fst (create_identity F n pw g)) = (faces g)[i := f (faces g ! i)]" using l by (simp add: e faces_slot)
    have pp: "paper (fst (create_identity F n pw g)) = paper g" unfolding e by (subst paper_dir_same) simp_all
    have inact: "\<not> active (f b)" "conf (f b) = conf b" for b by (simp_all add: f_def filled_def)
    have same: "b \<in> set ((faces g)[i := f (faces g ! i)]) \<and> active b \<longleftrightarrow> b \<in> set (faces g) \<and> active b" for b
      using l inact set_update_cases [of b "faces g" i "f (faces g ! i)"] nth_other_mem [of _ "faces g" i "f (faces g ! i)"]
      by (auto simp: in_set_conv_nth [of b "faces g"])
    have "gw_inv (fst (create_identity F n pw g))"
      using assms(1) ids_update [of "faces g" i "f (faces g ! i)"] screen_update [of "faces g" i "f (faces g ! i)"] l inact ns
      by (simp add: gw_inv_def ff)
    moreover have "disk_ok E (fst (create_identity F n pw g))" if "disk_ok E g"
      using that same unfolding disk_ok_def ff pp by (metis dir_distinct e slot_fields(1))
    ultimately show ?thesis by blast
  qed
qed

lemma step_keeps: "careful E g e \<Longrightarrow> gw_inv g \<Longrightarrow> gw_inv (fst (gw_step g e)) \<and> (disk_ok E g \<longrightarrow> disk_ok E (fst (gw_step g e)))"
proof -
  assume c: "careful E g e" and v: "gw_inv g"
  obtain F ev where e: "e = (F, ev)" by (cases e)
  have h: "hexs F = hexs E" using c by (simp add: careful_def e)
  show ?thesis
  proof (cases "quiet_event ev")
    case True
    then show ?thesis using inv_core [OF core_quiet [OF True]] v by (simp add: e)
  next
    case False
    note s = setters_inv [OF v h]
    show ?thesis
    proof (cases ev)
      case (Create n pw)
      then show ?thesis using create_inv [OF v h] c by (simp add: e careful_def Let_def split_beta)
    next
      case (Delete x)
      then show ?thesis using delete_inv [OF v] c by (simp add: e careful_def split_beta)
    next
      case (SetScreen x on)
      then show ?thesis using screen_set_inv [OF v h] by (simp add: e split_beta)
    next
      case (SetRetention x p r)
      then show ?thesis using retention_inv v by (simp add: e split_beta)
    next
      case (RotateRatchet d)
      then show ?thesis using rotate_inv v by (simp add: e)
    qed (use False s in \<open>auto simp: e simp del: gw_step.simps\<close>)
  qed
qed
section \<open>Setup\<close>

definition holds_screen :: "gateway \<Rightarrow> nat \<Rightarrow> bool" where
  "holds_screen g i \<longleftrightarrow> active (faces g ! i) \<and> screen (conf (faces g ! i))"

definition dimmed :: "iden \<Rightarrow> iden" where "dimmed a = a\<lparr>conf := (conf a)\<lparr>screen := False\<rparr>\<rparr>"

lemma face_conf: "face (a\<lparr>conf := c\<rparr>) = (face a)\<lparr>conf := c\<rparr>"
  by (cases a) (simp add: face_def)

lemma faces_dim:
  assumes "i < length (idens g)"
  shows "faces (write_meta E i (on_conf (\<lambda>c. c\<lparr>screen := False\<rparr>) i g)) = (faces g)[i := dimmed (faces g ! i)]"
  using assms by (simp add: write_meta_def on_conf_def faces_slot faces_nth face_conf dimmed_def)

lemma single_screen_keeps:
  assumes "distinct is" "\<forall>j \<in> set is. j < length (idens g)"
  shows "length (idens (fst (single_screen E is h g))) = length (idens g)
    \<and> (\<forall>j. faces (fst (single_screen E is h g)) ! j = faces g ! j
         \<or> (j \<in> set is \<and> faces (fst (single_screen E is h g)) ! j = dimmed (faces g ! j)))
    \<and> (\<forall>j \<in> set is. \<forall>k \<in> set is. holds_screen (fst (single_screen E is h g)) j \<longrightarrow> holds_screen (fst (single_screen E is h g)) k \<longrightarrow> h = None \<and> j = k)"
  using assms
proof (induction "is" arbitrary: g h)
  case (Cons i js)
  have i: "i < length (idens g)" "i \<notin> set js" using Cons.prems by simp_all
  have hs: "holds_screen g i \<longleftrightarrow> active (idens g ! i) \<and> screen (conf (idens g ! i))" using i by (simp add: holds_screen_def faces_nth)
  show ?case
  proof (cases "holds_screen g i")
    case False
    then have e: "single_screen E (i # js) h g = single_screen E js h g" using hs by auto
    note IH = Cons.IH [of g h]
    have "faces (fst (single_screen E js h g)) ! i = faces g ! i" using IH Cons.prems i(2) by auto
    then have "\<not> holds_screen (fst (single_screen E js h g)) i" using False by (simp add: holds_screen_def)
    then show ?thesis unfolding e using IH Cons.prems by auto
  next
    case True
    show ?thesis
    proof (cases "h = None")
      case h: True
      then have e: "single_screen E (i # js) h g = single_screen E js (Some i) g" using hs True by simp
      show ?thesis unfolding e using Cons.IH [of g "Some i"] Cons.prems h by auto
    next
      case False
      define g1 where "g1 = write_meta E i (on_conf (\<lambda>c. c\<lparr>screen := False\<rparr>) i g)"
      have e: "single_screen E (i # js) h g = single_screen E js h g1" using False hs True by (auto simp: g1_def)
      have f: "faces g1 = (faces g)[i := dimmed (faces g ! i)]" unfolding g1_def by (rule faces_dim) (rule i(1))
      have l: "length (idens g1) = length (idens g)" by (simp add: g1_def write_meta_def on_conf_def)
      note IH = Cons.IH [of g1 h]
      have "faces (fst (single_screen E js h g1)) ! i = faces g1 ! i" using IH Cons.prems(1,2) i(2) by (auto simp: l)
      then have "faces (fst (single_screen E js h g1)) ! i = dimmed (faces g ! i)" using i(1) by (simp add: f)
      moreover have "faces (fst (single_screen E js h g1)) ! j = faces g ! j \<or>
          (j \<in> set (i # js) \<and> faces (fst (single_screen E js h g1)) ! j = dimmed (faces g ! j))" for j
      proof (cases "j = i")
        case False
        then have "faces g1 ! j = faces g ! j" by (simp add: f)
        moreover have "faces (fst (single_screen E js h g1)) ! j = faces g1 ! j \<or>
            (j \<in> set js \<and> faces (fst (single_screen E js h g1)) ! j = dimmed (faces g1 ! j))" using IH Cons.prems(1,2) by (simp add: l)
        ultimately show ?thesis by auto
      qed (simp add: calculation)
      moreover have "\<not> holds_screen (fst (single_screen E js h g1)) i" using calculation(1) by (simp add: holds_screen_def dimmed_def)
      ultimately show ?thesis unfolding e using IH Cons.prems(1,2) by (simp add: l)
    qed
  qed
qed simp

lemma single_screen_idle:
  assumes "\<forall>j \<in> set is. \<forall>k \<in> set is. holds_screen g j \<longrightarrow> holds_screen g k \<longrightarrow> j = k" "distinct is" "\<forall>j \<in> set is. j < length (idens g)"
    "h \<noteq> None \<Longrightarrow> \<forall>j \<in> set is. \<not> holds_screen g j"
  shows "fst (single_screen E is h g) = g"
  using assms
proof (induction "is" arbitrary: h)
  case (Cons i js)
  have hs: "holds_screen g i \<longleftrightarrow> active (idens g ! i) \<and> screen (conf (idens g ! i))" using Cons.prems(3) by (simp add: holds_screen_def faces_nth)
  have js: "distinct js" "\<forall>j \<in> set js. j < length (idens g)" "\<forall>j \<in> set js. \<forall>k \<in> set js. holds_screen g j \<longrightarrow> holds_screen g k \<longrightarrow> j = k"
    using Cons.prems by simp_all
  show ?case
  proof (cases "holds_screen g i")
    case True
    then have "h = None" using Cons.prems(4) by (cases h) auto
    then have e: "single_screen E (i # js) h g = single_screen E js (Some i) g" using True hs by simp
    have "\<forall>j \<in> set js. \<not> holds_screen g j" using Cons.prems(1,2) True by (metis distinct.simps(2) list.set_intros(1,2))
    then show ?thesis unfolding e using Cons.IH [of "Some i", OF js(3,1,2)] by simp
  next
    case False
    then have e: "single_screen E (i # js) h g = single_screen E js h g" using hs by auto
    show ?thesis unfolding e by (rule Cons.IH [OF js(3,1,2)]) (use Cons.prems(4) in simp)
  qed
qed simp

lemma boot_faces: "faces (boot_gateway ds sd fl r l st) = mounted_faces E ds []"
  by (simp add: boot_gateway_def faces_def mounted_faces_def map_replicate)

definition mountable :: "(iden_id, iden_dir) omap \<Rightarrow> iden_id list" where
  "mountable ds = take LXMF_GATEWAY_MAX_IDENTITIES (filter (has_key ds) (mkeys ds))"

lemma boot_load:
  "faces (fst (load_loop E (mkeys ds) 0 (boot_gateway ds sd fl r l st))) = mounted_faces E ds (mountable ds)"
  "dirs (fst (load_loop E (mkeys ds) 0 (boot_gateway ds sd fl r l st))) = ds"
proof -
  have b: "dirs (boot_gateway ds sd fl r l st) = ds" by (simp add: boot_gateway_def)
  show "faces (fst (load_loop E (mkeys ds) 0 (boot_gateway ds sd fl r l st))) = mounted_faces E ds (mountable ds)"
    "dirs (fst (load_loop E (mkeys ds) 0 (boot_gateway ds sd fl r l st))) = ds"
    using load_reference [of "boot_gateway ds sd fl r l st" E "[]" "mkeys ds"] boot_faces [of ds sd fl r l st E]
    by (simp_all add: b mounts_def mountable_def)
qed

lemma setup_faces: "faces (fst (gw_setup E (boot_gateway ds sd fl r l st))) =
    faces (fst (single_screen E [0..<LXMF_GATEWAY_MAX_IDENTITIES] None (fst (load_loop E (mkeys ds) 0 (boot_gateway ds sd fl r l st)))))
  \<and> dirs (fst (gw_setup E (boot_gateway ds sd fl r l st))) =
    dirs (fst (single_screen E [0..<LXMF_GATEWAY_MAX_IDENTITIES] None (fst (load_loop E (mkeys ds) 0 (boot_gateway ds sd fl r l st)))))"
proof -
  define g where "g = boot_gateway ds sd fl r l st"
  have "length (faces (fst (load_loop E (mkeys ds) 0 g))) = LXMF_GATEWAY_MAX_IDENTITIES"
    by (simp only: g_def boot_load) (simp add: mounted_faces_def mountable_def)
  moreover have "\<not> is_setup g" "dirs g = ds" by (simp_all add: g_def boot_gateway_def)
  ultimately show ?thesis
    by (simp add: g_def [symmetric] gw_setup_def load_existing_identities_def split_beta slot_list_def) (simp add: faces_def)
qed

lemma mounted_nth: "length L \<le> LXMF_GATEWAY_MAX_IDENTITIES \<Longrightarrow> i < LXMF_GATEWAY_MAX_IDENTITIES \<Longrightarrow>
    mounted_faces E ds L ! i = (if i < length L then loaded E ds (L ! i) else blank_iden)"
  by (auto simp: mounted_faces_def nth_append)

lemma mountable_keys: "x \<in> set (mountable ds) \<Longrightarrow> has_key ds x \<and> x \<in> set (mkeys ds)"
  by (auto simp: mountable_def dest: in_set_takeD)

lemma mountable_length: "length (mountable ds) \<le> LXMF_GATEWAY_MAX_IDENTITIES"
  by (simp add: mountable_def)

lemma mounted_ids:
  assumes "distinct (mkeys ds)" "\<not> has_key ds ''''"
  shows "ids_ok (mounted_faces E ds (mountable ds))"
proof -
  have len: "length (mounted_faces E ds (mountable ds)) = LXMF_GATEWAY_MAX_IDENTITIES" using mountable_length [of ds] by (simp add: mounted_faces_def)
  have a: "active (mounted_faces E ds (mountable ds) ! i) \<Longrightarrow> i < LXMF_GATEWAY_MAX_IDENTITIES \<Longrightarrow> i < length (mountable ds)
      \<and> iid (mounted_faces E ds (mountable ds) ! i) = mountable ds ! i" for i
    using mounted_nth [OF mountable_length] mountable_keys [of "mountable ds ! i" ds] loaded_active [of ds "mountable ds ! i" E]
    by (cases "i < length (mountable ds)") auto
  have "distinct (mountable ds)" using assms(1) by (simp add: mountable_def distinct_take)
  then show ?thesis unfolding ids_ok_def len
  proof (intro conjI allI impI)
    fix i assume "i < LXMF_GATEWAY_MAX_IDENTITIES" "active (mounted_faces E ds (mountable ds) ! i)"
    from a [OF this(2,1)] show "iid (mounted_faces E ds (mountable ds) ! i) \<noteq> ''''"
      using mountable_keys [of "mountable ds ! i" ds] assms(2) by auto
  next
    fix i j assume d: "distinct (mountable ds)" and "i < LXMF_GATEWAY_MAX_IDENTITIES" "j < LXMF_GATEWAY_MAX_IDENTITIES"
      "active (mounted_faces E ds (mountable ds) ! i)" "active (mounted_faces E ds (mountable ds) ! j)"
      "iid (mounted_faces E ds (mountable ds) ! i) = iid (mounted_faces E ds (mountable ds) ! j)"
    then show "i = j" using a [of i] a [of j] by (simp add: nth_eq_iff_index_eq)
  qed simp
qed

lemma mounted_screen_active: "i < LXMF_GATEWAY_MAX_IDENTITIES \<Longrightarrow> screen (conf (mounted_faces E ds (mountable ds) ! i)) \<Longrightarrow> active (mounted_faces E ds (mountable ds) ! i)"
  using mounted_nth [OF mountable_length, of i E ds] mountable_keys [of "mountable ds ! i" ds] loaded_active [of ds "mountable ds ! i" E]
  by (cases "i < length (mountable ds)") auto

lemma setup_inv:
  assumes "distinct (mkeys ds)" "\<not> has_key ds ''''"
  shows "gw_inv (fst (gw_setup E (boot_gateway ds sd fl r l st)))"
proof -
  define g1 where "g1 = fst (load_loop E (mkeys ds) 0 (boot_gateway ds sd fl r l st))"
  define g2 where "g2 = fst (single_screen E [0..<LXMF_GATEWAY_MAX_IDENTITIES] None g1)"
  have f1: "faces g1 = mounted_faces E ds (mountable ds)" by (simp only: g1_def boot_load)
  have ids: "ids_ok (faces g1)" unfolding f1 by (rule mounted_ids [OF assms])
  then have n: "length (idens g1) = LXMF_GATEWAY_MAX_IDENTITIES" by (simp add: ids_ok_def)
  note single_screen_keeps [of "[0..<LXMF_GATEWAY_MAX_IDENTITIES]" g1 E None, folded g2_def]
  then have k: "length (idens g2) = LXMF_GATEWAY_MAX_IDENTITIES" "\<And>j. faces g2 ! j = faces g1 ! j \<or> faces g2 ! j = dimmed (faces g1 ! j)"
    "\<And>j k. j < LXMF_GATEWAY_MAX_IDENTITIES \<Longrightarrow> k < LXMF_GATEWAY_MAX_IDENTITIES \<Longrightarrow> holds_screen g2 j \<Longrightarrow> holds_screen g2 k \<Longrightarrow> j = k" by (auto simp: n)
  have same: "active (faces g2 ! j) = active (faces g1 ! j)" "iid (faces g2 ! j) = iid (faces g1 ! j)"
    "screen (conf (faces g2 ! j)) \<Longrightarrow> screen (conf (faces g1 ! j))" for j
    using k(2) [of j] by (auto simp: dimmed_def)
  have "ids_ok (faces g2)" using ids k(1) n same(1,2) by (simp add: ids_ok_def)
  moreover have act: "j < LXMF_GATEWAY_MAX_IDENTITIES \<Longrightarrow> screen (conf (faces g2 ! j)) \<Longrightarrow> active (faces g2 ! j)" for j
    using same [of j] mounted_screen_active [of j E ds] f1 by simp
  have "screen_ok (faces g2)"
    using act k(1,3) by (simp add: screen_ok_def holds_screen_def)
  ultimately have "gw_inv g2" by (simp add: gw_inv_def)
  moreover have "faces (fst (gw_setup E (boot_gateway ds sd fl r l st))) = faces g2" using setup_faces by (simp add: g2_def g1_def)
  ultimately show ?thesis by (simp add: gw_inv_def)
qed

section \<open>Runs\<close>

definition kept :: "gw_env \<Rightarrow> gateway \<Rightarrow> gateway \<Rightarrow> gw_out list \<Rightarrow> bool" where
  "kept E g g' out \<longleftrightarrow> (gw_inv g \<longrightarrow> gw_inv g' \<and> (disk_ok E g \<longrightarrow> disk_ok E g'))"

interpretation life: traced gw_step "\<lambda>_. True" "careful E" "kept E" for E
  by unfold_locales (use step_keeps in \<open>auto simp: kept_def\<close>)

lemma run_keeps:
  assumes "gw_inv g" "run_ok (careful E) gw_step es g"
  shows "gw_inv (fst (run gw_step es g)) \<and> (disk_ok E g \<longrightarrow> disk_ok E (fst (run gw_step es g)))"
  using life.run_rel [OF TrueI assms(2)] assms(1) by (simp add: kept_def)

lemma active_face: "a \<in> set (faces g) \<Longrightarrow> face a = a"
  by (auto simp: faces_def face_def)

definition active_faces :: "gateway \<Rightarrow> iden set" where
  "active_faces g = {a \<in> set (faces g). active a}"

text \<open>What a JSON document can hold: no NUL in the name, numbers below \<open>2\<^sup>3\<^sup>1\<close>, hex text that reads back.\<close>

definition storable :: "gw_env \<Rightarrow> iden \<Rightarrow> bool" where
  "storable E a \<longleftrightarrow> 0 \<notin> set (label a) \<and> announce_every (conf a) < 2147483648 \<and> tel_share (conf a) < 2147483648
     \<and> tel_rate (conf a) < 2147483648 \<and> pol_cost (conf a) \<le> 254
     \<and> (\<forall>b \<in> {pw_hash a, pw_salt a}. b \<noteq> [] \<longrightarrow> hexs E b \<noteq> '''' \<and> of_hex (inb E) (hexs E b) = b)"

lemma load_stored:
  assumes "storable E a" "face a = a" "active a" "of_hex (inb F) = of_hex (inb E)"
    "mfind ds (iid a) = Some d" "d_key d = Some (rkey a)" "d_meta d = Some ((meta_of E a)\<lparr>j_created := t\<rparr>)"
  shows "loaded F ds (iid a) = a"
proof -
  have i: "int_or k (Some n) = n" if "n < 2147483648" for k n using that by (simp add: int_or_def)
  have c: "conf a = read_settings ((meta_of E a)\<lparr>j_created := t\<rparr>)"
    using assms(1) by (cases "conf a") (simp add: storable_def read_settings_def meta_of_def Let_def i bool_or_def)
  have l: "c_str (Some (label a)) = label a" using assms(1) by (simp add: storable_def c_str_def) (metis takeWhile_eq_all_conv)
  have h: "hex_or F [] (if b = [] then None else Some (hexs E b)) = b" if "b \<in> {pw_hash a, pw_salt a}" for b
    using assms(1,4) that by (cases "b = []") (auto simp: storable_def hex_or_def)
  have b: "ibox a = None" "obox a = None" "last_announce a = 0" "ratchets a = []"
    using assms(2) by (metis face_def iden.select_convs iden.surjective iden.update_convs)+
  have m: "j_display (meta_of E a) = Some (label a)" "j_hash (meta_of E a) = (if pw_hash a = [] then None else Some (hexs E (pw_hash a)))"
    "j_salt (meta_of E a) = (if pw_salt a = [] then None else Some (hexs E (pw_salt a)))"
    by (simp_all add: meta_of_def Let_def)
  have "loaded F ds (iid a) = \<lparr>iid = iid a, label = label a, rkey = rkey a, ibox = None, obox = None, last_announce = 0, conf = conf a,
      active = True, pw_hash = pw_hash a, pw_salt = pw_salt a, ratchets = []\<rparr>"
    using l h [of "pw_hash a"] h [of "pw_salt a"]
    by (simp add: loaded_def assms(5-7) read_meta_def c [symmetric] blank_iden_def) (simp add: m)
  also have "\<dots> = a" by (rule iden.equality) (simp_all add: b assms(3))
  finally show ?thesis .
qed

lemma paper_key: "has_key (dirs g) y \<longleftrightarrow> (\<exists>k. k \<noteq> [] \<and> fst (paper g y) = Some k)"
  by (auto simp: has_key_def paper_def dir_of_def empty_dir_def split: option.split)

lemma paper_find: "paper g y = (Some k, m) \<Longrightarrow> \<exists>d. mfind (dirs g) y = Some d \<and> d_key d = Some k \<and> d_meta d = m"
  by (auto simp: paper_def dir_of_def empty_dir_def split: option.splits)

lemma disk_keys:
  assumes "gw_inv g" "disk_ok E g"
  shows "set (filter (has_key (dirs g)) (mkeys (dirs g))) = iid ` active_faces g"
    "mountable (dirs g) = filter (has_key (dirs g)) (mkeys (dirs g))"
proof -
  show s: "set (filter (has_key (dirs g)) (mkeys (dirs g))) = iid ` active_faces g"
  proof (intro equalityI subsetI)
    fix y assume "y \<in> set (filter (has_key (dirs g)) (mkeys (dirs g)))"
    then have "fst (paper g y) \<noteq> None" by (auto simp: paper_key)
    then show "y \<in> iid ` active_faces g" using assms(2) by (auto simp: disk_ok_def active_faces_def)
  next
    fix y assume "y \<in> iid ` active_faces g"
    then obtain a t where a: "a \<in> set (faces g)" "active a" "iid a = y" "rkey a \<noteq> []"
      "paper g y = (Some (rkey a), Some ((meta_of E a)\<lparr>j_created := Some t\<rparr>))" using assms(2) by (auto simp: disk_ok_def active_faces_def)
    then have "has_key (dirs g) y" by (auto simp: paper_key)
    moreover obtain d where "mfind (dirs g) y = Some d" using paper_find [OF a(5)] by blast
    then have "y \<in> set (mkeys (dirs g))" using assms(2) omap.keys_find [of "dirs g" y] by (simp add: disk_ok_def)
    ultimately show "y \<in> set (filter (has_key (dirs g)) (mkeys (dirs g)))" by simp
  qed
  have "distinct (filter (has_key (dirs g)) (mkeys (dirs g)))" using assms(2) by (simp add: disk_ok_def)
  then have "length (filter (has_key (dirs g)) (mkeys (dirs g))) = card (iid ` active_faces g)" using s distinct_card by metis
  also have "\<dots> \<le> card (set (faces g))" by (rule order_trans [OF card_image_le card_mono]) (auto simp: active_faces_def)
  also have "\<dots> \<le> LXMF_GATEWAY_MAX_IDENTITIES" using card_length [of "faces g"] assms(1) by (simp add: gw_inv_def ids_ok_def)
  finally show "mountable (dirs g) = filter (has_key (dirs g)) (mkeys (dirs g))" by (simp add: mountable_def)
qed

lemma reboot_keeps:
  assumes "gw_inv g" "disk_ok E g" "\<forall>a \<in> active_faces g. storable E a" "of_hex (inb F) = of_hex (inb E)"
  shows "active_faces (fst (gw_setup F (boot_gateway (dirs g) sd fl r l st))) = active_faces g"
proof -
  define L where "L = mountable (dirs g)"
  define g1 where "g1 = fst (load_loop F (mkeys (dirs g)) 0 (boot_gateway (dirs g) sd fl r l st))"
  have L: "set L = iid ` active_faces g" "length L \<le> LXMF_GATEWAY_MAX_IDENTITIES"
    using disk_keys [OF assms(1,2)] mountable_length [of "dirs g"] unfolding L_def by metis+
  have again: "loaded F (dirs g) (iid a) = a" if a: "a \<in> active_faces g" for a
  proof -
    obtain t where "paper g (iid a) = (Some (rkey a), Some ((meta_of E a)\<lparr>j_created := Some t\<rparr>))"
      using a assms(2) by (auto simp: disk_ok_def active_faces_def)
    from paper_find [OF this] a show ?thesis
      using load_stored [OF _ active_face _ assms(4)] assms(3) by (auto simp: active_faces_def)
  qed
  have f1: "faces g1 = map (loaded F (dirs g)) L @ replicate (LXMF_GATEWAY_MAX_IDENTITIES - length L) blank_iden"
    by (simp only: g1_def L_def boot_load) (simp add: mounted_faces_def)
  have "active_faces g1 = loaded F (dirs g) ` set L"
    using loaded_active mountable_keys by (auto simp: active_faces_def f1 L_def)
  also have "\<dots> = active_faces g" using again by (force simp: L(1) image_image)
  finally have act: "active_faces g1 = active_faces g" .
  have n: "length (idens g1) = LXMF_GATEWAY_MAX_IDENTITIES" using f1 L(2) by (metis faces_length length_append length_map length_replicate le_add_diff_inverse)
  have ids: "ids_ok (faces g1)" unfolding g1_def boot_load
  proof (rule mounted_ids)
    show "distinct (mkeys (dirs g))" using assms(2) by (simp add: disk_ok_def)
    show "\<not> has_key (dirs g) ''''"
    proof
      assume "has_key (dirs g) ''''"
      then have "fst (paper g '''') \<noteq> None" by (auto simp: paper_key)
      then obtain a where "a \<in> set (faces g)" "active a" "iid a = ''''" using assms(2) unfolding disk_ok_def by blast
      then show False using assms(1) unfolding gw_inv_def ids_ok_def by (metis in_set_conv_nth)
    qed
  qed
  have one: "j = k" if h: "j < LXMF_GATEWAY_MAX_IDENTITIES" "k < LXMF_GATEWAY_MAX_IDENTITIES" "holds_screen g1 j" "holds_screen g1 k" for j k
  proof -
    have "faces g1 ! j \<in> active_faces g" "faces g1 ! k \<in> active_faces g"
      using h n unfolding act [symmetric] by (simp_all add: active_faces_def holds_screen_def)
    then obtain j' k' where "j' < length (faces g)" "k' < length (faces g)" "faces g ! j' = faces g1 ! j" "faces g ! k' = faces g1 ! k"
      by (auto simp: active_faces_def in_set_conv_nth)
    then have "faces g1 ! j = faces g1 ! k" using assms(1) h(3,4) unfolding gw_inv_def screen_ok_def holds_screen_def by metis
    then show ?thesis using ids h n by (simp add: ids_ok_def holds_screen_def)
  qed
  have "fst (single_screen F [0..<LXMF_GATEWAY_MAX_IDENTITIES] None g1) = g1"
    by (rule single_screen_idle) (use one n in auto)
  then show ?thesis using setup_faces [of F "dirs g" sd fl r l st] act by (simp add: g1_def [symmetric] active_faces_def)
qed

lemma one_holder:
  assumes "gw_inv g"
  shows "length (filter (\<lambda>a. active a \<and> screen (conf a)) (idens g)) \<le> 1"
proof -
  have "card {i. i < length (idens g) \<and> active (idens g ! i) \<and> screen (conf (idens g ! i))} \<le> Suc 0"
    using assms by (subst card_le_Suc0_iff_eq) (auto simp: gw_inv_def screen_ok_def faces_nth)
  then show ?thesis by (simp add: length_filter_conv_card)
qed

lemma distinct_active:
  assumes "gw_inv g"
  shows "distinct (map iid (filter active (idens g)))"
proof -
  let ?f = "\<lambda>i. idens g ! i"
  have "filter active (idens g) = map ?f (filter (\<lambda>i. active (idens g ! i)) [0..<length (idens g)])"
    by (subst map_nth [of "idens g", symmetric], subst filter_map) (simp add: comp_def)
  moreover have "inj_on (\<lambda>i. iid (idens g ! i)) (set (filter (\<lambda>i. active (idens g ! i)) [0..<length (idens g)]))"
    using assms by (auto simp: inj_on_def gw_inv_def ids_ok_def faces_nth)
  ultimately show ?thesis by (simp add: comp_def distinct_map)
qed

section \<open>A sample node\<close>

definition idle_inbound :: inbound where
  "idle_inbound = \<lparr>slots = (\<lambda>_. \<lparr>rx_hash = [], rx_ready = False, rx_cost = 0, rx_enforce = False, seen = [], rx_listens = False, rx_reports = False\<rparr>),
     registry = Map.empty, parked_q = [], rx_clk = boot_clock, pow = fresh_worker\<rparr>"

definition idle_outbox :: outbox where
  "idle_outbox = \<lparr>pend = [], direct = [], files = (\<lambda>_. None), link_reuses = 0, link_opens = 0\<rparr>"

text \<open>Power on: the disk is as it was, memory is empty.\<close>

definition power_on :: "(iden_id, iden_dir) omap \<Rightarrow> file_system \<Rightarrow> file_system \<Rightarrow> gateway" where
  "power_on ds sd fl = boot_gateway ds sd fl idle_inbound idle_outbox empty_staging"

definition sample_gw :: "u8 \<Rightarrow> gw_env" where
  "sample_gw k = \<lparr>gw = sample_world, inw = sample_rx, inb = sample_box, outb = sample_box, default_policy = no_retention,
     key_id = (\<lambda>k. k), key_dest = (\<lambda>k. k), fresh_key = replicate 16 k, key_saved = True, fresh_salt = [1, 2], derive = (\<lambda>p s. p @ s),
     fresh_ratchet = (replicate 32 k, replicate 32 k), ratchet_file = Some, sd_here = False, sd_ok = (\<lambda>_. True), fl_ok = (\<lambda>_. True),
     rd_ok = (\<lambda>_. True), ram_ok = (\<lambda>_. True), sidecar_job = (\<lambda>_. 0), job_poll = (\<lambda>_. 1), app_data = (\<lambda>_. []), owner = (\<lambda>_. 0),
     feed_from = (\<lambda>_ _. False), has_location = (\<lambda>_. False), gpx_size = (\<lambda>_. 0), gpx_name = (\<lambda>_. []), pow_free = True\<rparr>"

definition first_id :: iden_id where "first_id = replicate 16 CHR 0x41"
definition second_id :: iden_id where "second_id = replicate 16 CHR 0x42"

definition fresh_node :: gateway where
  "fresh_node = fst (gw_setup (sample_gw 0x41) (power_on [] (\<lambda>_. None) (\<lambda>_. None)))"

lemma face_ids: "take 16 (hexs (sample_gw k) (key_id (sample_gw j) (fresh_key (sample_gw j)))) = replicate 16 (char_of (unat j))"
  by (simp add: sample_gw_def hexs_def sample_box_def)

lemma sample_same: "hexs (sample_gw j) = hexs (sample_gw k)"
  by (simp add: sample_gw_def hexs_def)

lemma fresh_faces: "faces fresh_node = replicate LXMF_GATEWAY_MAX_IDENTITIES blank_iden" "dirs fresh_node = []" "is_setup fresh_node"
proof -
  have d: "dirs (power_on [] (\<lambda>_. None) (\<lambda>_. None)) = []" "\<not> is_setup (power_on [] (\<lambda>_. None) (\<lambda>_. None))"
    by (simp_all add: power_on_def boot_gateway_def)
  have s: "single_screen E js None (power_on [] (\<lambda>_. None) (\<lambda>_. None)) = (power_on [] (\<lambda>_. None) (\<lambda>_. None), None)"
    if "\<forall>j \<in> set js. j < LXMF_GATEWAY_MAX_IDENTITIES" for E js
    using that by (induction js) (simp_all add: power_on_def boot_gateway_def)
  have f: "fresh_node = (power_on [] (\<lambda>_. None) (\<lambda>_. None))\<lparr>is_setup := True\<rparr>"
    using s [of "slot_list (power_on [] (\<lambda>_. None) (\<lambda>_. None))" "sample_gw 0x41"] d
    by (simp add: fresh_node_def gw_setup_def load_existing_identities_def mkeys_def) (simp add: slot_list_def power_on_def boot_gateway_def)
  show "faces fresh_node = replicate LXMF_GATEWAY_MAX_IDENTITIES blank_iden" "dirs fresh_node = []" "is_setup fresh_node"
    by (simp_all add: f power_on_def boot_gateway_def faces_def map_replicate)
qed

lemma fresh_papers: "paper fresh_node x = (None, None)"
  by (simp add: paper_def dir_of_def fresh_faces mfind_def empty_dir_def)

lemma fresh_inv: "gw_inv fresh_node \<and> disk_ok E fresh_node"
  by (auto simp: gw_inv_def disk_ok_def ids_ok_def screen_ok_def fresh_faces fresh_papers mkeys_def)

lemma fresh_careful: "careful (sample_gw k) fresh_node (sample_gw j, Create n pw)"
  by (auto simp: careful_def sample_same fresh_faces fresh_papers) (auto simp: sample_gw_def)

section \<open>Properties\<close>

text \<open>C8. The screen is private to one identity: whatever the disk holds, after setup and any run that does not
  delete the holder itself at most one active identity is the screen's, and no two active identities
  have the same id.\<close>

theorem screen_unique:
  assumes "distinct (mkeys ds)" "\<not> has_key ds ''''" "g0 = fst (gw_setup E0 (boot_gateway ds sd fl r l st))"
    "run_ok (careful E) gw_step es g0" "g = fst (run gw_step es g0)"
  shows "length (filter (\<lambda>a. active a \<and> screen (conf a)) (idens g)) \<le> 1 \<and> distinct (map iid (filter active (idens g)))"
proof -
  have "gw_inv g0" unfolding assms(3) by (rule setup_inv [OF assms(1,2)])
  then have "gw_inv g" using run_keeps assms(4,5) by blast
  then show ?thesis using one_holder distinct_active by blast
qed

definition sample_life :: "(gw_env \<times> gw_event) list" where
  "sample_life = [(sample_gw 0x41, Create [0x61] [0x70]), (sample_gw 0x41, SetScreen first_id True), (sample_gw 0x41, SetInterval first_id 60000)]"

lemma sample_life_careful: "run_ok (careful (sample_gw 0x41)) gw_step sample_life fresh_node"
  using fresh_careful [where k = "0x41" and j = "0x41"] by (simp add: sample_life_def) (simp add: careful_def)

theorem screen_unique_witness:
  "length (filter (\<lambda>a. active a \<and> screen (conf a)) (idens (fst (run gw_step sample_life fresh_node)))) \<le> 1
    \<and> distinct (map iid (filter active (idens (fst (run gw_step sample_life fresh_node)))))"
  by (rule screen_unique [OF _ _ _ sample_life_careful refl, of "[]" "sample_gw 0x41" "\<lambda>_. None" "\<lambda>_. None" idle_inbound idle_outbox empty_staging])
    (simp_all add: mkeys_def has_key_def mfind_def fresh_node_def power_on_def)

definition first_face :: iden where
  "first_face = (filled (sample_gw 0x41) [0x61] [0x70] blank_iden)\<lparr>active := True\<rparr>"

lemma fresh_slot: "first_free_slot fresh_node = Some 0"
  by (simp add: free_slot_faces fresh_faces LXMF_GATEWAY_MAX_IDENTITIES_def numeral_eq_Suc)

lemma first_created:
  "faces (fst (create_identity (sample_gw 0x41) [0x61] [0x70] fresh_node)) = first_face # replicate 3 blank_iden"
proof -
  have n: "hexs (sample_gw 0x41) (key_id (sample_gw 0x41) (fresh_key (sample_gw 0x41))) \<noteq> ''''" "key_saved (sample_gw 0x41)"
    by (simp_all add: sample_gw_def hexs_def sample_box_def)
  show ?thesis
    by (subst create_core(1) [OF fresh_faces(3) fresh_slot n refl refl])
      (simp add: fresh_faces first_face_def LXMF_GATEWAY_MAX_IDENTITIES_def numeral_eq_Suc)
qed

lemma first_storable: "storable (sample_gw 0x41) first_face"
  by (simp add: storable_def first_face_def filled_def blank_iden_def default_settings_def LXMF_DEFAULT_ANNOUNCE_INTERVAL_MS_def)
    (simp add: sample_gw_def hexs_def sample_box_def)


section \<open>What a deleted identity leaves in its slot\<close>

lemma first_index_eq: "i < length xs \<Longrightarrow> P (xs ! i) \<Longrightarrow> \<forall>j < i. \<not> P (xs ! j) \<Longrightarrow> first_index P xs = Some i"
proof (induction xs arbitrary: i)
  case (Cons x xs)
  show ?case
  proof (cases i)
    case (Suc k)
    then have "\<not> P x" "\<forall>j < k. \<not> P (xs ! j)" using Cons.prems by force+
    then show ?thesis using Cons Suc by simp
  qed (use Cons in simp)
qed simp

lemma identity_unique:
  assumes "ids_ok (faces g)" "k < length (faces g)" "active (faces g ! k)" "iid (faces g ! k) = y"
  shows "identity_by_id y g = Some k"
proof -
  have "first_index (\<lambda>a. active a \<and> iid a = y) (idens g) = Some k"
  proof (intro first_index_eq allI impI notI)
    fix j assume "j < k" "active (idens g ! j) \<and> iid (idens g ! j) = y"
    then have "j = k" using assms by (simp add: ids_ok_def faces_nth)
    then show False using \<open>j < k\<close> by simp
  qed (use assms in \<open>simp_all add: faces_nth\<close>)
  then show ?thesis using assms by (auto simp: identity_by_id_def ids_ok_def)
qed

lemma screen_free:
  assumes "\<forall>j < length (faces g). \<not> holds_screen g j"
  shows "screen_identity g = None"
  using assms by (auto simp: screen_identity_def first_index_None in_set_conv_nth holds_screen_def faces_nth)

lemma screen_on_faces:
  assumes "identity_by_id y g = Some k" "screen_identity g = None"
  shows "faces (fst (set_screen_identity E y True g)) = (faces g)[k := (faces g ! k)\<lparr>conf := (conf (faces g ! k))\<lparr>screen := True\<rparr>\<rparr>]"
    "is_setup (fst (set_screen_identity E y True g)) = is_setup g"
  using identity_found [OF assms(1)] assms
  by (simp_all add: set_screen_identity_def write_meta_def on_conf_def faces_slot faces_nth face_conf)

text \<open>A slot keeps the settings of the identity deleted from it: after deleting the holder of the screen another
  identity may take the screen, and the next identity created in the slot shows on it as well, without
  ever having been enabled. It also starts with the deleted identity's stamp policy and announce interval.\<close>

theorem screen_inherited:
  assumes "gw_inv g" "is_setup g" "identity_by_id x g = Some i" "screen (conf (idens g ! i))" "\<forall>j < i. active (idens g ! j)"
    "identity_by_id y g = Some k" "k \<noteq> i" "hexs F (key_id F (fresh_key F)) \<noteq> ''''" "key_saved F"
  shows "\<exists>g'. fst (run gw_step [(E, Delete x), (E, SetScreen y True), (F, Create n pw)] g) = g'
    \<and> active (idens g' ! i) \<and> iid (idens g' ! i) = take 16 (hexs F (key_id F (fresh_key F))) \<and> conf (idens g' ! i) = conf (idens g ! i)
    \<and> active (idens g' ! k) \<and> iid (idens g' ! k) = y \<and> screen (conf (idens g' ! k))"
proof -
  define g1 where "g1 = fst (delete_identity E x g)"
  define g2 where "g2 = fst (set_screen_identity E y True g1)"
  define g3 where "g3 = fst (create_identity F n pw g2)"
  note i = identity_found [OF assms(3)] and k = identity_found [OF assms(6)]
  have f1: "faces g1 = (faces g)[i := vacated (faces g ! i)]" and s1: "is_setup g1"
    using delete_core(1,4) [OF assms(3), of E] assms(2) by (simp_all add: g1_def)
  have len: "length (faces g) = length (idens g)" by simp
  have v: "\<not> active (vacated a)" "conf (vacated a) = conf a" for a by (simp_all add: vacated_def)
  have n1: "faces g1 ! j = faces g ! j" if "j \<noteq> i" for j using that by (simp add: f1)
  have "ids_ok (faces g1)" unfolding f1 using assms(1) i v by (intro ids_update) (simp_all add: gw_inv_def)
  then have y: "identity_by_id y g1 = Some k" using k assms(7) by (intro identity_unique) (simp_all add: f1 faces_nth)
  have "\<not> holds_screen g1 j" if j: "j < length (faces g1)" for j
  proof (cases "j = i")
    case False
    then show ?thesis using assms(1,4) i j n1 [OF False] by (auto simp: f1 gw_inv_def screen_ok_def holds_screen_def faces_nth)
  qed (use i in \<open>simp add: holds_screen_def f1 v\<close>)
  then have "screen_identity g1 = None" by (intro screen_free) blast
  note t = screen_on_faces [OF y this, of E, folded g2_def]
  have f2: "faces g2 ! i = vacated (faces g ! i)" "length (faces g2) = length (idens g)" "faces g2 ! j = faces g1 ! j \<or> j = k" for j
    using i assms(7) by (simp_all add: t f1) (metis nth_list_update_neq)
  have a2: "faces g2 ! k = (faces g ! k)\<lparr>conf := (conf (faces g ! k))\<lparr>screen := True\<rparr>\<rparr>"
    using k assms(7) by (simp add: t(1) f1)
  have "active (faces g2 ! j)" if j: "j < i" for j
  proof (cases "j = k")
    case True
    then show ?thesis using k by (simp add: a2 faces_nth)
  next
    case False
    then have "faces g2 ! j = faces g ! j" using f2(3) [of j] n1 [of j] j by simp
    then show ?thesis using assms(5) j i by (simp add: faces_nth)
  qed
  then have fr: "first_free_slot g2 = Some i" unfolding free_slot_faces using i f2 v by (intro first_index_eq) simp_all
  have f3: "faces g3 = (faces g2)[i := (filled F n pw (faces g2 ! i))\<lparr>active := True\<rparr>]"
    using create_core(1) [OF _ fr assms(8,9) refl refl] s1 t(2) by (simp add: g3_def)
  have l3: "length (idens g3) = length (idens g)" using f3 f2(2) by (metis faces_length length_list_update)
  have "faces g3 ! i = (filled F n pw (vacated (faces g ! i)))\<lparr>active := True\<rparr>" "faces g3 ! k = faces g2 ! k"
    using i k assms(7) f2(1,2) by (simp_all add: f3)
  then have e: "face (idens g3 ! i) = (filled F n pw (vacated (faces g ! i)))\<lparr>active := True\<rparr>" "face (idens g3 ! k) = faces g2 ! k"
    using i k l3 by (simp_all add: faces_nth)
  have "active (idens g3 ! i)" "iid (idens g3 ! i) = take 16 (hexs F (key_id F (fresh_key F)))" "conf (idens g3 ! i) = conf (idens g ! i)"
    using i arg_cong [OF e(1), of active] arg_cong [OF e(1), of iid] arg_cong [OF e(1), of conf] by (simp_all add: filled_def v faces_nth)
  moreover have "active (idens g3 ! k)" "iid (idens g3 ! k) = y" "screen (conf (idens g3 ! k))"
    using k arg_cong [OF e(2), of active] arg_cong [OF e(2), of iid] arg_cong [OF e(2), of "\<lambda>a. screen (conf a)"] by (simp_all add: a2 faces_nth)
  moreover have "fst (run gw_step [(E, Delete x), (E, SetScreen y True), (F, Create n pw)] g) = g3"
    by (simp add: g3_def g2_def g1_def split_beta)
  ultimately show ?thesis by blast
qed
definition holder :: iden where
  "holder = blank_iden\<lparr>iid := first_id, rkey := replicate 16 0x41, active := True, conf := default_settings\<lparr>screen := True, pol_cost := 12\<rparr>,
     ratchets := [sample_ratchet]\<rparr>"

definition other :: iden where
  "other = blank_iden\<lparr>iid := second_id, rkey := replicate 16 0x42, active := True\<rparr>"

definition two_node :: gateway where
  "two_node = fresh_node\<lparr>idens := [holder, other, blank_iden, blank_iden]\<rparr>"

lemma two_faces: "faces two_node = [face holder, face other, blank_iden, blank_iden]" "is_setup two_node"
  "idens two_node = [holder, other, blank_iden, blank_iden]"
  using fresh_faces by (simp_all add: two_node_def faces_def)

lemma sample_iden_ids: "first_id \<noteq> ''''" "second_id \<noteq> ''''" "first_id \<noteq> second_id"
  by (simp_all add: first_id_def second_id_def numeral_eq_Suc)

lemma two_inv: "gw_inv two_node"
  using sample_iden_ids
  by (auto simp: gw_inv_def ids_ok_def screen_ok_def two_faces LXMF_GATEWAY_MAX_IDENTITIES_def numeral_eq_Suc less_Suc_eq holder_def other_def
      blank_iden_def default_settings_def)

lemma two_found: "identity_by_id first_id two_node = Some 0" "identity_by_id second_id two_node = Some 1"
  using sample_iden_ids by (simp_all add: identity_by_id_def two_faces holder_def other_def)

theorem screen_inherited_witness:
  "\<exists>g'. fst (run gw_step [(sample_gw 1, Delete first_id), (sample_gw 1, SetScreen second_id True), (sample_gw 0x43, Create [0x61] [0x70])] two_node) = g'
    \<and> active (idens g' ! 0) \<and> iid (idens g' ! 0) = take 16 (hexs (sample_gw 0x43) (key_id (sample_gw 0x43) (fresh_key (sample_gw 0x43))))
    \<and> conf (idens g' ! 0) = conf (idens two_node ! 0)
    \<and> active (idens g' ! 1) \<and> iid (idens g' ! 1) = second_id \<and> screen (conf (idens g' ! 1))"
  by (rule screen_inherited [OF two_inv two_faces(2) two_found(1) _ _ two_found(2)])
    (simp_all add: two_faces holder_def, simp_all add: sample_gw_def hexs_def sample_box_def)

text \<open>The ratchet rings of the slots.\<close>

definition rings :: "gateway \<Rightarrow> ratchet list list" where "rings g = map ratchets (idens g)"

lemma rings_fields [simp]:
  "rings (g\<lparr>st_queue := a\<rparr>) = rings g" "rings (g\<lparr>sd_fs := c\<rparr>) = rings g" "rings (g\<lparr>fl_fs := d\<rparr>) = rings g" "rings (g\<lparr>rx := r\<rparr>) = rings g"
  "rings (g\<lparr>dirs := ds\<rparr>) = rings g"
  by (simp_all add: rings_def)

lemma rings_slot: "(\<And>a. ratchets (f a) = ratchets a) \<Longrightarrow> rings (on_slot i f g) = rings g"
  by (cases "i < length (idens g)") (simp_all add: rings_def on_slot_def map_update list_update_beyond, metis list_update_id nth_map)

lemma rings_foldl: "(\<And>g x. rings (f g x) = rings g) \<Longrightarrow> rings (foldl f g xs) = rings g"
  by (induction xs arbitrary: g) auto

lemma rings_files [simp]: "rings (remove_file E sd p g) = rings g" "rings (remove_attachments E x as g) = rings g"
  "rings (remove_pending_stamp_sidecar E p g) = rings g" "rings (on_dir x f g) = rings g"
  by (simp_all add: remove_file_def remove_attachments_def remove_attachment_def remove_pending_stamp_sidecar_def rings_foldl on_dir_def)

lemma rings_abort [simp]: "rings (fst (abort_stamp E f g)) = rings g"
  by (simp add: abort_stamp_def cancel_job_def split_beta)

lemma rings_removed [simp]: "rings (fst (record_removed E i r g)) = rings g"
  by (simp add: record_removed_def cancel_pending_stamp_def Let_def split_beta split: option.split)

lemma rings_removed_all [simp]: "rings (fst (removed_all E i rs g)) = rings g"
proof (induction rs arbitrary: g)
  case (Cons r rs)
  then show ?case by (cases r) (simp add: split_beta)
qed simp

lemma rings_on_box [simp]: "rings (fst (on_inbox E i f g)) = rings g" "rings (fst (on_outbox E i f g)) = rings g"
  by (simp_all add: on_inbox_def on_outbox_def split_beta rings_slot split: option.split)

lemma rings_resume: "rings (resume_all E i g) = rings g"
  by (simp add: resume_all_def rings_foldl resume_one_def mutate_outbox_def Let_def split_beta split: option.split)

lemma rings_activate [simp]: "rings (fst (activate E i g)) = rings g"
  by (simp add: activate_def prune_both_def start_instance_def Let_def split_beta rings_slot rings_resume)

lemma rings_delete [simp]: "rings (fst (delete_identity E x g)) = rings g"
proof -
  have "rings (fst (drop_stamps E x q g)) = rings g" for q g by (induction q arbitrary: g) (simp_all add: split_beta)
  moreover have "rings (unlink_box E x b g) = rings g" for b g by (simp add: unlink_box_def rings_foldl split: option.split)
  ultimately show ?thesis by (simp add: delete_identity_def Let_def split_beta rings_slot split: option.split)
qed

lemma rings_create [simp]: "rings (fst (create_identity E n pw g)) = rings g"
  by (simp add: create_identity_def write_meta_def Let_def split_beta rings_slot split: option.split)

text \<open>The ring of ratchet keys outlives its identity: the next identity created in the slot answers with the
  deleted identity's private ratchet keys, which its own announces never published.\<close>

theorem ratchets_inherited:
  assumes "gw_inv g" "is_setup g" "identity_by_id x g = Some i" "\<forall>j < i. active (idens g ! j)"
    "\<forall>j < i. key_id F (rkey (idens g ! j)) \<noteq> key_id F (fresh_key F)" "\<forall>j < i. key_id E (rkey (idens g ! j)) \<noteq> key_id E (rkey (idens g ! i))"
    "hexs F (key_id F (fresh_key F)) \<noteq> ''''" "key_saved F"
  shows "inbound_ratchet_privkey F (key_id F (fresh_key F)) n (fst (run gw_step [(E, Delete x), (F, Create nm pw)] g)) =
    inbound_ratchet_privkey E (key_id E (rkey (idens g ! i))) n g"
proof -
  define g1 where "g1 = fst (delete_identity E x g)"
  define g2 where "g2 = fst (create_identity F nm pw g1)"
  note i = identity_found [OF assms(3)]
  have f1: "faces g1 = (faces g)[i := vacated (faces g ! i)]" and s1: "is_setup g1"
    using delete_core(1,4) [OF assms(3), of E] assms(2) by (simp_all add: g1_def)
  have fr: "first_free_slot g1 = Some i" unfolding free_slot_faces
    using i assms(4) by (intro first_index_eq) (simp_all add: f1 vacated_def faces_nth)
  have f2: "faces g2 = (faces g1)[i := (filled F nm pw (faces g1 ! i))\<lparr>active := True\<rparr>]"
    using create_core(1) [OF s1 fr assms(7,8) refl refl] by (simp add: g2_def)
  have len: "length (idens g2) = length (idens g)" using f1 f2 by (metis faces_length length_list_update)
  have at: "active (idens g2 ! j) = active (faces g2 ! j)" "rkey (idens g2 ! j) = rkey (faces g2 ! j)" if "j < length (idens g)" for j
    using that len by (simp_all add: faces_nth)
  have "rings g2 = rings g" by (simp add: g2_def g1_def)
  then have r: "ratchets (idens g2 ! i) = ratchets (idens g ! i)" using i len by (metis nth_map rings_def)
  have "first_index (\<lambda>a. active a \<and> key_id F (rkey a) = key_id F (fresh_key F)) (idens g2) = Some i"
  proof (rule first_index_eq)
    show "\<forall>j < i. \<not> (active (idens g2 ! j) \<and> key_id F (rkey (idens g2 ! j)) = key_id F (fresh_key F))"
      using assms(5) i at by (auto simp: f2 f1 faces_nth)
  qed (use i at [of i] len in \<open>simp_all add: f2 f1 filled_def\<close>)
  moreover have "first_index (\<lambda>a. active a \<and> key_id E (rkey a) = key_id E (rkey (idens g ! i))) (idens g) = Some i"
    using i assms(6) by (intro first_index_eq) auto
  ultimately have "inbound_ratchet_privkey F (key_id F (fresh_key F)) n g2 = inbound_ratchet_privkey E (key_id E (rkey (idens g ! i))) n g"
    by (simp add: inbound_ratchet_privkey_def r)
  then show ?thesis by (simp add: g2_def g1_def split_beta)
qed

theorem ratchets_inherited_witness:
  "inbound_ratchet_privkey (sample_gw 0x43) (key_id (sample_gw 0x43) (fresh_key (sample_gw 0x43))) 0
      (fst (run gw_step [(sample_gw 1, Delete first_id), (sample_gw 0x43, Create [0x61] [0x70])] two_node)) =
    inbound_ratchet_privkey (sample_gw 1) (key_id (sample_gw 1) (rkey (idens two_node ! 0))) 0 two_node"
  by (rule ratchets_inherited [OF two_inv two_faces(2) two_found(1)]) (simp_all add: sample_gw_def hexs_def sample_box_def)

section \<open>The announce timer\<close>

text \<open>A created or loaded identity announces itself when its interval has passed since power on, not on the first
  pass of the loop: within the first five minutes of uptime the default interval gives no announce.\<close>

theorem first_announce_delayed:
  assumes "is_setup g" "first_free_slot g = Some i" "hexs F (key_id F (fresh_key F)) \<noteq> ''''" "key_saved F" "ms G < 4294967296"
  shows "announce_due G (idens (fst (create_identity F n pw g)) ! i) =
    (announce_every (conf (idens g ! i)) \<noteq> 0 \<and> announce_every (conf (idens g ! i)) \<le> ms G)"
proof -
  have i: "i < length (idens g)" using first_index_Some [of "\<lambda>a. \<not> active a" "idens g" i] assms(2) by (simp add: first_free_slot_def)
  define g' where "g' = fst (create_identity F n pw g)"
  have f: "faces g' = (faces g)[i := (filled F n pw (faces g ! i))\<lparr>active := True\<rparr>]"
    using create_core(1) [OF assms(1-4) refl refl] by (simp add: g'_def)
  have l: "i < length (idens g')" using f i by (metis faces_length length_list_update)
  have "face (idens g' ! i) = (filled F n pw (faces g ! i))\<lparr>active := True\<rparr>" using i l f faces_nth [OF l] by simp
  then have "conf (face (idens g' ! i)) = conf (faces g ! i)" by (simp add: filled_def)
  then have c: "conf (idens g' ! i) = conf (idens g ! i)" using i by (simp add: faces_nth)
  have "last_announce (idens g' ! i) = 0"
  proof -
    obtain g0 where "g' = fst (activate F i g0)" using assms(1-4) by (simp add: g'_def create_identity_def Let_def split_beta)
    then obtain g1 where "g' = on_slot i (\<lambda>a. a\<lparr>last_announce := 0\<rparr>) g1" by (simp add: activate_def Let_def split_beta)
    then show ?thesis using l by (simp add: slot_nth)
  qed
  then show ?thesis using assms(5) by (auto simp: announce_due_def c g'_def [symmetric] sub32_def)
qed

theorem first_announce_delayed_witness:
  "announce_due (sample_gw 0x41) (idens (fst (create_identity (sample_gw 0x41) [0x61] [0x70] fresh_node)) ! 0) =
    (announce_every (conf (idens fresh_node ! 0)) \<noteq> 0 \<and> announce_every (conf (idens fresh_node ! 0)) \<le> ms (sample_gw 0x41))"
  by (rule first_announce_delayed [OF fresh_faces(3) fresh_slot])
    (simp_all add: sample_gw_def hexs_def sample_box_def ms_def sample_world_def calm_def)

end
