(* ===== verification/GatewayWire.thy ===== *)
theory GatewayWire
  imports GatewayInv
begin

text \<open>
  The dispatch of received packets through the gateway: in every run the registry of destinations
  and the active identities agree, so a message reaches the mailbox of its addressee only; and
  what an identity announces.
\<close>

section \<open>The registry and the identities\<close>

text \<open>The registry maps exactly the destinations of the active identities to their slots.\<close>

definition wired :: "gw_env \<Rightarrow> gateway \<Rightarrow> bool" where
  "wired E g \<longleftrightarrow>
     (\<forall>i < length (faces g). active (faces g ! i) \<longrightarrow>
        snd (wiring (rx g)) i = (key_dest E (rkey (faces g ! i)), True) \<and> fst (wiring (rx g)) (key_dest E (rkey (faces g ! i))) = Some i)
   \<and> (\<forall>d i. fst (wiring (rx g)) d = Some i \<longrightarrow> i < length (faces g) \<and> active (faces g ! i) \<and> key_dest E (rkey (faces g ! i)) = d)"

lemma wired_core: "core g' = core g \<Longrightarrow> wired E g' = wired E g"
  by (simp add: core_faces wired_def)

lemma wired_frame:
  assumes "wired E g" "length (faces g') = length (faces g)" "wiring (rx g') = wiring (rx g)"
    "\<forall>i < length (faces g). active (faces g' ! i) = active (faces g ! i) \<and> (active (faces g ! i) \<longrightarrow> rkey (faces g' ! i) = rkey (faces g ! i))"
  shows "wired E g'"
proof -
  have e: "active (faces g' ! i) = active (faces g ! i)" "active (faces g ! i) \<Longrightarrow> rkey (faces g' ! i) = rkey (faces g ! i)" if "i < length (faces g)" for i
    using assms(4) that by simp_all
  show ?thesis unfolding wired_def assms(2,3)
  proof (intro conjI allI impI)
    fix d i assume "fst (wiring (rx g)) d = Some i"
    then have "i < length (faces g)" "active (faces g ! i)" "key_dest E (rkey (faces g ! i)) = d" using assms(1) unfolding wired_def by blast+
    then show "i < length (faces g)" "active (faces g' ! i)" "key_dest E (rkey (faces g' ! i)) = d" by (simp_all add: e del: faces_length)
  qed (use assms(1) e in \<open>simp_all add: wired_def del: faces_length\<close>)
qed

lemma wired_start:
  assumes "wired E g" "i < length (faces g)" "\<not> active (faces g ! i)" "active a" "faces g' = (faces g)[i := a]"
    "wiring (rx g') = start_wiring i (key_dest E (rkey a)) (wiring (rx g))"
    "\<forall>b \<in> set (faces g). active b \<longrightarrow> key_dest E (rkey b) \<noteq> key_dest E (rkey a)"
  shows "wired E g'"
  unfolding wired_def
proof (intro conjI allI impI)
  fix j assume j: "j < length (faces g')" "active (faces g' ! j)"
  have "snd (wiring (rx g')) j = (key_dest E (rkey (faces g' ! j)), True) \<and> fst (wiring (rx g')) (key_dest E (rkey (faces g' ! j))) = Some j"
  proof (cases "j = i")
    case True
    then show ?thesis using assms(2) by (simp add: assms(5,6) start_wiring_def)
  next
    case False
    then have b: "j < length (faces g)" "active (faces g ! j)" "faces g' ! j = faces g ! j" using j assms(2) by (simp_all add: assms(5))
    then have "key_dest E (rkey (faces g ! j)) \<noteq> key_dest E (rkey a)" using assms(7) by simp
    then show ?thesis using assms(1) b False by (simp add: wired_def assms(6) start_wiring_def)
  qed
  then show "snd (wiring (rx g')) j = (key_dest E (rkey (faces g' ! j)), True)" "fst (wiring (rx g')) (key_dest E (rkey (faces g' ! j))) = Some j"
    by simp_all
next
  fix d j assume d: "fst (wiring (rx g')) d = Some j"
  have "j < length (faces g') \<and> active (faces g' ! j) \<and> key_dest E (rkey (faces g' ! j)) = d"
  proof (cases "d = key_dest E (rkey a)")
    case True
    then have "j = i" using d by (simp add: assms(6) start_wiring_def)
    then show ?thesis using assms(2,4) True by (simp add: assms(5))
  next
    case False
    then have "fst (wiring (rx g)) d = Some j" using d by (simp add: assms(6) start_wiring_def)
    then have "j < length (faces g)" "active (faces g ! j)" "key_dest E (rkey (faces g ! j)) = d" using assms(1) unfolding wired_def by blast+
    moreover from this have "j \<noteq> i" using assms(3) by auto
    ultimately show ?thesis by (simp add: assms(5))
  qed
  then show "j < length (faces g')" "active (faces g' ! j)" "key_dest E (rkey (faces g' ! j)) = d" by simp_all
qed

lemma wired_stop:
  assumes "wired E g" "i < length (faces g)" "active (faces g ! i)" "\<not> active a" "faces g' = (faces g)[i := a]"
    "wiring (rx g') = wiring (shutdown i (rx g))"
  shows "wired E g'"
proof -
  define d where "d = key_dest E (rkey (faces g ! i))"
  have w: "rx_ready (slots (rx g) i)" "rx_hash (slots (rx g) i) = d" using assms(1-3) by (auto simp: wired_def wiring_def d_def)
  have g': "fst (wiring (rx g')) = (fst (wiring (rx g)))(d := None)" "j \<noteq> i \<Longrightarrow> snd (wiring (rx g')) j = snd (wiring (rx g)) j" for j
    unfolding assms(6) using w by (simp_all add: shutdown_def wiring_def)
  have di: "fst (wiring (rx g)) d = Some i" using assms(1-3) by (auto simp: wired_def d_def)
  show ?thesis unfolding wired_def
  proof (intro conjI allI impI)
    fix j assume j: "j < length (faces g')" "active (faces g' ! j)"
    then have ne: "j \<noteq> i" using assms(2,4) by (auto simp: assms(5))
    then have n: "j \<noteq> i" "j < length (faces g)" "faces g' ! j = faces g ! j" using j by (simp_all add: assms(5))
    then have o: "snd (wiring (rx g)) j = (key_dest E (rkey (faces g ! j)), True)" "fst (wiring (rx g)) (key_dest E (rkey (faces g ! j))) = Some j"
      using assms(1) j by (simp_all add: wired_def)
    then show "snd (wiring (rx g')) j = (key_dest E (rkey (faces g' ! j)), True)" using n by (simp add: g')
    show "fst (wiring (rx g')) (key_dest E (rkey (faces g' ! j))) = Some j" using n o(2) di by (auto simp: g')
  next
    fix d' j assume "fst (wiring (rx g')) d' = Some j"
    then have "d' \<noteq> d" "fst (wiring (rx g)) d' = Some j" by (auto simp: g' split: if_splits)
    then have "j < length (faces g)" "active (faces g ! j)" "key_dest E (rkey (faces g ! j)) = d'" using assms(1) unfolding wired_def by blast+
    moreover from this have "j \<noteq> i" using \<open>d' \<noteq> d\<close> by (auto simp: d_def)
    ultimately show "j < length (faces g')" "active (faces g' ! j)" "key_dest E (rkey (faces g' ! j)) = d'" by (simp_all add: assms(5))
  qed
qed

text \<open>Operations that keep the keys, the activity and the wiring.\<close>

definition same_wires :: "gateway \<Rightarrow> gateway \<Rightarrow> bool" where
  "same_wires g g' \<longleftrightarrow> length (faces g') = length (faces g) \<and> wiring (rx g') = wiring (rx g)
     \<and> (\<forall>i < length (faces g). active (faces g' ! i) = active (faces g ! i) \<and> (active (faces g ! i) \<longrightarrow> rkey (faces g' ! i) = rkey (faces g ! i)))"

lemma wired_same: "same_wires g g' \<Longrightarrow> wired E g \<Longrightarrow> wired E g'"
  by (rule wired_frame) (auto simp: same_wires_def)

lemma same_refl [simp]: "same_wires g g"
  by (simp add: same_wires_def)

lemma same_core_only: "core g1 = core g \<Longrightarrow> same_wires g g1"
  by (simp add: same_wires_def core_faces)

lemma same_core: "core g1 = core g \<Longrightarrow> same_wires g (on_dir x f g1)"
  by (simp add: same_wires_def core_faces)

lemma wiring_policy [simp]: "wiring (set_policy i c on r) = wiring r"
  by (simp add: wiring_def set_policy_def fun_eq_iff)

lemma same_slot:
  assumes "\<And>a. active (h a) = active a \<and> rkey (h a) = rkey a" "wiring r = wiring (rx g)"
  shows "same_wires g (write_meta F i (on_slot i h (g\<lparr>rx := r\<rparr>)))"
proof (cases "i < length (idens g)")
  case True
  then have "faces (on_slot i h (g\<lparr>rx := r\<rparr>)) = (faces g)[i := face (h (idens g ! i))]" by (simp add: faces_slot) (simp add: faces_def)
  then show ?thesis using True assms by (auto simp: same_wires_def write_meta_def faces_nth nth_list_update)
next
  case False
  then have "faces (on_slot i h (g\<lparr>rx := r\<rparr>)) = faces g" by (simp add: faces_def on_slot_def list_update_beyond)
  then show ?thesis using assms by (simp add: same_wires_def write_meta_def)
qed

lemma same_change:
  assumes "\<And>i g. f i g = on_slot i h (g\<lparr>rx := q i g\<rparr>)" "\<And>a. active (h a) = active a \<and> rkey (h a) = rkey a"
    "\<And>i g. wiring (q i g) = wiring (rx g)"
  shows "same_wires g (fst (change F x f g))"
  using same_slot [OF assms(2,3)] by (simp add: change_def assms(1) split: option.split)

lemma same_setters:
  assumes "e \<in> {SetInterval x n, SetKeepSent x on, SetCost x k, SetEnforce x on, SetTelemetry x l en b c sh rt, SetName x nm}"
  shows "same_wires g (fst (gw_step g (F, e)))"
proof -
  have plain: "on_slot i h g' = on_slot i h (g'\<lparr>rx := rx g'\<rparr>)" for i h g' by simp
  from assms consider "e = SetInterval x n" | "e = SetKeepSent x on" | "e = SetCost x k" | "e = SetEnforce x on"
    | "e = SetTelemetry x l en b c sh rt" | "e = SetName x nm" by blast
  then show ?thesis
  proof cases
    case 3 show ?thesis unfolding 3 gw_step.simps fst_conv set_gw_stamp_cost_def on_conf_def by (rule same_change [OF refl]) simp_all
  next
    case 4 show ?thesis unfolding 4 gw_step.simps fst_conv set_enforce_stamps_def on_conf_def by (rule same_change [OF refl]) simp_all
  qed (simp only: gw_step.simps fst_conv setter_defs, rule same_change, rule plain, simp, simp)+
qed

lemma same_screen: "same_wires g (fst (set_screen_identity F x on g))"
  using same_slot [of "\<lambda>a. a\<lparr>conf := (conf a)\<lparr>screen := on\<rparr>\<rparr>" "rx g" g F]
  by (simp add: set_screen_identity_def on_conf_def split: option.split)

lemma same_retention: "same_wires g (fst (set_conversation_retention E x p r g))"
  unfolding set_conversation_retention_def Let_def split_beta persist_conversation_config_def
  by (auto split: option.split intro: same_core)

lemma same_rotate: "same_wires g (fst (rotate_outbound_ratchet E d g))"
proof -
  have "same_wires g (on_slot i (\<lambda>a. a\<lparr>ratchets := es\<rparr>) g)" for i es
    by (rule same_core_only) simp
  moreover have "same_wires g (on_dir x f (on_slot i (\<lambda>a. a\<lparr>ratchets := es\<rparr>) g))" for i es x f by (rule same_core) simp
  ultimately show ?thesis by (simp add: rotate_outbound_ratchet_def Let_def split: option.split)
qed

lemma delete_wired:
  assumes "wired E g"
  shows "wired E (fst (delete_identity F x g))"
proof (cases "identity_by_id x g")
  case None
  then show ?thesis using assms by (simp add: delete_identity_def)
next
  case (Some i)
  note i = identity_found [OF Some]
  define g2 where "g2 = unlink_box F x (obox (idens g ! i)) (unlink_box F x (ibox (idens g ! i)) (g\<lparr>rx := shutdown i (rx g)\<rparr>))"
  define g3 where "g3 = fst (drop_stamps F x (st_queue g2) g2)"
  have "core g3 = core (g\<lparr>rx := shutdown i (rx g)\<rparr>)" by (simp add: g3_def g2_def)
  then have "wiring (rx g3) = wiring (shutdown i (rx g))" by (simp add: core_faces)
  moreover have "rx (fst (delete_identity F x g)) = rx g3"
    by (simp add: delete_identity_def Some Let_def split_beta g2_def g3_def)
  ultimately show ?thesis
    using i by (intro wired_stop [OF assms _ _ _ delete_core(1) [OF Some]]) (simp_all add: faces_nth vacated_def)
qed

lemma create_wiring:
  assumes "is_setup g" "first_free_slot g = Some i" "hexs F (key_id F (fresh_key F)) \<noteq> ''''" "key_saved F"
  shows "wiring (rx (fst (create_identity F n pw g))) = start_wiring i (key_dest F (fresh_key F)) (wiring (rx g))"
proof -
  have i: "i < length (idens g)" using first_index_Some [of "\<lambda>a. \<not> active a" "idens g" i] assms(2) by (simp add: first_free_slot_def)
  define x where "x = take 16 (hexs F (key_id F (fresh_key F)))"
  define g2 where "g2 = write_meta F i (on_dir x (\<lambda>d. d\<lparr>d_key := Some (fresh_key F)\<rparr>) (on_dir x (\<lambda>d. d) (on_slot i (filled F n pw) g)))"
  have e: "fst (create_identity F n pw g) = fst (activate F i g2)"
    using assms by (simp add: create_identity_def Let_def split_beta g2_def x_def filled_abs)
  have l: "i < length (idens g2)" "rkey (idens g2 ! i) = fresh_key F" "rx g2 = rx g"
    using i by (simp_all add: g2_def write_meta_def slot_nth filled_def)
  show ?thesis using activate_core(4) [OF l(1), of F] l(2,3) by (simp add: e)
qed

lemma create_wired:
  assumes "wired E g" "key_dest F = key_dest E" "\<forall>b \<in> set (faces g). active b \<longrightarrow> key_dest E (rkey b) \<noteq> key_dest E (fresh_key F)"
  shows "wired E (fst (create_identity F n pw g))"
proof (cases "\<not> is_setup g \<or> first_free_slot g = None \<or> hexs F (key_id F (fresh_key F)) = ''''")
  case True
  then show ?thesis using assms(1) by (auto simp: create_identity_def Let_def split: option.split)
next
  case False
  then obtain i where i: "first_free_slot g = Some i" by auto
  then have l: "i < length (faces g)" "\<not> active (faces g ! i)"
    using first_index_Some [of "\<lambda>a. \<not> active a" "idens g" i] by (simp_all add: first_free_slot_def faces_nth)
  show ?thesis
  proof (cases "key_saved F")
    case True
    have c: "is_setup g" "hexs F (key_id F (fresh_key F)) \<noteq> ''''" using False by simp_all
    note w = create_wiring [OF c(1) i c(2) True, of n pw]
    show ?thesis
      by (rule wired_start [OF assms(1) l _ create_core(1) [OF c(1) i c(2) True refl refl]])
        (use w assms(2,3) in \<open>simp_all add: filled_def\<close>)
  next
    case no: False
    define f where "f = (\<lambda>a. (filled F n pw a)\<lparr>active := False\<rparr>)"
    have e: "fst (create_identity F n pw g) = on_dir (take 16 (hexs F (key_id F (fresh_key F)))) (\<lambda>d. d) (on_slot i f g)"
      using False i no l by (simp add: create_identity_def Let_def filled_def f_def on_dir_def on_slot_def dir_of_def)
    show ?thesis
    proof (rule wired_same [OF _ assms(1)])
      show "same_wires g (fst (create_identity F n pw g))"
        using l by (auto simp: e same_wires_def faces_slot f_def nth_list_update)
    qed
  qed
qed

text \<open>Fresh keys get fresh destinations.\<close>

definition own_dest :: "gw_env \<Rightarrow> gateway \<Rightarrow> gw_env \<times> gw_event \<Rightarrow> bool" where
  "own_dest E g e \<longleftrightarrow> key_dest (fst e) = key_dest E \<and>
    (case snd e of Create n pw \<Rightarrow> (\<forall>b \<in> set (faces g). active b \<longrightarrow> key_dest E (rkey b) \<noteq> key_dest E (fresh_key (fst e))) | _ \<Rightarrow> True)"

lemma step_wired:
  assumes "wired E g" "own_dest E g e"
  shows "wired E (fst (gw_step g e))"
proof -
  obtain F ev where e: "e = (F, ev)" by (cases e)
  show ?thesis
  proof (cases "quiet_event ev")
    case True
    then show ?thesis using wired_core [OF core_quiet [OF True]] assms(1) by (simp add: e)
  next
    case False
    note s = wired_same [OF same_setters assms(1)]
    show ?thesis
    proof (cases ev)
      case (Create n pw)
      then show ?thesis using create_wired [OF assms(1)] assms(2) by (simp add: e own_dest_def split_beta)
    next
      case (Delete x)
      then show ?thesis using delete_wired [OF assms(1)] by (simp add: e split_beta)
    next
      case (SetScreen x on)
      then show ?thesis using wired_same [OF same_screen assms(1)] by (simp add: e split_beta)
    next
      case (SetRetention x p r)
      then show ?thesis using wired_same [OF same_retention assms(1)] by (simp add: e split_beta)
    next
      case (RotateRatchet d)
      then show ?thesis using wired_same [OF same_rotate assms(1)] by (simp add: e)
    qed (use False s in \<open>auto simp: e simp del: gw_step.simps\<close>)
  qed
qed

section \<open>Setup\<close>

definition key_of :: "(iden_id, iden_dir) omap \<Rightarrow> iden_id \<Rightarrow> rns_key" where
  "key_of ds x = (case mfind ds x of None \<Rightarrow> [] | Some d \<Rightarrow> the (d_key d))"

text \<open>No two keys on the disk have the same destination.\<close>

definition distinct_dests :: "gw_env \<Rightarrow> (iden_id, iden_dir) omap \<Rightarrow> bool" where
  "distinct_dests E ds \<longleftrightarrow> distinct (mkeys ds)
     \<and> (\<forall>x y. has_key ds x \<longrightarrow> has_key ds y \<longrightarrow> key_dest E (key_of ds x) = key_dest E (key_of ds y) \<longrightarrow> x = y)"

lemma load_wired:
  assumes "wired E g" "distinct xs" "\<forall>x y. has_key (dirs g) x \<longrightarrow> has_key (dirs g) y \<longrightarrow> key_dest E (key_of (dirs g) x) = key_dest E (key_of (dirs g) y) \<longrightarrow> x = y"
    "\<forall>b \<in> set (faces g). active b \<longrightarrow> (\<forall>x \<in> set xs. has_key (dirs g) x \<longrightarrow> key_dest E (rkey b) \<noteq> key_dest E (key_of (dirs g) x))"
  shows "wired E (fst (load_loop E xs n g))"
  using assms
proof (induction xs arbitrary: n g)
  case (Cons x xs)
  note IH = Cons.IH
  show ?case
  proof (cases "n \<ge> LXMF_GATEWAY_MAX_IDENTITIES \<or> first_free_slot g = None \<or> \<not> has_key (dirs g) x")
    case True
    then have "fst (load_loop E (x # xs) n g) \<in> {g, fst (load_loop E xs n g)}"
      by (auto simp: has_key_def dir_of_def empty_dir_def split: option.split)
    moreover have "wired E (fst (load_loop E xs n g))" by (rule IH) (use Cons.prems in auto)
    ultimately show ?thesis using Cons.prems(1) by auto
  next
    case False
    then obtain i d k where i: "first_free_slot g = Some i" and d: "mfind (dirs g) x = Some d" "d_key d = Some k" "k \<noteq> []"
      by (auto simp: has_key_def)
    have l: "i < length (faces g)" "\<not> active (faces g ! i)"
      using i first_index_Some [of "\<lambda>a. \<not> active a" "idens g" i] by (simp_all add: first_free_slot_def faces_nth)
    define h where "h = (\<lambda>a. (read_meta E (d_meta d) (a\<lparr>iid := x, rkey := k, label := default_label\<rparr>))\<lparr>ratchets := fst (load_ring (d_ratchet d))\<rparr>)"
    define g1 where "g1 = on_slot i h g"
    define g2 where "g2 = fst (activate E i g1)"
    have hh: "active (h a) = active a" "rkey (h a) = k" for a by (simp_all add: h_def read_meta_def split: option.split)
    have f1: "faces g1 = (faces g)[i := face (h (idens g ! i))]" using l by (simp add: g1_def faces_slot)
    have w1: "wired E g1"
      by (rule wired_same [OF _ Cons.prems(1)]) (use l hh in \<open>auto simp: same_wires_def faces_nth g1_def slot_nth\<close>)
    define a where "a = (face (idens g1 ! i))\<lparr>active := True\<rparr>"
    have ra: "rkey a = k" "rkey (idens g1 ! i) = k" using l by (simp_all add: a_def g1_def slot_nth hh)
    note act = activate_core [of i g1 E, folded g2_def a_def]
    have l1: "i < length (idens g1)" using l by (simp add: g1_def)
    have kd: "key_of (dirs g) x = k" using d by (simp add: key_of_def)
    have fresh: "\<forall>b \<in> set (faces g1). active b \<longrightarrow> key_dest E (rkey b) \<noteq> key_dest E (rkey a)"
    proof (intro ballI impI)
      fix b assume b: "b \<in> set (faces g1)" "active b"
      then have "b = face (h (idens g ! i)) \<or> b \<in> set (faces g)" unfolding f1 using set_update_subset_insert by fastforce
      then have "b \<in> set (faces g)" using b(2) l hh by (auto simp: faces_nth)
      then show "key_dest E (rkey b) \<noteq> key_dest E (rkey a)" using Cons.prems(4) False b(2) by (simp add: ra kd)
    qed
    have w2: "wired E g2"
      by (rule wired_start [OF w1 _ _ _ act(1) _ fresh]) (use l l1 act(4) ra hh in \<open>simp_all add: f1 a_def faces_nth\<close>)
    have d2: "dirs g2 = dirs g" using act(2) [OF l1] by (simp add: g1_def)
    have "fst (load_loop E (x # xs) n g) = fst (load_loop E xs (n + 1) g2)"
      using False i d by (simp add: dir_of_def g2_def g1_def h_def split_beta Let_def)
    moreover have "wired E (fst (load_loop E xs (n + 1) g2))"
    proof (rule IH [OF w2])
      show "\<forall>b \<in> set (faces g2). active b \<longrightarrow> (\<forall>y \<in> set xs. has_key (dirs g2) y \<longrightarrow> key_dest E (rkey b) \<noteq> key_dest E (key_of (dirs g2) y))"
      proof (intro ballI impI)
        fix b y assume b: "b \<in> set (faces g2)" "active b" "y \<in> set xs" "has_key (dirs g2) y"
        show "key_dest E (rkey b) \<noteq> key_dest E (key_of (dirs g2) y)"
        proof (cases "b = a")
          case True
          have "y \<noteq> x" using b(3) Cons.prems(2) by auto
          moreover have "has_key (dirs g) x" "has_key (dirs g) y" using False b(4) d2 by simp_all
          ultimately have "key_dest E (key_of (dirs g) x) \<noteq> key_dest E (key_of (dirs g) y)" using Cons.prems(3) by metis
          then show ?thesis by (simp add: True ra kd d2)
        next
          case no: False
          then have "b \<in> set (faces g1)" using b(1) act(1) [OF l1] set_update_cases [of b "faces g1" i a] l1 by auto
          then have "b = face (h (idens g ! i)) \<or> b \<in> set (faces g)" unfolding f1 using set_update_subset_insert by fastforce
          then have "b \<in> set (faces g)" using b(2) l hh by (auto simp: faces_nth)
          then show ?thesis using Cons.prems(4) b by (simp add: d2)
        qed
      qed
    qed (use Cons.prems d2 in auto)
    ultimately show ?thesis by simp
  qed
qed simp

lemma single_wired: "wired E g \<Longrightarrow> wired E (fst (single_screen F is h g))"
proof (induction "is" arbitrary: g h)
  case (Cons i js)
  have "wired E (write_meta F i (on_conf (\<lambda>c. c\<lparr>screen := False\<rparr>) i g))"
    using wired_same [OF same_slot [of "\<lambda>a. a\<lparr>conf := (conf a)\<lparr>screen := False\<rparr>\<rparr>" "rx g" g F i] Cons.prems] by (simp add: on_conf_def)
  then show ?case using Cons by auto
qed simp

lemma setup_wired:
  assumes "distinct_dests E ds"
  shows "wired E (fst (gw_setup E (power_on ds sd fl)))"
proof -
  define b where "b = power_on ds sd fl"
  have b: "dirs b = ds" "\<not> is_setup b" "\<forall>x \<in> set (faces b). x = blank_iden" "length (faces b) = LXMF_GATEWAY_MAX_IDENTITIES"
    "wiring (rx b) = (Map.empty, \<lambda>_. ([], False))"
    by (simp_all add: b_def power_on_def boot_gateway_def faces_def wiring_def idle_inbound_def)
  have "wired E b" using b(3,4) by (auto simp: wired_def b(5)) (metis blank_inactive(1) faces_length nth_mem)+
  moreover have "\<forall>a \<in> set (faces b). \<not> active a" using b(3) blank_inactive(1) by metis
  ultimately have "wired E (fst (load_loop E (mkeys ds) 0 b))"
    using assms by (intro load_wired) (auto simp: b distinct_dests_def)
  then have w: "wired E (fst (load_existing_identities E b))"
    by (simp add: load_existing_identities_def split_beta b(1) single_wired)
  have "wired E (g\<lparr>is_setup := True\<rparr>) = wired E g" for g by (simp add: wired_def faces_def)
  then show ?thesis using w b(2) by (simp add: b_def [symmetric] gw_setup_def split_beta)
qed

section \<open>Delivery to the addressee\<close>

interpretation dispatch: traced gw_step "\<lambda>_. True" "own_dest E" "\<lambda>g g' out. wired E g \<longrightarrow> wired E g'" for E
  by unfold_locales (use step_wired in auto)

lemma files_idens [simp]: "idens (remove_file E sd p g) = idens g" "idens (remove_attachments E x as g) = idens g"
  "idens (remove_pending_stamp_sidecar E p g) = idens g" "idens (fst (abort_stamp E f g)) = idens g"
proof -
  show f: "idens (remove_file E sd p g) = idens g" for sd p g by (simp add: remove_file_def)
  show "idens (remove_attachments E x as g) = idens g"
    unfolding remove_attachments_def by (induction as arbitrary: g) (simp_all add: remove_attachment_def f)
  show s: "idens (remove_pending_stamp_sidecar E p g) = idens g" for p g by (simp add: remove_pending_stamp_sidecar_def f)
  show "idens (fst (abort_stamp E f g)) = idens g" by (simp add: abort_stamp_def cancel_job_def split_beta s)
qed

lemma removed_idens [simp]: "idens (fst (removed_all E i rs g)) = idens g"
proof (induction rs arbitrary: g)
  case (Cons r rs)
  have "idens (fst (record_removed E i m g)) = idens g" for m
    by (simp add: record_removed_def cancel_pending_stamp_def Let_def split_beta split: option.split)
  then show ?case using Cons by (cases r) (simp add: split_beta)
qed simp

lemma delivery_elsewhere: "j \<noteq> i \<Longrightarrow> idens (fst (on_delivery E i r g)) ! j = idens g ! j"
  by (simp add: on_delivery_def Let_def split_beta on_slot_def split: option.split sum.split bool.split)

lemma handle_elsewhere: "\<forall>m. Received j m \<notin> set es \<Longrightarrow> idens (fst (handle_rx E es g)) ! j = idens g ! j"
proof (induction es arbitrary: g)
  case (Cons e es)
  have "idens (fst (case e of Received i r \<Rightarrow> on_delivery E i r g | _ \<Rightarrow> (g, [Rx e]))) ! j = idens g ! j"
    using Cons.prems by (cases e) (auto simp: delivery_elsewhere)
  then show ?case using Cons by (simp add: split_beta)
qed simp

lemma complete_receives: "Received j m \<in> set (complete_delivery W i w ph prefix sg chk ok v s) \<Longrightarrow> j = i"
proof (cases "lxmf_body prefix w")
  case (Some raw)
  assume "Received j m \<in> set (complete_delivery W i w ph prefix sg chk ok v s)"
  then show ?thesis
    by (cases "parse_lxmf_payload (rx_depth W) True (drop HEADER_LEN raw)")
      (auto simp: complete_delivery_def Some Let_def split: option.splits if_splits)
qed (simp add: complete_delivery_def)

lemma deliver_receives: "Received j m \<in> set (snd (deliver_lxmf_payload W i w ph prefix s)) \<Longrightarrow> j = i"
  by (auto simp: deliver_lxmf_payload_def admit_def stamp_policy_def calibrate_time_def Let_def split_beta
      split: option.splits sum.splits if_splits prod.splits dest!: complete_receives)

text \<open>The destination a packet, link packet or resource arrives at.\<close>

fun arrives_at :: "rx_event \<Rightarrow> hash option" where
  "arrives_at (PacketIn d b ph) = Some d"
| "arrives_at (LinkPacketIn l b ph) = l"
| "arrives_at (ResourceIn d l b rh sz ok) = Some d"
| "arrives_at e = None"

lemma rx_receives: "arrives_at e = Some d \<Longrightarrow> Received j m \<in> set (snd (rx_step s (W, e))) \<Longrightarrow> registry s d = Some j"
  by (cases e) (auto simp: static_packet_callback_def on_packet_def static_inbound_link_packet_def
      static_inbound_resource_concluded_def Let_def split_beta split: option.splits if_splits dest: deliver_receives)

text \<open>C10. A message reaches its addressee only: after any run from power on in which fresh keys have fresh destinations, a
  packet or resource for a destination leaves every slot alone that is not the active identity whose key
  has that destination.\<close>

theorem addressee_only:
  assumes "distinct_dests E ds" "g0 = fst (gw_setup E (power_on ds sd fl))" "run_ok (own_dest E) gw_step es g0" "g = fst (run gw_step es g0)"
    "arrives_at e = Some d" "\<not> (j < length (idens g) \<and> active (idens g ! j) \<and> key_dest E (rkey (idens g ! j)) = d)"
  shows "idens (fst (gw_step g (F, Receive e))) ! j = idens g ! j"
proof (rule ccontr)
  assume c: "idens (fst (gw_step g (F, Receive e))) ! j \<noteq> idens g ! j"
  have "wired E g0" unfolding assms(2) by (rule setup_wired [OF assms(1)])
  then have w: "wired E g" using dispatch.run_rel [OF TrueI assms(3)] assms(4) by simp
  have "\<exists>m. Received j m \<in> set (snd (rx_step (rx g) (gw_rx_world F g, e)))"
  proof (rule ccontr)
    assume "\<nexists>m. Received j m \<in> set (snd (rx_step (rx g) (gw_rx_world F g, e)))"
    then have "idens (fst (handle_rx F (snd (rx_step (rx g) (gw_rx_world F g, e))) (g\<lparr>rx := r\<rparr>))) ! j = idens g ! j" for r
      using handle_elsewhere by (metis gateway.select_convs(1) gateway.surjective gateway.update_convs(3))
    then show False using c by (simp add: gw_receive_def split_beta split: if_splits)
  qed
  then have "fst (wiring (rx g)) d = Some j" using rx_receives [OF assms(5)] by (auto simp: wiring_def)
  then have "j < length (faces g)" "active (faces g ! j)" "key_dest E (rkey (faces g ! j)) = d" using w unfolding wired_def by blast+
  then show False using assms(6) by (simp add: faces_nth)
qed

theorem addressee_only_witness:
  "idens (fst (gw_step (fst (run gw_step [(sample_gw 0x41, Create [0x61] [0x70])] fresh_node))
      (sample_gw 0x41, Receive (PacketIn (replicate 16 0x41) sample_wire [7])))) ! 1 =
    idens (fst (run gw_step [(sample_gw 0x41, Create [0x61] [0x70])] fresh_node)) ! 1"
proof (rule addressee_only [OF _ fresh_node_def _ refl])
  show "distinct_dests (sample_gw 0x41) []" by (simp add: distinct_dests_def mkeys_def has_key_def mfind_def)
  show "run_ok (own_dest (sample_gw 0x41)) gw_step [(sample_gw 0x41, Create [0x61] [0x70])] fresh_node"
    by (simp add: own_dest_def fresh_faces)
  define g where "g = fst (create_identity (sample_gw 0x41) [0x61] [0x70] fresh_node)"
  have f: "faces g = first_face # replicate 3 blank_iden" by (simp add: g_def first_created)
  then have "length (faces g) = 4" "faces g ! 1 = blank_iden" by (simp_all add: numeral_3_eq_3)
  then have "\<not> active (idens g ! 1)" using faces_nth [of 1 g] by (metis blank_inactive(1) face_simps(5) faces_length one_less_numeral_iff semiring_norm(76))
  then show "\<not> (1 < length (idens (fst (run gw_step [(sample_gw 0x41, Create [0x61] [0x70])] fresh_node)))
      \<and> active (idens (fst (run gw_step [(sample_gw 0x41, Create [0x61] [0x70])] fresh_node)) ! 1)
      \<and> key_dest (sample_gw 0x41) (rkey (idens (fst (run gw_step [(sample_gw 0x41, Create [0x61] [0x70])] fresh_node)) ! 1)) = replicate 16 0x41)"
    by (simp add: g_def split_beta)
qed simp

section \<open>From the sender into the mailbox\<close>

lemma handle_app: "handle_rx E (es @ fs) g =
    (case handle_rx E es g of (g1, o1) \<Rightarrow> case handle_rx E fs g1 of (g2, o2) \<Rightarrow> (g2, o1 @ o2))"
  by (induction es arbitrary: g) (simp_all add: split_beta)

lemma handle_quiet: "quiet es \<Longrightarrow> handle_rx E es g = (g, map Rx es)"
proof (induction es)
  case (Cons e es)
  then have q: "quiet es" by (auto simp: quiet_def)
  show ?case using Cons.prems Cons.IH [OF q] by (cases e) (auto simp: quiet_def)
qed simp

lemma append_fields:
  assumes "append_record E r m = (m', gone, r', ok)"
  shows "title r' = title r" "content r' = content r" "rec_ts r' = rec_ts r" "peer_hash r' = peer_hash r" "signature_ok r' = signature_ok r"
    "incoming r' = incoming r" "attachments r' = attachments r"
  using assms by (auto simp: append_record_def Let_def split_beta split: write_result.splits if_splits)

text \<open>A message with text, from a peer whose telemetry is not followed, goes into the ring and to the web clients.\<close>

lemma delivery_stored:
  assumes "i < length (idens g)" "active (idens g ! i)" "ibox (idens g ! i) = Some mb" "no_policy mb" "file_ok (inb E)"
    "content r \<noteq> []" "\<not> feed_from E (iid (idens g ! i)) (peer_hash r)"
  shows "\<exists>g' out l mb'. on_delivery E i r g = (g', out) \<and> PublishIncoming (iid (idens g ! i)) l \<in> set out
    \<and> ibox (idens g' ! i) = Some mb' \<and> ring mb' = trim (ram_capacity mb) (ring mb @ [l]) \<and> rec_seq l = wrap32 (next_seq mb + 1)
    \<and> title l = title r \<and> content l = content r \<and> rec_ts l = rec_ts r \<and> peer_hash l = peer_hash r
    \<and> signature_ok l = signature_ok r \<and> incoming l = incoming r"
proof -
  let ?x = "iid (idens g ! i)"
  define r0 where "r0 = r\<lparr>rec_seq := 0, rec_commands := [], rec_meta := []\<rparr>"
  have m: "machinery_only E r = Inr False" using assms(6) by (simp add: machinery_only_def)
  have t: "start_track E ?x r0 mb = (mb, r0, [])" using assms(7) by (simp add: start_track_def r0_def)
  have f: "file_ok (live (inb E))" using assms(5) by (simp add: file_ok_def live_def)
  obtain m1 l where a: "append_record (live (inb E)) r0 mb =
      (m1, removed (live (inb E)) (take (Suc (length (ring mb)) - ram_capacity mb) (ring mb @ [l])), l, True)"
    and r1: "ring m1 = trim (ram_capacity mb) (ring mb @ [l])" and s1: "rec_seq l = wrap32 (next_seq mb + 1)"
    by (rule append_plain [OF f assms(4), of r0]) (simp add: r0_def)
  define g1 where "g1 = fst (removed_all E i (removed (live (inb E)) (take (Suc (length (ring mb)) - ram_capacity mb) (ring mb @ [l])))
      (on_slot i (\<lambda>a. a\<lparr>ibox := Some m1\<rparr>) g))"
  have b: "ibox (idens g1 ! i) = Some m1" using assms(1) by (simp add: g1_def slot_nth)
  obtain out where o: "on_delivery E i r g = (g1, out)" "PublishIncoming ?x l \<in> set out"
    using assms(2,3) by (simp add: on_delivery_def m t [unfolded r0_def] a [unfolded r0_def] g1_def split_beta Let_def)
  show ?thesis
    using o b r1 s1 append_fields [OF a] by (intro exI [of _ g1] exI [of _ out] exI [of _ l] exI [of _ m1]) (simp add: r0_def)
qed


definition sample_home :: gateway where
  "sample_home = fresh_node\<lparr>idens := [blank_iden\<lparr>iid := first_id, rkey := replicate 16 5, active := True, ibox := Some (empty_box 5)\<rparr>,
     blank_iden, blank_iden, blank_iden], rx := sample_inbound 0 False\<rparr>"


section \<open>What an identity announces\<close>

lemma announce_size:
  assumes "length name \<le> 125"
  shows "\<exists>d. announce_data name 0 = Some d \<and> length d = length name + 5"
  using assms by (simp add: announce_data_def pack_bin_def pack_bin_header_def Let_def wrap32_def)

lemma rx_resume [simp]: "rx (resume_all E i g) = rx g"
proof -
  have f: "rx (remove_pending_stamp_sidecar E p g) = rx g" for p g by (simp add: remove_pending_stamp_sidecar_def remove_file_def)
  have m: "rx (mutate_outbox E i q h g) = rx g" for q h g by (simp add: mutate_outbox_def on_outbox_def split_beta split: option.split)
  have o: "rx (resume_one E i q g) = rx g" for q g by (simp add: resume_one_def Let_def split_beta f m split: option.split)
  have "rx (foldl (\<lambda>g q. resume_one E i q g) g qs) = rx g" for qs by (induction qs arbitrary: g) (simp_all add: o)
  then show ?thesis by (simp add: resume_all_def)
qed
lemma activate_policy:
  assumes "i < length (idens g)"
  shows "rx_ready (slots (rx (fst (activate E i g))) i)"
    "rx_cost (slots (rx (fst (activate E i g))) i) = set_stamp_cost (pol_cost (conf (idens g ! i)))"
proof -
  define d where "d = dir_of (iid (idens g ! i)) g"
  define over where "over = read_conversation_config (d_conv d)"
  define g1 where "g1 = on_slot i (\<lambda>a. a\<lparr>active := True, ibox := Some (mounted (inb E) (default_policy E) over (d_inbox d)),
      obox := Some (mounted (outb E) (default_policy E) over (d_outbox d))\<rparr>) g"
  define g2 where "g2 = fst (prune_both E i g1)"
  have r: "rx (fst (activate E i g)) = rx (start_instance E i g2)"
    by (simp add: activate_def d_def [symmetric] over_def [symmetric] g1_def [symmetric] g2_def Let_def split_beta)
  have f: "faces g2 = faces g1" using core_prune [of E i g1] by (simp add: g2_def core_faces del: core_prune)
  then have "length (idens g2) = length (idens g)" using assms by (metis faces_length g1_def slot_fields(4))
  then have "conf (idens g2 ! i) = conf (idens g1 ! i)"
    using f assms faces_nth [of i g2] faces_nth [of i g1] by (metis face_simps(4) g1_def slot_fields(4))
  then have "conf (idens g2 ! i) = conf (idens g ! i)" using assms by (simp add: g1_def slot_nth)
  then show "rx_ready (slots (rx (fst (activate E i g))) i)"
    "rx_cost (slots (rx (fst (activate E i g))) i) = set_stamp_cost (pol_cost (conf (idens g ! i)))"
    by (simp_all add: r start_instance_def Let_def set_policy_def init_instance_def)
qed

text \<open>The announce buffer of 128 bytes is too small: an identity created with a display name of 124 or 125 bytes, which
  the creation does not refuse, writes one or two bytes behind the buffer with its first announce.\<close>

theorem announce_overruns:
  assumes "is_setup g" "first_free_slot g = Some i" "hexs F (key_id F (fresh_key F)) \<noteq> ''''" "key_saved F"
    "pol_cost (conf (idens g ! i)) = 0" "0 \<notin> set n" "124 \<le> length n" "length n \<le> 125"
  shows "\<exists>d. announce_slot i (fst (create_identity F n pw g)) = [Announced i d] \<and> 128 < length d"
proof -
  have i: "i < length (idens g)" using first_index_Some [of "\<lambda>a. \<not> active a" "idens g" i] assms(2) by (simp add: first_free_slot_def)
  define g' where "g' = fst (create_identity F n pw g)"
  define x where "x = take 16 (hexs F (key_id F (fresh_key F)))"
  define g2 where "g2 = write_meta F i (on_dir x (\<lambda>d. d\<lparr>d_key := Some (fresh_key F)\<rparr>) (on_dir x (\<lambda>d. d) (on_slot i (filled F n pw) g)))"
  have e: "g' = fst (activate F i g2)" using assms(1-4) by (simp add: g'_def create_identity_def Let_def split_beta g2_def x_def filled_abs)
  have g2: "i < length (idens g2)" "conf (idens g2 ! i) = conf (idens g ! i)" "label (idens g2 ! i) = n"
    using i by (simp_all add: g2_def write_meta_def slot_nth filled_def)
  have f: "faces g' = (faces g2)[i := (face (idens g2 ! i))\<lparr>active := True\<rparr>]" unfolding e by (rule activate_core(1)) (rule g2(1))
  have l: "i < length (idens g')" using f g2(1) by (metis faces_length length_list_update)
  have "face (idens g' ! i) = (face (idens g2 ! i))\<lparr>active := True\<rparr>" using f faces_nth [OF l] g2(1) by simp
  from arg_cong [OF this, of label] have n: "label (idens g' ! i) = n" by (simp add: g2(3))
  have c: "rx_ready (slots (rx g') i)" "rx_cost (slots (rx g') i) = 0"
    using activate_policy [OF g2(1), of F] assms(5) by (simp_all add: e g2(2) set_stamp_cost_def)
  have "c_str (Some n) = n" using assms(6) by (simp add: c_str_def) (metis takeWhile_eq_all_conv)
  then show ?thesis using announce_size [OF assms(8)] assms(7) by (auto simp: announce_slot_def g'_def [symmetric] n c)
qed

theorem announce_overruns_witness:
  "\<exists>d. announce_slot 0 (fst (create_identity (sample_gw 0x41) (replicate 125 0x61) [0x70] fresh_node)) = [Announced 0 d] \<and> 128 < length d"
proof (rule announce_overruns [OF fresh_faces(3) fresh_slot])
  have l: "length (faces fresh_node) = 4" unfolding fresh_faces(1) by (simp add: LXMF_GATEWAY_MAX_IDENTITIES_def)
  have "faces fresh_node ! 0 = blank_iden" unfolding fresh_faces(1) by (simp add: LXMF_GATEWAY_MAX_IDENTITIES_def)
  then have "face (idens fresh_node ! 0) = blank_iden" using l faces_nth [of 0 fresh_node] by simp
  from arg_cong [OF this, of conf] have "conf (idens fresh_node ! 0) = conf blank_iden" by simp
  then show "pol_cost (conf (idens fresh_node ! 0)) = 0" by (simp add: blank_iden_def default_settings_def)
qed (simp_all add: sample_gw_def hexs_def sample_box_def)

end
