(* ===== verification/Fifo.thy ===== *)
theory Fifo
  imports Store
begin

text \<open>
  The circular buffers of the modem, \<open>FIFOBuffer\<close> and \<open>FIFOBuffer16\<close> of \<open>src/src/Utilities.h\<close>, and the
  contract of a first-in first-out queue that their clients use: the serial input and the two
  lists of packets waiting for the radio.
\<close>

section \<open>The contract of a queue\<close>

locale fifo_queue =
  fixes inv :: "'s \<Rightarrow> bool"
    and held :: "'s \<Rightarrow> 'a list"
    and room :: "'s \<Rightarrow> nat"
    and isempty :: "'s \<Rightarrow> bool"
    and isfull :: "'s \<Rightarrow> bool"
    and push :: "'a \<Rightarrow> 's \<Rightarrow> 's"
    and pop :: "'s \<Rightarrow> 'a \<times> 's"
  assumes isempty_iff: "inv s \<Longrightarrow> isempty s \<longleftrightarrow> held s = []"
    and isfull_iff: "inv s \<Longrightarrow> isfull s \<longleftrightarrow> room s = 0"
    and push_inv: "inv s \<Longrightarrow> inv (push x s)"
    and push_held: "inv s \<Longrightarrow> \<not> isfull s \<Longrightarrow> held (push x s) = held s @ [x]"
    and push_room: "inv s \<Longrightarrow> \<not> isfull s \<Longrightarrow> Suc (room (push x s)) = room s"
    and pop_inv: "inv s \<Longrightarrow> inv (snd (pop s))"
    and pop_held: "inv s \<Longrightarrow> held s = y # ys \<Longrightarrow> fst (pop s) = y \<and> held (snd (pop s)) = ys"
    and pop_room: "inv s \<Longrightarrow> held s \<noteq> [] \<Longrightarrow> room (snd (pop s)) = Suc (room s)"
begin

text \<open>A burst that fits comes out in order.\<close>

lemma push_all: "inv s \<Longrightarrow> length xs \<le> room s \<Longrightarrow>
  inv (fold push xs s) \<and> held (fold push xs s) = held s @ xs \<and> room (fold push xs s) = room s - length xs"
proof (induction xs arbitrary: s)
  case (Cons x xs)
  then have f: "\<not> isfull s" using isfull_iff by auto
  then have "length xs \<le> room (push x s)" using push_room [of s x] Cons.prems by simp
  from Cons.IH [OF push_inv [OF Cons.prems(1)] this] show ?case
    using push_held [OF Cons.prems(1) f] push_room [OF Cons.prems(1) f, of x] by auto
qed simp

fun pops :: "nat \<Rightarrow> 's \<Rightarrow> 'a list \<times> 's" where
  "pops 0 s = ([], s)"
| "pops (Suc n) s = (if isempty s then ([], s) else (case pop s of (x, s') \<Rightarrow> case pops n s' of (xs, s'') \<Rightarrow> (x # xs, s'')))"

lemma pops_all: "inv s \<Longrightarrow> length (held s) \<le> n \<Longrightarrow>
  fst (pops n s) = held s \<and> held (snd (pops n s)) = [] \<and> inv (snd (pops n s))"
proof (induction n arbitrary: s)
  case (Suc n)
  show ?case
  proof (cases "held s")
    case (Cons y ys)
    then show ?thesis
      using Suc.IH [OF pop_inv [OF Suc.prems(1)]] pop_held [OF Suc.prems(1) Cons] Suc.prems isempty_iff [of s]
      by (simp add: split_beta)
  qed (use Suc.prems isempty_iff [of s] in simp)
qed simp

end

section \<open>The circular buffer\<close>

text \<open>
  Pointers are offsets from \<open>begin\<close>. \<open>last_cell\<close> is \<open>end - begin\<close>: \<open>end\<close> points to the last cell, not behind it,
  so a buffer of size \<open>n\<close> has \<open>n + 1\<close> cells (which \<open>setup\<close> allocates).
\<close>

record 'a fifo =
  cells :: "'a list"
  fhead :: nat
  ftail :: nat
  last_cell :: nat

definition fifo_init :: "'a \<Rightarrow> nat \<Rightarrow> 'a fifo" where
  "fifo_init z n = \<lparr>cells = replicate (Suc n) z, fhead = 0, ftail = 0, last_cell = n\<rparr>"

definition fifo_isempty :: "'a fifo \<Rightarrow> bool" where
  "fifo_isempty f = (fhead f = ftail f)"

text \<open>\<open>tail == head - 1\<close>: a pointer before \<open>begin\<close> equals no tail.\<close>

definition fifo_isfull :: "'a fifo \<Rightarrow> bool" where
  "fifo_isfull f = ((fhead f = 0 \<and> ftail f = last_cell f) \<or> (fhead f \<noteq> 0 \<and> ftail f = fhead f - 1))"

definition fifo_push :: "'a \<Rightarrow> 'a fifo \<Rightarrow> 'a fifo" where
  "fifo_push c f =
    f\<lparr>cells := (cells f)[ftail f := c], ftail := (if ftail f = last_cell f then 0 else ftail f + 1)\<rparr>"

definition fifo_pop :: "'a fifo \<Rightarrow> 'a \<times> 'a fifo" where
  "fifo_pop f =
    (if fhead f = last_cell f then (cells f ! last_cell f, f\<lparr>fhead := 0\<rparr>)
     else (cells f ! fhead f, f\<lparr>fhead := fhead f + 1\<rparr>))"

definition fifo_flush :: "'a fifo \<Rightarrow> 'a fifo" where
  "fifo_flush f = f\<lparr>fhead := ftail f\<rparr>"

section \<open>What it holds\<close>

definition fifo_ok :: "'a fifo \<Rightarrow> bool" where
  "fifo_ok f \<longleftrightarrow> length (cells f) = Suc (last_cell f) \<and> fhead f \<le> last_cell f \<and> ftail f \<le> last_cell f"

text \<open>The used cells, from the head to the cell before the tail, around the end.\<close>

definition used_cells :: "'a fifo \<Rightarrow> nat list" where
  "used_cells f = (if fhead f \<le> ftail f then [fhead f ..< ftail f] else [fhead f ..< Suc (last_cell f)] @ [0 ..< ftail f])"

definition fifo_held :: "'a fifo \<Rightarrow> 'a list" where
  "fifo_held f = map (\<lambda>i. cells f ! i) (used_cells f)"

definition fifo_room :: "'a fifo \<Rightarrow> nat" where
  "fifo_room f = last_cell f - length (used_cells f)"

lemma used_length: "fifo_ok f \<Longrightarrow> length (used_cells f) \<le> last_cell f"
  by (auto simp: fifo_ok_def used_cells_def)

lemma fifo_empty_iff: "fifo_ok f \<Longrightarrow> fifo_isempty f \<longleftrightarrow> fifo_held f = []"
  by (auto simp: fifo_ok_def fifo_isempty_def fifo_held_def used_cells_def)

lemma fifo_full_iff: "fifo_ok f \<Longrightarrow> fifo_isfull f \<longleftrightarrow> fifo_room f = 0"
  by (auto simp: fifo_ok_def fifo_isfull_def fifo_room_def used_cells_def)

lemma fifo_push_ok: "fifo_ok f \<Longrightarrow> fifo_ok (fifo_push c f)"
  by (auto simp: fifo_ok_def fifo_push_def)

lemma fifo_pop_ok: "fifo_ok f \<Longrightarrow> fifo_ok (snd (fifo_pop f))"
  by (auto simp: fifo_ok_def fifo_pop_def)

lemma used_push: "fifo_ok f \<Longrightarrow> \<not> fifo_isfull f \<Longrightarrow> used_cells (fifo_push c f) = used_cells f @ [ftail f]"
  by (auto simp: fifo_ok_def fifo_isfull_def fifo_push_def used_cells_def)

lemma tail_unused: "ftail f \<notin> set (used_cells f)"
  by (auto simp: used_cells_def)

lemma fifo_push_held:
  assumes "fifo_ok f" "\<not> fifo_isfull f"
  shows "fifo_held (fifo_push c f) = fifo_held f @ [c]"
proof -
  have "map (\<lambda>i. (cells f)[ftail f := c] ! i) (used_cells f) = map (\<lambda>i. cells f ! i) (used_cells f)"
    using tail_unused [of f] by (intro map_cong refl) (metis nth_list_update_neq)
  then show ?thesis
    using assms by (simp add: fifo_held_def used_push) (simp add: fifo_push_def fifo_ok_def)
qed

lemma used_pop: "fifo_ok f \<Longrightarrow> \<not> fifo_isempty f \<Longrightarrow> used_cells f = fhead f # used_cells (snd (fifo_pop f))"
  by (auto simp: fifo_ok_def fifo_isempty_def fifo_pop_def used_cells_def upt_conv_Cons)

lemma fifo_pop_held:
  assumes "fifo_ok f" "fifo_held f = y # ys"
  shows "fst (fifo_pop f) = y \<and> fifo_held (snd (fifo_pop f)) = ys"
proof -
  have "\<not> fifo_isempty f" using assms fifo_empty_iff [OF assms(1)] by auto
  then show ?thesis using used_pop [OF assms(1)] assms(2) by (auto simp: fifo_held_def fifo_pop_def)
qed

interpretation fifo: fifo_queue fifo_ok fifo_held fifo_room fifo_isempty fifo_isfull fifo_push fifo_pop
proof unfold_locales
  fix f :: "'a fifo" and x
  assume o: "fifo_ok f"
  show "Suc (fifo_room (fifo_push x f)) = fifo_room f" if "\<not> fifo_isfull f"
    using used_push [OF o that, of x] used_length [OF o] fifo_full_iff [OF o] that by (simp add: fifo_room_def fifo_push_def)
  show "fifo_room (snd (fifo_pop f)) = Suc (fifo_room f)" if "fifo_held f \<noteq> []"
    using used_pop [OF o] used_length [OF o] fifo_empty_iff [OF o] that by (auto simp: fifo_room_def fifo_pop_def)
qed (simp_all add: fifo_empty_iff fifo_full_iff fifo_push_ok fifo_push_held fifo_pop_ok fifo_pop_held)

lemma fifo_init_ok [simp]: "fifo_ok (fifo_init z n)"
  by (simp add: fifo_ok_def fifo_init_def)

lemma fifo_init_held [simp]: "fifo_held (fifo_init z n) = []" "fifo_room (fifo_init z n) = n" "last_cell (fifo_init z n) = n"
  by (simp_all add: fifo_held_def used_cells_def fifo_init_def fifo_room_def)

lemma fifo_flush_held: "fifo_ok f \<Longrightarrow> fifo_ok (fifo_flush f) \<and> fifo_held (fifo_flush f) = []"
  by (simp add: fifo_ok_def fifo_flush_def fifo_held_def used_cells_def)

lemma fifo_held_room: "fifo_ok f \<Longrightarrow> length (fifo_held f) + fifo_room f = last_cell f"
  using used_length [of f] by (simp add: fifo_held_def fifo_room_def)

lemma fifo_last [simp]: "last_cell (fifo_push c f) = last_cell f" "last_cell (snd (fifo_pop f)) = last_cell f"
  by (simp_all add: fifo_push_def fifo_pop_def)

end
