(* ===== verification/TxRing.thy ===== *)
theory TxRing
  imports Fifo
begin

text \<open>
  The transmit queue of the modem, \<open>src/src/RNode_Firmware.ino\<close>: a byte ring \<open>packet_queue\<close> with the starts and
  lengths of its packets in two FIFOs. Two writers fill it: the serial host, byte by byte, and the
  Reticulum stack, one whole packet at a time behind a hold queue. The modem pops one packet or
  flushes all. Sizes are those of the ESP32 boards (\<open>Boards.h\<close>).
\<close>

section \<open>State\<close>

definition CONFIG_QUEUE_SIZE :: nat where "CONFIG_QUEUE_SIZE = 6144"
definition CONFIG_QUEUE_MAX_LENGTH :: nat where "CONFIG_QUEUE_MAX_LENGTH = 200"
definition MIN_L :: nat where "MIN_L = 1"
definition MTU :: nat where "MTU = 508"
definition TX_HOLD_MAX_BYTES :: nat where "TX_HOLD_MAX_BYTES = 65536"

text \<open>\<open>queue_height\<close> is a \<open>uint8_t\<close>, the byte counts and positions are \<open>uint16_t\<close>.\<close>

record tx_ring =
  packet_queue :: bytes
  packet_starts :: "nat fifo"
  packet_lengths :: "nat fifo"
  queue_height :: nat
  queued_bytes :: nat
  queue_cursor :: nat
  current_packet_start :: nat

definition ring_init :: tx_ring where
  "ring_init = \<lparr>packet_queue = replicate CONFIG_QUEUE_SIZE 0, packet_starts = fifo_init 0 CONFIG_QUEUE_MAX_LENGTH,
    packet_lengths = fifo_init 0 CONFIG_QUEUE_MAX_LENGTH, queue_height = 0, queued_bytes = 0, queue_cursor = 0, current_packet_start = 0\<rparr>"

section \<open>Writers\<close>

definition queue_full :: "tx_ring \<Rightarrow> bool" where
  "queue_full r = (queue_height r \<ge> CONFIG_QUEUE_MAX_LENGTH \<or> queued_bytes r \<ge> CONFIG_QUEUE_SIZE)"

text \<open>\<open>packet_queue[queue_cursor++] = b; if (queue_cursor == CONFIG_QUEUE_SIZE) queue_cursor = 0\<close>\<close>

definition put_byte :: "u8 \<Rightarrow> tx_ring \<Rightarrow> tx_ring" where
  "put_byte b r = r\<lparr>packet_queue := (packet_queue r)[queue_cursor r := b],
     queue_cursor := (if queue_cursor r + 1 = CONFIG_QUEUE_SIZE then 0 else queue_cursor r + 1)\<rparr>"

definition close_packet :: "nat \<Rightarrow> nat \<Rightarrow> tx_ring \<Rightarrow> tx_ring" where
  "close_packet s l r = r\<lparr>queue_height := (queue_height r + 1) mod 256, packet_starts := fifo_push s (packet_starts r),
     packet_lengths := fifo_push l (packet_lengths r), current_packet_start := queue_cursor r\<rparr>"

definition lora_ring_has_space :: "nat \<Rightarrow> tx_ring \<Rightarrow> bool" where
  "lora_ring_has_space len r =
    (\<not> (fifo_isfull (packet_starts r) \<or> queue_height r \<ge> CONFIG_QUEUE_MAX_LENGTH \<or> queued_bytes r + len > CONFIG_QUEUE_SIZE))"

definition lora_ring_enqueue :: "bytes \<Rightarrow> tx_ring \<Rightarrow> tx_ring" where
  "lora_ring_enqueue d r =
    (let r1 = fold put_byte d r
     in close_packet (queue_cursor r) (length d) (r1\<lparr>queued_bytes := (queued_bytes r1 + length d) mod 65536\<rparr>))"

text \<open>A data byte of a host frame, after unescaping.\<close>

definition host_byte :: "u8 \<Rightarrow> tx_ring \<Rightarrow> tx_ring" where
  "host_byte b r =
    (if queue_height r < CONFIG_QUEUE_MAX_LENGTH \<and> queued_bytes r < CONFIG_QUEUE_SIZE
     then put_byte b (r\<lparr>queued_bytes := queued_bytes r + 1\<rparr>) else r)"

text \<open>The length of the host's packet, from its start to the cell before the cursor.\<close>

definition host_length :: "tx_ring \<Rightarrow> nat" where
  "host_length r =
    (let s = current_packet_start r;
         e = (if queue_cursor r = 0 then CONFIG_QUEUE_SIZE - 1 else queue_cursor r - 1)
     in if s \<noteq> e then (if s < e then e - s + 1 else CONFIG_QUEUE_SIZE - s + e + 1) else 1)"

text \<open>The closing \<open>FEND\<close> of a host data frame.\<close>

definition host_end :: "tx_ring \<Rightarrow> tx_ring" where
  "host_end r =
    (if \<not> fifo_isfull (packet_starts r) \<and> queued_bytes r < CONFIG_QUEUE_SIZE
     then (if host_length r \<ge> MIN_L then close_packet (current_packet_start r) (host_length r) r else r)
     else r)"

section \<open>The modem side\<close>

text \<open>The copy to \<open>tbuf\<close>, and one packet taken from the ring: \<open>None\<close> when its length is out of range.\<close>

definition copy_out :: "nat \<Rightarrow> nat \<Rightarrow> tx_ring \<Rightarrow> bytes" where
  "copy_out start len r = map (\<lambda>i. packet_queue r ! ((start + i) mod CONFIG_QUEUE_SIZE)) [0 ..< len]"

definition take_packet :: "tx_ring \<Rightarrow> tx_ring \<times> nat \<times> bytes option" where
  "take_packet r =
    (case fifo_pop (packet_starts r) of (start, ss) \<Rightarrow>
     case fifo_pop (packet_lengths r) of (len, ls) \<Rightarrow>
       (r\<lparr>packet_starts := ss, packet_lengths := ls\<rparr>, len,
        if len \<ge> MIN_L \<and> len \<le> MTU then Some (copy_out start len r) else None))"

definition pop_queue :: "tx_ring \<Rightarrow> tx_ring \<times> bytes list" where
  "pop_queue r =
    (if fifo_isempty (packet_starts r) then (r, [])
     else case take_packet r of (r1, len, p) \<Rightarrow>
       (r1\<lparr>queue_height := (queue_height r1 + 255) mod 256, queued_bytes := (queued_bytes r1 + (65536 - len mod 65536)) mod 65536\<rparr>,
        case p of None \<Rightarrow> [] | Some d \<Rightarrow> [d]))"

text \<open>The loop of \<open>flush_queue\<close>; a FIFO of \<open>n\<close> cells is empty after \<open>n\<close> passes.\<close>

fun flush_loop :: "nat \<Rightarrow> tx_ring \<Rightarrow> tx_ring \<times> bytes list" where
  "flush_loop 0 r = (r, [])"
| "flush_loop (Suc n) r =
    (if fifo_isempty (packet_starts r) then (r, [])
     else case take_packet r of (r1, len, p) \<Rightarrow>
          case flush_loop n r1 of (r2, ps) \<Rightarrow> (r2, (case p of None \<Rightarrow> ps | Some d \<Rightarrow> d # ps)))"

definition flush_queue :: "tx_ring \<Rightarrow> tx_ring \<times> bytes list" where
  "flush_queue r =
    (case flush_loop (Suc (last_cell (packet_starts r))) r of (r1, ps) \<Rightarrow> (r1\<lparr>queue_height := 0, queued_bytes := 0\<rparr>, ps))"

section \<open>The hold queue of the Reticulum interface\<close>

record txq =
  ring :: tx_ring
  tx_hold_queue :: "bytes list"
  tx_hold_bytes :: nat
  lora_tx_dropped :: nat

definition txq_init :: txq where
  "txq_init = \<lparr>ring = ring_init, tx_hold_queue = [], tx_hold_bytes = 0, lora_tx_dropped = 0\<rparr>"

text \<open>\<open>drain_tx_hold_queue\<close>, from the list of held packets.\<close>

fun drain_loop :: "bytes list \<Rightarrow> txq \<Rightarrow> txq" where
  "drain_loop [] q = q"
| "drain_loop (d # ds) q =
    (if \<not> lora_ring_has_space (length d) (ring q) then q
     else drain_loop ds (q\<lparr>ring := lora_ring_enqueue d (ring q), tx_hold_queue := ds, tx_hold_bytes := sub32 (tx_hold_bytes q) (length d)\<rparr>))"

definition drain_tx_hold_queue :: "txq \<Rightarrow> txq" where
  "drain_tx_hold_queue q = drain_loop (tx_hold_queue q) q"

datatype tx_out = Accepted bytes | Dropped bytes | Transmit bytes | Host_stored u8 | Host_queued

definition drop_packet :: "bytes \<Rightarrow> txq \<Rightarrow> txq \<times> tx_out list" where
  "drop_packet d q = (q\<lparr>lora_tx_dropped := wrap32 (lora_tx_dropped q + 1)\<rparr>, [Dropped d])"

definition send_outgoing :: "bytes \<Rightarrow> txq \<Rightarrow> txq \<times> tx_out list" where
  "send_outgoing d q =
    (if length d < MIN_L \<or> length d > MTU then drop_packet d q
     else let q1 = drain_tx_hold_queue q
          in if tx_hold_queue q1 = [] \<and> lora_ring_has_space (length d) (ring q1)
             then (q1\<lparr>ring := lora_ring_enqueue d (ring q1)\<rparr>, [Accepted d])
             else if tx_hold_bytes q1 + length d \<le> TX_HOLD_MAX_BYTES
             then (q1\<lparr>tx_hold_queue := tx_hold_queue q1 @ [d], tx_hold_bytes := wrap32 (tx_hold_bytes q1 + length d)\<rparr>, [Accepted d])
             else drop_packet d q1)"

section \<open>The ring as a list of packets\<close>

text \<open>Every index lies in its buffer and every counter in its type, whatever the host sends.\<close>

definition ring_ok :: "tx_ring \<Rightarrow> bool" where
  "ring_ok r \<longleftrightarrow> length (packet_queue r) = CONFIG_QUEUE_SIZE \<and> queue_cursor r < CONFIG_QUEUE_SIZE \<and>
    current_packet_start r < CONFIG_QUEUE_SIZE \<and> queue_height r < 256 \<and> queued_bytes r < 65536 \<and>
    fifo_ok (packet_starts r) \<and> last_cell (packet_starts r) = CONFIG_QUEUE_MAX_LENGTH \<and>
    fifo_ok (packet_lengths r) \<and> last_cell (packet_lengths r) = CONFIG_QUEUE_MAX_LENGTH \<and>
    length (fifo_held (packet_starts r)) = length (fifo_held (packet_lengths r)) \<and>
    (\<forall>s \<in> set (fifo_held (packet_starts r)). s < CONFIG_QUEUE_SIZE)"

lemma size_pos [simp]: "0 < CONFIG_QUEUE_SIZE" by (simp add: CONFIG_QUEUE_SIZE_def)

lemma put_byte_simps [simp]:
  "packet_starts (put_byte b r) = packet_starts r" "packet_lengths (put_byte b r) = packet_lengths r"
  "queue_height (put_byte b r) = queue_height r" "queued_bytes (put_byte b r) = queued_bytes r"
  "current_packet_start (put_byte b r) = current_packet_start r"
  "length (packet_queue (put_byte b r)) = length (packet_queue r)"
  by (simp_all add: put_byte_def)

lemma put_byte_cursor: "queue_cursor r < CONFIG_QUEUE_SIZE \<Longrightarrow>
  queue_cursor (put_byte b r) = (queue_cursor r + 1) mod CONFIG_QUEUE_SIZE"
  by (simp add: put_byte_def)

lemma put_bytes_simps [simp]:
  "packet_starts (fold put_byte d r) = packet_starts r" "packet_lengths (fold put_byte d r) = packet_lengths r"
  "queue_height (fold put_byte d r) = queue_height r" "queued_bytes (fold put_byte d r) = queued_bytes r"
  "current_packet_start (fold put_byte d r) = current_packet_start r"
  "length (packet_queue (fold put_byte d r)) = length (packet_queue r)"
  by (induction d arbitrary: r) simp_all

lemma put_bytes_cursor: "queue_cursor r < CONFIG_QUEUE_SIZE \<Longrightarrow>
  queue_cursor (fold put_byte d r) = (queue_cursor r + length d) mod CONFIG_QUEUE_SIZE"
proof (induction d arbitrary: r)
  case (Cons b d)
  have "queue_cursor (put_byte b r) < CONFIG_QUEUE_SIZE" using Cons.prems by (simp add: put_byte_cursor)
  from Cons.IH [OF this] show ?case by (simp add: put_byte_cursor [OF Cons.prems] mod_simps)
qed simp

lemma copy_out_length [simp]: "length (copy_out p n r) = n"
  by (simp add: copy_out_def)

lemma copy_out_cong: "packet_queue r = packet_queue r' \<Longrightarrow> copy_out p n r = copy_out p n r'"
  by (simp add: copy_out_def)

lemma cell_differs:
  assumes "i < n" "n < s"
  shows "(p + i) mod s \<noteq> (p + n) mod (s :: nat)"
proof
  assume "(p + i) mod s = (p + n) mod s"
  then have "s dvd (p + n) - (p + i)" using assms by (metis mod_eq_dvd_iff_nat add_le_cancel_left less_imp_le)
  then have "s dvd n - i" by simp
  then show False using assms by (auto dest: dvd_imp_le)
qed

lemma window_put:
  assumes "length (packet_queue r) = CONFIG_QUEUE_SIZE" "queue_cursor r = (p + n) mod CONFIG_QUEUE_SIZE" "n < CONFIG_QUEUE_SIZE"
  shows "copy_out p (Suc n) (put_byte b r) = copy_out p n r @ [b]"
proof -
  have "packet_queue (put_byte b r) ! ((p + i) mod CONFIG_QUEUE_SIZE) = packet_queue r ! ((p + i) mod CONFIG_QUEUE_SIZE)" if "i < n" for i
    using cell_differs [OF that assms(3), of p] assms(2) by (simp add: put_byte_def)
  moreover have "packet_queue (put_byte b r) ! ((p + n) mod CONFIG_QUEUE_SIZE) = b"
    using assms(1,2) by (simp add: put_byte_def)
  ultimately show ?thesis by (simp add: copy_out_def)
qed

lemma window_puts:
  assumes "length (packet_queue r) = CONFIG_QUEUE_SIZE" "queue_cursor r = (p + n) mod CONFIG_QUEUE_SIZE" "n + length d \<le> CONFIG_QUEUE_SIZE"
  shows "copy_out p (n + length d) (fold put_byte d r) = copy_out p n r @ d"
  using assms
proof (induction d arbitrary: r n)
  case (Cons b d)
  have c: "queue_cursor (put_byte b r) = (p + Suc n) mod CONFIG_QUEUE_SIZE"
    using Cons.prems(2) by (simp add: put_byte_cursor mod_Suc_eq)
  have "copy_out p (Suc n + length d) (fold put_byte d (put_byte b r)) = copy_out p (Suc n) (put_byte b r) @ d"
    by (rule Cons.IH) (use Cons.prems c in simp_all)
  moreover have "copy_out p (Suc n) (put_byte b r) = copy_out p n r @ [b]"
    by (rule window_put) (use Cons.prems in simp_all)
  ultimately show ?case by simp
qed simp

lemma window_slice:
  assumes "k + l \<le> n"
  shows "copy_out ((p + k) mod CONFIG_QUEUE_SIZE) l r = take l (drop k (copy_out p n r))"
proof (rule nth_equalityI)
  fix i assume "i < length (copy_out ((p + k) mod CONFIG_QUEUE_SIZE) l r)"
  then have "i < l" by simp
  then show "copy_out ((p + k) mod CONFIG_QUEUE_SIZE) l r ! i = take l (drop k (copy_out p n r)) ! i"
    using assms by (simp add: copy_out_def mod_add_left_eq add.assoc)
qed (use assms in simp)

text \<open>
  \<open>stores r ps part\<close>: the ring holds the packets \<open>ps\<close>, oldest first, and behind them the bytes \<open>part\<close> of an unfinished
  host frame.
\<close>

fun offsets :: "nat \<Rightarrow> bytes list \<Rightarrow> nat list" where
  "offsets p [] = []"
| "offsets p (d # ds) = p # offsets ((p + length d) mod CONFIG_QUEUE_SIZE) ds"

definition stores_at :: "nat \<Rightarrow> tx_ring \<Rightarrow> bytes list \<Rightarrow> bytes \<Rightarrow> bool" where
  "stores_at p r ps part \<longleftrightarrow> ring_ok r \<and> p < CONFIG_QUEUE_SIZE \<and>
    queued_bytes r = length (concat ps @ part) \<and> queued_bytes r \<le> CONFIG_QUEUE_SIZE \<and>
    copy_out p (length (concat ps @ part)) r = concat ps @ part \<and> queue_height r = length ps \<and>
    fifo_held (packet_starts r) = offsets p ps \<and> fifo_held (packet_lengths r) = map length ps \<and> [] \<notin> set ps \<and>
    current_packet_start r = (p + length (concat ps)) mod CONFIG_QUEUE_SIZE \<and> queue_cursor r = (p + queued_bytes r) mod CONFIG_QUEUE_SIZE"

definition stores :: "tx_ring \<Rightarrow> bytes list \<Rightarrow> bytes \<Rightarrow> bool" where
  "stores r ps part \<longleftrightarrow> (part \<noteq> [] \<longrightarrow> queued_bytes r < CONFIG_QUEUE_SIZE) \<and> (\<exists>p. stores_at p r ps part)"

lemma storesI: "stores_at p r ps part \<Longrightarrow> (part \<noteq> [] \<Longrightarrow> queued_bytes r < CONFIG_QUEUE_SIZE) \<Longrightarrow> stores r ps part"
  by (auto simp: stores_def)

lemma stores_init: "stores ring_init [] []"
  by (rule storesI [of 0]) (simp_all add: stores_at_def ring_ok_def ring_init_def copy_out_def)

lemma offsets_append: "offsets p (ps @ [d]) = offsets p ps @ [(p + length (concat ps)) mod CONFIG_QUEUE_SIZE]" if "p < CONFIG_QUEUE_SIZE"
  using that by (induction ps arbitrary: p) (simp_all add: mod_add_left_eq add.assoc)

lemma offsets_bounded: "s \<in> set (offsets p ps) \<Longrightarrow> p < CONFIG_QUEUE_SIZE \<Longrightarrow> s < CONFIG_QUEUE_SIZE"
  by (induction ps arbitrary: p) auto

lemma offsets_length [simp]: "length (offsets p ps) = length ps"
  by (induction ps arbitrary: p) simp_all

lemma stores_height: "stores_at p r ps part \<Longrightarrow> queue_height r = length ps \<and> length ps \<le> CONFIG_QUEUE_MAX_LENGTH"
  using fifo_held_room [of "packet_starts r"] by (auto simp: stores_at_def ring_ok_def)

lemma starts_full: "stores_at p r ps part \<Longrightarrow> fifo_isfull (packet_starts r) \<longleftrightarrow> length ps = CONFIG_QUEUE_MAX_LENGTH"
  using fifo_held_room [of "packet_starts r"] fifo_full_iff [of "packet_starts r"] by (auto simp: stores_at_def ring_ok_def)

lemma lengths_full: "stores_at p r ps part \<Longrightarrow> fifo_isfull (packet_lengths r) \<longleftrightarrow> length ps = CONFIG_QUEUE_MAX_LENGTH"
  using fifo_held_room [of "packet_lengths r"] fifo_full_iff [of "packet_lengths r"] by (auto simp: stores_at_def ring_ok_def)

lemma starts_empty: "stores_at p r ps part \<Longrightarrow> fifo_isempty (packet_starts r) \<longleftrightarrow> ps = []"
  using fifo_empty_iff [of "packet_starts r"] by (cases ps) (auto simp: stores_at_def ring_ok_def)

text \<open>Closing the bytes behind the packets as one more packet.\<close>

lemma stores_close:
  assumes "stores_at p r ps part" "part \<noteq> []" "\<not> fifo_isfull (packet_starts r)"
  shows "stores_at p (close_packet ((p + length (concat ps)) mod CONFIG_QUEUE_SIZE) (length part) r) (ps @ [part]) []"
proof -
  note s = assms(1)
  have h: "length ps < CONFIG_QUEUE_MAX_LENGTH" using stores_height [OF s] starts_full [OF s] assms(3) by auto
  then have m: "Suc (length ps) mod 256 = Suc (length ps)" by (simp add: CONFIG_QUEUE_MAX_LENGTH_def)
  have f: "\<not> fifo_isfull (packet_lengths r)" using lengths_full [OF s] h by simp
  have p: "p < CONFIG_QUEUE_SIZE" using assms(1) by (simp add: stores_at_def)
  let ?s = "(p + length (concat ps)) mod CONFIG_QUEUE_SIZE" and ?r = "close_packet ((p + length (concat ps)) mod CONFIG_QUEUE_SIZE) (length part) r"
  have "copy_out p n ?r = copy_out p n r" for n by (simp add: close_packet_def copy_out_def)
  moreover have "ring_ok ?r"
    using assms(1,3) f m h by (auto simp: stores_at_def ring_ok_def close_packet_def fifo_push_ok fifo_push_held CONFIG_QUEUE_MAX_LENGTH_def)
  ultimately show ?thesis
    using assms f m p by (simp add: stores_at_def) (auto simp: close_packet_def fifo_push_held offsets_append ring_ok_def)
qed

lemma stores_enqueue:
  assumes "stores r ps []" "lora_ring_has_space (length d) r" "d \<noteq> []"
  shows "stores (lora_ring_enqueue d r) (ps @ [d]) []"
proof -
  obtain p where s: "stores_at p r ps []" using assms(1) by (auto simp: stores_def)
  let ?r1 = "fold put_byte d r"
  let ?r2 = "?r1\<lparr>queued_bytes := (queued_bytes ?r1 + length d) mod 65536\<rparr>"
  have n: "queued_bytes r + length d \<le> CONFIG_QUEUE_SIZE" "\<not> fifo_isfull (packet_starts r)"
    using assms(2) by (simp_all add: lora_ring_has_space_def)
  then have m: "(queued_bytes r + length d) mod 65536 = queued_bytes r + length d" by (simp add: CONFIG_QUEUE_SIZE_def)
  have w: "copy_out p (queued_bytes r + length d) ?r1 = copy_out p (queued_bytes r) r @ d"
    by (rule window_puts) (use s n in \<open>simp_all add: stores_at_def ring_ok_def\<close>)
  have c: "queue_cursor ?r1 = (queue_cursor r + length d) mod CONFIG_QUEUE_SIZE"
    by (rule put_bytes_cursor) (use s in \<open>simp add: stores_at_def ring_ok_def\<close>)
  have k: "ring_ok ?r2" using s n m c by (auto simp: stores_at_def ring_ok_def CONFIG_QUEUE_SIZE_def)
  have e: "lora_ring_enqueue d r = close_packet ((p + length (concat ps)) mod CONFIG_QUEUE_SIZE) (length d) ?r2"
    using s by (simp add: lora_ring_enqueue_def Let_def stores_at_def)
  have cw: "copy_out p (queued_bytes r + length d) ?r2 = concat ps @ d"
    using w copy_out_cong [of ?r2 ?r1] s by (simp add: stores_at_def)
  have cc: "queue_cursor ?r2 = (p + (queued_bytes r + length d)) mod CONFIG_QUEUE_SIZE"
    using c s by (simp add: stores_at_def mod_add_left_eq add.assoc)
  have "stores_at p ?r2 ps d" using s n k m cw cc by (simp add: stores_at_def add.assoc)
  then have "stores_at p (lora_ring_enqueue d r) (ps @ [d]) []"
    unfolding e by (rule stores_close) (use assms(3) n in simp_all)
  then show ?thesis by (rule storesI) simp
qed

lemma stores_host_byte:
  assumes "stores r ps part" "queue_height r < CONFIG_QUEUE_MAX_LENGTH" "queued_bytes r + 1 < CONFIG_QUEUE_SIZE"
  shows "stores (host_byte b r) ps (part @ [b])"
proof -
  obtain p where s: "stores_at p r ps part" using assms(1) by (auto simp: stores_def)
  let ?r = "r\<lparr>queued_bytes := queued_bytes r + 1\<rparr>"
  have e: "host_byte b r = put_byte b ?r" using assms(2,3) by (simp add: host_byte_def)
  have "copy_out p (Suc (queued_bytes r)) (put_byte b ?r) = copy_out p (queued_bytes r) ?r @ [b]"
    by (rule window_put) (use s assms(3) in \<open>simp_all add: stores_at_def ring_ok_def\<close>)
  moreover have "queue_cursor (put_byte b ?r) = (queue_cursor r + 1) mod CONFIG_QUEUE_SIZE"
    using put_byte_cursor [of ?r b] s by (simp add: stores_at_def ring_ok_def)
  ultimately have "stores_at p (put_byte b ?r) ps (part @ [b])"
    using s assms(3) copy_out_cong [of ?r r] by (auto simp: stores_at_def ring_ok_def mod_Suc_eq CONFIG_QUEUE_SIZE_def)
  then show ?thesis unfolding e by (rule storesI) (use assms(3) in simp)
qed

text \<open>The length the code computes from start and cursor is the length of the unfinished frame.\<close>

lemma host_length_eq:
  assumes "current_packet_start r = s" "queue_cursor r = (s + n) mod CONFIG_QUEUE_SIZE" "s < CONFIG_QUEUE_SIZE" "0 < n" "n < CONFIG_QUEUE_SIZE"
  shows "host_length r = n"
proof (cases "s + n < CONFIG_QUEUE_SIZE")
  case True
  then show ?thesis using assms by (auto simp: host_length_def Let_def)
next
  case False
  then have "queue_cursor r = s + n - CONFIG_QUEUE_SIZE" using assms by (simp add: mod_if)
  then show ?thesis using assms False by (auto simp: host_length_def Let_def)
qed

lemma host_length_part:
  assumes "stores_at p r ps part" "part \<noteq> []" "queued_bytes r < CONFIG_QUEUE_SIZE"
  shows "host_length r = length part"
  by (rule host_length_eq [OF refl]) (use assms in \<open>simp_all add: stores_at_def mod_add_left_eq add.assoc\<close>)

lemma stores_host_end:
  assumes "stores r ps part" "part \<noteq> []" "queue_height r < CONFIG_QUEUE_MAX_LENGTH"
  shows "stores (host_end r) (ps @ [part]) [] \<and> host_end r \<noteq> r"
proof -
  obtain p where s: "stores_at p r ps part" and q: "queued_bytes r < CONFIG_QUEUE_SIZE" using assms(1,2) by (auto simp: stores_def)
  have f: "\<not> fifo_isfull (packet_starts r)" using starts_full [OF s] stores_height [OF s] assms(3) by simp
  have l: "host_length r = length part" by (rule host_length_part [OF s assms(2) q])
  have e: "host_end r = close_packet ((p + length (concat ps)) mod CONFIG_QUEUE_SIZE) (length part) r"
    using f q l s assms(2) by (cases part) (simp_all add: host_end_def MIN_L_def stores_at_def)
  have c: "stores_at p (host_end r) (ps @ [part]) []" unfolding e by (rule stores_close [OF s assms(2) f])
  have "queue_height (host_end r) \<noteq> queue_height r" using c s by (simp add: stores_at_def)
  then show ?thesis using storesI [OF c] by auto
qed

text \<open>Taking a packet.\<close>

lemma stores_take:
  assumes "stores_at p r (d # ps) part"
  shows "\<exists>r1. take_packet r = (r1, length d, if length d \<le> MTU then Some d else None) \<and>
    queue_height r1 = queue_height r \<and> queued_bytes r1 = queued_bytes r \<and>
    stores_at ((p + length d) mod CONFIG_QUEUE_SIZE) (r1\<lparr>queue_height := length ps, queued_bytes := queued_bytes r - length d\<rparr>) ps part"
proof -
  have h: "fifo_held (packet_starts r) = p # offsets ((p + length d) mod CONFIG_QUEUE_SIZE) ps" "fifo_held (packet_lengths r) = length d # map length ps"
    and o: "fifo_ok (packet_starts r)" "fifo_ok (packet_lengths r)" using assms by (simp_all add: stores_at_def ring_ok_def)
  obtain ss ls where ps: "fifo_pop (packet_starts r) = (p, ss)" "fifo_held ss = offsets ((p + length d) mod CONFIG_QUEUE_SIZE) ps" "fifo_ok ss"
      "fifo_pop (packet_lengths r) = (length d, ls)" "fifo_held ls = map length ps" "fifo_ok ls"
    using fifo_pop_held [OF o(1) h(1)] fifo_pop_held [OF o(2) h(2)] fifo_pop_ok [OF o(1)] fifo_pop_ok [OF o(2)] by (metis prod.collapse)
  let ?r1 = "r\<lparr>packet_starts := ss, packet_lengths := ls\<rparr>"
  have l: "last_cell ss = last_cell (packet_starts r)" "last_cell ls = last_cell (packet_lengths r)"
    using ps fifo_last(2) by (metis snd_conv)+
  have w: "copy_out p (queued_bytes r) r = d @ concat ps @ part" "queued_bytes r = length d + length (concat ps @ part)" "length ps < 256"
    using assms stores_height [OF assms] by (simp_all add: stores_at_def CONFIG_QUEUE_MAX_LENGTH_def)
  have d: "copy_out p (length d) r = d"
    using window_slice [of 0 "length d" "queued_bytes r" p r] assms w by (simp add: stores_at_def)
  have "copy_out ((p + length d) mod CONFIG_QUEUE_SIZE) (queued_bytes r - length d) r = concat ps @ part"
    using window_slice [of "length d" "queued_bytes r - length d" "queued_bytes r" p r] w by simp
  then have c: "copy_out ((p + length d) mod CONFIG_QUEUE_SIZE) (queued_bytes r - length d) (?r1\<lparr>queue_height := length ps, queued_bytes := queued_bytes r - length d\<rparr>) = concat ps @ part"
    using copy_out_cong [of "?r1\<lparr>queue_height := length ps, queued_bytes := queued_bytes r - length d\<rparr>" r] by simp
  have k: "ring_ok (?r1\<lparr>queue_height := length ps, queued_bytes := queued_bytes r - length d\<rparr>)"
    using assms ps l w(3) by (auto simp: stores_at_def ring_ok_def dest: offsets_bounded)
  have "d \<noteq> []" using assms by (auto simp: stores_at_def)
  then have "take_packet r = (?r1, length d, if length d \<le> MTU then Some d else None)"
    using ps(1,4) d by (cases d) (simp_all add: take_packet_def MIN_L_def)
  moreover have "stores_at ((p + length d) mod CONFIG_QUEUE_SIZE) (?r1\<lparr>queue_height := length ps, queued_bytes := queued_bytes r - length d\<rparr>) ps part"
    using assms ps k c w by (simp add: stores_at_def mod_add_left_eq add.assoc)
  ultimately show ?thesis by simp
qed

definition within_mtu :: "bytes list \<Rightarrow> bytes list" where
  "within_mtu ps = filter (\<lambda>d. length d \<le> MTU) ps"

lemma fits_simps [simp]: "within_mtu [] = []" "within_mtu (d # ps) = (if length d \<le> MTU then d # within_mtu ps else within_mtu ps)" "within_mtu (ps @ qs) = within_mtu ps @ within_mtu qs"
  by (simp_all add: within_mtu_def)

lemma sub_mod: "b \<le> a \<Longrightarrow> a < m \<Longrightarrow> (a + (m - b mod m)) mod m = (a :: nat) - b"
proof -
  assume "b \<le> a" "a < m"
  then have "a + (m - b mod m) = (a - b) + m" by simp
  then show ?thesis using \<open>a < m\<close> by (simp add: less_imp_diff_less)
qed

lemma stores_pop:
  assumes "stores r (d # ps) part"
  shows "stores (fst (pop_queue r)) ps part \<and> snd (pop_queue r) = within_mtu [d]"
proof -
  obtain p where s: "stores_at p r (d # ps) part" and q: "part \<noteq> [] \<Longrightarrow> queued_bytes r < CONFIG_QUEUE_SIZE" using assms by (auto simp: stores_def)
  obtain r1 where t: "take_packet r = (r1, length d, if length d \<le> MTU then Some d else None)" "queue_height r1 = queue_height r" "queued_bytes r1 = queued_bytes r"
      "stores_at ((p + length d) mod CONFIG_QUEUE_SIZE) (r1\<lparr>queue_height := length ps, queued_bytes := queued_bytes r - length d\<rparr>) ps part"
    using stores_take [OF s] by blast
  have e: "\<not> fifo_isempty (packet_starts r)" using starts_empty [OF s] by simp
  have l: "length d \<le> queued_bytes r" "queued_bytes r < 65536" "length d < 65536" "length ps < 256" "queue_height r = Suc (length ps)"
    using s stores_height [OF s] by (simp_all add: stores_at_def CONFIG_QUEUE_SIZE_def CONFIG_QUEUE_MAX_LENGTH_def)
  have a: "(queued_bytes r + (65536 - length d mod 65536)) mod 65536 = queued_bytes r - length d"
    using l by (intro sub_mod) simp_all
  have b: "(queue_height r + 255) mod 256 = length ps" using l by simp
  have "fst (pop_queue r) = r1\<lparr>queue_height := length ps, queued_bytes := queued_bytes r - length d\<rparr>" "snd (pop_queue r) = within_mtu [d]"
    using e t a b by (simp_all add: pop_queue_def)
  moreover have "stores (r1\<lparr>queue_height := length ps, queued_bytes := queued_bytes r - length d\<rparr>) ps part"
  proof (rule storesI [OF t(4)])
    assume "part \<noteq> []"
    then show "queued_bytes (r1\<lparr>queue_height := length ps, queued_bytes := queued_bytes r - length d\<rparr>) < CONFIG_QUEUE_SIZE" using q by simp
  qed
  ultimately show ?thesis by simp
qed

lemma take_packet_counters:
  "take_packet (r\<lparr>queue_height := a, queued_bytes := b\<rparr>) =
    (case take_packet r of (r1, l, p) \<Rightarrow> (r1\<lparr>queue_height := a, queued_bytes := b\<rparr>, l, p))"
  by (simp add: take_packet_def copy_out_def split_beta)

lemma flush_all:
  assumes "stores_at p (r\<lparr>queue_height := a, queued_bytes := b\<rparr>) ps part" "length ps < n"
  shows "snd (flush_loop n r) = within_mtu ps \<and>
    (\<exists>p'. stores_at p' ((fst (flush_loop n r))\<lparr>queue_height := 0, queued_bytes := length part\<rparr>) [] part)"
  using assms
proof (induction ps arbitrary: p r a b n)
  case Nil
  then obtain m where n: "n = Suc m" by (cases n) auto
  have "fifo_isempty (packet_starts r)" using starts_empty [OF Nil.prems(1)] by simp
  moreover have "stores_at p (r\<lparr>queue_height := 0, queued_bytes := length part\<rparr>) [] part"
    using Nil.prems(1) by (auto simp: stores_at_def)
  ultimately show ?case using n by auto
next
  case (Cons d ps)
  let ?r = "r\<lparr>queue_height := a, queued_bytes := b\<rparr>"
  from Cons.prems obtain m where n: "n = Suc m" "length ps < m" by (cases n) auto
  obtain r1 where t: "take_packet ?r = (r1, length d, if length d \<le> MTU then Some d else None)"
      "stores_at ((p + length d) mod CONFIG_QUEUE_SIZE) (r1\<lparr>queue_height := length ps, queued_bytes := queued_bytes ?r - length d\<rparr>) ps part"
    using stores_take [OF Cons.prems(1)] by blast
  obtain r2 where r2: "take_packet r = (r2, length d, if length d \<le> MTU then Some d else None)" "r1 = r2\<lparr>queue_height := a, queued_bytes := b\<rparr>"
    using t(1) by (auto simp: take_packet_counters split: prod.splits)
  have "stores_at ((p + length d) mod CONFIG_QUEUE_SIZE) (r2\<lparr>queue_height := length ps, queued_bytes := b - length d\<rparr>) ps part"
    using t(2) r2(2) by simp
  from Cons.IH [OF this n(2)] show ?case
    using starts_empty [OF Cons.prems(1)] n r2(1) by (auto simp: split_beta)
qed

lemma stores_flush:
  assumes "stores r ps []"
  shows "stores (fst (flush_queue r)) [] [] \<and> snd (flush_queue r) = within_mtu ps"
proof -
  obtain p where s: "stores_at p r ps []" using assms by (auto simp: stores_def)
  have l: "length ps < Suc (last_cell (packet_starts r))" using stores_height [OF s] s by (simp add: stores_at_def ring_ok_def)
  have "stores_at p (r\<lparr>queue_height := queue_height r, queued_bytes := queued_bytes r\<rparr>) ps []" using s by simp
  from flush_all [OF this l] show ?thesis by (auto simp: flush_queue_def split_beta intro: storesI)
qed

section \<open>The queue as a machine\<close>

text \<open>
  The events of the main loop: the stack sends a packet, a byte of a host frame and its end, the drain of the hold queue, and a
  turn of the radio, which pops one packet (\<open>Turn True\<close>, at the faster bit rates) or flushes the ring.
  The turn comes only with a packet in the ring, as in \<open>tx_queue_handler\<close>.
\<close>

datatype tx_event = Send bytes | HostByte u8 | HostEnd | Drain | Turn bool

definition radio_turn :: "bool \<Rightarrow> tx_ring \<Rightarrow> tx_ring \<times> bytes list" where
  "radio_turn one r = (if queue_height r > 0 then (if one then pop_queue r else flush_queue r) else (r, []))"

fun tx_step :: "txq \<Rightarrow> tx_event \<Rightarrow> txq \<times> tx_out list" where
  "tx_step q (Send d) = send_outgoing d q"
| "tx_step q (HostByte b) =
    (q\<lparr>ring := host_byte b (ring q)\<rparr>, if queued_bytes (host_byte b (ring q)) = queued_bytes (ring q) then [] else [Host_stored b])"
| "tx_step q HostEnd =
    (q\<lparr>ring := host_end (ring q)\<rparr>, if queue_height (host_end (ring q)) = queue_height (ring q) then [] else [Host_queued])"
| "tx_step q Drain = (drain_tx_hold_queue q, [])"
| "tx_step q (Turn one) = (case radio_turn one (ring q) of (r, ps) \<Rightarrow> (q\<lparr>ring := r\<rparr>, map Transmit ps))"

text \<open>
  A careful host: every frame has a byte and within_mtu, and the stack and a flush do not come between the bytes of a frame.
\<close>

fun careful_host :: "txq \<Rightarrow> tx_event \<Rightarrow> bool" where
  "careful_host q (Send d) = (current_packet_start (ring q) = queue_cursor (ring q))"
| "careful_host q (HostByte b) = (queue_height (ring q) < CONFIG_QUEUE_MAX_LENGTH \<and> queued_bytes (ring q) + 1 < CONFIG_QUEUE_SIZE)"
| "careful_host q HostEnd = (queue_height (ring q) < CONFIG_QUEUE_MAX_LENGTH \<and> current_packet_start (ring q) \<noteq> queue_cursor (ring q))"
| "careful_host q Drain = (current_packet_start (ring q) = queue_cursor (ring q) \<or> tx_hold_queue q = [])"
| "careful_host q (Turn one) = (one \<or> current_packet_start (ring q) = queue_cursor (ring q))"

text \<open>What was taken over, in order, from the outputs: the packets of the stack, and the host frames, \<open>part\<close> the unfinished one.\<close>

fun stack_packets :: "tx_out list \<Rightarrow> bytes list" where
  "stack_packets [] = []"
| "stack_packets (Accepted d # os) = d # stack_packets os"
| "stack_packets (o1 # os) = stack_packets os"

fun host_frames :: "bytes \<Rightarrow> tx_out list \<Rightarrow> bytes list \<times> bytes" where
  "host_frames part [] = ([], part)"
| "host_frames part (Host_stored b # os) = host_frames (part @ [b]) os"
| "host_frames part (Host_queued # os) = (case host_frames [] os of (ps, part') \<Rightarrow> (part # ps, part'))"
| "host_frames part (o1 # os) = host_frames part os"

fun transmitted :: "tx_out list \<Rightarrow> bytes list" where
  "transmitted [] = []"
| "transmitted (Transmit d # os) = d # transmitted os"
| "transmitted (o1 # os) = transmitted os"

text \<open>What waits: the packets of the ring, then the held ones.\<close>

definition ring_packets :: "tx_ring \<Rightarrow> bytes list" where
  "ring_packets r = map (\<lambda>(s, l). copy_out s l r) (zip (fifo_held (packet_starts r)) (fifo_held (packet_lengths r)))"

definition waiting :: "txq \<Rightarrow> bytes list" where
  "waiting q = ring_packets (ring q) @ tx_hold_queue q"

section \<open>First in, first out\<close>

lemma cursor_part:
  assumes "stores_at p r ps part" "part \<noteq> [] \<Longrightarrow> queued_bytes r < CONFIG_QUEUE_SIZE"
  shows "current_packet_start r = queue_cursor r \<longleftrightarrow> part = []"
proof (cases part)
  case (Cons b bs)
  have "queue_cursor r = (current_packet_start r + length part) mod CONFIG_QUEUE_SIZE" "current_packet_start r < CONFIG_QUEUE_SIZE"
    using assms(1) by (simp_all add: stores_at_def mod_add_left_eq add.assoc)
  moreover have "length part < CONFIG_QUEUE_SIZE" "0 < length part" using assms Cons by (auto simp: stores_at_def)
  ultimately show ?thesis using cell_differs [of 0 "length part" CONFIG_QUEUE_SIZE "current_packet_start r"] Cons by simp
qed (use assms in \<open>simp add: stores_at_def\<close>)

lemma stores_cursor: "stores r ps part \<Longrightarrow> current_packet_start r = queue_cursor r \<longleftrightarrow> part = []"
  using cursor_part by (auto simp: stores_def)

lemma stores_packets: "stores r ps part \<Longrightarrow> ring_packets r = ps"
proof -
  assume "stores r ps part"
  then obtain p where s: "stores_at p r ps part" by (auto simp: stores_def)
  have "map (\<lambda>(s, l). copy_out s l r) (zip (offsets ((p + k) mod CONFIG_QUEUE_SIZE) qs) (map length qs)) = qs"
    if "copy_out p (k + length (concat qs @ part)) r = pre @ concat qs @ part" "length pre = k" for qs k pre
    using that
  proof (induction qs arbitrary: k pre)
    case (Cons q qs)
    have "copy_out ((p + k) mod CONFIG_QUEUE_SIZE) (length q) r = q"
      using window_slice [of k "length q" "k + length (concat (q # qs) @ part)" p r] Cons.prems by simp
    moreover have "(p + k + length q) mod CONFIG_QUEUE_SIZE = ((p + (k + length q)) mod CONFIG_QUEUE_SIZE)" by (simp add: add.assoc)
    ultimately show ?case using Cons.IH [of "k + length q" "pre @ q"] Cons.prems by (simp add: mod_add_left_eq add.assoc)
  qed simp
  from this [of 0 ps "[]"] show ?thesis using s by (simp add: ring_packets_def stores_at_def)
qed

text \<open>
  The whole queue, with the writer of each packet: \<open>True\<close> for the host. A host frame goes to the ring
  at once, past the held packets of the stack.
\<close>

type_synonym tagged = "bool \<times> bytes"

definition keeps :: "txq \<Rightarrow> tagged list \<Rightarrow> bytes \<Rightarrow> bool" where
  "keeps q ts part \<longleftrightarrow> (\<exists>rs. stores (ring q) (map snd rs) part \<and> ts = rs @ map (Pair False) (tx_hold_queue q) \<and>
    tx_hold_bytes q = length (concat (tx_hold_queue q)) \<and> tx_hold_bytes q \<le> TX_HOLD_MAX_BYTES \<and> [] \<notin> set (tx_hold_queue q))"

lemma keeps_init: "keeps txq_init [] []"
  by (simp add: keeps_def txq_init_def stores_init TX_HOLD_MAX_BYTES_def)

lemma keeps_waiting: "keeps q ts part \<Longrightarrow> waiting q = map snd ts"
  by (auto simp: keeps_def waiting_def stores_packets comp_def)

lemma drain_keeps:
  assumes "stores (ring q) (map snd rs) []" "tx_hold_queue q = ds" "tx_hold_bytes q = length (concat ds)" "tx_hold_bytes q \<le> TX_HOLD_MAX_BYTES" "[] \<notin> set ds"
  shows "keeps (drain_loop ds q) (rs @ map (Pair False) ds) []"
  using assms
proof (induction ds arbitrary: q rs)
  case (Cons d ds)
  show ?case
  proof (cases "lora_ring_has_space (length d) (ring q)")
    case True
    let ?q = "q\<lparr>ring := lora_ring_enqueue d (ring q), tx_hold_queue := ds, tx_hold_bytes := sub32 (tx_hold_bytes q) (length d)\<rparr>"
    have "sub32 (tx_hold_bytes q) (length d) = length (concat ds)" using Cons.prems by (simp add: sub32_le TX_HOLD_MAX_BYTES_def)
    then have "keeps (drain_loop ds ?q) ((rs @ [(False, d)]) @ map (Pair False) ds) []"
      using Cons.prems stores_enqueue [OF Cons.prems(1) True] by (intro Cons.IH) auto
    then show ?thesis using True by simp
  qed (use Cons.prems in \<open>auto simp: keeps_def\<close>)
qed (auto simp: keeps_def)

lemma keeps_drain: "keeps q ts [] \<Longrightarrow> keeps (drain_tx_hold_queue q) ts []"
  unfolding drain_tx_hold_queue_def using drain_keeps by (auto simp: keeps_def)

lemma keeps_send:
  assumes "keeps q ts []"
  shows "(\<exists>q'. send_outgoing d q = (q', [Accepted d]) \<and> d \<noteq> [] \<and> length d \<le> MTU \<and> keeps q' (ts @ [(False, d)]) []) \<or>
    (\<exists>q'. send_outgoing d q = (q', [Dropped d]) \<and> keeps q' ts [])"
proof (cases "length d < MIN_L \<or> length d > MTU")
  case True
  then show ?thesis using assms by (simp add: send_outgoing_def drop_packet_def keeps_def)
next
  case False
  then have d: "d \<noteq> []" "length d \<le> MTU" by (auto simp: MIN_L_def)
  let ?q = "drain_tx_hold_queue q"
  have k: "keeps ?q ts []" by (rule keeps_drain [OF assms])
  then obtain rs where rs: "stores (ring ?q) (map snd rs) []" "ts = rs @ map (Pair False) (tx_hold_queue ?q)"
      "tx_hold_bytes ?q = length (concat (tx_hold_queue ?q))" "tx_hold_bytes ?q \<le> TX_HOLD_MAX_BYTES" "[] \<notin> set (tx_hold_queue ?q)"
    by (auto simp: keeps_def)
  consider (ring) "tx_hold_queue ?q = []" "lora_ring_has_space (length d) (ring ?q)"
    | (hold) "\<not> (tx_hold_queue ?q = [] \<and> lora_ring_has_space (length d) (ring ?q))" "tx_hold_bytes ?q + length d \<le> TX_HOLD_MAX_BYTES"
    | (drop) "\<not> (tx_hold_queue ?q = [] \<and> lora_ring_has_space (length d) (ring ?q))" "\<not> tx_hold_bytes ?q + length d \<le> TX_HOLD_MAX_BYTES"
    by blast
  then show ?thesis
  proof cases
    case ring
    have "stores (lora_ring_enqueue d (ring ?q)) (map snd (rs @ [(False, d)])) []" using stores_enqueue [OF rs(1) ring(2) d(1)] by simp
    then show ?thesis using False d rs ring by (intro disjI1) (simp add: send_outgoing_def keeps_def Let_def)
  next
    case hold
    then have "wrap32 (tx_hold_bytes ?q + length d) = tx_hold_bytes ?q + length d" by (simp add: TX_HOLD_MAX_BYTES_def)
    then show ?thesis using False d rs hold by (auto simp: send_outgoing_def keeps_def Let_def)
  next
    case drop
    then show ?thesis using False k by (auto simp: send_outgoing_def drop_packet_def keeps_def Let_def)
  qed
qed

lemma stack_packets_append [simp]: "stack_packets (xs @ ys) = stack_packets xs @ stack_packets ys"
  by (induction xs rule: stack_packets.induct) simp_all

lemma host_frames_append:
  "host_frames part (xs @ ys) = (case host_frames part xs of (ps, p1) \<Rightarrow> case host_frames p1 ys of (qs, p2) \<Rightarrow> (ps @ qs, p2))"
  by (induction part xs rule: host_frames.induct) (auto split: prod.splits)

lemma transmitted_append [simp]: "transmitted (xs @ ys) = transmitted xs @ transmitted ys"
  by (induction xs rule: transmitted.induct) simp_all

lemma transmits [simp]: "transmitted (map Transmit ps) = ps" "stack_packets (map Transmit ps) = []" "host_frames part (map Transmit ps) = ([], part)"
  by (induction ps) simp_all

text \<open>Sent and waiting is taken over, in the order of each writer, up to packets longer than the radio's 508 bytes.\<close>

definition from_writer :: "bool \<Rightarrow> tagged list \<Rightarrow> bytes list" where
  "from_writer h ts = within_mtu (map snd (filter (\<lambda>t. fst t = h) ts))"

lemma from_writer_append [simp]: "from_writer h (xs @ ys) = from_writer h xs @ from_writer h ys" "from_writer h [] = []"
  by (simp_all add: from_writer_def)

definition conserves :: "txq \<Rightarrow> txq \<Rightarrow> tx_out list \<Rightarrow> bool" where
  "conserves q q' os \<longleftrightarrow> (\<forall>ts part. keeps q ts part \<longrightarrow>
    (\<exists>tx ts'. map snd tx = transmitted os \<and> keeps q' ts' (snd (host_frames part os)) \<and>
      from_writer False (tx @ ts') = from_writer False ts @ within_mtu (stack_packets os) \<and>
      from_writer True (tx @ ts') = from_writer True ts @ within_mtu (fst (host_frames part os))))"

lemma turn_stores:
  assumes "stores r (map snd rs) part" "one \<or> part = []"
  shows "\<exists>tx rs'. stores (fst (radio_turn one r)) (map snd rs') part \<and> map snd tx = snd (radio_turn one r) \<and>
    (\<forall>h. from_writer h (tx @ rs') = from_writer h rs)"
proof -
  have h: "queue_height r = length rs" using assms(1) stores_height by (auto simp: stores_def)
  show ?thesis
  proof (cases rs)
    case Nil
    then show ?thesis using h assms by (auto simp: radio_turn_def intro!: exI [of _ "[]"])
  next
    case (Cons d rs')
    show ?thesis
    proof (cases one)
      case True
      have "stores r (snd d # map snd rs') part" using assms(1) Cons by simp
      from stores_pop [OF this] show ?thesis using True h Cons
        by (intro exI [of _ "filter (\<lambda>t. length (snd t) \<le> MTU) [d]"] exI [of _ rs']) (simp add: radio_turn_def from_writer_def)
    next
      case False
      let ?tx = "filter (\<lambda>t. length (snd t) \<le> MTU) rs"
      have "map snd ?tx = within_mtu (map snd rs)" by (simp add: within_mtu_def filter_map comp_def)
      moreover have "from_writer g ?tx = from_writer g rs" for g
        by (simp add: from_writer_def within_mtu_def filter_map comp_def) (rule arg_cong [of _ _ "map snd"], rule filter_cong, auto)
      ultimately show ?thesis using stores_flush [of r "map snd rs"] assms h Cons False
        by (intro exI [of _ ?tx] exI [of _ "[]"]) (simp add: radio_turn_def)
    qed
  qed
qed

lemma step_conserves: "careful_host q e \<Longrightarrow> conserves q (fst (tx_step q e)) (snd (tx_step q e))"
  unfolding conserves_def
proof (intro allI impI)
  fix ts part assume c: "careful_host q e" and k: "keeps q ts part"
  then obtain rs where rs: "stores (ring q) (map snd rs) part" "ts = rs @ map (Pair False) (tx_hold_queue q)" by (auto simp: keeps_def)
  note cur = stores_cursor [OF rs(1)]
  show "\<exists>tx ts'. map snd tx = transmitted (snd (tx_step q e)) \<and> keeps (fst (tx_step q e)) ts' (snd (host_frames part (snd (tx_step q e)))) \<and>
      from_writer False (tx @ ts') = from_writer False ts @ within_mtu (stack_packets (snd (tx_step q e))) \<and>
      from_writer True (tx @ ts') = from_writer True ts @ within_mtu (fst (host_frames part (snd (tx_step q e))))"
    (is "\<exists>tx ts'. ?P tx ts'")
  proof (cases e)
    case (Send d)
    then have "part = []" using c cur by simp
    then consider (sent) q' where "send_outgoing d q = (q', [Accepted d])" "length d \<le> MTU" "keeps q' (ts @ [(False, d)]) []"
      | (lost) q' where "send_outgoing d q = (q', [Dropped d])" "keeps q' ts []"
      using keeps_send [of q ts d] k by auto
    then show ?thesis
    proof cases
      case sent
      then have "?P [] (ts @ [(False, d)])" using Send \<open>part = []\<close> by (simp add: from_writer_def)
      then show ?thesis by blast
    next
      case lost
      then have "?P [] ts" using Send \<open>part = []\<close> by simp
      then show ?thesis by blast
    qed
  next
    case (HostByte b)
    have s: "stores (host_byte b (ring q)) (map snd rs) (part @ [b])" using stores_host_byte [OF rs(1)] c HostByte by simp
    have "queued_bytes (host_byte b (ring q)) = Suc (queued_bytes (ring q))" using c HostByte by (simp add: host_byte_def)
    then have "?P [] ts" using HostByte s k rs by (auto simp: keeps_def)
    then show ?thesis by blast
  next
    case HostEnd
    then have p: "part \<noteq> []" "queue_height (ring q) < CONFIG_QUEUE_MAX_LENGTH" using c cur by auto
    have s: "stores (host_end (ring q)) (map snd (rs @ [(True, part)])) []" using stores_host_end [OF rs(1) p] by simp
    then have "queue_height (host_end (ring q)) = Suc (length rs)" "queue_height (ring q) = length rs"
      using rs(1) stores_height by (auto simp: stores_def)
    moreover have "keeps (q\<lparr>ring := host_end (ring q)\<rparr>) ((rs @ [(True, part)]) @ map (Pair False) (tx_hold_queue q)) []"
      using s k unfolding keeps_def by auto
    ultimately have "?P [] ((rs @ [(True, part)]) @ map (Pair False) (tx_hold_queue q))"
      using HostEnd rs by (simp add: from_writer_def filter_map comp_def)
    then show ?thesis by blast
  next
    case Drain
    have "keeps (drain_tx_hold_queue q) ts part"
    proof (cases "tx_hold_queue q = []")
      case True
      then show ?thesis using k by (simp add: drain_tx_hold_queue_def)
    next
      case False
      then have "part = []" using c Drain cur by simp
      then show ?thesis using keeps_drain [of q ts] k by simp
    qed
    then have "?P [] ts" using Drain by simp
    then show ?thesis by blast
  next
    case (Turn one)
    then have "one \<or> part = []" using c cur by simp
    from turn_stores [OF rs(1) this] obtain tx rs' where t: "stores (fst (radio_turn one (ring q))) (map snd rs') part"
        "map snd tx = snd (radio_turn one (ring q))" "\<And>h. from_writer h (tx @ rs') = from_writer h rs" by blast
    have "keeps (q\<lparr>ring := fst (radio_turn one (ring q))\<rparr>) (rs' @ map (Pair False) (tx_hold_queue q)) part"
      using t(1) k unfolding keeps_def by auto
    then have "?P tx (rs' @ map (Pair False) (tx_hold_queue q))"
      using Turn rs(2) t(2,3) by (simp add: split_beta)
    then show ?thesis by blast
  qed
qed

lemma conserves_trans:
  assumes "conserves a b xs" "conserves b c ys"
  shows "conserves a c (xs @ ys)"
  unfolding conserves_def
proof (intro allI impI)
  fix ts part assume "keeps a ts part"
  then obtain tx ts1 where 1: "map snd tx = transmitted xs" "keeps b ts1 (snd (host_frames part xs))"
      "from_writer False (tx @ ts1) = from_writer False ts @ within_mtu (stack_packets xs)" "from_writer True (tx @ ts1) = from_writer True ts @ within_mtu (fst (host_frames part xs))"
    using assms(1) unfolding conserves_def by blast
  then obtain ty ts2 where 2: "map snd ty = transmitted ys" "keeps c ts2 (snd (host_frames (snd (host_frames part xs)) ys))"
      "from_writer False (ty @ ts2) = from_writer False ts1 @ within_mtu (stack_packets ys)"
      "from_writer True (ty @ ts2) = from_writer True ts1 @ within_mtu (fst (host_frames (snd (host_frames part xs)) ys))"
    using assms(2) unfolding conserves_def by blast
  have F: "from_writer False ((tx @ ty) @ ts2) = from_writer False (tx @ ts1) @ within_mtu (stack_packets ys)" using 2(3) by simp
  have T: "from_writer True ((tx @ ty) @ ts2) = from_writer True (tx @ ts1) @ within_mtu (fst (host_frames (snd (host_frames part xs)) ys))"
    using 2(4) by simp
  have h: "host_frames part (xs @ ys) = (fst (host_frames part xs) @ fst (host_frames (snd (host_frames part xs)) ys),
      snd (host_frames (snd (host_frames part xs)) ys))" by (simp add: host_frames_append split_beta)
  show "\<exists>tx ts'. map snd tx = transmitted (xs @ ys) \<and> keeps c ts' (snd (host_frames part (xs @ ys))) \<and>
      from_writer False (tx @ ts') = from_writer False ts @ within_mtu (stack_packets (xs @ ys)) \<and>
      from_writer True (tx @ ts') = from_writer True ts @ within_mtu (fst (host_frames part (xs @ ys)))"
    by (rule exI [of _ "tx @ ty"], rule exI [of _ ts2], unfold F T 1(3,4) h fst_conv snd_conv, insert 1(1) 2(1,2)) simp
qed

interpretation txs: traced tx_step "\<lambda>q. True" careful_host conserves
proof unfold_locales
  show "conserves q q []" for q unfolding conserves_def by (auto intro: exI [of _ "[]"])
qed (simp_all add: step_conserves conserves_trans)

section \<open>Every access stays in its buffer\<close>

lemma ring_put [intro]: "ring_ok r \<Longrightarrow> ring_ok (put_byte b r)"
  using put_byte_cursor [of r b] by (auto simp: ring_ok_def)

lemma ring_puts: "ring_ok r \<Longrightarrow> ring_ok (fold put_byte d r)"
  by (induction d arbitrary: r) auto

lemma ring_close:
  assumes "ring_ok r" "\<not> fifo_isfull (packet_starts r)" "s < CONFIG_QUEUE_SIZE"
  shows "ring_ok (close_packet s l r)"
proof -
  have "\<not> fifo_isfull (packet_lengths r)"
    using assms(1,2) fifo_held_room [of "packet_starts r"] fifo_held_room [of "packet_lengths r"]
      fifo_full_iff [of "packet_starts r"] fifo_full_iff [of "packet_lengths r"] by (auto simp: ring_ok_def)
  then show ?thesis
    using assms by (auto simp: ring_ok_def close_packet_def fifo_push_ok fifo_push_held)
qed

lemma ring_enqueue: "ring_ok r \<Longrightarrow> lora_ring_has_space n r \<Longrightarrow> ring_ok (lora_ring_enqueue d r)"
  using ring_puts [of r d] unfolding lora_ring_enqueue_def Let_def
  by (intro ring_close) (auto simp: ring_ok_def lora_ring_has_space_def)

lemma ring_counters:
  assumes "ring_ok r"
  shows "b < 65536 \<Longrightarrow> ring_ok (r\<lparr>queued_bytes := b\<rparr>)" "a < 256 \<Longrightarrow> ring_ok (r\<lparr>queue_height := a\<rparr>)"
  using assms by (simp_all add: ring_ok_def)

lemma ring_host_byte: "ring_ok r \<Longrightarrow> ring_ok (host_byte b r)"
  unfolding host_byte_def by (auto simp: CONFIG_QUEUE_SIZE_def intro!: ring_put ring_counters)

lemma ring_host_end: "ring_ok r \<Longrightarrow> ring_ok (host_end r)"
  unfolding host_end_def by (auto intro!: ring_close) (simp add: ring_ok_def)

lemma ring_take:
  assumes "ring_ok r" "\<not> fifo_isempty (packet_starts r)"
  shows "ring_ok (fst (take_packet r))"
proof -
  have o: "fifo_ok (packet_starts r)" "fifo_ok (packet_lengths r)" using assms(1) by (simp_all add: ring_ok_def)
  obtain s ss l ls where h: "fifo_held (packet_starts r) = s # ss" "fifo_held (packet_lengths r) = l # ls"
    using assms fifo_empty_iff [OF o(1)] by (cases "fifo_held (packet_starts r)"; cases "fifo_held (packet_lengths r)") (auto simp: ring_ok_def)
  show ?thesis
    using assms(1) fifo_pop_held [OF o(1) h(1)] fifo_pop_held [OF o(2) h(2)] fifo_pop_ok [OF o(1)] fifo_pop_ok [OF o(2)] h
    by (auto simp: ring_ok_def take_packet_def split_beta)
qed

lemma ring_pop: "ring_ok r \<Longrightarrow> ring_ok (fst (pop_queue r))"
  using ring_take [of r] by (auto simp: pop_queue_def split_beta intro!: ring_counters)

lemma ring_flush_loop: "ring_ok r \<Longrightarrow> ring_ok (fst (flush_loop n r))"
proof (induction n arbitrary: r)
  case (Suc n)
  then show ?case using ring_take [of r] by (auto simp: split_beta)
qed simp

lemma ring_turn: "ring_ok r \<Longrightarrow> ring_ok (fst (radio_turn one r))"
  using ring_pop [of r] ring_flush_loop [of r] by (auto simp: radio_turn_def flush_queue_def split_beta simp del: flush_loop.simps intro!: ring_counters)

definition txq_ok :: "txq \<Rightarrow> bool" where
  "txq_ok q \<longleftrightarrow> ring_ok (ring q) \<and> tx_hold_bytes q = length (concat (tx_hold_queue q)) \<and> tx_hold_bytes q \<le> TX_HOLD_MAX_BYTES \<and>
    (\<forall>d \<in> set (tx_hold_queue q). d \<noteq> [] \<and> length d \<le> MTU)"

lemma drain_ok:
  "txq_ok q \<Longrightarrow> tx_hold_queue q = ds \<Longrightarrow> txq_ok (drain_loop ds q)"
proof (induction ds arbitrary: q)
  case (Cons d ds)
  let ?q = "q\<lparr>ring := lora_ring_enqueue d (ring q), tx_hold_queue := ds, tx_hold_bytes := sub32 (tx_hold_bytes q) (length d)\<rparr>"
  have "sub32 (tx_hold_bytes q) (length d) = length (concat ds)" using Cons.prems by (simp add: txq_ok_def sub32_le TX_HOLD_MAX_BYTES_def)
  then have "txq_ok ?q" if "lora_ring_has_space (length d) (ring q)"
    using Cons.prems ring_enqueue [OF _ that, of d] by (auto simp: txq_ok_def)
  then show ?case using Cons.IH [of ?q] Cons.prems by auto
qed simp

lemma send_ok: "txq_ok q \<Longrightarrow> txq_ok (fst (send_outgoing d q))"
proof -
  assume o: "txq_ok q"
  then have k: "txq_ok (drain_tx_hold_queue q)" using drain_ok by (simp add: drain_tx_hold_queue_def)
  let ?q = "drain_tx_hold_queue q"
  have d: "txq_ok (fst (drop_packet d q'))" if "txq_ok q'" for q' using that by (simp add: drop_packet_def txq_ok_def)
  have e: "txq_ok (?q\<lparr>ring := lora_ring_enqueue d (ring ?q)\<rparr>)" if "lora_ring_has_space (length d) (ring ?q)"
    using k that by (simp add: txq_ok_def ring_enqueue)
  have h: "txq_ok (?q\<lparr>tx_hold_queue := tx_hold_queue ?q @ [d], tx_hold_bytes := wrap32 (tx_hold_bytes ?q + length d)\<rparr>)"
    if "tx_hold_bytes ?q + length d \<le> TX_HOLD_MAX_BYTES" "MIN_L \<le> length d" "length d \<le> MTU"
    using k that by (auto simp: txq_ok_def TX_HOLD_MAX_BYTES_def MIN_L_def)
  show ?thesis using d [OF o] d [OF k] e h by (simp add: send_outgoing_def Let_def)
qed

lemma ring_changed: "txq_ok q \<Longrightarrow> ring_ok r \<Longrightarrow> txq_ok (q\<lparr>ring := r\<rparr>)"
  by (simp add: txq_ok_def)

lemma txq_ring: "txq_ok q \<Longrightarrow> ring_ok (ring q)"
  by (simp add: txq_ok_def)

interpretation tx_bounds: machine tx_step txq_ok
proof unfold_locales
  fix q e assume o: "txq_ok q"
  show "txq_ok (fst (tx_step q e))"
  proof (cases e)
    case Drain
    then show ?thesis using drain_ok [OF o refl] by (simp add: drain_tx_hold_queue_def)
  qed (use o send_ok in \<open>simp_all add: ring_changed txq_ring ring_host_byte ring_host_end ring_turn split_beta\<close>)
qed

lemma txq_init_ok: "txq_ok txq_init"
  using stores_init by (auto simp: txq_ok_def txq_init_def TX_HOLD_MAX_BYTES_def stores_def stores_at_def)

section \<open>Properties\<close>

text \<open>C13. Whatever the host, the stack and the radio do, in any order: every index of the transmit ring lies in its buffer, every counter
  in its type, the two lists of packets have the same length, and the held packets are sendable and add up to
  the held byte count of at most 64 KB.\<close>

theorem ring_typed:
  "\<exists>q. fst (run tx_step es txq_init) = q \<and> ring_ok (ring q) \<and> tx_hold_bytes q = sum_list (map length (tx_hold_queue q)) \<and>
    tx_hold_bytes q \<le> 65536 \<and> length ` set (tx_hold_queue q) \<subseteq> {1 .. 508}"
  using tx_bounds.run_inv [OF txq_init_ok, of es]
  by (auto simp: txq_ok_def TX_HOLD_MAX_BYTES_def MTU_def length_concat Suc_le_eq)

lemma shuffle_tags: "within_mtu (map snd ts) \<in> shuffles (from_writer False ts) (from_writer True ts)"
proof (induction ts)
  case (Cons t ts)
  then show ?case by (cases t; cases "fst t") (auto simp: from_writer_def Cons_in_shuffles_leftI Cons_in_shuffles_rightI)
qed (simp add: from_writer_def)

lemma stack_fits: "txq_ok q \<Longrightarrow> within_mtu (stack_packets (snd (run tx_step es q))) = stack_packets (snd (run tx_step es q))"
proof (induction es arbitrary: q)
  case (Cons e es)
  have "within_mtu (stack_packets (snd (tx_step q e))) = stack_packets (snd (tx_step q e))"
    by (cases e) (auto simp: send_outgoing_def drop_packet_def Let_def split_beta)
  then show ?case using Cons.IH [OF tx_bounds.step_inv [OF Cons.prems]] by (simp add: split_beta)
qed simp


lemma transmitted_fit: "within_mtu (transmitted (snd (run tx_step es q))) = transmitted (snd (run tx_step es q))"
proof -
  have t: "snd (take_packet r) = (l, Some d) \<Longrightarrow> length d \<le> MTU" for r l d by (auto simp: take_packet_def split_beta split: if_splits)
  have f: "within_mtu (snd (flush_loop n r)) = snd (flush_loop n r)" for n r
  proof (induction n arbitrary: r)
    case (Suc n)
    then show ?case using t by (auto simp: split_beta split: option.split) (metis prod.collapse)
  qed simp
  have p: "within_mtu (snd (pop_queue r)) = snd (pop_queue r)" for r
    using t by (auto simp: pop_queue_def split_beta split: option.split) (metis prod.collapse)
  have "within_mtu (transmitted (snd (tx_step q e))) = transmitted (snd (tx_step q e))" for q e
    using f p by (cases e) (auto simp: radio_turn_def flush_queue_def split_beta send_outgoing_def drop_packet_def Let_def simp del: flush_loop.simps)
  then show ?thesis by (induction es arbitrary: q) (auto simp: split_beta)
qed

text \<open>C2. The transmit queue loses, changes and reorders nothing: with a careful host, what was transmitted and what still waits is
  an interleaving of the packets accepted from the stack and the frames queued for the host, each in its order;
  only a packet longer than 508 bytes is left out.\<close>

theorem tx_fifo:
  assumes "run_ok careful_host tx_step es txq_init" "run tx_step es txq_init = (q, os)"
  shows "transmitted os @ within_mtu (waiting q) \<in> shuffles (stack_packets os) (within_mtu (fst (host_frames [] os)))"
proof -
  have "conserves txq_init q os" using txs.run_rel [OF TrueI assms(1)] assms(2) by simp
  then obtain tx ts where t: "map snd tx = transmitted os" "keeps q ts (snd (host_frames [] os))"
      "from_writer False (tx @ ts) = from_writer False [] @ within_mtu (stack_packets os)"
      "from_writer True (tx @ ts) = from_writer True [] @ within_mtu (fst (host_frames [] os))"
    using keeps_init unfolding conserves_def by blast
  have f: "within_mtu (stack_packets os) = stack_packets os" "within_mtu (transmitted os) = transmitted os"
    using stack_fits [OF txq_init_ok, of es] transmitted_fit [of es txq_init] assms(2) by simp_all
  have "within_mtu (map snd (tx @ ts)) = transmitted os @ within_mtu (waiting q)" using t(1) f(2) keeps_waiting [OF t(2)] by simp
  with shuffle_tags [of "tx @ ts"] t(3,4) f(1) show ?thesis by simp
qed

definition sample_turns :: "tx_event list" where
  "sample_turns = [Send [1, 2], HostByte 3, HostEnd, Turn True]"

lemma tx_fifo_witness:
  "\<exists>q os. run tx_step sample_turns txq_init = (q, os) \<and> run_ok careful_host tx_step sample_turns txq_init \<and>
    transmitted os @ within_mtu (waiting q) \<in> shuffles (stack_packets os) (within_mtu (fst (host_frames [] os))) \<and> stack_packets os = [[1, 2]]"
proof -
  have r: "run_ok careful_host tx_step sample_turns txq_init" "stack_packets (snd (run tx_step sample_turns txq_init)) = [[1, 2]]"
    by (simp_all add: sample_turns_def txq_init_def ring_init_def send_outgoing_def drain_tx_hold_queue_def lora_ring_has_space_def
      lora_ring_enqueue_def close_packet_def put_byte_def host_byte_def host_end_def host_length_def radio_turn_def pop_queue_def take_packet_def
      fifo_isfull_def fifo_isempty_def fifo_push_def fifo_pop_def fifo_init_def Let_def CONFIG_QUEUE_SIZE_def CONFIG_QUEUE_MAX_LENGTH_def
      MIN_L_def MTU_def split_beta del: replicate.simps)
  show ?thesis using tx_fifo [OF r(1) prod.collapse [symmetric]] r prod.collapse by metis
qed

text \<open>A queue in which no packet waits and no byte is free.\<close>

definition stuck :: "txq \<Rightarrow> bool" where
  "stuck q \<longleftrightarrow> queue_height (ring q) = 0 \<and> CONFIG_QUEUE_SIZE \<le> queued_bytes (ring q) \<and> [] \<notin> set (tx_hold_queue q)"

lemma ring_stuck_step: "stuck q \<Longrightarrow> stuck (fst (tx_step q e)) \<and> transmitted (snd (tx_step q e)) = []"
proof -
  assume s: "stuck q"
  have n: "\<not> lora_ring_has_space (length d) (ring q)" if "d \<noteq> []" for d using s that by (cases d) (auto simp: stuck_def lora_ring_has_space_def)
  have d: "drain_tx_hold_queue q = q"
  proof (cases "tx_hold_queue q")
    case (Cons a ds)
    then have "a \<noteq> []" using s by (auto simp: stuck_def)
    then show ?thesis using n [of a] Cons by (simp add: drain_tx_hold_queue_def)
  qed (simp add: drain_tx_hold_queue_def)
  show ?thesis
  proof (cases e)
    case (Send d)
    then show ?thesis using s n [of d] d by (cases d) (auto simp: send_outgoing_def drop_packet_def stuck_def Let_def MIN_L_def)
  qed (use s d in \<open>auto simp: stuck_def host_byte_def host_end_def radio_turn_def\<close>)
qed

lemma ring_stuck_run: "stuck q \<Longrightarrow> transmitted (snd (run tx_step es q)) = []"
proof (induction es arbitrary: q)
  case (Cons e es)
  then show ?case using ring_stuck_step [of q e] by (simp add: split_beta)
qed simp

lemma host_bytes: 
  "queue_height (ring q) = 0 \<Longrightarrow> tx_hold_queue q = [] \<Longrightarrow> queued_bytes (ring q) \<le> CONFIG_QUEUE_SIZE \<Longrightarrow>
  \<exists>q'. fst (run tx_step (map HostByte bs) q) = q' \<and> queue_height (ring q') = 0 \<and> tx_hold_queue q' = [] \<and>
    queued_bytes (ring q') = min CONFIG_QUEUE_SIZE (queued_bytes (ring q) + length bs) \<and> transmitted (snd (run tx_step (map HostByte bs) q)) = []"
proof (induction bs arbitrary: q)
  case (Cons b bs)
  have "queue_height (host_byte b (ring q)) = 0" "queued_bytes (host_byte b (ring q)) = min CONFIG_QUEUE_SIZE (Suc (queued_bytes (ring q)))"
    using Cons.prems by (auto simp: host_byte_def CONFIG_QUEUE_MAX_LENGTH_def)
  then show ?case using Cons.IH [of "q\<lparr>ring := host_byte b (ring q)\<rparr>"] Cons.prems by (auto simp: split_beta)
qed simp

lemma run_append: "run step (xs @ ys) s = (let (s1, o1) = run step xs s; (s2, o2) = run step ys s1 in (s2, o1 @ o2))"
  by (induction xs arbitrary: s) (simp_all add: split_beta Let_def)

text \<open>C35. A host frame of 6144 or more data bytes silences the radio until the next reboot: its bytes stay counted although the frame is
  not queued, so no frame of the host and no packet of the stack is ever transmitted again.\<close>

theorem long_frame_wedges:
  assumes "6144 \<le> length bs"
  shows "transmitted (snd (run tx_step (map HostByte bs @ es) txq_init)) = []"
proof -
  obtain q where q: "fst (run tx_step (map HostByte bs) txq_init) = q" "queue_height (ring q) = 0" "tx_hold_queue q = []"
      "queued_bytes (ring q) = min CONFIG_QUEUE_SIZE (length bs)" "transmitted (snd (run tx_step (map HostByte bs) txq_init)) = []"
    using host_bytes [of txq_init bs] by (auto simp: txq_init_def ring_init_def)
  then have "stuck q" using assms by (simp add: stuck_def CONFIG_QUEUE_SIZE_def)
  then show ?thesis using q ring_stuck_run [of q es] by (simp add: run_append split_beta Let_def)
qed

lemma long_frame_wedges_witness:
  "transmitted (snd (run tx_step (map HostByte (replicate 6144 7) @ [HostEnd, Send [1], Turn False]) txq_init)) = []"
  by (rule long_frame_wedges) simp

text \<open>An empty host frame counts as a packet of 6144 bytes; taken out at the faster bit rates it leaves the byte count below zero,
  with the same effect.\<close>

theorem empty_frame_wedges:
  "transmitted (snd (run tx_step ([HostEnd, Turn True] @ es) txq_init)) = []"
proof -
  define q where "q = fst (run tx_step [HostEnd, Turn True] txq_init)"
  have "stuck q \<and> transmitted (snd (run tx_step [HostEnd, Turn True] txq_init)) = []"
    by (simp add: q_def stuck_def txq_init_def ring_init_def close_packet_def host_end_def host_length_def radio_turn_def pop_queue_def take_packet_def
      fifo_isfull_def fifo_isempty_def fifo_push_def fifo_pop_def fifo_init_def Let_def CONFIG_QUEUE_SIZE_def CONFIG_QUEUE_MAX_LENGTH_def
      MIN_L_def MTU_def split_beta del: replicate.simps)
  then show ?thesis using ring_stuck_run [of q es] by (simp only: run_append split_beta Let_def q_def) simp
qed

lemma put_byte_counter: "put_byte b (r\<lparr>queued_bytes := n\<rparr>) = (put_byte b r)\<lparr>queued_bytes := n\<rparr>"
  by (cases r) (simp add: put_byte_def)

lemma host_bytes_put: "queue_height r < CONFIG_QUEUE_MAX_LENGTH \<Longrightarrow> queued_bytes r + length bs \<le> CONFIG_QUEUE_SIZE \<Longrightarrow>
  fold host_byte bs r = (fold put_byte bs r)\<lparr>queued_bytes := queued_bytes r + length bs\<rparr>"
proof (induction bs arbitrary: r)
  case (Cons b bs)
  have c: "fold put_byte bs (r\<lparr>queued_bytes := n\<rparr>) = (fold put_byte bs r)\<lparr>queued_bytes := n\<rparr>" for r n
    by (induction bs arbitrary: r) (simp_all add: put_byte_counter)
  have h: "host_byte b r = (put_byte b r)\<lparr>queued_bytes := queued_bytes r + 1\<rparr>" using Cons.prems by (simp add: host_byte_def put_byte_counter)
  have "fold host_byte bs (host_byte b r) = (fold put_byte bs (host_byte b r))\<lparr>queued_bytes := queued_bytes (host_byte b r) + length bs\<rparr>"
    by (rule Cons.IH) (use Cons.prems h in simp_all)
  then show ?case by (simp add: h c)
qed simp

lemma run_host_bytes: "fst (run tx_step (map HostByte bs) q) = q\<lparr>ring := fold host_byte bs (ring q)\<rparr> \<and>
    transmitted (snd (run tx_step (map HostByte bs) q)) = []"
  by (induction bs arbitrary: q) (simp_all add: split_beta)

lemma cut_ring:
  assumes "a \<noteq> []" "b \<noteq> []" "d \<noteq> []" "length a + length d + length b < 6144" "length d \<le> 508" "length b \<le> 508"
  shows "lora_ring_has_space (length d) (fold host_byte a ring_init) \<and>
    snd (radio_turn False (host_end (fold host_byte b (lora_ring_enqueue d (fold host_byte a ring_init))))) = [d, b]"
proof -
  let ?S = CONFIG_QUEUE_SIZE
  note n = CONFIG_QUEUE_SIZE_def CONFIG_QUEUE_MAX_LENGTH_def
  define r1 where "r1 = (fold put_byte a ring_init)\<lparr>queued_bytes := length a\<rparr>"
  define r2 where "r2 = lora_ring_enqueue d r1"
  define r3 where "r3 = (fold put_byte b r2)\<lparr>queued_bytes := length a + length d + length b\<rparr>"
  have i: "queue_height ring_init = 0" "queued_bytes ring_init = 0" "queue_cursor ring_init = 0" "packet_starts ring_init = fifo_init 0 CONFIG_QUEUE_MAX_LENGTH"
      "packet_lengths ring_init = fifo_init 0 CONFIG_QUEUE_MAX_LENGTH" "length (packet_queue ring_init) = ?S" "current_packet_start ring_init = 0"
    by (simp_all add: ring_init_def)
  have a: "fold host_byte a ring_init = r1" using host_bytes_put [of ring_init a] assms(4) i by (simp add: r1_def n)
  have c1: "queue_cursor r1 = length a" "queue_height r1 = 0" "queued_bytes r1 = length a" "packet_starts r1 = fifo_init 0 CONFIG_QUEUE_MAX_LENGTH"
      "packet_lengths r1 = fifo_init 0 CONFIG_QUEUE_MAX_LENGTH" "length (packet_queue r1) = ?S" "current_packet_start r1 = 0"
    using put_bytes_cursor [of ring_init a] assms(4) i by (simp_all add: r1_def n)
  have sp: "lora_ring_has_space (length d) r1"
    using assms(4) c1 by (simp add: lora_ring_has_space_def n fifo_isfull_def fifo_init_def)
  let ?r2 = "fold put_byte d r1"
  have u2: "queue_cursor ?r2 = length a + length d" "copy_out (length a) (length d) ?r2 = d"
    using put_bytes_cursor [of r1 d] window_puts [of r1 "length a" 0 d] assms(4) c1 by (simp_all add: n copy_out_def)
  have c2: "queue_cursor r2 = length a + length d" "queue_height r2 = 1" "queued_bytes r2 = length a + length d" "length (packet_queue r2) = ?S"
      "packet_starts r2 = fifo_push (length a) (fifo_init 0 CONFIG_QUEUE_MAX_LENGTH)" "packet_lengths r2 = fifo_push (length d) (fifo_init 0 CONFIG_QUEUE_MAX_LENGTH)"
      "current_packet_start r2 = length a + length d"
    using u2 c1 assms(4) by (simp_all add: r2_def lora_ring_enqueue_def close_packet_def Let_def)
  have w2: "copy_out (length a) (length d) r2 = d"
    using u2(2) copy_out_cong [of r2 ?r2] by (simp add: r2_def lora_ring_enqueue_def close_packet_def Let_def)
  have b: "fold host_byte b r2 = r3" using host_bytes_put [of r2 b] assms(4) c2 by (simp add: r3_def n)
  let ?r3 = "fold put_byte b r2"
  have u3: "queue_cursor ?r3 = length a + length d + length b" "copy_out (length a) (length d + length b) ?r3 = d @ b"
    using put_bytes_cursor [of r2 b] window_puts [of r2 "length a" "length d" b] assms(4) c2 w2 by (simp_all add: n)
  have c3: "queue_cursor r3 = length a + length d + length b" "queue_height r3 = 1" "queued_bytes r3 = length a + length d + length b"
      "length (packet_queue r3) = ?S" "current_packet_start r3 = length a + length d"
      "packet_starts r3 = fifo_push (length a) (fifo_init 0 CONFIG_QUEUE_MAX_LENGTH)" "packet_lengths r3 = fifo_push (length d) (fifo_init 0 CONFIG_QUEUE_MAX_LENGTH)"
    using u3 c2 by (simp_all add: r3_def)
  have w3: "copy_out (length a) (length d + length b) r3 = d @ b" using u3(2) copy_out_cong [of r3 ?r3] by (simp add: r3_def)
  have nf: "\<not> fifo_isfull (fifo_push x (fifo_init (0 :: nat) CONFIG_QUEUE_MAX_LENGTH))" for x by (simp add: fifo_isfull_def fifo_push_def fifo_init_def n)
  have fi: "\<not> fifo_isfull (fifo_init (0 :: nat) CONFIG_QUEUE_MAX_LENGTH)" by (simp add: fifo_isfull_def fifo_init_def n)
  have hl: "host_length r3 = length b" by (rule host_length_eq [OF c3(5)]) (use c3 assms in \<open>simp_all add: n\<close>)
  define r4 where "r4 = close_packet (length a + length d) (length b) r3"
  have e: "host_end r3 = r4" using nf hl assms c3 by (cases b) (simp_all add: host_end_def r4_def MIN_L_def n)
  have w4: "copy_out (length a) (length d + length b) (r4\<lparr>queue_height := 2, queued_bytes := length d + length b\<rparr>) = d @ b"
    using w3 copy_out_cong [of "r4\<lparr>queue_height := 2, queued_bytes := length d + length b\<rparr>" r3] by (simp add: r4_def close_packet_def)
  have s: "stores_at (length a) (r4\<lparr>queue_height := 2, queued_bytes := length d + length b\<rparr>) [d, b] []"
    using w4 c3 assms nf fi by (simp add: stores_at_def ring_ok_def r4_def close_packet_def fifo_push_ok fifo_push_held n)
  have l: "last_cell (packet_starts r4) = 200" by (simp add: r4_def close_packet_def c3 n)
  have f: "snd (flush_loop (Suc (last_cell (packet_starts r4))) r4) = [d, b]"
    using flush_all [OF s, of "Suc (last_cell (packet_starts r4))"] assms(5,6) unfolding l by (simp add: MTU_def within_mtu_def)
  have t: "snd (radio_turn False r4) = [d, b]"
    using f c3 by (simp add: radio_turn_def flush_queue_def split_beta del: flush_loop.simps) (simp add: r4_def close_packet_def)
  show ?thesis using sp t by (simp add: a b e flip: r2_def)
qed

text \<open>The two writers share one cursor: a packet the stack sends while a host frame is coming in cuts the frame, and the radio
  transmits only the rest of it, as a packet of its own.\<close>

theorem stack_cuts_host_frame:
  assumes "a \<noteq> []" "b \<noteq> []" "d \<noteq> []" "length a + length d + length b < 6144" "length d \<le> 508" "length b \<le> 508"
  shows "transmitted (snd (run tx_step (map HostByte a @ [Send d] @ map HostByte b @ [HostEnd, Turn False]) txq_init)) = [d, b]"
proof -
  let ?q = "\<lambda>r. txq_init\<lparr>ring := r\<rparr>"
  define r1 r2 r3 where "r1 = fold host_byte a ring_init" and "r2 = lora_ring_enqueue d r1" and "r3 = fold host_byte b r2"
  have c: "lora_ring_has_space (length d) r1" "snd (radio_turn False (host_end r3)) = [d, b]"
    using cut_ring [OF assms] by (simp_all add: r1_def r2_def r3_def)
  have s: "send_outgoing d (?q r1) = (?q r2, [Accepted d])"
    using c(1) assms by (cases d) (auto simp: send_outgoing_def drain_tx_hold_queue_def txq_init_def r2_def MIN_L_def MTU_def)
  have r: "fst (run tx_step (map HostByte a) txq_init) = ?q r1" "fst (run tx_step (map HostByte b) (?q r2)) = ?q r3"
    using run_host_bytes [of a txq_init] run_host_bytes [of b "?q r2"] by (simp_all add: txq_init_def r1_def r3_def)
  show ?thesis by (simp add: run_append split_beta Let_def r s c(2) run_host_bytes [THEN conjunct2])
qed

lemma stack_cuts_host_frame_witness:
  "transmitted (snd (run tx_step (map HostByte [1, 2] @ [Send [9]] @ map HostByte [3, 4] @ [HostEnd, Turn False]) txq_init)) = [[9], [3, 4]]"
  by (rule stack_cuts_host_frame) simp_all

end
