(* ===== verification/Kiss.thy ===== *)
theory Kiss
  imports Hdlc Complex_Main
begin

text \<open>
  The KISS side of the modem towards its host: where a byte goes (\<open>serial_write\<close>), the escaping, and the reply
  frames, \<open>src/src/Utilities.h\<close> and \<open>src/src/Framing.h\<close>. Numbers of the code that are \<open>float\<close> are rationals;
  \<open>rnd\<close> is the rounding of each operation. The build is that of the ESP32-S3 boards: with display, WiFi and Bluetooth LE.
\<close>

section \<open>Framing constants\<close>

definition FEND :: u8 where "FEND = 0xC0"
definition FESC :: u8 where "FESC = 0xDB"
definition TFEND :: u8 where "TFEND = 0xDC"
definition TFESC :: u8 where "TFESC = 0xDD"

definition CMD_UNKNOWN :: u8 where "CMD_UNKNOWN = 0xFE"
definition CMD_DATA :: u8 where "CMD_DATA = 0x00"
definition CMD_FREQUENCY :: u8 where "CMD_FREQUENCY = 0x01"
definition CMD_BANDWIDTH :: u8 where "CMD_BANDWIDTH = 0x02"
definition CMD_TXPOWER :: u8 where "CMD_TXPOWER = 0x03"
definition CMD_SF :: u8 where "CMD_SF = 0x04"
definition CMD_CR :: u8 where "CMD_CR = 0x05"
definition CMD_RADIO_STATE :: u8 where "CMD_RADIO_STATE = 0x06"
definition CMD_RADIO_LOCK :: u8 where "CMD_RADIO_LOCK = 0x07"
definition CMD_DETECT :: u8 where "CMD_DETECT = 0x08"
definition CMD_IMPLICIT :: u8 where "CMD_IMPLICIT = 0x09"
definition CMD_LEAVE :: u8 where "CMD_LEAVE = 0x0A"
definition CMD_ST_ALOCK :: u8 where "CMD_ST_ALOCK = 0x0B"
definition CMD_LT_ALOCK :: u8 where "CMD_LT_ALOCK = 0x0C"
definition CMD_PROMISC :: u8 where "CMD_PROMISC = 0x0E"
definition CMD_READY :: u8 where "CMD_READY = 0x0F"
definition CMD_STAT_RX :: u8 where "CMD_STAT_RX = 0x21"
definition CMD_STAT_TX :: u8 where "CMD_STAT_TX = 0x22"
definition CMD_STAT_RSSI :: u8 where "CMD_STAT_RSSI = 0x23"
definition CMD_STAT_SNR :: u8 where "CMD_STAT_SNR = 0x24"
definition CMD_STAT_CHTM :: u8 where "CMD_STAT_CHTM = 0x25"
definition CMD_STAT_PHYPRM :: u8 where "CMD_STAT_PHYPRM = 0x26"
definition CMD_STAT_BAT :: u8 where "CMD_STAT_BAT = 0x27"
definition CMD_STAT_CSMA :: u8 where "CMD_STAT_CSMA = 0x28"
definition CMD_BLINK :: u8 where "CMD_BLINK = 0x30"
definition CMD_RANDOM :: u8 where "CMD_RANDOM = 0x40"
definition CMD_FB_EXT :: u8 where "CMD_FB_EXT = 0x41"
definition CMD_FB_READ :: u8 where "CMD_FB_READ = 0x42"
definition CMD_FB_WRITE :: u8 where "CMD_FB_WRITE = 0x43"
definition CMD_DISP_INT :: u8 where "CMD_DISP_INT = 0x45"
definition CMD_BT_CTRL :: u8 where "CMD_BT_CTRL = 0x46"
definition CMD_BOARD :: u8 where "CMD_BOARD = 0x47"
definition CMD_PLATFORM :: u8 where "CMD_PLATFORM = 0x48"
definition CMD_MCU :: u8 where "CMD_MCU = 0x49"
definition CMD_FW_VERSION :: u8 where "CMD_FW_VERSION = 0x50"
definition CMD_ROM_READ :: u8 where "CMD_ROM_READ = 0x51"
definition CMD_ROM_WRITE :: u8 where "CMD_ROM_WRITE = 0x52"
definition CMD_CONF_SAVE :: u8 where "CMD_CONF_SAVE = 0x53"
definition CMD_CONF_DELETE :: u8 where "CMD_CONF_DELETE = 0x54"
definition CMD_RESET :: u8 where "CMD_RESET = 0x55"
definition CMD_DEV_HASH :: u8 where "CMD_DEV_HASH = 0x56"
definition CMD_DEV_SIG :: u8 where "CMD_DEV_SIG = 0x57"
definition CMD_FW_HASH :: u8 where "CMD_FW_HASH = 0x58"
definition CMD_UNLOCK_ROM :: u8 where "CMD_UNLOCK_ROM = 0x59"
definition CMD_HASHES :: u8 where "CMD_HASHES = 0x60"
definition CMD_FW_UPD :: u8 where "CMD_FW_UPD = 0x61"
definition CMD_BT_PIN :: u8 where "CMD_BT_PIN = 0x62"
definition CMD_DISP_ADDR :: u8 where "CMD_DISP_ADDR = 0x63"
definition CMD_DISP_BLNK :: u8 where "CMD_DISP_BLNK = 0x64"
definition CMD_NP_INT :: u8 where "CMD_NP_INT = 0x65"
definition CMD_DISP_READ :: u8 where "CMD_DISP_READ = 0x66"
definition CMD_DISP_ROT :: u8 where "CMD_DISP_ROT = 0x67"
definition CMD_DISP_RCND :: u8 where "CMD_DISP_RCND = 0x68"
definition CMD_DIS_IA :: u8 where "CMD_DIS_IA = 0x69"
definition CMD_WIFI_MODE :: u8 where "CMD_WIFI_MODE = 0x6A"
definition CMD_WIFI_SSID :: u8 where "CMD_WIFI_SSID = 0x6B"
definition CMD_WIFI_PSK :: u8 where "CMD_WIFI_PSK = 0x6C"
definition CMD_CFG_READ :: u8 where "CMD_CFG_READ = 0x6D"
definition CMD_WIFI_CHN :: u8 where "CMD_WIFI_CHN = 0x6E"
definition CMD_BT_UNPAIR :: u8 where "CMD_BT_UNPAIR = 0x70"
definition CMD_LOG :: u8 where "CMD_LOG = 0x80"
definition CMD_WIFI_IP :: u8 where "CMD_WIFI_IP = 0x84"
definition CMD_WIFI_NM :: u8 where "CMD_WIFI_NM = 0x85"
definition CMD_ERROR :: u8 where "CMD_ERROR = 0x90"

lemmas commands =
  CMD_UNKNOWN_def CMD_DATA_def CMD_FREQUENCY_def CMD_BANDWIDTH_def CMD_TXPOWER_def CMD_SF_def CMD_CR_def CMD_RADIO_STATE_def
  CMD_RADIO_LOCK_def CMD_DETECT_def CMD_IMPLICIT_def CMD_LEAVE_def CMD_ST_ALOCK_def CMD_LT_ALOCK_def CMD_PROMISC_def CMD_READY_def
  CMD_STAT_RX_def CMD_STAT_TX_def CMD_STAT_RSSI_def CMD_STAT_SNR_def CMD_STAT_CHTM_def CMD_STAT_PHYPRM_def CMD_STAT_BAT_def
  CMD_STAT_CSMA_def CMD_BLINK_def CMD_RANDOM_def CMD_FB_EXT_def CMD_FB_READ_def CMD_FB_WRITE_def CMD_DISP_INT_def CMD_BT_CTRL_def
  CMD_BOARD_def CMD_PLATFORM_def CMD_MCU_def CMD_FW_VERSION_def CMD_ROM_READ_def CMD_ROM_WRITE_def CMD_CONF_SAVE_def
  CMD_CONF_DELETE_def CMD_RESET_def CMD_DEV_HASH_def CMD_DEV_SIG_def CMD_FW_HASH_def CMD_UNLOCK_ROM_def CMD_HASHES_def CMD_FW_UPD_def
  CMD_BT_PIN_def CMD_DISP_ADDR_def CMD_DISP_BLNK_def CMD_NP_INT_def CMD_DISP_READ_def CMD_DISP_ROT_def CMD_DISP_RCND_def CMD_DIS_IA_def
  CMD_WIFI_MODE_def CMD_WIFI_SSID_def CMD_WIFI_PSK_def CMD_CFG_READ_def CMD_WIFI_CHN_def CMD_BT_UNPAIR_def CMD_LOG_def CMD_WIFI_IP_def
  CMD_WIFI_NM_def CMD_ERROR_def

definition ERROR_INITRADIO :: u8 where "ERROR_INITRADIO = 0x01"
definition ERROR_TXFAILED :: u8 where "ERROR_TXFAILED = 0x02"
definition ERROR_EEPROM_LOCKED :: u8 where "ERROR_EEPROM_LOCKED = 0x03"
definition ERROR_MEMORY_LOW :: u8 where "ERROR_MEMORY_LOW = 0x05"
definition ERROR_MODEM_TIMEOUT :: u8 where "ERROR_MODEM_TIMEOUT = 0x06"

section \<open>Writing bytes\<close>

text \<open>The link to the host: the Bluetooth state, whether a TCP host is connected, and the switch for the serial line.\<close>

datatype port = Usb | Ble | Tcp

record host_link =
  bt_state :: u8
  wifi_host :: bool
  kiss_serial_output :: bool

definition BT_STATE_OFF :: u8 where "BT_STATE_OFF = 0x00"
definition BT_STATE_CONNECTED :: u8 where "BT_STATE_CONNECTED = 0x03"

definition serial_write :: "host_link \<Rightarrow> u8 \<Rightarrow> (port \<times> u8) list" where
  "serial_write h b =
    (if bt_state h \<noteq> BT_STATE_CONNECTED
     then (if wifi_host h then [(Tcp, b)] else if kiss_serial_output h then [(Usb, b)] else [])
     else [(Ble, b)])"

definition serial_writes :: "host_link \<Rightarrow> bytes \<Rightarrow> (port \<times> u8) list" where
  "serial_writes h bs = concat (map (serial_write h) bs)"

text \<open>What \<open>escaped_serial_write\<close> writes: the second test cannot see the byte the first one put in.\<close>

definition escaped :: "u8 \<Rightarrow> bytes" where
  "escaped b =
    (if b = FEND then [FESC, TFEND] else if b = FESC then [FESC, TFESC] else [b])"

definition kiss_escape :: "bytes \<Rightarrow> bytes" where
  "kiss_escape bs = concat (map escaped bs)"

section \<open>Reply frames\<close>

definition be32_bytes :: "nat \<Rightarrow> bytes" where
  "be32_bytes n = [byte_at 24 n, byte_at 16 n, byte_at 8 n, byte_at 0 n]"

definition be16_bytes :: "nat \<Rightarrow> bytes" where
  "be16_bytes n = [byte_at 8 n, byte_at 0 n]"

text \<open>A frame of raw bytes, and one whose body is escaped.\<close>

definition raw_frame :: "u8 \<Rightarrow> bytes \<Rightarrow> bytes" where
  "raw_frame c body = [FEND, c] @ body @ [FEND]"

definition kiss_frame :: "u8 \<Rightarrow> bytes \<Rightarrow> bytes" where
  "kiss_frame c body = [FEND, c] @ kiss_escape body @ [FEND]"

definition kiss_indicate_reset :: bytes where "kiss_indicate_reset = raw_frame CMD_RESET [0xF8]"
definition kiss_indicate_error :: "u8 \<Rightarrow> bytes" where "kiss_indicate_error e = raw_frame CMD_ERROR [e]"

definition kiss_indicate_log :: "u8 \<Rightarrow> bytes \<Rightarrow> bytes" where
  "kiss_indicate_log level msg = [FEND, CMD_LOG, level] @ kiss_escape (take 240 msg) @ [FEND]"

text \<open>Radio parameters and statistics.\<close>

record phy =
  lora_sf :: int
  lora_cr :: int
  lora_txp :: int
  lora_bw :: nat
  lora_freq :: nat
  radio_online :: bool
  radio_locked :: bool
  radio_error :: bool
  implicit_l :: u8
  implicit :: bool
  promisc :: bool
  stat_rx :: nat
  stat_tx :: nat
  current_rssi :: int
  last_rssi :: int
  last_snr_raw :: u8

definition rssi_offset :: int where "rssi_offset = 157"

definition flag_byte :: "bool \<Rightarrow> u8" where "flag_byte b = (if b then 1 else 0)"

definition kiss_indicate_radiostate :: "phy \<Rightarrow> bytes" where "kiss_indicate_radiostate p = raw_frame CMD_RADIO_STATE [flag_byte (radio_online p)]"
definition kiss_indicate_stat_rx :: "phy \<Rightarrow> bytes" where "kiss_indicate_stat_rx p = kiss_frame CMD_STAT_RX (be32_bytes (stat_rx p))"
definition kiss_indicate_stat_tx :: "phy \<Rightarrow> bytes" where "kiss_indicate_stat_tx p = kiss_frame CMD_STAT_TX (be32_bytes (stat_tx p))"
definition kiss_indicate_stat_rssi :: "phy \<Rightarrow> bytes" where
  "kiss_indicate_stat_rssi p = kiss_frame CMD_STAT_RSSI [word_of_int (last_rssi p + rssi_offset)]"
definition kiss_indicate_stat_snr :: "phy \<Rightarrow> bytes" where "kiss_indicate_stat_snr p = kiss_frame CMD_STAT_SNR [last_snr_raw p]"
definition kiss_indicate_radio_lock :: "phy \<Rightarrow> bytes" where "kiss_indicate_radio_lock p = raw_frame CMD_RADIO_LOCK [flag_byte (radio_locked p)]"
definition kiss_indicate_spreadingfactor :: "phy \<Rightarrow> bytes" where "kiss_indicate_spreadingfactor p = raw_frame CMD_SF [word_of_int (lora_sf p)]"
definition kiss_indicate_codingrate :: "phy \<Rightarrow> bytes" where "kiss_indicate_codingrate p = raw_frame CMD_CR [word_of_int (lora_cr p)]"
definition kiss_indicate_implicit_length :: "phy \<Rightarrow> bytes" where "kiss_indicate_implicit_length p = raw_frame CMD_IMPLICIT [implicit_l p]"
definition kiss_indicate_txpower :: "phy \<Rightarrow> bytes" where "kiss_indicate_txpower p = raw_frame CMD_TXPOWER [word_of_int (lora_txp p)]"
definition kiss_indicate_bandwidth :: "phy \<Rightarrow> bytes" where "kiss_indicate_bandwidth p = kiss_frame CMD_BANDWIDTH (be32_bytes (lora_bw p))"
definition kiss_indicate_frequency :: "phy \<Rightarrow> bytes" where "kiss_indicate_frequency p = kiss_frame CMD_FREQUENCY (be32_bytes (lora_freq p))"
definition kiss_indicate_promisc :: "phy \<Rightarrow> bytes" where "kiss_indicate_promisc p = raw_frame CMD_PROMISC [flag_byte (promisc p)]"

text \<open>\<open>(uint16_t)(x*100*100)\<close> on a \<open>float\<close> in range\<close>

definition percent16 :: "(rat \<Rightarrow> rat) \<Rightarrow> rat \<Rightarrow> nat" where
  "percent16 rnd x = nat \<lfloor>rnd (rnd (x * 100) * 100)\<rfloor>"

definition kiss_indicate_st_alock :: "(rat \<Rightarrow> rat) \<Rightarrow> rat \<Rightarrow> bytes" where
  "kiss_indicate_st_alock rnd l = kiss_frame CMD_ST_ALOCK (be16_bytes (percent16 rnd l))"
definition kiss_indicate_lt_alock :: "(rat \<Rightarrow> rat) \<Rightarrow> rat \<Rightarrow> bytes" where
  "kiss_indicate_lt_alock rnd l = kiss_frame CMD_LT_ALOCK (be16_bytes (percent16 rnd l))"

record channel =
  airtime :: rat
  longterm_airtime :: rat
  total_channel_util :: rat
  longterm_channel_util :: rat
  noise_floor :: int
  interference_detected :: bool

definition kiss_indicate_channel_stats :: "(rat \<Rightarrow> rat) \<Rightarrow> channel \<Rightarrow> phy \<Rightarrow> bytes" where
  "kiss_indicate_channel_stats rnd c p = kiss_frame CMD_STAT_CHTM
    (be16_bytes (percent16 rnd (airtime c)) @ be16_bytes (percent16 rnd (longterm_airtime c)) @
     be16_bytes (percent16 rnd (total_channel_util c)) @ be16_bytes (percent16 rnd (longterm_channel_util c)) @
     [word_of_int (current_rssi p + rssi_offset), word_of_int (noise_floor c + rssi_offset),
      if interference_detected c then word_of_int (current_rssi p + rssi_offset) else 0xFF])"

record csma =
  cw_band :: nat
  cw_min :: nat
  cw_max :: nat

definition kiss_indicate_csma_stats :: "csma \<Rightarrow> bytes" where
  "kiss_indicate_csma_stats c = kiss_frame CMD_STAT_CSMA [word_of_nat (cw_band c), word_of_nat (cw_min c), word_of_nat (cw_max c)]"

definition kiss_indicate_battery :: "u8 \<Rightarrow> rat \<Rightarrow> bytes" where
  "kiss_indicate_battery state percent = kiss_frame CMD_STAT_BAT [state, word_of_int (if percent < 0 then \<lceil>percent\<rceil> else \<lfloor>percent\<rfloor>)]"

definition kiss_indicate_btpin :: "nat \<Rightarrow> bytes" where "kiss_indicate_btpin pin = kiss_frame CMD_BT_PIN (be32_bytes pin)"
definition kiss_indicate_random :: "u8 \<Rightarrow> bytes" where "kiss_indicate_random b = raw_frame CMD_RANDOM [b]"
definition kiss_indicate_fbstate :: "bool \<Rightarrow> bytes" where "kiss_indicate_fbstate ext = raw_frame CMD_FB_EXT [if ext then 0x01 else 0x00]"
definition kiss_indicate_device_hash :: "bytes \<Rightarrow> bytes" where "kiss_indicate_device_hash h = kiss_frame CMD_DEV_HASH h"
definition kiss_indicate_hash :: "u8 \<Rightarrow> bytes \<Rightarrow> bytes" where "kiss_indicate_hash i h = [FEND, CMD_HASHES, i] @ kiss_escape h @ [FEND]"
definition kiss_indicate_fb :: "bytes \<Rightarrow> bytes" where "kiss_indicate_fb fb = kiss_frame CMD_FB_READ (take 512 fb)"
definition kiss_indicate_disp :: "bytes \<Rightarrow> bytes \<Rightarrow> bytes" where "kiss_indicate_disp da sa = kiss_frame CMD_DISP_READ (take 512 da @ take 512 sa)"
definition kiss_indicate_ready :: bytes where "kiss_indicate_ready = raw_frame CMD_READY [0x01]"
definition kiss_indicate_not_ready :: bytes where "kiss_indicate_not_ready = raw_frame CMD_READY [0x00]"
definition kiss_indicate_detect :: bytes where "kiss_indicate_detect = raw_frame CMD_DETECT [0x46]"
definition kiss_indicate_version :: bytes where "kiss_indicate_version = raw_frame CMD_FW_VERSION [0x01, 0x56]"
definition kiss_indicate_platform :: "u8 \<Rightarrow> bytes" where "kiss_indicate_platform b = raw_frame CMD_PLATFORM [b]"
definition kiss_indicate_board :: "u8 \<Rightarrow> bytes" where "kiss_indicate_board b = raw_frame CMD_BOARD [b]"
definition kiss_indicate_mcu :: "u8 \<Rightarrow> bytes" where "kiss_indicate_mcu b = raw_frame CMD_MCU [b]"

text \<open>A packet received over the air, for the host.\<close>

definition kiss_data_frame :: "bytes \<Rightarrow> bytes" where
  "kiss_data_frame d = kiss_frame CMD_DATA d"

section \<open>The host's decoder\<close>

text \<open>
  A KISS decoder as the host runs it, on the frames of the modem: \<open>None\<close> between frames, the bytes of the
  frame so far and the escape flag within.
\<close>

record kiss_decoder =
  kbuf :: "bytes option"
  kesc :: bool

definition kiss_feed :: "kiss_decoder \<Rightarrow> u8 \<Rightarrow> kiss_decoder \<times> bytes list" where
  "kiss_feed d b =
    (if b = FEND then (\<lparr>kbuf = Some [], kesc = False\<rparr>, case kbuf d of None \<Rightarrow> [] | Some f \<Rightarrow> if f = [] then [] else [f])
     else case kbuf d of None \<Rightarrow> (d, [])
     | Some f \<Rightarrow>
         if kesc d then (\<lparr>kbuf = Some (f @ [if b = TFEND then FEND else if b = TFESC then FESC else b]), kesc = False\<rparr>, [])
         else if b = FESC then (d\<lparr>kesc := True\<rparr>, []) else (\<lparr>kbuf = Some (f @ [b]), kesc = False\<rparr>, []))"

fun kiss_feeds :: "kiss_decoder \<Rightarrow> bytes \<Rightarrow> kiss_decoder \<times> bytes list" where
  "kiss_feeds d [] = (d, [])"
| "kiss_feeds d (b # bs) = (case kiss_feed d b of (d1, fs) \<Rightarrow> case kiss_feeds d1 bs of (d2, gs) \<Rightarrow> (d2, fs @ gs))"

definition kiss_idle :: "kiss_decoder \<Rightarrow> bool" where
  "kiss_idle d \<longleftrightarrow> kbuf d = None \<or> kbuf d = Some []"

lemma kiss_feeds_append: "kiss_feeds d (xs @ ys) = (let (d', fs) = kiss_feeds d xs; (d'', gs) = kiss_feeds d' ys in (d'', fs @ gs))"
  by (induction xs arbitrary: d) (auto simp: Let_def split: prod.splits)

lemma kiss_distinct [simp]: "FEND \<noteq> FESC" "FESC \<noteq> FEND" "TFEND \<noteq> FEND" "TFESC \<noteq> FEND" "TFEND \<noteq> FESC" "TFESC \<noteq> FESC" "TFEND \<noteq> TFESC" "TFESC \<noteq> TFEND"
  "FEND \<noteq> TFEND" "FEND \<noteq> TFESC"
  by (simp_all add: FEND_def FESC_def TFEND_def TFESC_def)

lemma kiss_escape_simps [simp]: "kiss_escape [] = []" "kiss_escape (b # bs) = escaped b @ kiss_escape bs" "kiss_escape (xs @ ys) = kiss_escape xs @ kiss_escape ys"
  by (simp_all add: kiss_escape_def)

lemma escaped_no_fend: "FEND \<notin> set (kiss_escape bs)"
  by (induction bs) (auto simp: escaped_def)

lemma feed_escaped: "kiss_feeds \<lparr>kbuf = Some f, kesc = False\<rparr> (kiss_escape bs) = (\<lparr>kbuf = Some (f @ bs), kesc = False\<rparr>, [])"
proof (induction bs arbitrary: f)
  case (Cons b bs)
  have "kiss_feeds \<lparr>kbuf = Some f, kesc = False\<rparr> (escaped b) = (\<lparr>kbuf = Some (f @ [b]), kesc = False\<rparr>, [])"
    by (auto simp: escaped_def kiss_feed_def)
  then show ?case by (simp add: kiss_feeds_append Cons.IH)
qed simp

text \<open>A frame with plain command and body bytes before an escaped rest.\<close>

lemma feed_plain: "FEND \<notin> set p \<Longrightarrow> FESC \<notin> set p \<Longrightarrow> kiss_feeds \<lparr>kbuf = Some f, kesc = False\<rparr> p = (\<lparr>kbuf = Some (f @ p), kesc = False\<rparr>, [])"
  by (induction p arbitrary: f) (auto simp: kiss_feed_def)

lemma feed_frame:
  assumes "kiss_idle d" "FEND \<notin> set p" "FESC \<notin> set p" "p \<noteq> []"
  shows "kiss_feeds d ([FEND] @ p @ kiss_escape bs @ [FEND]) = (\<lparr>kbuf = Some [], kesc = False\<rparr>, [p @ bs])"
proof -
  have "kiss_feeds d [FEND] = (\<lparr>kbuf = Some [], kesc = False\<rparr>, [])" using assms(1) by (auto simp: kiss_feed_def kiss_idle_def)
  moreover have "kiss_feeds \<lparr>kbuf = Some (p @ bs), kesc = False\<rparr> [FEND] = (\<lparr>kbuf = Some [], kesc = False\<rparr>, [p @ bs])"
    using assms(4) by (simp add: kiss_feed_def)
  ultimately show ?thesis
    using feed_plain [OF assms(2,3), of "[]"] feed_escaped [of p bs] by (simp only: kiss_feeds_append Let_def prod.case append_Nil append_Nil2)
qed

interpretation kiss: framing "\<lambda>f. [FEND, fst f] @ kiss_escape (snd f) @ [FEND]" "\<lambda>d bs. apsnd (map (\<lambda>f. (hd f, tl f))) (kiss_feeds d bs)"
    kiss_idle "\<lambda>f. fst f \<noteq> FEND \<and> fst f \<noteq> FESC"
proof
  fix s and f :: "u8 \<times> bytes"
  assume a: "kiss_idle s" "fst f \<noteq> FEND \<and> fst f \<noteq> FESC"
  have e: "kiss_feeds s ([FEND, fst f] @ kiss_escape (snd f) @ [FEND]) = (\<lparr>kbuf = Some [], kesc = False\<rparr>, [fst f # snd f])"
    using feed_frame [OF a(1), of "[fst f]" "snd f"] a(2) by fastforce
  show "snd (apsnd (map (\<lambda>f. (hd f, tl f))) (kiss_feeds s ([FEND, fst f] @ kiss_escape (snd f) @ [FEND]))) = [f] \<and>
      kiss_idle (fst (apsnd (map (\<lambda>f. (hd f, tl f))) (kiss_feeds s ([FEND, fst f] @ kiss_escape (snd f) @ [FEND]))))"
    unfolding e by (simp add: kiss_idle_def)
qed (auto simp: kiss_feeds_append Let_def split: prod.splits)

end
