(* ===== verification/Radio.thy ===== *)
theory Radio
  imports TxRing Kiss
begin

text \<open>
  The air side of the modem, \<open>src/src/RNode_Firmware.ino\<close>: a packet of up to 508 bytes goes out as LoRa frames of at most 255 bytes, a
  header byte and up to 254 bytes each, and is put together again by \<open>receive_callback\<close>; the main loop hands what
  arrived to the Reticulum stack and to the host. The LoRa driver is that of the SX1262.
\<close>

section \<open>Sending\<close>

definition SINGLE_MTU :: nat where "SINGLE_MTU = 255"
definition HEADER_L :: nat where "HEADER_L = 1"
definition FLAG_SPLIT :: u8 where "FLAG_SPLIT = 0x01"
definition SEQ_UNSET :: u8 where "SEQ_UNSET = 0xFF"

definition isSplitPacket :: "u8 \<Rightarrow> bool" where
  "isSplitPacket header = (header AND FLAG_SPLIT \<noteq> 0)"

definition packetSequence :: "u8 \<Rightarrow> u8" where
  "packetSequence header = drop_bit 4 header"

text \<open>
  \<open>Air f\<close>: the driver sent the frame \<open>f\<close>. \<open>endPacket\<close> waits for the modem; \<open>done k\<close> is the answer of its \<open>k\<close>-th call.
\<close>

datatype air_out = Air bytes | Airtime nat | Error_frame u8 | Led_error nat | Restart

definition tx_failed :: "air_out list" where
  "tx_failed = [Error_frame ERROR_MODEM_TIMEOUT, Error_frame ERROR_TXFAILED, Led_error 5, Restart]"

text \<open>The byte loop of \<open>transmit\<close>; \<open>f\<close> is the frame so far, its length the counter \<open>written\<close>. A failure restarts the device.\<close>

fun tx_loop :: "(nat \<Rightarrow> bool) \<Rightarrow> nat \<Rightarrow> u8 \<Rightarrow> bytes \<Rightarrow> bytes \<Rightarrow> air_out list" where
  "tx_loop ok k h f [] = (if ok k then [Air f, Airtime (length f)] else tx_failed)"
| "tx_loop ok k h f (b # bs) =
    (if length f + 1 = 255 \<and> isSplitPacket h
     then (if ok k then [Air (f @ [b]), Airtime (length f + 1)] @ tx_loop ok (Suc k) h [h] bs else tx_failed)
     else tx_loop ok k h (f @ [b]) bs)"

text \<open>\<open>r\<close> is \<open>random(256)\<close>. In promiscuous mode one frame without a header goes out, whatever the driver answers.\<close>

definition tx_header :: "u8 \<Rightarrow> nat \<Rightarrow> u8" where
  "tx_header r n = (if n > SINGLE_MTU - HEADER_L then (r AND 0xF0) OR FLAG_SPLIT else r AND 0xF0)"

definition transmit :: "(nat \<Rightarrow> bool) \<Rightarrow> u8 \<Rightarrow> phy \<Rightarrow> bytes \<Rightarrow> air_out list" where
  "transmit ok r p d =
    (if \<not> radio_online p then [Error_frame ERROR_TXFAILED, Led_error 5]
     else if \<not> promisc p then tx_loop ok 0 (tx_header r (length d)) [tx_header r (length d)] d
     else [Air (take SINGLE_MTU d), Airtime (length (take SINGLE_MTU d))])"

section \<open>Receiving\<close>

definition MODEM_QUEUE_SIZE :: nat where "MODEM_QUEUE_SIZE = 8"

text \<open>A packet in the queue between the receiver and the main loop: data, signal strength, signal to noise.\<close>

type_synonym modem_packet = "bytes \<times> int \<times> u8"

text \<open>\<open>pbuf\<close> is shared by the reassembly and by the delivery to the host.\<close>

record modem =
  rx_seq :: u8
  pbuf :: bytes
  read_len :: nat
  packet_ready :: bool
  memory_low :: bool
  modem_packet_queue :: "modem_packet list"

definition modem_init :: modem where
  "modem_init = \<lparr>rx_seq = SEQ_UNSET, pbuf = replicate MTU 0, read_len = 0, packet_ready = False, memory_low = False, modem_packet_queue = []\<rparr>"

text \<open>The driver's \<open>read()\<close>: behind the end of the frame it returns -1.\<close>

fun lora_read :: "bytes \<Rightarrow> u8 \<times> bytes" where
  "lora_read [] = (0xFF, [])"
| "lora_read (b # bs) = (b, bs)"

text \<open>\<open>while (len-- && read_len < MTU) pbuf[read_len++] = LoRa->read()\<close>\<close>

fun getPacketData :: "nat \<Rightarrow> bytes \<Rightarrow> modem \<Rightarrow> modem" where
  "getPacketData 0 f m = m"
| "getPacketData (Suc n) f m =
    (if read_len m < MTU
     then case lora_read f of (b, f') \<Rightarrow> getPacketData n f' (m\<lparr>pbuf := (pbuf m)[read_len m := b], read_len := read_len m + 1\<rparr>)
     else m)"

text \<open>The environment of one interrupt: whether \<open>malloc\<close> succeeds, and what the driver measured.\<close>

record rx_env =
  alloc_ok :: bool
  rx_rssi :: int
  rx_snr :: u8

definition queue_packet :: "rx_env \<Rightarrow> modem \<Rightarrow> modem" where
  "queue_packet E m =
    (if \<not> alloc_ok E then m\<lparr>memory_low := True\<rparr>
     else let m1 = m\<lparr>read_len := 0\<rparr>
          in if length (modem_packet_queue m) < MODEM_QUEUE_SIZE
             then m1\<lparr>modem_packet_queue := modem_packet_queue m @ [(take (read_len m) (pbuf m), rx_rssi E, rx_snr E)]\<rparr> else m1)"

text \<open>A frame of length 0 makes \<open>packet_size\<close> -1, which \<open>getPacketData\<close> takes as 65535.\<close>

definition receive_callback :: "rx_env \<Rightarrow> bool \<Rightarrow> bytes \<Rightarrow> modem \<Rightarrow> modem" where
  "receive_callback E prom f m =
    (if \<not> prom then
       (case lora_read f of (header, rest) \<Rightarrow>
        let n = (if f = [] then 65535 else length f - 1);
            sequ = packetSequence header
        in if isSplitPacket header \<and> rx_seq m = SEQ_UNSET
           then getPacketData n rest (m\<lparr>read_len := 0, rx_seq := sequ\<rparr>)
           else if isSplitPacket header \<and> rx_seq m = sequ
           then queue_packet E ((getPacketData n rest m)\<lparr>rx_seq := SEQ_UNSET\<rparr>)
           else if isSplitPacket header
           then getPacketData n rest (m\<lparr>read_len := 0, rx_seq := sequ\<rparr>)
           else let m1 = (if rx_seq m \<noteq> SEQ_UNSET then m\<lparr>read_len := 0, rx_seq := SEQ_UNSET\<rparr> else m)
                in queue_packet E (getPacketData n rest m1))
     else (getPacketData (length f) f (m\<lparr>read_len := 0\<rparr>))\<lparr>packet_ready := True\<rparr>)"

section \<open>The main loop's delivery\<close>

datatype deliver_out = To_stack bytes | To_host bytes

text \<open>
  One queued packet: it is copied over \<open>pbuf\<close>, the signal values are reported, and the packet goes to the stack and, as a data
  frame, to the host.
\<close>

definition deliver_one :: "modem_packet \<Rightarrow> phy \<times> modem \<Rightarrow> (phy \<times> modem) \<times> deliver_out list" where
  "deliver_one q s =
    (case q of (d, rssi, snr) \<Rightarrow> case s of (p, m) \<Rightarrow>
      let p1 = p\<lparr>last_rssi := rssi, last_snr_raw := snr\<rparr>;
          m1 = m\<lparr>pbuf := d @ drop (length d) (pbuf m)\<rparr>
      in ((p1, m1\<lparr>packet_ready := False\<rparr>),
          [To_host (kiss_indicate_stat_rssi p1), To_host (kiss_indicate_stat_snr p1)] @
          (if length d > 0 then [To_stack d] else []) @ [To_host (kiss_data_frame d)]))"

fun deliver_all :: "modem_packet list \<Rightarrow> phy \<times> modem \<Rightarrow> (phy \<times> modem) \<times> deliver_out list" where
  "deliver_all [] s = (s, [])"
| "deliver_all (q # qs) s =
    (case deliver_one q s of (s1, o1) \<Rightarrow> case deliver_all qs s1 of (s2, o2) \<Rightarrow> (s2, o1 @ o2))"

definition drain_modem :: "phy \<times> modem \<Rightarrow> (phy \<times> modem) \<times> deliver_out list" where
  "drain_modem s =
    (if radio_online (fst s) then deliver_all (modem_packet_queue (snd s)) (fst s, (snd s)\<lparr>modem_packet_queue := []\<rparr>) else (s, []))"

datatype air_event = Frame rx_env bytes | Loop

fun air_step :: "phy \<times> modem \<Rightarrow> air_event \<Rightarrow> (phy \<times> modem) \<times> deliver_out list" where
  "air_step s (Frame E f) = ((fst s, receive_callback E (promisc (fst s)) f (snd s)), [])"
| "air_step s Loop = drain_modem s"

section \<open>Frames of a packet\<close>

fun air_frames :: "air_out list \<Rightarrow> bytes list" where
  "air_frames [] = []"
| "air_frames (Air f # os) = f # air_frames os"
| "air_frames (o1 # os) = air_frames os"

lemma air_frames_append [simp]: "air_frames (xs @ ys) = air_frames xs @ air_frames ys"
  by (induction xs rule: air_frames.induct) simp_all

lemma tx_whole: "\<not> isSplitPacket h \<or> length f + length d < 255 \<Longrightarrow> ok k \<Longrightarrow> air_frames (tx_loop ok k h f d) = [f @ d]"
proof (induction d arbitrary: f)
  case (Cons b d)
  then have "\<not> (length f + 1 = 255 \<and> isSplitPacket h)" by auto
  then show ?case using Cons.IH [of "f @ [b]"] Cons.prems by auto
qed simp

lemma tx_cut: "isSplitPacket h \<Longrightarrow> length f < 255 \<Longrightarrow> 255 \<le> length f + length d \<Longrightarrow> ok k \<Longrightarrow>
  air_frames (tx_loop ok k h f d) = (f @ take (255 - length f) d) # air_frames (tx_loop ok (Suc k) h [h] (drop (255 - length f) d))"
proof (induction d arbitrary: f)
  case (Cons b d)
  show ?case
  proof (cases "length f + 1 = 255")
    case True
    then have "255 - length f = Suc 0" by simp
    then show ?thesis using Cons.prems True by simp
  next
    case False
    then have "255 - length f = Suc (254 - length f)" using Cons.prems by simp
    then show ?thesis using Cons.IH [of "f @ [b]"] Cons.prems False by simp
  qed
qed simp

lemma header_split: "isSplitPacket (tx_header r n) \<longleftrightarrow> 254 < n"
proof -
  have "(x AND 0xF0) AND 1 = (0 :: u8)" for x by (simp add: and.assoc)
  moreover have "((x AND 0xF0) OR 1) AND 1 = (1 :: u8)" for x by (rule bit_word_eqI) (auto simp: bit_simps)
  ultimately show ?thesis by (simp add: isSplitPacket_def tx_header_def FLAG_SPLIT_def SINGLE_MTU_def HEADER_L_def)
qed

lemma header_sequence: "packetSequence h \<noteq> SEQ_UNSET"
proof
  assume "packetSequence h = SEQ_UNSET"
  then have "bit (drop_bit 4 h) 7 = bit (0xFF :: u8) 7" by (simp add: packetSequence_def SEQ_UNSET_def)
  then show False by (auto simp: bit_simps dest: bit_imp_le_length)
qed

text \<open>The frames of a packet; one of 508 bytes is followed by an empty third frame.\<close>

lemma frames_whole: "radio_online p \<Longrightarrow> \<not> promisc p \<Longrightarrow> length d \<le> 254 \<Longrightarrow>
  air_frames (transmit (\<lambda>_. True) r p d) = [tx_header r (length d) # d]"
  using tx_whole [of "tx_header r (length d)" "[tx_header r (length d)]" d "\<lambda>_. True" 0] header_split [of r "length d"] by (simp add: transmit_def)

lemma frames_split:
  assumes "radio_online p" "\<not> promisc p" "254 < length d" "length d \<le> 508" and h_def: "h = tx_header r (length d)"
  shows "air_frames (transmit (\<lambda>_. True) r p d) = [h # take 254 d, h # drop 254 d] @ (if length d = 508 then [[h]] else [])"
proof -
  have s: "isSplitPacket h" using header_split [of r "length d"] assms(3) by (simp add: h_def)
  have "air_frames (transmit (\<lambda>_. True) r p d) = (h # take 254 d) # air_frames (tx_loop (\<lambda>_. True) (Suc 0) h [h] (drop 254 d))"
    using tx_cut [OF s, of "[h]" d "\<lambda>_. True" 0] assms by (simp add: transmit_def)
  also have "air_frames (tx_loop (\<lambda>_. True) (Suc 0) h [h] (drop 254 d)) = (h # drop 254 d) # (if length d = 508 then [[h]] else [])"
  proof (cases "length d = 508")
    case True
    then show ?thesis using tx_cut [OF s, of "[h]" "drop 254 d" "\<lambda>_. True" "Suc 0"] by simp
  next
    case False
    then have "length d - 254 < 254" using assms(4) by simp
    then show ?thesis using tx_whole [of h "[h]" "drop 254 d" "\<lambda>_. True" "Suc 0"] False by simp
  qed
  finally show ?thesis by simp
qed

section \<open>Putting a packet together\<close>

definition modem_ok :: "modem \<Rightarrow> bool" where
  "modem_ok m \<longleftrightarrow> length (pbuf m) = MTU \<and> read_len m \<le> MTU \<and> length (modem_packet_queue m) \<le> MODEM_QUEUE_SIZE"

definition sofar :: "modem \<Rightarrow> bytes" where
  "sofar m = take (read_len m) (pbuf m)"

lemma get_other [simp]:
  "rx_seq (getPacketData n f m) = rx_seq m" "modem_packet_queue (getPacketData n f m) = modem_packet_queue m"
  by (induction n f m rule: getPacketData.induct) (simp_all add: split_beta)

lemma get_ok: "modem_ok m \<Longrightarrow> modem_ok (getPacketData n f m)"
  by (induction n f m rule: getPacketData.induct) (auto simp: modem_ok_def split_beta)

lemma get_sofar: "modem_ok m \<Longrightarrow> sofar (getPacketData (length f) f m) = take MTU (sofar m @ f)"
proof (induction f arbitrary: m)
  case Nil
  then show ?case by (simp add: sofar_def modem_ok_def)
next
  case (Cons b f)
  show ?case
  proof (cases "read_len m < MTU")
    case True
    let ?m = "m\<lparr>pbuf := (pbuf m)[read_len m := b], read_len := read_len m + 1\<rparr>"
    have "modem_ok ?m" "sofar ?m = sofar m @ [b]"
      using Cons.prems True by (simp_all add: modem_ok_def sofar_def take_Suc_conv_app_nth)
    then show ?thesis using Cons.IH [of ?m] True by simp
  next
    case False
    then show ?thesis using Cons.prems by (simp add: sofar_def modem_ok_def)
  qed
qed

lemma sofar_simps [simp]: "sofar (m\<lparr>rx_seq := x\<rparr>) = sofar m" "sofar (m\<lparr>read_len := 0\<rparr>) = []"
  "sofar (m\<lparr>read_len := 0, rx_seq := x\<rparr>) = []" "sofar (m\<lparr>modem_packet_queue := q\<rparr>) = sofar m" "sofar (m\<lparr>memory_low := l\<rparr>) = sofar m"
  by (simp_all add: sofar_def)

lemma modem_ok_simps [simp]: "modem_ok (m\<lparr>rx_seq := x\<rparr>) = modem_ok m" "modem_ok m \<Longrightarrow> modem_ok (m\<lparr>read_len := 0\<rparr>)"
  "modem_ok m \<Longrightarrow> modem_ok (m\<lparr>read_len := 0, rx_seq := x\<rparr>)" "modem_ok (m\<lparr>memory_low := l\<rparr>) = modem_ok m"
  "modem_ok (m\<lparr>packet_ready := l\<rparr>) = modem_ok m"
  by (simp_all add: modem_ok_def)

definition rx_idle :: "modem \<Rightarrow> bool" where
  "rx_idle m \<longleftrightarrow> modem_ok m \<and> rx_seq m = SEQ_UNSET \<and> read_len m = 0"

text \<open>Handing over what was read so far.\<close>

lemma queue_packet_ok:
  assumes "alloc_ok E" "length (modem_packet_queue m) < MODEM_QUEUE_SIZE" "modem_ok m" "rx_seq m = SEQ_UNSET"
  shows "rx_idle (queue_packet E m) \<and> modem_packet_queue (queue_packet E m) = modem_packet_queue m @ [(sofar m, rx_rssi E, rx_snr E)]"
  using assms by (simp add: queue_packet_def rx_idle_def modem_ok_def sofar_def Let_def)

lemma receive_whole:
  assumes "modem_ok m" "rx_seq m = SEQ_UNSET" "\<not> isSplitPacket h" "alloc_ok E" "length (modem_packet_queue m) < MODEM_QUEUE_SIZE"
  shows "rx_idle (receive_callback E False (h # d) m) \<and>
    modem_packet_queue (receive_callback E False (h # d) m) = modem_packet_queue m @ [(take MTU (sofar m @ d), rx_rssi E, rx_snr E)]"
  using queue_packet_ok [of E "getPacketData (length d) d m"] assms get_sofar [OF assms(1), of d]
  by (simp add: receive_callback_def get_ok)

lemma receive_first:
  assumes "modem_ok m" "isSplitPacket h" "rx_seq m \<noteq> packetSequence h"
  shows "modem_ok (receive_callback E False (h # a) m) \<and> sofar (receive_callback E False (h # a) m) = take MTU a \<and>
    rx_seq (receive_callback E False (h # a) m) = packetSequence h \<and> modem_packet_queue (receive_callback E False (h # a) m) = modem_packet_queue m"
  using assms get_sofar [of "m\<lparr>read_len := 0, rx_seq := packetSequence h\<rparr>" a]
  by (auto simp: receive_callback_def get_ok)

lemma receive_second:
  assumes "modem_ok m" "isSplitPacket h" "rx_seq m = packetSequence h" "alloc_ok E" "length (modem_packet_queue m) < MODEM_QUEUE_SIZE"
  shows "rx_idle (receive_callback E False (h # b) m) \<and>
    modem_packet_queue (receive_callback E False (h # b) m) = modem_packet_queue m @ [(take MTU (sofar m @ b), rx_rssi E, rx_snr E)]"
  using queue_packet_ok [of E "(getPacketData (length b) b m)\<lparr>rx_seq := SEQ_UNSET\<rparr>"] assms get_sofar [OF assms(1), of b] header_sequence [of h]
  by (simp add: receive_callback_def get_ok)

section \<open>Properties\<close>

text \<open>The receiver hears every frame and the main loop runs after each.\<close>

definition heard :: "rx_env \<Rightarrow> bytes list \<Rightarrow> air_event list" where
  "heard E fs = concat (map (\<lambda>f. [Frame E f, Loop]) fs)"

fun to_stack :: "deliver_out list \<Rightarrow> bytes list" where
  "to_stack [] = []"
| "to_stack (To_stack d # os) = d # to_stack os"
| "to_stack (To_host b # os) = to_stack os"

fun to_host :: "deliver_out list \<Rightarrow> bytes" where
  "to_host [] = []"
| "to_host (To_stack d # os) = to_host os"
| "to_host (To_host b # os) = b @ to_host os"

lemma to_append [simp]: "to_stack (xs @ ys) = to_stack xs @ to_stack ys" "to_host (xs @ ys) = to_host xs @ to_host ys"
  by (induction xs rule: to_stack.induct) simp_all

definition listening :: "phy \<times> modem \<Rightarrow> bool" where
  "listening s \<longleftrightarrow> radio_online (fst s) \<and> \<not> promisc (fst s) \<and> rx_idle (snd s) \<and> modem_packet_queue (snd s) = []"

text \<open>What the host reads for one packet.\<close>

definition host_view :: "rx_env \<Rightarrow> bytes \<Rightarrow> bytes" where
  "host_view E d = kiss_frame CMD_STAT_RSSI [word_of_int (rx_rssi E + rssi_offset)] @ kiss_frame CMD_STAT_SNR [rx_snr E] @ kiss_data_frame d"

lemma drain_none: "modem_packet_queue (snd s) = [] \<Longrightarrow> drain_modem s = (s, [])"
  by (cases s) (auto simp: drain_modem_def)

lemma deliver_idle:
  assumes "radio_online p" "\<not> promisc p" "rx_idle m" "modem_packet_queue m = [(d, rx_rssi E, rx_snr E)]" "d \<noteq> []" "length d \<le> MTU"
  shows "listening (fst (drain_modem (p, m))) \<and> to_stack (snd (drain_modem (p, m))) = [d] \<and> to_host (snd (drain_modem (p, m))) = host_view E d"
  using assms
  by (auto simp: drain_modem_def deliver_one_def Let_def listening_def rx_idle_def modem_ok_def host_view_def
    kiss_indicate_stat_rssi_def kiss_indicate_stat_snr_def)

lemma hear_whole:
  assumes "listening s" "alloc_ok E" "\<not> isSplitPacket h" "d \<noteq> []" "length d \<le> MTU"
  shows "listening (fst (run air_step (heard E [h # d]) s)) \<and> to_stack (snd (run air_step (heard E [h # d]) s)) = [d] \<and>
    to_host (snd (run air_step (heard E [h # d]) s)) = host_view E d"
proof -
  obtain p m where s: "s = (p, m)" by (cases s)
  have i: "radio_online p" "\<not> promisc p" "modem_packet_queue m = []" "modem_ok m" "rx_seq m = SEQ_UNSET" "sofar m = []"
    using assms(1) by (simp_all add: listening_def s rx_idle_def sofar_def)
  then have w: "rx_idle (receive_callback E False (h # d) m)" "modem_packet_queue (receive_callback E False (h # d) m) = [(d, rx_rssi E, rx_snr E)]"
    using receive_whole [of m h E d] assms by (simp_all add: MODEM_QUEUE_SIZE_def)
  show ?thesis using deliver_idle [OF i(1,2) w assms(4,5)] i by (simp add: heard_def s split_beta)
qed

text \<open>The second half completes a packet whose first half was \<open>sofar\<close>.\<close>

lemma hear_second:
  assumes "radio_online p" "\<not> promisc p" "modem_ok m" "rx_seq m = packetSequence h" "modem_packet_queue m = []"
    "alloc_ok E" "isSplitPacket h" "sofar m @ b \<noteq> []" "length (sofar m @ b) \<le> MTU"
  shows "listening (fst (run air_step (heard E [h # b]) (p, m))) \<and> to_stack (snd (run air_step (heard E [h # b]) (p, m))) = [sofar m @ b] \<and>
    to_host (snd (run air_step (heard E [h # b]) (p, m))) = host_view E (sofar m @ b)"
proof -
  have w: "rx_idle (receive_callback E False (h # b) m)" "modem_packet_queue (receive_callback E False (h # b) m) = [(sofar m @ b, rx_rssi E, rx_snr E)]"
    using receive_second [OF assms(3,7,4,6), of b] assms by (simp_all add: MODEM_QUEUE_SIZE_def)
  show ?thesis using deliver_idle [OF assms(1,2) w assms(8,9)] assms(2) by (simp add: heard_def split_beta)
qed

lemma hear_first:
  assumes "listening (p, m)" "isSplitPacket h" "length a \<le> MTU"
  shows "\<exists>m1. run air_step (heard E [h # a]) (p, m) = ((p, m1), []) \<and> modem_ok m1 \<and> rx_seq m1 = packetSequence h \<and>
    modem_packet_queue m1 = [] \<and> sofar m1 = a"
proof -
  have i: "\<not> promisc p" "modem_packet_queue m = []" "modem_ok m" "rx_seq m \<noteq> packetSequence h"
    using assms(1) header_sequence [of h] by (auto simp: listening_def rx_idle_def)
  then show ?thesis using receive_first [OF i(3) assms(2) i(4), of E a] assms(3) by (simp add: heard_def drain_none)
qed

lemma heard_Cons: "run air_step (heard E (f # fs)) s =
    (case run air_step (heard E [f]) s of (s1, o1) \<Rightarrow> case run air_step (heard E fs) s1 of (s2, o2) \<Rightarrow> (s2, o1 @ o2))"
  by (simp add: heard_def split_beta)

lemma hear_split:
  assumes "listening s" "alloc_ok E" "isSplitPacket h" "a @ b \<noteq> []" "length (a @ b) \<le> MTU"
  shows "listening (fst (run air_step (heard E [h # a, h # b]) s)) \<and> to_stack (snd (run air_step (heard E [h # a, h # b]) s)) = [a @ b] \<and>
    to_host (snd (run air_step (heard E [h # a, h # b]) s)) = host_view E (a @ b)"
proof -
  obtain p m where s: "s = (p, m)" by (cases s)
  obtain m1 where 1: "run air_step (heard E [h # a]) (p, m) = ((p, m1), [])" "modem_ok m1" "rx_seq m1 = packetSequence h" "modem_packet_queue m1 = []" "sofar m1 = a"
    using hear_first [of p m h a E] assms s by auto
  have p: "radio_online p" "\<not> promisc p" using assms(1) by (simp_all add: listening_def s)
  show ?thesis using hear_second [OF p 1(2-4) assms(2,3), of b] assms(4,5) 1
    by (simp add: heard_Cons [of E "h # a" "[h # b]"] s split_beta)
qed

lemma hear_packet:
  assumes "listening s" "radio_online p" "\<not> promisc p" "alloc_ok E" "1 \<le> length d" "length d \<le> 507"
    and r_def: "r = run air_step (heard E (air_frames (transmit (\<lambda>_. True) h p d))) s"
  shows "listening (fst r) \<and> to_stack (snd r) = [d] \<and> to_host (snd r) = host_view E d"
proof (cases "length d \<le> 254")
  case True
  then show ?thesis
    using hear_whole [OF assms(1,4), of "tx_header h (length d)" d] frames_whole [OF assms(2,3) True, of h] assms(5,6)
    by (cases d) (simp_all add: r_def header_split MTU_def)
next
  case False
  then have "air_frames (transmit (\<lambda>_. True) h p d) = [tx_header h (length d) # take 254 d, tx_header h (length d) # drop 254 d]"
    using frames_split [OF assms(2,3) _ _ refl, of d h] assms(6) by simp
  moreover have "d \<noteq> []" using assms(5) by auto
  ultimately show ?thesis
    using hear_split [OF assms(1,4), of "tx_header h (length d)" "take 254 d" "drop 254 d"] False assms(6)
    by (simp add: r_def header_split MTU_def)
qed

text \<open>C3. Over the air: packets of 1 to 507 bytes that one node transmits, each with any header, are handed to the stack of a listening
  node whole and in order, and its host reads each as a data frame after the two signal reports.\<close>

theorem air_roundtrip:
  assumes "listening s" "radio_online p" "\<not> promisc p" "alloc_ok E" "\<forall>(h, d) \<in> set ps. 1 \<le> length d \<and> length d \<le> 507" "kiss_idle k"
  shows "\<exists>s' os. run air_step (concat (map (\<lambda>(h, d). heard E (air_frames (transmit (\<lambda>_. True) h p d))) ps)) s = (s', os) \<and>
    listening s' \<and> to_stack os = map snd ps \<and>
    snd (kiss_feeds k (to_host os)) =
      concat (map (\<lambda>d. [[CMD_STAT_RSSI, word_of_int (rx_rssi E + rssi_offset)], [CMD_STAT_SNR, rx_snr E], CMD_DATA # d]) (map snd ps))"
  using assms(1,5,6)
proof (induction ps arbitrary: s k)
  case Nil
  then show ?case by simp
next
  case (Cons q ps)
  obtain h d where q: "q = (h, d)" by (cases q)
  have l: "1 \<le> length d" "length d \<le> 507" using Cons.prems(2) q by auto
  let ?v = "heard E (air_frames (transmit (\<lambda>_. True) h p d))"
  obtain s1 o1 where r: "run air_step ?v s = (s1, o1)" by (cases "run air_step ?v s")
  have 1: "listening s1" "to_stack o1 = [d]" "to_host o1 = host_view E d"
    using hear_packet [OF Cons.prems(1) assms(2,3,4) l refl, of h] r by simp_all
  have k1: "kiss_idle \<lparr>kbuf = Some [], kesc = False\<rparr>" by (simp add: kiss_idle_def)
  have f: "kiss_feeds k' (kiss_frame c b) = (\<lparr>kbuf = Some [], kesc = False\<rparr>, [c # b])" if "kiss_idle k'" "c \<noteq> FEND" "c \<noteq> FESC" for k' c b
    using feed_frame [OF that(1), of "[c]" b] that(2,3) by (simp add: kiss_frame_def)
  have v: "kiss_feeds k (host_view E d) = (\<lparr>kbuf = Some [], kesc = False\<rparr>,
      [[CMD_STAT_RSSI, word_of_int (rx_rssi E + rssi_offset)], [CMD_STAT_SNR, rx_snr E], CMD_DATA # d])"
    using f [OF Cons.prems(3)] f [OF k1]
    by (simp add: host_view_def kiss_data_frame_def kiss_feeds_append commands FEND_def FESC_def)
  from Cons.IH [OF 1(1) _ k1] Cons.prems(2)
  obtain s2 o2 where 2: "run air_step (concat (map (\<lambda>(h, d). heard E (air_frames (transmit (\<lambda>_. True) h p d))) ps)) s1 = (s2, o2)" "listening s2"
      "to_stack o2 = map snd ps" "snd (kiss_feeds \<lparr>kbuf = Some [], kesc = False\<rparr> (to_host o2)) =
        concat (map (\<lambda>d. [[CMD_STAT_RSSI, word_of_int (rx_rssi E + rssi_offset)], [CMD_STAT_SNR, rx_snr E], CMD_DATA # d]) (map snd ps))" by auto
  show ?case using r 1 2 [unfolded split_beta] v by (simp add: q run_append Let_def kiss_feeds_append split_beta)
qed

definition radio_up :: phy where
  "radio_up = \<lparr>lora_sf = 8, lora_cr = 5, lora_txp = 17, lora_bw = 125000, lora_freq = 868000000, radio_online = True, radio_locked = False,
    radio_error = False, implicit_l = 0, implicit = False, promisc = False, stat_rx = 0, stat_tx = 0, current_rssi = -292, last_rssi = -292,
    last_snr_raw = 0x80\<rparr>"

definition clear_rx :: rx_env where "clear_rx = \<lparr>alloc_ok = True, rx_rssi = -80, rx_snr = 40\<rparr>"

lemma modem_init_idle: "rx_idle modem_init"
  by (simp add: rx_idle_def modem_ok_def modem_init_def)

lemma listening_init: "listening (radio_up, modem_init)"
  by (simp add: listening_def radio_up_def modem_init_idle) (simp add: modem_init_def)

lemma air_roundtrip_witness:
  "\<exists>s' os. run air_step (concat (map (\<lambda>(h, d). heard clear_rx (air_frames (transmit (\<lambda>_. True) h radio_up d))) [(0x37, replicate 300 7), (0x12, [1])]))
      (radio_up, modem_init) = (s', os) \<and> to_stack os = [replicate 300 7, [1]]"
  using air_roundtrip [OF listening_init, of radio_up clear_rx "[(0x37, replicate 300 7), (0x12, [1])]" "\<lparr>kbuf = None, kesc = False\<rparr>"]
  by (auto simp: radio_up_def clear_rx_def kiss_idle_def split_beta)

text \<open>C36. The reassembly and the delivery share one buffer: when a whole packet is still queued while the first half of a split packet
  comes in, the delivery of the former overwrites the half, and the split packet is delivered with the wrong bytes.\<close>

theorem delivery_overwrites_reassembly:
  assumes "listening s" "alloc_ok E" "\<not> isSplitPacket g" "isSplitPacket h" "d \<noteq> []" "length d \<le> length a" "length a + length b \<le> 508"
  shows "to_stack (snd (run air_step [Frame E (g # d), Frame E (h # a), Loop, Frame E (h # b), Loop] s)) = [d, d @ drop (length d) a @ b]"
proof -
  obtain p m where s: "s = (p, m)" by (cases s)
  have i: "radio_online p" "\<not> promisc p" "rx_idle m" "modem_packet_queue m = []" using assms(1) by (simp_all add: listening_def s)
  then have m: "modem_ok m" "rx_seq m = SEQ_UNSET" "sofar m = []" by (simp_all add: rx_idle_def sofar_def)
  define m1 where "m1 = receive_callback E False (g # d) m"
  define m2 where "m2 = receive_callback E False (h # a) m1"
  have 1: "rx_idle m1" "modem_packet_queue m1 = [(d, rx_rssi E, rx_snr E)]"
    using receive_whole [OF m(1,2) assms(3,2), of d] m i assms(6,7) by (simp_all add: m1_def MODEM_QUEUE_SIZE_def MTU_def)
  have 2: "modem_ok m2" "sofar m2 = a" "rx_seq m2 = packetSequence h" "modem_packet_queue m2 = [(d, rx_rssi E, rx_snr E)]"
    using receive_first [of m1 h E a] 1 assms(4,6,7) header_sequence [of h] by (auto simp: m2_def rx_idle_def MTU_def)
  define p3 m3 where "p3 = p\<lparr>last_rssi := rx_rssi E, last_snr_raw := rx_snr E\<rparr>"
    and "m3 = m2\<lparr>modem_packet_queue := [], pbuf := d @ drop (length d) (pbuf m2), packet_ready := False\<rparr>"
  have l: "drain_modem (p, m2) = ((p3, m3), [To_host (kiss_indicate_stat_rssi p3), To_host (kiss_indicate_stat_snr p3), To_stack d, To_host (kiss_data_frame d)])"
    using i 2 assms(5) by (simp add: drain_modem_def deliver_one_def Let_def p3_def m3_def)
  have n: "read_len m2 = length a"
    using 2(1,2) by (auto simp: sofar_def modem_ok_def)
  have w: "take (length a - length d) (drop (length d) (pbuf m2)) = drop (length d) a"
    using 2(2) n by (metis drop_take sofar_def)
  have 3: "modem_ok m3" "rx_seq m3 = packetSequence h" "modem_packet_queue m3 = []" "sofar m3 = d @ drop (length d) a"
    using 2 n assms(6) w by (simp_all add: m3_def modem_ok_def sofar_def)
  have 4: "rx_idle (receive_callback E False (h # b) m3)"
      "modem_packet_queue (receive_callback E False (h # b) m3) = [(d @ drop (length d) a @ b, rx_rssi E, rx_snr E)]"
    using receive_second [OF 3(1) assms(4) 3(2) assms(2), of b] 3 assms(6,7) by (simp_all add: MODEM_QUEUE_SIZE_def MTU_def)
  have "to_stack (snd (drain_modem (p3, receive_callback E False (h # b) m3))) = [d @ drop (length d) a @ b]"
    using deliver_idle [of p3, OF _ _ 4] i assms(5-7) by (simp add: p3_def MTU_def)
  then show ?thesis using i by (simp add: s l p3_def split_beta flip: m1_def m2_def)
qed

lemma delivery_overwrites_reassembly_witness:
  "to_stack (snd (run air_step [Frame clear_rx [0x10, 9], Frame clear_rx [0x21, 1, 2, 3], Loop, Frame clear_rx [0x21, 4], Loop] (radio_up, modem_init))) =
    [[9], [9, 2, 3, 4]]"
  using delivery_overwrites_reassembly [OF listening_init, of clear_rx "0x10" "0x21" "[9]" "[1, 2, 3]" "[4]"]
  by (simp add: clear_rx_def isSplitPacket_def FLAG_SPLIT_def)

text \<open>A packet that arrives when memory is short is not dropped but stays in the buffer: the next whole packet is delivered behind
  its bytes.\<close>

theorem short_memory_joins_packets:
  assumes "listening s" "\<not> alloc_ok E" "alloc_ok F" "\<not> isSplitPacket g" "\<not> isSplitPacket h" "d \<noteq> []" "length d + length b \<le> 508"
  shows "to_stack (snd (run air_step [Frame E (g # d), Loop, Frame F (h # b), Loop] s)) = [d @ b]"
proof -
  obtain p m where s: "s = (p, m)" by (cases s)
  have i: "radio_online p" "\<not> promisc p" "rx_idle m" "modem_packet_queue m = []" using assms(1) by (simp_all add: listening_def s)
  then have m: "modem_ok m" "rx_seq m = SEQ_UNSET" "sofar m = []" by (simp_all add: rx_idle_def sofar_def)
  define m1 where "m1 = receive_callback E False (g # d) m"
  have 1: "modem_ok m1" "rx_seq m1 = SEQ_UNSET" "sofar m1 = d" "modem_packet_queue m1 = []"
    using m i assms(2,4,7) get_sofar [OF m(1), of d] by (simp_all add: m1_def receive_callback_def queue_packet_def get_ok MTU_def)
  have 2: "rx_idle (receive_callback F False (h # b) m1)" "modem_packet_queue (receive_callback F False (h # b) m1) = [(d @ b, rx_rssi F, rx_snr F)]"
    using receive_whole [OF 1(1,2) assms(5,3), of b] 1 assms(7) by (simp_all add: MODEM_QUEUE_SIZE_def MTU_def)
  show ?thesis
    using deliver_idle [OF i(1,2) 2] i assms(6,7) 1(4) by (simp add: s drain_none MTU_def split_beta flip: m1_def)
qed

lemma short_memory_joins_packets_witness:
  "to_stack (snd (run air_step [Frame (clear_rx\<lparr>alloc_ok := False\<rparr>) [0x10, 9], Loop, Frame clear_rx [0x20, 4], Loop] (radio_up, modem_init))) = [[9, 4]]"
  using short_memory_joins_packets [OF listening_init, of "clear_rx\<lparr>alloc_ok := False\<rparr>" clear_rx "0x10" "0x20" "[9]" "[4]"]
  by (simp add: clear_rx_def isSplitPacket_def FLAG_SPLIT_def)

text \<open>The largest packet the interface offers, 508 bytes, ends with an empty third frame; a split packet that follows with the same
  sequence number is delivered cut to its first 254 bytes.\<close>

theorem largest_packet_cuts_next:
  assumes "listening s" "radio_online p" "\<not> promisc p" "alloc_ok E" "length c = 508" "254 < length d" "length d \<le> 507"
  shows "to_stack (snd (run air_step (heard E (air_frames (transmit (\<lambda>_. True) h p c)) @ heard E (air_frames (transmit (\<lambda>_. True) h p d))) s)) = [c, take 254 d]"
proof -
  have ne: "c \<noteq> []" "d \<noteq> []" using assms(5,6) by auto
  let ?h = "tx_header h 508"
  have hh: "tx_header h (length d) = ?h" using assms(6) by (simp add: tx_header_def SINGLE_MTU_def HEADER_L_def)
  have sp: "isSplitPacket ?h" by (simp add: header_split)
  obtain p1 m1 where 1: "fst (run air_step (heard E [?h # take 254 c, ?h # drop 254 c]) s) = (p1, m1)" "listening (p1, m1)"
      "to_stack (snd (run air_step (heard E [?h # take 254 c, ?h # drop 254 c]) s)) = [c]"
    using hear_split [OF assms(1,4) sp, of "take 254 c" "drop 254 c"] assms(5) ne by (cases "fst (run air_step (heard E [?h # take 254 c, ?h # drop 254 c]) s)") (auto simp: MTU_def)
  obtain m2 where 2: "run air_step (heard E [[?h]]) (p1, m1) = ((p1, m2), [])" "modem_ok m2" "rx_seq m2 = packetSequence ?h" "modem_packet_queue m2 = []" "sofar m2 = []"
    using hear_first [OF 1(2) sp, of "[]" E] by auto
  have p1: "radio_online p1" "\<not> promisc p1" using 1(2) by (simp_all add: listening_def)
  obtain p3 m3 where 3: "fst (run air_step (heard E [?h # take 254 d]) (p1, m2)) = (p3, m3)" "listening (p3, m3)"
      "to_stack (snd (run air_step (heard E [?h # take 254 d]) (p1, m2))) = [take 254 d]"
    using hear_second [OF p1 2(2-4) assms(4) sp, of "take 254 d"] 2(5) assms(6) ne
    by (cases "fst (run air_step (heard E [?h # take 254 d]) (p1, m2))") (auto simp: MTU_def)
  obtain m4 where 4: "run air_step (heard E [?h # drop 254 d]) (p3, m3) = ((p3, m4), [])"
    using hear_first [OF 3(2) sp, of "drop 254 d" E] assms(7) by (fastforce simp: MTU_def)
  have f: "air_frames (transmit (\<lambda>_. True) h p c) = [?h # take 254 c, ?h # drop 254 c, [?h]]"
      "air_frames (transmit (\<lambda>_. True) h p d) = [?h # take 254 d, ?h # drop 254 d]"
    using frames_split [OF assms(2,3) _ _ refl, of c h] frames_split [OF assms(2,3) _ _ refl, of d h] assms(5-7) by (simp_all add: hh)
  have a: "heard E [?h # take 254 c, ?h # drop 254 c, [?h]] = heard E [?h # take 254 c, ?h # drop 254 c] @ heard E [[?h]]" by (simp add: heard_def)
  have b: "heard E [?h # take 254 d, ?h # drop 254 d] = heard E [?h # take 254 d] @ heard E [?h # drop 254 d]" by (simp add: heard_def)
  show ?thesis unfolding f a b run_append Let_def split_beta using 1 2(1) 3 4 by simp
qed

lemma largest_packet_cuts_next_witness:
  "to_stack (snd (run air_step (heard clear_rx (air_frames (transmit (\<lambda>_. True) 0x40 radio_up (replicate 508 1))) @
    heard clear_rx (air_frames (transmit (\<lambda>_. True) 0x40 radio_up (replicate 300 2)))) (radio_up, modem_init))) = [replicate 508 1, replicate 254 2]"
proof -
  have t: "take 254 (replicate 300 (2 :: u8)) = replicate 254 2" by simp
  show ?thesis
    by (subst t [symmetric], rule largest_packet_cuts_next [OF listening_init]) (simp_all add: radio_up_def clear_rx_def)
qed

end
