(* ===== verification/Rom.thy ===== *)
theory Rom
  imports Kiss
begin

text \<open>
  The EEPROM of the modem, \<open>src/src/Utilities.h\<close>, \<open>ROM.h\<close> and \<open>Device.h\<close>, on the ESP32: 1024 bytes, the host's WiFi
  settings at the start, the firmware hash and the device signature below the reserved 200 bytes at the end,
  which hold the factory data with its checksum and lock byte and the radio configuration. MD5 is a parameter.
\<close>

definition EEPROM_SIZE :: nat where "EEPROM_SIZE = 1024"
definition EEPROM_RESERVED :: nat where "EEPROM_RESERVED = 200"
definition CONFIG_SIZE :: nat where "CONFIG_SIZE = 256"
definition CHECKSUMMED_SIZE :: nat where "CHECKSUMMED_SIZE = 0x0B"
definition DEV_SIG_LEN :: nat where "DEV_SIG_LEN = 64"
definition DEV_HASH_LEN :: nat where "DEV_HASH_LEN = 32"

definition eeprom_addr :: "nat \<Rightarrow> nat" where "eeprom_addr a = a + (EEPROM_SIZE - EEPROM_RESERVED)"
definition config_addr :: "nat \<Rightarrow> nat" where "config_addr a = a"
definition dev_sig_addr :: "nat \<Rightarrow> nat" where "dev_sig_addr a = a + (EEPROM_SIZE - EEPROM_RESERVED - DEV_SIG_LEN)"
definition dev_fwhash_addr :: "nat \<Rightarrow> nat" where "dev_fwhash_addr a = a + (EEPROM_SIZE - EEPROM_RESERVED - DEV_SIG_LEN - DEV_HASH_LEN)"

definition ADDR_PRODUCT :: nat where "ADDR_PRODUCT = 0x00"
definition ADDR_MODEL :: nat where "ADDR_MODEL = 0x01"
definition ADDR_HW_REV :: nat where "ADDR_HW_REV = 0x02"
definition ADDR_CHKSUM :: nat where "ADDR_CHKSUM = 0x0B"
definition ADDR_SIGNATURE :: nat where "ADDR_SIGNATURE = 0x1B"
definition ADDR_INFO_LOCK :: nat where "ADDR_INFO_LOCK = 0x9B"
definition ADDR_CONF_SF :: nat where "ADDR_CONF_SF = 0x9C"
definition ADDR_CONF_CR :: nat where "ADDR_CONF_CR = 0x9D"
definition ADDR_CONF_TXP :: nat where "ADDR_CONF_TXP = 0x9E"
definition ADDR_CONF_BW :: nat where "ADDR_CONF_BW = 0x9F"
definition ADDR_CONF_FREQ :: nat where "ADDR_CONF_FREQ = 0xA3"
definition ADDR_CONF_OK :: nat where "ADDR_CONF_OK = 0xA7"
definition ADDR_CONF_AIRTIME :: nat where "ADDR_CONF_AIRTIME = 0xA8"
definition ADDR_CONF_LT_AIRTIME :: nat where "ADDR_CONF_LT_AIRTIME = 0xA9"
definition ADDR_CONF_KISS_OUT :: nat where "ADDR_CONF_KISS_OUT = 0xAA"
definition ADDR_CONF_BT :: nat where "ADDR_CONF_BT = 0xB0"
definition ADDR_CONF_DINT :: nat where "ADDR_CONF_DINT = 0xB2"
definition ADDR_CONF_DADR :: nat where "ADDR_CONF_DADR = 0xB3"
definition ADDR_CONF_DBLK :: nat where "ADDR_CONF_DBLK = 0xB4"
definition ADDR_CONF_BSET :: nat where "ADDR_CONF_BSET = 0xB7"
definition ADDR_CONF_DROT :: nat where "ADDR_CONF_DROT = 0xB8"
definition ADDR_CONF_DIA :: nat where "ADDR_CONF_DIA = 0xB9"
definition ADDR_CONF_WIFI :: nat where "ADDR_CONF_WIFI = 0xBA"
definition ADDR_CONF_WCHN :: nat where "ADDR_CONF_WCHN = 0xBB"
definition ADDR_CONF_SSID :: nat where "ADDR_CONF_SSID = 0x00"
definition ADDR_CONF_PSK :: nat where "ADDR_CONF_PSK = 0x21"
definition ADDR_CONF_IP :: nat where "ADDR_CONF_IP = 0x42"
definition ADDR_CONF_NM :: nat where "ADDR_CONF_NM = 0x46"

definition INFO_LOCK_BYTE :: u8 where "INFO_LOCK_BYTE = 0x73"
definition CONF_OK_BYTE :: u8 where "CONF_OK_BYTE = 0x73"
definition BT_ENABLE_BYTE :: u8 where "BT_ENABLE_BYTE = 0x73"

lemmas rom_sizes = EEPROM_SIZE_def EEPROM_RESERVED_def CONFIG_SIZE_def CHECKSUMMED_SIZE_def DEV_SIG_LEN_def DEV_HASH_LEN_def
lemmas rom_addrs = eeprom_addr_def config_addr_def dev_sig_addr_def dev_fwhash_addr_def
  ADDR_PRODUCT_def ADDR_MODEL_def ADDR_HW_REV_def ADDR_CHKSUM_def ADDR_SIGNATURE_def ADDR_INFO_LOCK_def ADDR_CONF_SF_def ADDR_CONF_CR_def
  ADDR_CONF_TXP_def ADDR_CONF_BW_def ADDR_CONF_FREQ_def ADDR_CONF_OK_def ADDR_CONF_AIRTIME_def ADDR_CONF_LT_AIRTIME_def ADDR_CONF_KISS_OUT_def
  ADDR_CONF_BT_def ADDR_CONF_DINT_def ADDR_CONF_DADR_def ADDR_CONF_DBLK_def ADDR_CONF_BSET_def ADDR_CONF_DROT_def ADDR_CONF_DIA_def
  ADDR_CONF_WIFI_def ADDR_CONF_WCHN_def ADDR_CONF_SSID_def ADDR_CONF_PSK_def ADDR_CONF_IP_def ADDR_CONF_NM_def

section \<open>Bytes\<close>

type_synonym rom = bytes

definition eeprom_update :: "nat \<Rightarrow> u8 \<Rightarrow> rom \<Rightarrow> rom" where
  "eeprom_update a b r = (if r ! a \<noteq> b then r[a := b] else r)"

text \<open>\<open>for (i...) eeprom_update(a + i, bs[i])\<close>\<close>

fun eeprom_updates :: "nat \<Rightarrow> bytes \<Rightarrow> rom \<Rightarrow> rom" where
  "eeprom_updates a [] r = r"
| "eeprom_updates a (b # bs) r = eeprom_updates (a + 1) bs (eeprom_update a b r)"

definition eeprom_read :: "nat \<Rightarrow> nat \<Rightarrow> rom \<Rightarrow> bytes" where
  "eeprom_read a n r = map (\<lambda>i. r ! (a + i)) [0 ..< n]"

definition eeprom_info_locked :: "rom \<Rightarrow> bool" where
  "eeprom_info_locked r = (r ! eeprom_addr ADDR_INFO_LOCK = INFO_LOCK_BYTE)"

definition eeprom_dump_all :: "rom \<Rightarrow> bytes" where
  "eeprom_dump_all r = eeprom_read (eeprom_addr 0) EEPROM_RESERVED r"

definition kiss_dump_eeprom :: "rom \<Rightarrow> bytes" where
  "kiss_dump_eeprom r = kiss_frame CMD_ROM_READ (eeprom_dump_all r)"

definition kiss_dump_config :: "rom \<Rightarrow> bytes" where
  "kiss_dump_config r = kiss_frame CMD_CFG_READ (eeprom_read (config_addr 0) CONFIG_SIZE r)"

text \<open>\<open>Inl\<close>: the error frame for a locked or reserved address.\<close>

definition eeprom_write :: "u8 \<Rightarrow> u8 \<Rightarrow> rom \<Rightarrow> bytes + rom" where
  "eeprom_write a b r =
    (if \<not> eeprom_info_locked r \<and> unat a < EEPROM_RESERVED then Inr (eeprom_update (eeprom_addr (unat a)) b r)
     else Inl (kiss_indicate_error ERROR_EEPROM_LOCKED))"

text \<open>Then the device restarts.\<close>

definition eeprom_erase :: "rom \<Rightarrow> rom" where
  "eeprom_erase r = eeprom_updates (eeprom_addr 0) (replicate EEPROM_RESERVED 0xFF) r"

section \<open>Factory data\<close>

text \<open>The board of the build: its product and model codes, and the codes its firmware accepts.\<close>

record board =
  b_product :: u8
  b_model :: u8
  b_products :: "u8 list"
  b_models :: "u8 list"

definition tbeam_supreme :: board where
  "tbeam_supreme = \<lparr>b_product = 0xEA, b_model = 0xDC,
    b_products = [0x03, 0x40, 0x41, 0xF0, 0xE0, 0xB2, 0xB0, 0xB1, 0xC0, 0xC1, 0xC3, 0xD0, 0xEA, 0xEB],
    b_models = [0xDB, 0xDC]\<rparr>"

definition auto_provision_eeprom_if_blank :: "board \<Rightarrow> (bytes \<Rightarrow> bytes) \<Rightarrow> rom \<Rightarrow> rom" where
  "auto_provision_eeprom_if_blank bd md5 r =
    (if eeprom_info_locked r then r
     else if \<exists>v \<in> set (eeprom_read (eeprom_addr 0) CHECKSUMMED_SIZE r). v \<noteq> 0xFF \<and> v \<noteq> 0x00 then r
     else let r1 = eeprom_update (eeprom_addr ADDR_PRODUCT) (b_product bd) r;
              r2 = eeprom_update (eeprom_addr ADDR_MODEL) (b_model bd) r1;
              r3 = eeprom_update (eeprom_addr ADDR_HW_REV) 0x01 r2;
              h = md5 (eeprom_read (eeprom_addr 0) CHECKSUMMED_SIZE r3);
              r4 = eeprom_updates (eeprom_addr ADDR_CHKSUM) (take 16 h) r3
          in eeprom_update (eeprom_addr ADDR_INFO_LOCK) INFO_LOCK_BYTE r4)"

definition eeprom_product_valid :: "board \<Rightarrow> rom \<Rightarrow> bool" where
  "eeprom_product_valid bd r = (r ! eeprom_addr ADDR_PRODUCT \<in> set (b_products bd))"

definition eeprom_model_valid :: "board \<Rightarrow> rom \<Rightarrow> bool" where
  "eeprom_model_valid bd r = (r ! eeprom_addr ADDR_MODEL \<in> set (b_models bd))"

definition eeprom_hwrev_valid :: "rom \<Rightarrow> bool" where
  "eeprom_hwrev_valid r = (r ! eeprom_addr ADDR_HW_REV \<noteq> 0x00 \<and> r ! eeprom_addr ADDR_HW_REV \<noteq> 0xFF)"

definition eeprom_checksum_valid :: "(bytes \<Rightarrow> bytes) \<Rightarrow> rom \<Rightarrow> bool" where
  "eeprom_checksum_valid md5 r =
    (eeprom_read (eeprom_addr ADDR_CHKSUM) 16 r = take 16 (md5 (eeprom_read (eeprom_addr 0) CHECKSUMMED_SIZE r)))"

definition provisioned :: "board \<Rightarrow> (bytes \<Rightarrow> bytes) \<Rightarrow> rom \<Rightarrow> bool" where
  "provisioned bd md5 r = (eeprom_info_locked r \<and> eeprom_product_valid bd r \<and> eeprom_model_valid bd r \<and>
     eeprom_hwrev_valid r \<and> eeprom_checksum_valid md5 r)"

section \<open>Settings\<close>

definition wr_conf_save :: "u8 \<Rightarrow> rom \<Rightarrow> rom" where "wr_conf_save v r = eeprom_update (eeprom_addr ADDR_CONF_WIFI) v r"
definition bt_conf_save :: "bool \<Rightarrow> rom \<Rightarrow> rom" where
  "bt_conf_save on r = eeprom_update (eeprom_addr ADDR_CONF_BT) (if on then BT_ENABLE_BYTE else 0x00) r"
definition di_conf_save :: "u8 \<Rightarrow> rom \<Rightarrow> rom" where "di_conf_save v r = eeprom_update (eeprom_addr ADDR_CONF_DINT) v r"
definition da_conf_save :: "u8 \<Rightarrow> rom \<Rightarrow> rom" where "da_conf_save v r = eeprom_update (eeprom_addr ADDR_CONF_DADR) v r"
definition db_conf_save :: "u8 \<Rightarrow> rom \<Rightarrow> rom" where
  "db_conf_save v r = eeprom_update (eeprom_addr ADDR_CONF_DBLK) v (eeprom_update (eeprom_addr ADDR_CONF_BSET) CONF_OK_BYTE r)"
definition drot_conf_save :: "u8 \<Rightarrow> rom \<Rightarrow> rom" where
  "drot_conf_save v r = (if v \<le> 0x03 then eeprom_update (eeprom_addr ADDR_CONF_DROT) v r else r)"
definition dia_conf_save :: "u8 \<Rightarrow> rom \<Rightarrow> rom" where
  "dia_conf_save v r = eeprom_update (eeprom_addr ADDR_CONF_DIA) (if v > 0x00 then 0x01 else 0x00) r"

definition eeprom_have_conf :: "rom \<Rightarrow> bool" where
  "eeprom_have_conf r = (r ! eeprom_addr ADDR_CONF_OK = CONF_OK_BYTE)"

text \<open>The two airtime limits; \<open>rnd\<close> rounds to \<open>float\<close>.\<close>

record limits =
  st_airtime_limit :: rat
  lt_airtime_limit :: rat

definition rom_be32 :: "nat \<Rightarrow> rom \<Rightarrow> nat" where
  "rom_be32 a r = be32 (r ! a) (r ! (a + 1)) (r ! (a + 2)) (r ! (a + 3))"

definition kiss_out_load :: "rom \<Rightarrow> host_link \<Rightarrow> host_link" where
  "kiss_out_load r h =
    (let k = r ! eeprom_addr ADDR_CONF_KISS_OUT in if k \<noteq> 0xFF then h\<lparr>kiss_serial_output := (k \<noteq> 0x00)\<rparr> else h)"

definition limits_load :: "(rat \<Rightarrow> rat) \<Rightarrow> rom \<Rightarrow> limits \<Rightarrow> limits" where
  "limits_load rnd r l =
    (let st = r ! eeprom_addr ADDR_CONF_AIRTIME; lt = r ! eeprom_addr ADDR_CONF_LT_AIRTIME
     in l\<lparr>st_airtime_limit := (if st \<noteq> 0xFF then rnd (of_nat (unat st) / 100) else st_airtime_limit l),
          lt_airtime_limit := (if lt \<noteq> 0xFF then rnd (of_nat (unat lt) / 100) else lt_airtime_limit l)\<rparr>)"

definition phy_load :: "rom \<Rightarrow> phy \<Rightarrow> phy" where
  "phy_load r p = p\<lparr>lora_sf := int (unat (r ! eeprom_addr ADDR_CONF_SF)), lora_cr := int (unat (r ! eeprom_addr ADDR_CONF_CR)),
     lora_txp := int (unat (r ! eeprom_addr ADDR_CONF_TXP)), lora_freq := rom_be32 (eeprom_addr ADDR_CONF_FREQ) r,
     lora_bw := rom_be32 (eeprom_addr ADDR_CONF_BW) r\<rparr>"

definition eeprom_conf_load :: "(rat \<Rightarrow> rat) \<Rightarrow> rom \<Rightarrow> phy \<times> limits \<times> host_link \<Rightarrow> phy \<times> limits \<times> host_link" where
  "eeprom_conf_load rnd r s =
    (case s of (p, l, h) \<Rightarrow>
      if eeprom_have_conf r then (phy_load r p, limits_load rnd r l, kiss_out_load r h) else (p, l, kiss_out_load r h))"

text \<open>\<open>None\<close>: the warning pattern of the light, nothing saved.\<close>

definition eeprom_conf_save :: "bool \<Rightarrow> phy \<Rightarrow> rom \<Rightarrow> rom option" where
  "eeprom_conf_save hw_ready p r =
    (if hw_ready \<and> radio_online p then
       (let r1 = eeprom_update (eeprom_addr ADDR_CONF_SF) (word_of_int (lora_sf p)) r;
            r2 = eeprom_update (eeprom_addr ADDR_CONF_CR) (word_of_int (lora_cr p)) r1;
            r3 = eeprom_update (eeprom_addr ADDR_CONF_TXP) (word_of_int (lora_txp p)) r2;
            r4 = eeprom_updates (eeprom_addr ADDR_CONF_BW) (be32_bytes (lora_bw p)) r3;
            r5 = eeprom_updates (eeprom_addr ADDR_CONF_FREQ) (be32_bytes (lora_freq p)) r4
        in Some (eeprom_update (eeprom_addr ADDR_CONF_OK) CONF_OK_BYTE r5))
     else None)"

definition eeprom_conf_delete :: "rom \<Rightarrow> rom" where
  "eeprom_conf_delete r = eeprom_update (eeprom_addr ADDR_CONF_OK) 0x00 r"

definition device_save_signature :: "bool \<Rightarrow> bytes \<Rightarrow> rom \<Rightarrow> rom" where
  "device_save_signature valid s r = (if valid then eeprom_updates (dev_sig_addr 0) (take DEV_SIG_LEN s) r else r)"

definition device_load_signature :: "rom \<Rightarrow> bytes" where
  "device_load_signature r = eeprom_read (dev_sig_addr 0) DEV_SIG_LEN r"

definition device_save_firmware_hash :: "bytes \<Rightarrow> rom \<Rightarrow> rom" where
  "device_save_firmware_hash h r = eeprom_updates (dev_fwhash_addr 0) (take DEV_HASH_LEN h) r"

definition device_load_firmware_hash :: "rom \<Rightarrow> bytes" where
  "device_load_firmware_hash r = eeprom_read (dev_fwhash_addr 0) DEV_HASH_LEN r"

section \<open>An EEPROM holds what was written\<close>

lemma update_length [simp]: "length (eeprom_update a b r) = length r"
  by (simp add: eeprom_update_def)

lemma update_nth [simp]: "i < length r \<Longrightarrow> a < length r \<Longrightarrow> eeprom_update a b r ! i = (if i = a then b else r ! i)"
  by (auto simp: eeprom_update_def)

lemma updates_length [simp]: "length (eeprom_updates a bs r) = length r"
  by (induction a bs r rule: eeprom_updates.induct) simp_all

lemma updates_nth: "a + length bs \<le> length r \<Longrightarrow> i < length r \<Longrightarrow>
  eeprom_updates a bs r ! i = (if a \<le> i \<and> i < a + length bs then bs ! (i - a) else r ! i)"
  by (induction a bs r rule: eeprom_updates.induct) (auto simp: nth_Cons' Suc_diff_le)

lemma read_length [simp]: "length (eeprom_read a n r) = n"
  by (simp add: eeprom_read_def)

lemma read_updates: "a + length bs \<le> length r \<Longrightarrow> eeprom_read a (length bs) (eeprom_updates a bs r) = bs"
  by (rule nth_equalityI) (simp_all add: eeprom_read_def updates_nth)

lemma read_cong: "(\<And>i. i < n \<Longrightarrow> r ! (a + i) = r' ! (a + i)) \<Longrightarrow> eeprom_read a n r = eeprom_read a n r'"
  by (simp add: eeprom_read_def)

definition rom_ok :: "rom \<Rightarrow> bool" where "rom_ok r \<longleftrightarrow> length r = EEPROM_SIZE"

lemma rom_ok_updates [simp]: "rom_ok (eeprom_update a b r) = rom_ok r" "rom_ok (eeprom_updates a bs r) = rom_ok r"
  by (simp_all add: rom_ok_def)

text \<open>What an address reads after the writes of \<open>eeprom_conf_save\<close>.\<close>

lemma conf_save_nth:
  assumes "rom_ok r" "eeprom_conf_save True p r = Some r'" "i < EEPROM_SIZE"
  shows "r' ! i =
    (if i = eeprom_addr ADDR_CONF_OK then CONF_OK_BYTE
     else if eeprom_addr ADDR_CONF_FREQ \<le> i \<and> i < eeprom_addr ADDR_CONF_FREQ + 4 then be32_bytes (lora_freq p) ! (i - eeprom_addr ADDR_CONF_FREQ)
     else if eeprom_addr ADDR_CONF_BW \<le> i \<and> i < eeprom_addr ADDR_CONF_BW + 4 then be32_bytes (lora_bw p) ! (i - eeprom_addr ADDR_CONF_BW)
     else if i = eeprom_addr ADDR_CONF_TXP then word_of_int (lora_txp p)
     else if i = eeprom_addr ADDR_CONF_CR then word_of_int (lora_cr p)
     else if i = eeprom_addr ADDR_CONF_SF then word_of_int (lora_sf p)
     else r ! i)"
proof -
  have l: "length r = 1024" using assms(1) by (simp add: rom_ok_def rom_sizes)
  have b: "length (be32_bytes n) = 4" for n by (simp add: be32_bytes_def)
  show ?thesis using assms(2,3) l
    by (auto simp: eeprom_conf_save_def Let_def rom_addrs rom_sizes updates_nth b split: if_splits)
qed

lemma rom_be32_bytes: "(\<And>j. j < 4 \<Longrightarrow> r ! (a + j) = be32_bytes n ! j) \<Longrightarrow> n < 4294967296 \<Longrightarrow> rom_be32 a r = n"
proof -
  assume h: "\<And>j. j < 4 \<Longrightarrow> r ! (a + j) = be32_bytes n ! j" and n: "n < 4294967296"
  have "rom_be32 a r = be32 (byte_at 24 n) (byte_at 16 n) (byte_at 8 n) (byte_at 0 n)"
    using h [of 0] h [of 1] h [of 2] h [of 3] by (simp add: rom_be32_def be32_bytes_def numeral_eq_Suc)
  then show ?thesis using n by (simp add: be32_byte_at)
qed

text \<open>C33. The radio configuration survives a restart: what \<open>eeprom_conf_save\<close> wrote, \<open>eeprom_conf_load\<close> reads back, whatever values are in the
  variables at that time, the airtime limits and the output port come from their own addresses, and the factory data are as before.
\<close>

theorem radio_conf_roundtrip:
  assumes "rom_ok r" "radio_online p"
    and "0 \<le> lora_sf p" "lora_sf p < 256" "0 \<le> lora_cr p" "lora_cr p < 256" "0 \<le> lora_txp p" "lora_txp p < 256"
    and "lora_bw p < 4294967296" "lora_freq p < 4294967296"
  shows "\<exists>r'. eeprom_conf_save True p r = Some r' \<and>
     eeprom_conf_load rnd r' (q, l, h) =
       (q\<lparr>lora_sf := lora_sf p, lora_cr := lora_cr p, lora_txp := lora_txp p, lora_bw := lora_bw p, lora_freq := lora_freq p\<rparr>,
        limits_load rnd r l, kiss_out_load r h) \<and>
     eeprom_read (eeprom_addr 0) (ADDR_INFO_LOCK + 1) r' = eeprom_read (eeprom_addr 0) (ADDR_INFO_LOCK + 1) r"
proof -
  obtain r' where s: "eeprom_conf_save True p r = Some r'" using assms(2) by (simp add: eeprom_conf_save_def Let_def)
  note n = conf_save_nth [OF assms(1) s]
  have f: "rom_be32 (eeprom_addr ADDR_CONF_FREQ) r' = lora_freq p" "rom_be32 (eeprom_addr ADDR_CONF_BW) r' = lora_bw p"
    using assms(9,10) by (auto intro!: rom_be32_bytes simp: n rom_addrs rom_sizes)
  have of_byte: "uint (word_of_int x :: u8) = x" if "0 \<le> x" "x < 256" for x
    using that by (simp add: unsigned_of_int take_bit_int_def)
  have "phy_load r' q = q\<lparr>lora_sf := lora_sf p, lora_cr := lora_cr p, lora_txp := lora_txp p, lora_bw := lora_bw p, lora_freq := lora_freq p\<rparr>"
    using assms(3-8) by (cases q) (simp add: phy_load_def f, simp add: n rom_addrs rom_sizes of_byte)
  moreover have "eeprom_have_conf r'" by (simp add: eeprom_have_conf_def n rom_addrs rom_sizes CONF_OK_BYTE_def)
  moreover have "limits_load rnd r' l = limits_load rnd r l" "kiss_out_load r' h = kiss_out_load r h"
    by (simp_all add: limits_load_def kiss_out_load_def n rom_addrs rom_sizes)
  moreover have "eeprom_read (eeprom_addr 0) (ADDR_INFO_LOCK + 1) r' = eeprom_read (eeprom_addr 0) (ADDR_INFO_LOCK + 1) r"
    by (rule read_cong) (simp add: n rom_addrs rom_sizes)
  ultimately show ?thesis using s by (simp add: eeprom_conf_load_def)
qed

lemma radio_conf_roundtrip_witness:
  "\<exists>r'. eeprom_conf_save True
      \<lparr>lora_sf = 8, lora_cr = 5, lora_txp = 17, lora_bw = 125000, lora_freq = 868000000, radio_online = True, radio_locked = False,
       radio_error = False, implicit_l = 0, implicit = False, promisc = False, stat_rx = 0, stat_tx = 0, current_rssi = 0, last_rssi = 0,
       last_snr_raw = 0\<rparr> (replicate 1024 0xFF) = Some r' \<and>
     lora_freq (fst (eeprom_conf_load id r' (undefined, undefined, undefined))) = 868000000"
  using radio_conf_roundtrip [where rnd = id and r = "replicate 1024 0xFF" and p = "\<lparr>lora_sf = 8, lora_cr = 5, lora_txp = 17, lora_bw = 125000,
       lora_freq = 868000000, radio_online = True, radio_locked = False, radio_error = False, implicit_l = 0, implicit = False, promisc = False,
       stat_rx = 0, stat_tx = 0, current_rssi = 0, last_rssi = 0, last_snr_raw = 0\<rparr>" and q = undefined and l = undefined and h = undefined]
  by (auto simp: rom_ok_def rom_sizes)

text \<open>A board with blank factory data provisions itself at the first boot, with \<open>md5\<close> giving 16 bytes: product, model and revision are accepted, the
  checksum is right, the lock is set. And the second boot changes nothing.
\<close>

theorem blank_provisioned:
  assumes "rom_ok r" "\<And>x. length (md5 x) = 16" "\<not> eeprom_info_locked r"
    and "\<forall>v \<in> set (eeprom_read (eeprom_addr 0) CHECKSUMMED_SIZE r). v = 0xFF \<or> v = 0x00"
    and "b_product bd \<in> set (b_products bd)" "b_model bd \<in> set (b_models bd)"
  shows "(let r' = auto_provision_eeprom_if_blank bd md5 r in
     provisioned bd md5 r' \<and> auto_provision_eeprom_if_blank bd md5 r' = r' \<and>
     eeprom_read 0 (eeprom_addr 0) r' = eeprom_read 0 (eeprom_addr 0) r)"
proof -
  define r3 where "r3 = eeprom_update (eeprom_addr ADDR_HW_REV) 0x01 (eeprom_update (eeprom_addr ADDR_MODEL) (b_model bd)
     (eeprom_update (eeprom_addr ADDR_PRODUCT) (b_product bd) r))"
  define h where "h = md5 (eeprom_read (eeprom_addr 0) CHECKSUMMED_SIZE r3)"
  define r' where "r' = eeprom_update (eeprom_addr ADDR_INFO_LOCK) INFO_LOCK_BYTE (eeprom_updates (eeprom_addr ADDR_CHKSUM) h r3)"
  have l: "length h = 16" "length r = 1024" using assms(1,2) by (simp_all add: h_def rom_ok_def rom_sizes)
  have e: "auto_provision_eeprom_if_blank bd md5 r = r'"
    using assms(3,4) l by (auto simp: auto_provision_eeprom_if_blank_def Let_def r'_def r3_def h_def)
  have n: "r' ! i = (if i = eeprom_addr ADDR_INFO_LOCK then INFO_LOCK_BYTE
      else if eeprom_addr ADDR_CHKSUM \<le> i \<and> i < eeprom_addr ADDR_CHKSUM + 16 then h ! (i - eeprom_addr ADDR_CHKSUM)
      else if i = eeprom_addr ADDR_HW_REV then 0x01 else if i = eeprom_addr ADDR_MODEL then b_model bd
      else if i = eeprom_addr ADDR_PRODUCT then b_product bd else r ! i)" if "i < 1024" for i
    using that l by (simp add: r'_def r3_def updates_nth rom_addrs rom_sizes)
  have n3: "r3 ! i = r' ! i" if "eeprom_addr 0 \<le> i" "i < eeprom_addr ADDR_CHKSUM" for i
    using that l by (simp add: n r3_def rom_addrs rom_sizes)
  have sum: "eeprom_read (eeprom_addr 0) CHECKSUMMED_SIZE r' = eeprom_read (eeprom_addr 0) CHECKSUMMED_SIZE r3"
    by (rule read_cong) (rule n3 [symmetric], simp_all add: rom_addrs rom_sizes)
  have "eeprom_read (eeprom_addr ADDR_CHKSUM) 16 r' = h"
    by (rule nth_equalityI) (use l in \<open>simp_all add: eeprom_read_def n rom_addrs rom_sizes\<close>)
  then have c: "eeprom_checksum_valid md5 r'" using l by (simp add: eeprom_checksum_valid_def sum h_def [symmetric])
  have k: "eeprom_info_locked r'" by (simp add: eeprom_info_locked_def n rom_addrs rom_sizes)
  moreover have "eeprom_read 0 (eeprom_addr 0) r' = eeprom_read 0 (eeprom_addr 0) r"
    by (rule read_cong) (simp add: n rom_addrs rom_sizes)
  moreover have "eeprom_product_valid bd r'" "eeprom_model_valid bd r'" "eeprom_hwrev_valid r'"
    using assms(5,6) by (simp_all add: eeprom_product_valid_def eeprom_model_valid_def eeprom_hwrev_valid_def n rom_addrs rom_sizes)
  ultimately show ?thesis using c by (simp add: e Let_def provisioned_def auto_provision_eeprom_if_blank_def [of bd md5 r'])
qed

lemma blank_provisioned_witness:
  "provisioned tbeam_supreme (\<lambda>x. replicate 16 (hd x)) (auto_provision_eeprom_if_blank tbeam_supreme (\<lambda>x. replicate 16 (hd x)) (replicate 1024 0xFF))"
  using blank_provisioned [of "replicate 1024 0xFF" "\<lambda>x. replicate 16 (hd x)" tbeam_supreme]
  by (simp add: Let_def rom_ok_def rom_sizes eeprom_info_locked_def rom_addrs eeprom_read_def tbeam_supreme_def INFO_LOCK_BYTE_def)

end
