(* ===== verification/Csma.thy ===== *)
theory Csma
  imports Radio
begin

text \<open>
  When the modem may transmit, \<open>src/src/RNode_Firmware.ino\<close> and \<open>Utilities.h\<close>: the timing that follows from the radio parameters
  (\<open>updateBitrate\<close>), the state of the channel, the contention window, and \<open>tx_queue_handler\<close>, which waits for a free channel before it
  lets the transmit queue go. \<open>rf\<close> and \<open>rd\<close> round to \<open>float\<close> and to \<open>double\<close>; \<open>unsigned long\<close> has 32 bits.
\<close>

section \<open>Timing\<close>

record timing =
  lora_symbol_rate :: rat
  lora_symbol_time_ms :: rat
  lora_bitrate :: nat
  lora_us_per_byte :: rat
  lora_limit_rate :: bool
  lora_guard_rate :: bool
  csma_slot_ms :: nat
  difs_ms :: nat
  lora_preamble_symbols :: int
  lora_preamble_time_ms :: int
  lora_header_time_ms :: int

definition CSMA_SLOT_MIN_MS :: nat where "CSMA_SLOT_MIN_MS = 24"
definition CSMA_SLOT_MAX_MS :: nat where "CSMA_SLOT_MAX_MS = 100"
definition CSMA_SLOT_MIN_FAST_DELTA :: nat where "CSMA_SLOT_MIN_FAST_DELTA = 18"
definition CSMA_SLOT_SYMBOLS :: nat where "CSMA_SLOT_SYMBOLS = 12"
definition LORA_PREAMBLE_SYMBOLS_MIN :: int where "LORA_PREAMBLE_SYMBOLS_MIN = 18"

definition slot_of :: "nat \<Rightarrow> bool \<Rightarrow> nat" where
  "slot_of t fast =
    (let s = (if t > CSMA_SLOT_MAX_MS then CSMA_SLOT_MAX_MS else t)
     in if s < CSMA_SLOT_MIN_MS then (if fast then CSMA_SLOT_MIN_MS - CSMA_SLOT_MIN_FAST_DELTA else CSMA_SLOT_MIN_MS) else s)"

definition bitrate_of :: "(rat \<Rightarrow> rat) \<Rightarrow> (rat \<Rightarrow> rat) \<Rightarrow> int \<Rightarrow> int \<Rightarrow> nat \<Rightarrow> nat" where
  "bitrate_of rf rd sf cr bw =
    nat \<lfloor>rd (rd (of_int sf * rd (rd (4 / of_int cr) / rd (2 ^ nat sf / rd (rf (of_nat bw) / 1000)))) * 1000)\<rfloor>"

definition updateBitrate :: "(rat \<Rightarrow> rat) \<Rightarrow> (rat \<Rightarrow> rat) \<Rightarrow> phy \<Rightarrow> timing \<Rightarrow> timing" where
  "updateBitrate rf rd p t =
    (if \<not> radio_online p then t\<lparr>lora_bitrate := 0\<rparr>
     else let rate = rf (rf (of_nat (lora_bw p)) / 2 ^ nat (lora_sf p));
              time = rf (rd (rd (1 / rate) * 1000));
              br = bitrate_of rf rd (lora_sf p) (lora_cr p) (lora_bw p);
              fast = br > 30000;
              slot = slot_of (nat \<lfloor>rf (time * of_nat CSMA_SLOT_SYMBOLS)\<rfloor>) fast;
              target = rf ((if fast then 6 else 24) / time);
              sym = (if target < of_int LORA_PREAMBLE_SYMBOLS_MIN then LORA_PREAMBLE_SYMBOLS_MIN else \<lceil>target\<rceil>)
          in \<lparr>lora_symbol_rate = rate, lora_symbol_time_ms = time, lora_bitrate = br, lora_us_per_byte = rf (rd (1000000 / rd (rf (of_nat br) / 8))),
              lora_limit_rate = (br > 60000), lora_guard_rate = (\<not> br > 60000 \<and> br > 14000), csma_slot_ms = slot, difs_ms = 2 * slot,
              lora_preamble_symbols = sym, lora_preamble_time_ms = \<lceil>rf (of_int sym * time)\<rceil>, lora_header_time_ms = \<lceil>rf (20 * time)\<rceil>\<rparr>)"

definition u16_of :: "int \<Rightarrow> nat" where "u16_of x = nat (x mod 65536)"

definition kiss_indicate_phy_stats :: "(rat \<Rightarrow> rat) \<Rightarrow> timing \<Rightarrow> bytes" where
  "kiss_indicate_phy_stats rf t = kiss_frame CMD_STAT_PHYPRM
    (be16_bytes (u16_of \<lfloor>rf (lora_symbol_time_ms t * 1000)\<rfloor>) @ be16_bytes (u16_of \<lfloor>lora_symbol_rate t\<rfloor>) @
     be16_bytes (u16_of (lora_preamble_symbols t)) @ be16_bytes (u16_of (lora_preamble_time_ms t)) @
     be16_bytes (csma_slot_ms t) @ be16_bytes (difs_ms t))"

section \<open>The channel\<close>

definition CSMA_INFR_THRESHOLD_DB :: int where "CSMA_INFR_THRESHOLD_DB = 11"
definition CSMA_RFENV_RECAL_MS :: nat where "CSMA_RFENV_RECAL_MS = 2500"
definition CSMA_RFENV_RECAL_LIMIT_DB :: int where "CSMA_RFENV_RECAL_LIMIT_DB = -83"
definition NOISE_FLOOR_SAMPLES :: nat where "NOISE_FLOOR_SAMPLES = 128"
definition LED_ID_TRIG :: nat where "LED_ID_TRIG = 16"

text \<open>What the radio tells at one look: the time, carrier detection, signal strength.\<close>

record look =
  now_ms :: nat
  carrier :: bool
  rssi_now :: int

record medium =
  dcd :: bool
  rssi :: int
  noise :: int
  noise_sampled :: bool
  noise_sample :: nat
  noise_buffer :: "int list"
  interference :: bool
  infr_start :: nat
  infr_persists :: bool
  led_id_filter :: nat
  last_status :: nat
  avoid_interference :: bool

definition update_modem_status :: "look \<Rightarrow> medium \<Rightarrow> medium" where
  "update_modem_status L m =
    (let inf = (\<not> carrier L \<and> rssi_now L > noise m + CSMA_INFR_THRESHOLD_DB);
         m1 = m\<lparr>rssi := rssi_now L, last_status := now_ms L, interference := inf,
                led_id_filter := (if inf then (if led_id_filter m < LED_ID_TRIG then led_id_filter m + 1 else led_id_filter m)
                                  else (if led_id_filter m > 0 then led_id_filter m - 1 else 0)), dcd := carrier L\<rparr>
     in if inf \<and> rssi_now L < CSMA_RFENV_RECAL_LIMIT_DB
        then (if \<not> infr_persists m then m1\<lparr>infr_persists := True, infr_start := now_ms L\<rparr>
              else if sub32 (now_ms L) (infr_start m) \<ge> CSMA_RFENV_RECAL_MS then m1\<lparr>noise_sampled := False, infr_persists := False\<rparr> else m1)
        else m1\<lparr>infr_persists := False\<rparr>)"

text \<open>\<open>avoid_interference\<close> is set at boot, from the configuration byte \<open>ADDR_CONF_DIA\<close>.\<close>

definition medium_free :: "look \<Rightarrow> medium \<Rightarrow> medium \<times> bool" where
  "medium_free L m = (let m1 = update_modem_status L m in (m1, if avoid_interference m1 \<and> interference m1 then False else \<not> dcd m1))"

text \<open>C division truncates towards zero.\<close>

definition mean_of :: "int list \<Rightarrow> int" where
  "mean_of xs = (let s = sum_list xs in sgn s * (\<bar>s\<bar> div int NOISE_FLOOR_SAMPLES))"

definition update_noise_floor :: "medium \<Rightarrow> medium" where
  "update_noise_floor m =
    (if \<not> dcd m \<and> (\<not> noise_sampled m \<or> rssi m < noise m + CSMA_INFR_THRESHOLD_DB) then
       (let buf = (noise_buffer m)[noise_sample m := rssi m]; k = noise_sample m + 1
        in if k \<ge> NOISE_FLOOR_SAMPLES
           then m\<lparr>noise_buffer := buf, noise_sample := k mod NOISE_FLOOR_SAMPLES, noise_sampled := True, noise := mean_of buf\<rparr>
           else m\<lparr>noise_buffer := buf, noise_sample := k\<rparr>)
     else m)"

section \<open>The contention window\<close>

definition CSMA_CW_BANDS :: int where "CSMA_CW_BANDS = 4"
definition CSMA_CW_PER_BAND_WINDOWS :: nat where "CSMA_CW_PER_BAND_WINDOWS = 15"
definition CSMA_BAND_1_MAX_AIRTIME :: int where "CSMA_BAND_1_MAX_AIRTIME = 7"
definition CSMA_BAND_N_MIN_AIRTIME :: int where "CSMA_BAND_N_MIN_AIRTIME = 85"

definition csma_init :: csma where "csma_init = \<lparr>cw_band = 1, cw_min = 0, cw_max = CSMA_CW_PER_BAND_WINDOWS\<rparr>"

text \<open>Arduino's \<open>map\<close> on \<open>long\<close>, for arguments in order.\<close>

definition map_range :: "int \<Rightarrow> int \<Rightarrow> int \<Rightarrow> int \<Rightarrow> int \<Rightarrow> int" where
  "map_range x a b c d = (x - a) * (d - c) div (b - a) + c"

definition update_csma_parameters :: "(rat \<Rightarrow> rat) \<Rightarrow> rat \<Rightarrow> csma \<Rightarrow> csma \<times> bytes list" where
  "update_csma_parameters rf air c =
    (let pct = \<lfloor>rf (air * 100)\<rfloor>;
         b0 = (if pct \<le> CSMA_BAND_1_MAX_AIRTIME then 1
               else map_range (pct + CSMA_BAND_1_MAX_AIRTIME) CSMA_BAND_1_MAX_AIRTIME CSMA_BAND_N_MIN_AIRTIME 2 CSMA_CW_BANDS);
         b = (if b0 > CSMA_CW_BANDS then CSMA_CW_BANDS else b0)
     in if b \<noteq> int (cw_band c)
        then (let n = nat b; c1 = \<lparr>cw_band = n, cw_min = (n - 1) * CSMA_CW_PER_BAND_WINDOWS, cw_max = n * CSMA_CW_PER_BAND_WINDOWS - 1\<rparr>
              in (c1, [kiss_indicate_csma_stats c1]))
        else (c, []))"

section \<open>The handler\<close>

text \<open>An \<open>unsigned long\<close> set to -1 is a time not started.\<close>

definition NOT_STARTED :: nat where "NOT_STARTED = 4294967295"

record waiter =
  csma_cw :: int
  cw_wait_target :: nat
  cw_wait_passed :: nat
  cw_wait_start :: nat
  difs_wait_start :: nat

definition waiter_init :: waiter where
  "waiter_init = \<lparr>csma_cw = -1, cw_wait_target = NOT_STARTED, cw_wait_passed = 0, cw_wait_start = NOT_STARTED, difs_wait_start = NOT_STARTED\<rparr>"

text \<open>\<open>r\<close> is the random number, \<open>random(cw_min, cw_max)\<close> takes it modulo the range.\<close>

definition draw :: "nat \<Rightarrow> csma \<Rightarrow> nat" where
  "draw r c = (if cw_min c \<ge> cw_max c then cw_min c else r mod (cw_max c - cw_min c) + cw_min c)"

definition draw_window :: "nat \<Rightarrow> csma \<Rightarrow> timing \<Rightarrow> waiter \<Rightarrow> waiter" where
  "draw_window r c t w =
    (if csma_cw w = -1 then w\<lparr>csma_cw := int (draw r c), cw_wait_target := wrap32 (draw r c * csma_slot_ms t)\<rparr> else w)"

text \<open>The waits; the last component says that the queue may go.\<close>

definition wait_turn :: "timing \<Rightarrow> look \<Rightarrow> medium \<Rightarrow> waiter \<Rightarrow> medium \<times> waiter \<times> bool" where
  "wait_turn t L m w =
    (case medium_free L m of (m1, free) \<Rightarrow>
      if difs_wait_start w = NOT_STARTED
      then (m1, if free then w\<lparr>difs_wait_start := now_ms L\<rparr> else w, False)
      else if \<not> free then (m1, w\<lparr>difs_wait_start := NOT_STARTED, cw_wait_start := NOT_STARTED\<rparr>, False)
      else if now_ms L < wrap32 (difs_wait_start w + difs_ms t) then (m1, w, False)
      else if cw_wait_start w = NOT_STARTED then (m1, w\<lparr>cw_wait_start := now_ms L\<rparr>, False)
      else (let passed = wrap32 (cw_wait_passed w + sub32 (now_ms L) (cw_wait_start w));
                w1 = w\<lparr>cw_wait_passed := passed, cw_wait_start := now_ms L\<rparr>
            in if passed < cw_wait_target w then (m1, w1, False)
               else (m1, w1\<lparr>cw_wait_passed := 0, csma_cw := -1, difs_wait_start := NOT_STARTED\<rparr>, True)))"

text \<open>\<open>None\<close>: nothing is transmitted. \<open>Some ps\<close>: the packets taken from the ring.\<close>

definition tx_queue_handler ::
    "nat \<Rightarrow> csma \<Rightarrow> timing \<Rightarrow> bool \<Rightarrow> look \<Rightarrow> medium \<times> waiter \<times> tx_ring \<Rightarrow> (medium \<times> waiter \<times> tx_ring) \<times> bytes list option" where
  "tx_queue_handler r c t airtime_lock L s =
    (case s of (m, w, q) \<Rightarrow>
      if \<not> airtime_lock \<and> queue_height q > 0 then
        (case wait_turn t L m (draw_window r c t w) of (m1, w1, go) \<Rightarrow>
          if go then (case (if \<not> lora_limit_rate t \<and> \<not> lora_guard_rate t then flush_queue q else pop_queue q) of (q1, ps) \<Rightarrow> ((m1, w1, q1), Some ps))
          else ((m1, w1, q), None))
      else (s, None))"

section \<open>Runs of the handler\<close>

text \<open>
  One call of \<open>tx_queue_handler\<close> with what it finds: the rest of \<open>loop\<close> may have changed the parameters, the state of the channel and the queue
  in between, only the waits are the handler's own. \<open>csma_log\<close> lists the calls and whether each let packets go.
\<close>

record tick =
  tk_random :: nat
  tk_csma :: csma
  tk_timing :: timing
  tk_lock :: bool
  tk_look :: look
  tk_medium :: medium
  tk_queue :: tx_ring

definition handle :: "tick \<Rightarrow> waiter \<Rightarrow> waiter \<times> bool" where
  "handle k w =
    (case tx_queue_handler (tk_random k) (tk_csma k) (tk_timing k) (tk_lock k) (tk_look k) (tk_medium k, w, tk_queue k) of
      ((m1, w1, q1), sent) \<Rightarrow> (w1, sent \<noteq> None))"

fun csma_log :: "waiter \<Rightarrow> tick list \<Rightarrow> (tick \<times> bool) list" where
  "csma_log w [] = []"
| "csma_log w (k # ks) = (case handle k w of (w1, sent) \<Rightarrow> (k, sent) # csma_log w1 ks)"

definition looks :: "tick \<Rightarrow> bool" where "looks k \<longleftrightarrow> \<not> tk_lock k \<and> queue_height (tk_queue k) > 0"
definition hears_free :: "tick \<Rightarrow> bool" where "hears_free k \<longleftrightarrow> snd (medium_free (tk_look k) (tk_medium k))"
abbreviation at_ms :: "tick \<Rightarrow> nat" where "at_ms k \<equiv> now_ms (tk_look k)"
abbreviation difs_of :: "tick \<Rightarrow> nat" where "difs_of k \<equiv> difs_ms (tk_timing k)"

lemma draw_window_difs [simp]:
  "difs_wait_start (draw_window r c t w) = difs_wait_start w" "cw_wait_start (draw_window r c t w) = cw_wait_start w"
  "cw_wait_passed (draw_window r c t w) = cw_wait_passed w"
  by (simp_all add: draw_window_def)

lemma handle_blind: "\<not> looks k \<Longrightarrow> handle k w = (w, False)"
  by (auto simp: handle_def looks_def tx_queue_handler_def)

text \<open>What a call that looks does to the waits.\<close>

definition turn :: "tick \<Rightarrow> waiter \<Rightarrow> waiter \<times> bool" where
  "turn k w =
    (let w0 = draw_window (tk_random k) (tk_csma k) (tk_timing k) w; free = hears_free k
     in if difs_wait_start w = NOT_STARTED then (if free then w0\<lparr>difs_wait_start := at_ms k\<rparr> else w0, False)
        else if \<not> free then (w0\<lparr>difs_wait_start := NOT_STARTED, cw_wait_start := NOT_STARTED\<rparr>, False)
        else if at_ms k < wrap32 (difs_wait_start w + difs_of k) then (w0, False)
        else if cw_wait_start w = NOT_STARTED then (w0\<lparr>cw_wait_start := at_ms k\<rparr>, False)
        else (let passed = wrap32 (cw_wait_passed w + sub32 (at_ms k) (cw_wait_start w)); w1 = w0\<lparr>cw_wait_passed := passed, cw_wait_start := at_ms k\<rparr>
              in if passed < cw_wait_target w0 then (w1, False)
                 else (w1\<lparr>cw_wait_passed := 0, csma_cw := -1, difs_wait_start := NOT_STARTED\<rparr>, True)))"

lemma handle_turn: "looks k \<Longrightarrow> handle k w = turn k w"
  by (cases "medium_free (tk_look k) (tk_medium k)")
    (auto simp: handle_def looks_def tx_queue_handler_def turn_def hears_free_def wait_turn_def Let_def split: prod.splits)

section \<open>Listening before sending\<close>

text \<open>\<open>w\<close> counts from a call that found the channel free, and no call since has found it taken or has sent.\<close>

definition quiet_run :: "(tick \<times> bool) list \<Rightarrow> nat \<Rightarrow> bool" where
  "quiet_run h d \<longleftrightarrow>
    (\<exists>ps first mid. h = ps @ (first, False) # mid \<and> looks first \<and> hears_free first \<and> at_ms first = d \<and>
       (\<forall>(x, sent) \<in> set mid. \<not> sent \<and> (looks x \<longrightarrow> hears_free x)))"

definition counts_quiet :: "(tick \<times> bool) list \<Rightarrow> waiter \<Rightarrow> bool" where
  "counts_quiet h w \<longleftrightarrow> difs_wait_start w = NOT_STARTED \<or> quiet_run h (difs_wait_start w)"

lemma quiet_run_start: "looks k \<Longrightarrow> hears_free k \<Longrightarrow> quiet_run (h @ [(k, False)]) (at_ms k)"
  unfolding quiet_run_def by (rule exI [of _ h], rule exI [of _ k], rule exI [of _ "[]"]) simp

lemma quiet_run_more: "quiet_run h d \<Longrightarrow> looks k \<longrightarrow> hears_free k \<Longrightarrow> quiet_run (h @ [(k, False)]) d"
  unfolding quiet_run_def
  apply (elim exE conjE)
  subgoal for ps f m by (rule exI [of _ ps], rule exI [of _ f], rule exI [of _ "m @ [(k, False)]"]) auto
  done

lemma turn_difs:
  "turn k w = (w1, sent) \<Longrightarrow>
   difs_wait_start w1 = NOT_STARTED \<or>
   hears_free k \<and> \<not> sent \<and> (difs_wait_start w1 = at_ms k \<or> difs_wait_start w \<noteq> NOT_STARTED \<and> difs_wait_start w1 = difs_wait_start w)"
  unfolding turn_def Let_def by (simp split: if_splits) auto

lemma counts_quiet_step:
  assumes "counts_quiet h w" shows "counts_quiet (h @ [(k, snd (handle k w))]) (fst (handle k w))"
proof (cases "looks k")
  case True
  obtain w1 sent where t: "turn k w = (w1, sent)" by fastforce
  from turn_difs [OF t]
  consider "difs_wait_start w1 = NOT_STARTED" | "hears_free k" "\<not> sent" "difs_wait_start w1 = at_ms k"
    | "hears_free k" "\<not> sent" "difs_wait_start w \<noteq> NOT_STARTED" "difs_wait_start w1 = difs_wait_start w" by blast
  then show ?thesis
  proof cases
    case 2
    then show ?thesis using quiet_run_start [OF True, of h] by (simp add: handle_turn [OF True] t counts_quiet_def)
  next
    case 3
    then have "quiet_run h (difs_wait_start w)" using assms by (simp add: counts_quiet_def)
    from quiet_run_more [OF this, of k] show ?thesis using 3 by (simp add: handle_turn [OF True] t counts_quiet_def)
  qed (simp add: handle_turn [OF True] t counts_quiet_def)
next
  case False
  then have "looks k \<longrightarrow> hears_free k" by simp
  from quiet_run_more [OF _ this, of h "difs_wait_start w"] show ?thesis using assms
    unfolding handle_blind [OF False] counts_quiet_def fst_conv snd_conv by blast
qed

lemma counts_quiet_log:
  "counts_quiet h w \<Longrightarrow> csma_log w ks = pre @ (k, True) # post \<Longrightarrow>
   \<exists>v. counts_quiet (h @ pre) v \<and> snd (handle k v)"
proof (induction ks arbitrary: h w pre)
  case (Cons j ks)
  obtain w1 sent where j: "handle j w = (w1, sent)" by fastforce
  have step: "counts_quiet (h @ [(j, sent)]) w1" using counts_quiet_step [OF Cons.prems(1), of j] j by simp
  show ?case
  proof (cases pre)
    case Nil
    then show ?thesis using Cons.prems j by (auto intro!: exI [of _ w])
  next
    case (Cons e pre')
    then have "csma_log w1 ks = pre' @ (k, True) # post" "e = (j, sent)" using Cons.prems(2) j by auto
    then show ?thesis using Cons.IH [OF step, of pre'] Cons by simp
  qed
qed simp

lemma csma_log_set: "(j, b) \<in> set (csma_log w ks) \<Longrightarrow> j \<in> set ks"
proof (induction ks arbitrary: w)
  case (Cons k ks)
  then show ?case by (cases "handle k w") auto
qed simp

text \<open>C7. Listen before talk, over any run of the main loop, whatever happens to the radio parameters, the channel state and the queue between two calls of
  the handler: when a call lets packets go, it has itself found the channel free, and before it stands a call that found it free at least a whole
  DIFS period earlier, such that no call in between found the channel taken and none sent. (The clock is below the 32 bit wrap here.)
\<close>

theorem listen_before_talk:
  assumes "csma_log waiter_init ks = pre @ (k, True) # post"
    and "\<And>j. j \<in> set ks \<Longrightarrow> at_ms j + difs_of k < 4294967295"
  shows "looks k \<and> hears_free k \<and> (\<exists>d. quiet_run pre d \<and> d + difs_of k \<le> at_ms k)"
proof -
  have "counts_quiet [] waiter_init" by (simp add: counts_quiet_def waiter_init_def)
  from counts_quiet_log [OF this assms(1)] obtain v where v: "counts_quiet pre v" "snd (handle k v)" by auto
  have l: "looks k" using v(2) handle_blind by fastforce
  then have t: "snd (turn k v)" using v(2) handle_turn by simp
  then have f: "hears_free k" "difs_wait_start v \<noteq> NOT_STARTED" "\<not> at_ms k < wrap32 (difs_wait_start v + difs_of k)"
    by (auto simp: turn_def Let_def split: if_splits)
  then have q: "quiet_run pre (difs_wait_start v)" using v(1) by (simp add: counts_quiet_def)
  then obtain ps first mid where p: "pre = ps @ (first, False) # mid" and d: "at_ms first = difs_wait_start v"
    unfolding quiet_run_def by blast
  have "first \<in> set ks" using csma_log_set [of first False waiter_init ks] assms(1) p by simp
  then have "difs_wait_start v + difs_of k < 4294967295" using assms(2) d by fastforce
  then show ?thesis using l f q by (auto simp: wrap32_def intro!: exI [of _ "difs_wait_start v"])
qed

text \<open>A channel that is quiet and a packet in the ring.\<close>

definition quiet_medium :: medium where
  "quiet_medium = \<lparr>dcd = False, rssi = -110, noise = -110, noise_sampled = True, noise_sample = 0, noise_buffer = [], interference = False,
     infr_start = 0, infr_persists = False, led_id_filter = 0, last_status = 0, avoid_interference = True\<rparr>"

definition slow_timing :: timing where
  "slow_timing = \<lparr>lora_symbol_rate = 1, lora_symbol_time_ms = 1, lora_bitrate = 1000, lora_us_per_byte = 1, lora_limit_rate = False,
     lora_guard_rate = False, csma_slot_ms = 24, difs_ms = 48, lora_preamble_symbols = 18, lora_preamble_time_ms = 18, lora_header_time_ms = 20\<rparr>"

definition quiet_tick :: "nat \<Rightarrow> nat \<Rightarrow> tick" where
  "quiet_tick r t = \<lparr>tk_random = r, tk_csma = csma_init, tk_timing = slow_timing, tk_lock = False,
     tk_look = \<lparr>now_ms = t, carrier = False, rssi_now = -110\<rparr>, tk_medium = quiet_medium, tk_queue = ring_init\<lparr>queue_height := 1\<rparr>\<rparr>"

lemma quiet_tick_sel [simp]:
  "tk_random (quiet_tick r t) = r" "tk_csma (quiet_tick r t) = csma_init" "tk_timing (quiet_tick r t) = slow_timing"
  "now_ms (tk_look (quiet_tick r t)) = t" "looks (quiet_tick r t)" "hears_free (quiet_tick r t)"
  by (simp_all add: quiet_tick_def looks_def hears_free_def medium_free_def update_modem_status_def quiet_medium_def
      CSMA_INFR_THRESHOLD_DB_def Let_def)

lemma quiet_turn: "handle (quiet_tick r t) w = turn (quiet_tick r t) w"
  by (simp add: handle_turn)

lemmas waiter_eval = turn_def waiter_init_def draw_window_def draw_def csma_init_def slow_timing_def NOT_STARTED_def
  CSMA_CW_PER_BAND_WINDOWS_def Let_def sub32_def

lemma quiet_log: "csma_log waiter_init [quiet_tick 16 100, quiet_tick 0 148, quiet_tick 0 172] =
   [(quiet_tick 16 100, False), (quiet_tick 0 148, False), (quiet_tick 0 172, True)]"
  unfolding csma_log.simps quiet_turn by (simp add: waiter_eval)

lemma listen_before_talk_witness:
  "hears_free (quiet_tick 0 172) \<and> (\<exists>d. quiet_run [(quiet_tick 16 100, False), (quiet_tick 0 148, False)] d \<and> d + 48 \<le> 172)"
proof -
  let ?ks = "[quiet_tick 16 100, quiet_tick 0 148, quiet_tick 0 172]"
  have 1: "csma_log waiter_init ?ks = [(quiet_tick 16 100, False), (quiet_tick 0 148, False)] @ (quiet_tick 0 172, True) # []"
    unfolding quiet_log by simp
  have 2: "at_ms j + difs_of (quiet_tick 0 172) < 4294967295" if "j \<in> set ?ks" for j using that by (auto simp: slow_timing_def)
  from listen_before_talk [OF 1 2] show ?thesis by (simp add: slow_timing_def)
qed

section \<open>The contention window\<close>

definition csma_ok :: "csma \<Rightarrow> bool" where
  "csma_ok c \<longleftrightarrow> 1 \<le> cw_band c \<and> cw_band c \<le> 4 \<and> cw_min c = (cw_band c - 1) * 15 \<and>
     (cw_max c = cw_band c * 15 - 1 \<or> cw_band c = 1 \<and> cw_max c = 15)"

lemma csma_ok_init: "csma_ok csma_init"
  by (simp add: csma_ok_def csma_init_def CSMA_CW_PER_BAND_WINDOWS_def)

lemma csma_ok_update: "csma_ok c \<Longrightarrow> csma_ok (fst (update_csma_parameters rf a c))"
proof -
  assume c: "csma_ok c"
  define b0 where "b0 = (if \<lfloor>rf (a * 100)\<rfloor> \<le> CSMA_BAND_1_MAX_AIRTIME then 1
    else map_range (\<lfloor>rf (a * 100)\<rfloor> + CSMA_BAND_1_MAX_AIRTIME) CSMA_BAND_1_MAX_AIRTIME CSMA_BAND_N_MIN_AIRTIME 2 CSMA_CW_BANDS)"
  define b where "b = (if b0 > CSMA_CW_BANDS then CSMA_CW_BANDS else b0)"
  have "1 \<le> map_range (x + 7) 7 85 2 4" if "\<not> x \<le> 7" for x
    using that pos_imp_zdiv_nonneg_iff [of 39 x] by (simp add: map_range_def)
  then have "1 \<le> b0"
    unfolding b0_def CSMA_BAND_1_MAX_AIRTIME_def CSMA_BAND_N_MIN_AIRTIME_def CSMA_CW_BANDS_def by simp
  then have "1 \<le> b" "b \<le> 4" by (auto simp: b_def CSMA_CW_BANDS_def)
  then have "1 \<le> nat b" "nat b \<le> 4" by auto
  then show ?thesis using c
    by (simp add: update_csma_parameters_def Let_def b0_def [symmetric] b_def csma_ok_def CSMA_CW_PER_BAND_WINDOWS_def mult.commute
        split: if_splits)
qed

lemma draw_in_band: "csma_ok c \<Longrightarrow> (cw_band c - 1) * 15 \<le> draw r c \<and> draw r c < cw_band c * 15"
  unfolding csma_ok_def draw_def
  by (cases "cw_max c - cw_min c") (auto simp: not_le intro: less_le_trans [OF add_strict_right_mono [OF mod_less_divisor]])

text \<open>The number of slots to wait stays in its band: whatever airtimes are measured, after any number of updates of the contention window the band is
  one of four, the next band begins where this one ends, and the number drawn lies in the band's fifteen.
\<close>

theorem window_in_band:
  "csma_ok (fold (\<lambda>a c. fst (update_csma_parameters rf a c)) airtimes csma_init) \<and>
   (let c = fold (\<lambda>a c. fst (update_csma_parameters rf a c)) airtimes csma_init in
      1 \<le> cw_band c \<and> cw_band c \<le> 4 \<and> (cw_band c - 1) * 15 \<le> draw r c \<and> draw r c < cw_band c * 15)"
proof -
  have "csma_ok (fold (\<lambda>a c. fst (update_csma_parameters rf a c)) airtimes c)" if "csma_ok c" for c
    using that by (induction airtimes arbitrary: c) (auto simp: csma_ok_update)
  from this [OF csma_ok_init] show ?thesis using draw_in_band by (auto simp: Let_def csma_ok_def)
qed

lemma slot_of_bounds: "slot_of t fast = 6 \<or> 24 \<le> slot_of t fast \<and> slot_of t fast \<le> 100"
  by (auto simp: slot_of_def Let_def CSMA_SLOT_MAX_MS_def CSMA_SLOT_MIN_MS_def CSMA_SLOT_MIN_FAST_DELTA_def)

text \<open>Whatever the spreading factor, coding rate and bandwidth, and however \<open>float\<close> and \<open>double\<close> round: on a radio that is on, a slot has 6 ms (only
  above 30 kbit/s) or between 24 and 100 ms, the DIFS period is two slots, and the preamble has at least 18 symbols.
\<close>

theorem timing_bounded:
  assumes "radio_online p"
  shows "(let t' = updateBitrate rf rd p t in
     (csma_slot_ms t' = 6 \<and> lora_bitrate t' > 30000 \<or> 24 \<le> csma_slot_ms t' \<and> csma_slot_ms t' \<le> 100) \<and>
     difs_ms t' = 2 * csma_slot_ms t' \<and> 18 \<le> lora_preamble_symbols t')"
proof -
  have fast: "slot_of n f = 6 \<longrightarrow> f" for n f
    by (auto simp: slot_of_def Let_def CSMA_SLOT_MAX_MS_def CSMA_SLOT_MIN_MS_def)
  have pre: "\<not> x < (18::rat) \<Longrightarrow> 18 \<le> \<lceil>x\<rceil>" for x by (simp add: not_less le_ceiling_iff)
  define t' where "t' = updateBitrate rf rd p t"
  define n where "n = nat \<lfloor>rf (lora_symbol_time_ms t' * of_nat CSMA_SLOT_SYMBOLS)\<rfloor>"
  have "csma_slot_ms t' = slot_of n (lora_bitrate t' > 30000)" "difs_ms t' = 2 * csma_slot_ms t'"
    using assms by (simp_all add: n_def t'_def updateBitrate_def Let_def)
  moreover have "18 \<le> lora_preamble_symbols t'" using assms pre
    by (simp add: t'_def updateBitrate_def Let_def LORA_PREAMBLE_SYMBOLS_MIN_def)
  ultimately show ?thesis using slot_of_bounds [of n "lora_bitrate t' > 30000"] fast unfolding t'_def [symmetric] Let_def by auto
qed

lemma timing_bounded_witness:
  "18 \<le> lora_preamble_symbols (updateBitrate id id radio_up slow_timing) \<and>
   difs_ms (updateBitrate id id radio_up slow_timing) = 2 * csma_slot_ms (updateBitrate id id radio_up slow_timing)"
  using timing_bounded [of radio_up id id slow_timing] by (simp add: Let_def radio_up_def)

section \<open>A free channel lets the queue go\<close>

definition window_fits :: "tick \<Rightarrow> bool" where
  "window_fits k \<longleftrightarrow> csma_ok (tk_csma k) \<and> csma_slot_ms (tk_timing k) \<le> 100"

lemma window_target:
  assumes "window_fits k" "csma_cw w \<noteq> -1 \<longrightarrow> cw_wait_target w \<le> 5900"
  shows "csma_cw (draw_window (tk_random k) (tk_csma k) (tk_timing k) w) \<noteq> -1"
    "cw_wait_target (draw_window (tk_random k) (tk_csma k) (tk_timing k) w) \<le> 5900"
proof -
  let ?d = "draw (tk_random k) (tk_csma k)"
  have "?d \<le> 59" using draw_in_band [of "tk_csma k" "tk_random k"] assms(1) by (auto simp: window_fits_def csma_ok_def)
  then have "?d * csma_slot_ms (tk_timing k) \<le> 5900" using assms(1) mult_le_mono [of ?d 59 "csma_slot_ms (tk_timing k)" 100]
    by (simp add: window_fits_def)
  then show "csma_cw (draw_window (tk_random k) (tk_csma k) (tk_timing k) w) \<noteq> -1"
    "cw_wait_target (draw_window (tk_random k) (tk_csma k) (tk_timing k) w) \<le> 5900"
    using assms(2) by (simp_all add: draw_window_def)
qed

text \<open>Waits that began at \<open>d\<close>; from \<open>b\<close> on the contention window has been counted.\<close>

definition in_difs :: "nat \<Rightarrow> nat \<Rightarrow> waiter \<Rightarrow> bool" where
  "in_difs d n w \<longleftrightarrow> difs_wait_start w = d \<and> csma_cw w \<noteq> -1 \<and> cw_wait_target w \<le> 5900 \<and>
     (cw_wait_start w \<noteq> NOT_STARTED \<longrightarrow> cw_wait_start w \<le> n \<and> cw_wait_passed w \<le> cw_wait_start w) \<and>
     (cw_wait_start w = NOT_STARTED \<longrightarrow> cw_wait_passed w = 0)"

definition in_window :: "nat \<Rightarrow> nat \<Rightarrow> waiter \<Rightarrow> bool" where
  "in_window d b w \<longleftrightarrow> cw_wait_start w \<noteq> NOT_STARTED \<and> cw_wait_start w \<le> b + cw_wait_passed w"

definition steady :: "timing \<Rightarrow> tick \<Rightarrow> bool" where
  "steady t k \<longleftrightarrow> looks k \<and> hears_free k \<and> window_fits k \<and> tk_timing k = t \<and> at_ms k + difs_ms t < 4294967295"

lemma steady_turn:
  assumes "steady t k" "in_difs d n w" "d + difs_ms t < 4294967295" "n \<le> at_ms k"
    and "turn k w = (w1, False)"
  shows "in_difs d (at_ms k) w1" "at_ms k \<ge> d + difs_ms t \<Longrightarrow> cw_wait_start w1 = at_ms k"
    "in_window d b w \<Longrightarrow> in_window d b w1 \<and> (at_ms k \<ge> d + difs_ms t \<longrightarrow> at_ms k \<le> b + cw_wait_passed w1 \<and> cw_wait_passed w1 < 5900)"
proof -
  let ?w0 = "draw_window (tk_random k) (tk_csma k) (tk_timing k) w"
  have d: "difs_wait_start w = d" "d \<noteq> NOT_STARTED" "hears_free k" "tk_timing k = t" "at_ms k < 4294967295"
    using assms(1-3) by (auto simp: steady_def in_difs_def NOT_STARTED_def)
  have w0: "csma_cw ?w0 \<noteq> -1" "cw_wait_target ?w0 \<le> 5900"
    using window_target [of k w] assms(1,2) by (auto simp: steady_def in_difs_def)
  have nk: "at_ms k \<noteq> NOT_STARTED" using d by (simp add: NOT_STARTED_def)
  consider "at_ms k < d + difs_ms t" "w1 = ?w0"
    | "at_ms k \<ge> d + difs_ms t" "cw_wait_start w = NOT_STARTED" "w1 = ?w0\<lparr>cw_wait_start := at_ms k\<rparr>"
    | "at_ms k \<ge> d + difs_ms t" "cw_wait_start w \<noteq> NOT_STARTED"
      "w1 = ?w0\<lparr>cw_wait_passed := wrap32 (cw_wait_passed w + sub32 (at_ms k) (cw_wait_start w)), cw_wait_start := at_ms k\<rparr>"
      "cw_wait_passed w1 < cw_wait_target ?w0"
    using assms(5) d assms(3) unfolding turn_def Let_def by (auto simp: not_less split: if_splits)
  note cs = this
  have sum: "wrap32 (cw_wait_passed w + sub32 (at_ms k) (cw_wait_start w)) = cw_wait_passed w + (at_ms k - cw_wait_start w)"
      "cw_wait_passed w + (at_ms k - cw_wait_start w) \<le> at_ms k" "cw_wait_start w \<le> at_ms k"
    if "cw_wait_start w \<noteq> NOT_STARTED"
    using that assms(2,4) d(5) by (auto simp: in_difs_def sub32_le)
  have "in_difs d (at_ms k) w1 \<and> (at_ms k \<ge> d + difs_ms t \<longrightarrow> cw_wait_start w1 = at_ms k) \<and>
    (in_window d b w \<longrightarrow> in_window d b w1 \<and> (at_ms k \<ge> d + difs_ms t \<longrightarrow> at_ms k \<le> b + cw_wait_passed w1 \<and> cw_wait_passed w1 < 5900))"
    using cs
  proof cases
    case 1
    then show ?thesis using d w0 assms(2,4) by (auto simp: in_difs_def in_window_def)
  next
    case 2
    then show ?thesis using d w0 assms(2) nk unfolding in_difs_def in_window_def by simp
  next
    case 3
    then have p: "cw_wait_passed w1 = cw_wait_passed w + (at_ms k - cw_wait_start w)" "cw_wait_start w1 = at_ms k"
      "difs_wait_start w1 = d" "csma_cw w1 = csma_cw ?w0" "cw_wait_target w1 = cw_wait_target ?w0"
      using sum(1) d(1) by simp_all
    have q: "cw_wait_passed w1 < 5900" using 3(4) w0(2) by linarith
    have r: "in_difs d (at_ms k) w1" using p w0 sum(2) [OF 3(2)] nk unfolding in_difs_def by linarith
    have "at_ms k \<le> b + cw_wait_passed w1" if "in_window d b w"
      using that p(1) sum(3) [OF 3(2)] unfolding in_window_def by linarith
    then show ?thesis using p q r nk unfolding in_window_def by simp
  qed
  then show "in_difs d (at_ms k) w1" "at_ms k \<ge> d + difs_ms t \<Longrightarrow> cw_wait_start w1 = at_ms k"
    "in_window d b w \<Longrightarrow> in_window d b w1 \<and> (at_ms k \<ge> d + difs_ms t \<longrightarrow> at_ms k \<le> b + cw_wait_passed w1 \<and> cw_wait_passed w1 < 5900)"
    by blast+
qed
definition waits :: "tick list \<Rightarrow> waiter \<Rightarrow> waiter" where
  "waits ks w = fold (\<lambda>k w. fst (handle k w)) ks w"

lemma waits_simps [simp]: "waits [] w = w" "waits (k # ks) w = waits ks (fst (handle k w))" "waits (xs @ ys) w = waits ys (waits xs w)"
  by (simp_all add: waits_def)

lemma csma_log_append: "csma_log w (xs @ ys) = csma_log w xs @ csma_log (waits xs w) ys"
proof (induction xs arbitrary: w)
  case (Cons k ks)
  then show ?case by (cases "handle k w") simp
qed simp

definition silent :: "tick list \<Rightarrow> waiter \<Rightarrow> bool" where
  "silent ks w \<longleftrightarrow> (\<forall>k. (k, True) \<notin> set (csma_log w ks))"

lemma silent_simps: "silent [] w" "silent (k # ks) w \<longleftrightarrow> \<not> snd (handle k w) \<and> silent ks (fst (handle k w))"
  "silent (xs @ ys) w \<longleftrightarrow> silent xs w \<and> silent ys (waits xs w)"
  by (cases "handle k w"; auto simp: silent_def csma_log_append)+

lemma silent_turn: "silent (k # ks) w \<Longrightarrow> looks k \<Longrightarrow> turn k w = (fst (handle k w), False) \<and> silent ks (fst (handle k w))"
  by (cases "turn k w") (auto simp: silent_simps handle_turn)

lemma steady_run:
  assumes "silent ks w" "\<forall>k \<in> set ks. steady t k" "in_difs d n w" "d + difs_ms t < 4294967295" "sorted (n # map at_ms ks)"
  shows "in_difs d (last (n # map at_ms ks)) (waits ks w) \<and> (in_window d b w \<longrightarrow> in_window d b (waits ks w))"
  using assms
proof (induction ks arbitrary: w n)
  case (Cons k ks)
  have k: "steady t k" "n \<le> at_ms k" using Cons.prems by simp_all
  then have "looks k" by (simp add: steady_def)
  from silent_turn [OF Cons.prems(1) this] have s: "turn k w = (fst (handle k w), False)" "silent ks (fst (handle k w))" by simp_all
  note st = steady_turn [OF k(1) Cons.prems(3,4) k(2) s(1)]
  have srt: "sorted (at_ms k # map at_ms ks)" using Cons.prems(5) by simp
  show ?case using Cons.IH [OF s(2) _ st(1) Cons.prems(4) srt] st(3) [of b] Cons.prems(2) by simp
qed simp


lemma quiet_tick_steady: "t < 1000000 \<Longrightarrow> steady slow_timing (quiet_tick r t)"
  by (simp add: steady_def window_fits_def csma_ok_init) (simp add: slow_timing_def)


section \<open>The window is not always waited\<close>

text \<open>C39. \<open>cw_wait_start\<close> is not reset when the queue goes, so the wait for the next packet counts from the last transmission: whatever window is
  drawn for it, if that many slots have passed since that transmission, idle or not, the packet goes out with the first call after the DIFS
  period, and the stations that waited for the same channel to become free do not get different delays.
\<close>

theorem window_counts_idle_time:
  assumes "handle k0 w = (w0, True)" "looks a" "hears_free a" "looks b" "hears_free b" "tk_timing b = tk_timing a"
    and "at_ms a + difs_of a \<le> at_ms b" "at_ms k0 \<le> at_ms a" "at_ms b < 4294967295" "at_ms a + difs_of a < 4294967295"
    and "draw (tk_random a) (tk_csma a) * csma_slot_ms (tk_timing a) \<le> at_ms b - at_ms k0"
  shows "csma_log w0 [a, b] = [(a, False), (b, True)]"
proof -
  have l: "looks k0" using assms(1) handle_blind [of k0 w] by auto
  then have w0: "difs_wait_start w0 = NOT_STARTED" "csma_cw w0 = -1" "cw_wait_passed w0 = 0" "cw_wait_start w0 = at_ms k0"
    using assms(1) by (auto simp: handle_turn turn_def Let_def split: if_splits)
  define w1 where "w1 = (draw_window (tk_random a) (tk_csma a) (tk_timing a) w0)\<lparr>difs_wait_start := at_ms a\<rparr>"
  have a: "handle a w0 = (w1, False)" using w0 assms(2,3) by (simp add: handle_turn turn_def Let_def w1_def)
  have "draw (tk_random a) (tk_csma a) * csma_slot_ms (tk_timing a) < 4294967296" using assms(9,11) by linarith
  then have w1: "difs_wait_start w1 = at_ms a" "csma_cw w1 \<noteq> -1" "cw_wait_passed w1 = 0" "cw_wait_start w1 = at_ms k0"
    "cw_wait_target w1 \<le> at_ms b - at_ms k0" "draw_window (tk_random b) (tk_csma b) (tk_timing b) w1 = w1"
    using w0 assms(11) by (simp_all add: w1_def draw_window_def)
  have "sub32 (at_ms b) (at_ms k0) = at_ms b - at_ms k0" using assms(7-9) by (intro sub32_le) auto
  then have "snd (handle b w1)" using w1 assms(4-10) by (simp add: handle_turn turn_def Let_def NOT_STARTED_def)
  then show ?thesis using a by (cases "handle b w1") simp
qed

text \<open>A minute without traffic; the longest window of band 1, 14 slots of 24 ms, is drawn, and the packet goes after the 48 ms of the DIFS period.\<close>

lemma window_counts_idle_time_witness:
  "csma_log (fst (handle (quiet_tick 0 172) (waits [quiet_tick 16 100, quiet_tick 0 148] waiter_init))) [quiet_tick 14 60000, quiet_tick 0 60048] =
     [(quiet_tick 14 60000, False), (quiet_tick 0 60048, True)]"
proof -
  let ?w = "waits [quiet_tick 16 100, quiet_tick 0 148] waiter_init"
  have "snd (handle (quiet_tick 0 172) ?w)"
    unfolding waits_simps quiet_turn by (simp add: waiter_eval)
  then have "handle (quiet_tick 0 172) ?w = (fst (handle (quiet_tick 0 172) ?w), True)" by (metis prod.collapse)
  from window_counts_idle_time [OF this, of "quiet_tick 14 60000" "quiet_tick 0 60048"] show ?thesis
    by (simp add: slow_timing_def draw_def csma_init_def CSMA_CW_PER_BAND_WINDOWS_def)
qed

end
