(* ===== verification/Sx126x.thy ===== *)
theory Sx126x
  imports Csma
begin

text \<open>
  The SX1262 driver, \<open>src/src/sx126x.cpp\<close>, for the boards without an external amplifier. The driver keeps its fields and talks to the chip over
  SPI; the chip is not modelled: \<open>sent\<close> records what was transferred to it, the newest first, and what it answers is a parameter (\<open>rr\<close>, the value
  of a register after a given exchange) or an argument (interrupt flags, buffer status). Pins, delays and \<open>waitOnBusy\<close> are left out.
\<close>

section \<open>The bus\<close>

datatype spi = Op u8 bytes | WriteRegister nat u8 | WriteFifo nat bytes

definition OP_RF_FREQ_6X :: u8 where "OP_RF_FREQ_6X = 0x86"
definition OP_SLEEP_6X :: u8 where "OP_SLEEP_6X = 0x84"
definition OP_STANDBY_6X :: u8 where "OP_STANDBY_6X = 0x80"
definition OP_TX_6X :: u8 where "OP_TX_6X = 0x83"
definition OP_RX_6X :: u8 where "OP_RX_6X = 0x82"
definition OP_PA_CONFIG_6X :: u8 where "OP_PA_CONFIG_6X = 0x95"
definition OP_SET_IRQ_FLAGS_6X :: u8 where "OP_SET_IRQ_FLAGS_6X = 0x08"
definition OP_CLEAR_IRQ_STATUS_6X :: u8 where "OP_CLEAR_IRQ_STATUS_6X = 0x02"
definition OP_MODULATION_PARAMS_6X :: u8 where "OP_MODULATION_PARAMS_6X = 0x8B"
definition OP_PACKET_PARAMS_6X :: u8 where "OP_PACKET_PARAMS_6X = 0x8C"
definition OP_TX_PARAMS_6X :: u8 where "OP_TX_PARAMS_6X = 0x8E"
definition OP_PACKET_TYPE_6X :: u8 where "OP_PACKET_TYPE_6X = 0x8A"
definition OP_BUFFER_BASE_ADDR_6X :: u8 where "OP_BUFFER_BASE_ADDR_6X = 0x8F"
definition OP_DIO3_TCXO_CTRL_6X :: u8 where "OP_DIO3_TCXO_CTRL_6X = 0x97"
definition OP_DIO2_RF_CTRL_6X :: u8 where "OP_DIO2_RF_CTRL_6X = 0x9D"
definition OP_CALIBRATE_6X :: u8 where "OP_CALIBRATE_6X = 0x89"
definition OP_CALIBRATE_IMAGE_6X :: u8 where "OP_CALIBRATE_IMAGE_6X = 0x98"

lemmas sx_ops = OP_RF_FREQ_6X_def OP_SLEEP_6X_def OP_STANDBY_6X_def OP_TX_6X_def OP_RX_6X_def OP_PA_CONFIG_6X_def OP_SET_IRQ_FLAGS_6X_def
  OP_CLEAR_IRQ_STATUS_6X_def OP_MODULATION_PARAMS_6X_def OP_PACKET_PARAMS_6X_def OP_TX_PARAMS_6X_def OP_PACKET_TYPE_6X_def
  OP_BUFFER_BASE_ADDR_6X_def OP_DIO3_TCXO_CTRL_6X_def OP_DIO2_RF_CTRL_6X_def OP_CALIBRATE_6X_def OP_CALIBRATE_IMAGE_6X_def

definition IRQ_TX_DONE_MASK_6X :: u8 where "IRQ_TX_DONE_MASK_6X = 0x01"
definition IRQ_RX_DONE_MASK_6X :: u8 where "IRQ_RX_DONE_MASK_6X = 0x02"
definition IRQ_PREAMBLE_DET_MASK_6X :: u8 where "IRQ_PREAMBLE_DET_MASK_6X = 0x04"
definition IRQ_HEADER_DET_MASK_6X :: u8 where "IRQ_HEADER_DET_MASK_6X = 0x10"
definition IRQ_PAYLOAD_CRC_ERROR_MASK_6X :: u8 where "IRQ_PAYLOAD_CRC_ERROR_MASK_6X = 0x40"
definition MAX_PKT_LENGTH :: nat where "MAX_PKT_LENGTH = 255"

record sx126x =
  sx_frequency :: int
  sx_txp :: int
  sx_sf :: u8
  sx_bw :: u8
  sx_cr :: u8
  sx_ldro :: u8
  sx_preambleLength :: int
  sx_implicitHeaderMode :: u8
  sx_payloadLength :: nat
  sx_crcMode :: u8
  sx_fifo_tx_addr_ptr :: nat
  sx_preinit_done :: bool
  sent :: "spi list"

definition sx_init :: sx126x where
  "sx_init = \<lparr>sx_frequency = 0, sx_txp = 0, sx_sf = 0x07, sx_bw = 0x04, sx_cr = 0x01, sx_ldro = 0x00, sx_preambleLength = 18,
     sx_implicitHeaderMode = 0, sx_payloadLength = 255, sx_crcMode = 1, sx_fifo_tx_addr_ptr = 0, sx_preinit_done = False, sent = []\<rparr>"

type_synonym regs = "spi list \<Rightarrow> nat \<Rightarrow> u8"

definition executeOpcode :: "u8 \<Rightarrow> bytes \<Rightarrow> sx126x \<Rightarrow> sx126x" where
  "executeOpcode op buf d = d\<lparr>sent := Op op buf # sent d\<rparr>"

definition readRegister :: "regs \<Rightarrow> nat \<Rightarrow> sx126x \<Rightarrow> u8" where
  "readRegister rr a d = rr (sent d) a"

definition writeRegister :: "nat \<Rightarrow> u8 \<Rightarrow> sx126x \<Rightarrow> sx126x" where
  "writeRegister a v d = d\<lparr>sent := WriteRegister a v # sent d\<rparr>"

definition writeBuffer :: "bytes \<Rightarrow> sx126x \<Rightarrow> sx126x" where
  "writeBuffer bs d = d\<lparr>sent := WriteFifo (sx_fifo_tx_addr_ptr d) bs # sent d, sx_fifo_tx_addr_ptr := sx_fifo_tx_addr_ptr d + length bs\<rparr>"

definition setModulationParams :: "u8 \<Rightarrow> u8 \<Rightarrow> u8 \<Rightarrow> u8 \<Rightarrow> sx126x \<Rightarrow> sx126x" where
  "setModulationParams s b c l d = executeOpcode OP_MODULATION_PARAMS_6X [s, b, c, l, 0, 0, 0, 0] d"

definition setPacketParams :: "regs \<Rightarrow> int \<Rightarrow> u8 \<Rightarrow> nat \<Rightarrow> u8 \<Rightarrow> sx126x \<Rightarrow> sx126x" where
  "setPacketParams rr pre hm len crc d =
    (let d1 = executeOpcode OP_PACKET_PARAMS_6X [word_of_int (pre div 256), word_of_int pre, hm, word_of_nat len, crc, 0, 0, 0, 0] d;
         iqreg = readRegister rr 0x0736 d1
     in writeRegister 0x0736 (iqreg OR 0x04) d1)"

definition packet_params :: "regs \<Rightarrow> sx126x \<Rightarrow> sx126x" where
  "packet_params rr d = setPacketParams rr (sx_preambleLength d) (sx_implicitHeaderMode d) (sx_payloadLength d) (sx_crcMode d) d"

section \<open>Parameters\<close>

definition getSignalBandwidth :: "sx126x \<Rightarrow> nat" where
  "getSignalBandwidth d =
    (if sx_bw d = 0x00 then 7800 else if sx_bw d = 0x01 then 15600 else if sx_bw d = 0x02 then 31250 else if sx_bw d = 0x03 then 62500
     else if sx_bw d = 0x04 then 125000 else if sx_bw d = 0x05 then 250000 else if sx_bw d = 0x06 then 500000
     else if sx_bw d = 0x08 then 10400 else if sx_bw d = 0x09 then 20800 else if sx_bw d = 0x0A then 41700 else 0)"

text \<open>The low data rate flag: symbols of more than 16 ms, in whole kHz and ms.\<close>

definition low_data_rate :: "nat \<Rightarrow> nat \<Rightarrow> bool" where
  "low_data_rate s bw \<longleftrightarrow> 2 ^ s div (bw div 1000) > 16"

definition handleLowDataRate :: "sx126x \<Rightarrow> sx126x" where
  "handleLowDataRate d = d\<lparr>sx_ldro := (if low_data_rate (unat (sx_sf d)) (getSignalBandwidth d) then 0x01 else 0x00)\<rparr>"

definition modulation_params :: "sx126x \<Rightarrow> sx126x" where
  "modulation_params d = setModulationParams (sx_sf d) (sx_bw d) (sx_cr d) (sx_ldro d) d"

definition optimizeModemSensitivity :: "regs \<Rightarrow> sx126x \<Rightarrow> sx126x" where
  "optimizeModemSensitivity rr d =
    (let reg = readRegister rr 0x0889 d
     in if getSignalBandwidth d = 500000 then writeRegister 0x0889 (reg AND 0xFB) d else writeRegister 0x0889 (reg OR 0x04) d)"

definition clamp :: "int \<Rightarrow> int \<Rightarrow> int \<Rightarrow> int" where
  "clamp lo hi x = (if x < lo then lo else if x > hi then hi else x)"

definition sx_setSpreadingFactor :: "int \<Rightarrow> sx126x \<Rightarrow> sx126x" where
  "sx_setSpreadingFactor s d = modulation_params (handleLowDataRate (d\<lparr>sx_sf := word_of_int (clamp 5 12 s)\<rparr>))"

definition bandwidth_code :: "nat \<Rightarrow> u8" where
  "bandwidth_code sbw =
    (if sbw \<le> 7800 then 0x00 else if sbw \<le> 10400 then 0x08 else if sbw \<le> 15600 then 0x01 else if sbw \<le> 20800 then 0x09
     else if sbw \<le> 31250 then 0x02 else if sbw \<le> 41700 then 0x0A else if sbw \<le> 62500 then 0x03 else if sbw \<le> 125000 then 0x04
     else if sbw \<le> 250000 then 0x05 else 0x06)"

definition sx_setSignalBandwidth :: "regs \<Rightarrow> nat \<Rightarrow> sx126x \<Rightarrow> sx126x" where
  "sx_setSignalBandwidth rr sbw d = optimizeModemSensitivity rr (modulation_params (handleLowDataRate (d\<lparr>sx_bw := bandwidth_code sbw\<rparr>)))"

definition sx_setCodingRate4 :: "int \<Rightarrow> sx126x \<Rightarrow> sx126x" where
  "sx_setCodingRate4 den d = modulation_params (d\<lparr>sx_cr := word_of_int (clamp 5 8 den - 4)\<rparr>)"

text \<open>In steps of 32 MHz / \<open>2^25\<close>, as the chip counts.\<close>

definition freq_steps :: "int \<Rightarrow> nat" where "freq_steps f = nat (f * 2 ^ 25 div 32000000)"

definition sx_setFrequency :: "int \<Rightarrow> sx126x \<Rightarrow> sx126x" where
  "sx_setFrequency f d = executeOpcode OP_RF_FREQ_6X (be32_bytes (freq_steps f)) (d\<lparr>sx_frequency := f\<rparr>)"

definition sx_setTxPower :: "regs \<Rightarrow> u8 \<Rightarrow> int \<Rightarrow> sx126x \<Rightarrow> sx126x" where
  "sx_setTxPower rr ocp level d =
    (let d1 = writeRegister 0x08D8 (readRegister rr 0x08D8 d OR 0x1E) d;
         d2 = executeOpcode OP_PA_CONFIG_6X [0x04, 0x07, 0x00, 0x01] d1;
         l = clamp (-9) 22 level;
         d3 = writeRegister 0x08E7 ocp d2;
         d4 = executeOpcode OP_TX_PARAMS_6X [word_of_int l, 0x02] d3
     in d4\<lparr>sx_txp := l\<rparr>)"

definition sx_setPreambleLength :: "regs \<Rightarrow> int \<Rightarrow> sx126x \<Rightarrow> sx126x" where
  "sx_setPreambleLength rr n d = packet_params rr (d\<lparr>sx_preambleLength := n\<rparr>)"

definition enableCrc :: "regs \<Rightarrow> sx126x \<Rightarrow> sx126x" where "enableCrc rr d = packet_params rr (d\<lparr>sx_crcMode := 1\<rparr>)"
definition disableCrc :: "regs \<Rightarrow> sx126x \<Rightarrow> sx126x" where "disableCrc rr d = packet_params rr (d\<lparr>sx_crcMode := 0\<rparr>)"
definition explicitHeaderMode :: "regs \<Rightarrow> sx126x \<Rightarrow> sx126x" where
  "explicitHeaderMode rr d = packet_params rr (d\<lparr>sx_implicitHeaderMode := 0\<rparr>)"
definition implicitHeaderMode :: "regs \<Rightarrow> sx126x \<Rightarrow> sx126x" where
  "implicitHeaderMode rr d = packet_params rr (d\<lparr>sx_implicitHeaderMode := 1\<rparr>)"

section \<open>Transmitting and receiving\<close>

definition standby :: "sx126x \<Rightarrow> sx126x" where "standby d = executeOpcode OP_STANDBY_6X [0x01] d"
definition sx_sleep :: "sx126x \<Rightarrow> sx126x" where "sx_sleep d = executeOpcode OP_SLEEP_6X [0x00] d"
definition sx_end :: "sx126x \<Rightarrow> sx126x" where "sx_end d = (sx_sleep d)\<lparr>sx_preinit_done := False\<rparr>"

definition beginPacket :: "regs \<Rightarrow> bool \<Rightarrow> sx126x \<Rightarrow> sx126x" where
  "beginPacket rr imp d =
    (let d1 = standby d; d2 = (if imp then implicitHeaderMode rr d1 else explicitHeaderMode rr d1)
     in packet_params rr (d2\<lparr>sx_payloadLength := 0, sx_fifo_tx_addr_ptr := 0\<rparr>))"

text \<open>The bytes beyond \<open>MAX_PKT_LENGTH\<close> are dropped; the number written is returned.\<close>

definition sx_write :: "bytes \<Rightarrow> sx126x \<Rightarrow> sx126x \<times> nat" where
  "sx_write bs d =
    (let n = (if sx_payloadLength d + length bs > MAX_PKT_LENGTH then MAX_PKT_LENGTH - sx_payloadLength d else length bs)
     in ((writeBuffer (take n bs) d)\<lparr>sx_payloadLength := sx_payloadLength d + n\<rparr>, n))"

text \<open>
  The wait for the end of the transmission: each observation is the clock at a loop test with the flags read before it. \<open>None\<close> while the loop still
  runs after the last one, and otherwise the observations left.
\<close>

fun tx_wait :: "nat \<Rightarrow> (nat \<times> u8) list \<Rightarrow> (nat \<times> u8) list option" where
  "tx_wait w [] = None"
| "tx_wait w ((t, irq) # os) = (if t < w \<and> irq AND IRQ_TX_DONE_MASK_6X = 0 then tx_wait w os else Some os)"

definition LORA_MODEM_TIMEOUT_MS :: nat where "LORA_MODEM_TIMEOUT_MS = 20000"

definition endPacket_start :: "regs \<Rightarrow> sx126x \<Rightarrow> sx126x" where
  "endPacket_start rr d = executeOpcode OP_TX_6X [0, 0, 0] (packet_params rr d)"

text \<open>\<open>t_end\<close>: the clock after the loop, which decides whether it timed out.\<close>

definition endPacket :: "regs \<Rightarrow> nat \<Rightarrow> (nat \<times> u8) list \<Rightarrow> nat \<Rightarrow> sx126x \<Rightarrow> (sx126x \<times> bool) option" where
  "endPacket rr now os t_end d =
    (let w = wrap32 (now + LORA_MODEM_TIMEOUT_MS)
     in case tx_wait w os of
          None \<Rightarrow> None
        | Some _ \<Rightarrow> Some (executeOpcode OP_CLEAR_IRQ_STATUS_6X [0x00, IRQ_TX_DONE_MASK_6X] (endPacket_start rr d), t_end < w))"

definition sx_receive :: "regs \<Rightarrow> nat \<Rightarrow> sx126x \<Rightarrow> sx126x" where
  "sx_receive rr n d =
    (let d1 = (if n > 0 then packet_params rr ((implicitHeaderMode rr d)\<lparr>sx_payloadLength := n\<rparr>) else explicitHeaderMode rr d)
     in executeOpcode OP_RX_6X [0xFF, 0xFF, 0xFF] d1)"

definition sx_onReceive :: "sx126x \<Rightarrow> sx126x" where
  "sx_onReceive d = executeOpcode OP_SET_IRQ_FLAGS_6X [0xFF, 0xFF, 0x00, IRQ_RX_DONE_MASK_6X, 0, 0, 0, 0] d"

text \<open>\<open>lora_receive\<close> of the modem: with a fixed length in implicit mode.\<close>

definition lora_receive :: "regs \<Rightarrow> phy \<Rightarrow> sx126x \<Rightarrow> sx126x" where
  "lora_receive rr p d = (if \<not> implicit p then sx_receive rr 0 d else sx_receive rr (unat (implicit_l p)) d)"

definition calibrate_image_bytes :: "int \<Rightarrow> bytes" where
  "calibrate_image_bytes f =
    (if f \<ge> 430000000 \<and> f \<le> 440000000 then [0x6B, 0x6F] else if f \<ge> 470000000 \<and> f \<le> 510000000 then [0x75, 0x81]
     else if f \<ge> 779000000 \<and> f \<le> 787000000 then [0xC1, 0xC5] else if f \<ge> 863000000 \<and> f \<le> 870000000 then [0xD7, 0xDB]
     else if f \<ge> 902000000 \<and> f \<le> 928000000 then [0xE1, 0xE9] else [0, 0])"

text \<open>\<open>found\<close>: the version check of \<open>preInit\<close> found the sync word of an SX126x within its two seconds.\<close>

definition sx_begin :: "regs \<Rightarrow> bool \<Rightarrow> u8 \<Rightarrow> int \<Rightarrow> sx126x \<Rightarrow> sx126x \<times> bool" where
  "sx_begin rr found ocp f d =
    (if \<not> sx_preinit_done d \<and> \<not> found then (d, False)
     else let d1 = executeOpcode OP_CALIBRATE_6X [0x7f] (executeOpcode OP_STANDBY_6X [0x00] (d\<lparr>sx_preinit_done := True\<rparr>));
              d2 = executeOpcode OP_CALIBRATE_IMAGE_6X (calibrate_image_bytes f) d1;
              d3 = executeOpcode OP_DIO3_TCXO_CTRL_6X [0x02, 0x00, 0x00, 0xFF] d2;
              d4 = standby (executeOpcode OP_PACKET_TYPE_6X [0x01] d3);
              d5 = writeRegister 0x0741 0x24 (writeRegister 0x0740 0x14 d4);
              d6 = executeOpcode OP_DIO2_RF_CTRL_6X [0x01] d5;
              d7 = enableCrc rr (sx_setTxPower rr ocp 2 (sx_setFrequency f d6));
              d8 = executeOpcode OP_BUFFER_BASE_ADDR_6X [0, 0] (writeRegister 0x08AC 0x96 d7)
          in (packet_params rr (modulation_params d8), True))"

text \<open>
  Carrier detection. \<open>irq\<close>: the low byte of the interrupt flags; \<open>slack\<close>: the time of a preamble and a header. Returned are the carrier, whether the
  preamble flag is cleared, and whether the receiver is started again.
\<close>

definition dcd_look :: "nat \<Rightarrow> nat \<Rightarrow> u8 \<Rightarrow> nat \<Rightarrow> nat \<times> bool \<times> bool \<times> bool" where
  "dcd_look slack now irq pre_at =
    (let header = irq AND IRQ_HEADER_DET_MASK_6X \<noteq> 0
     in if irq AND IRQ_PREAMBLE_DET_MASK_6X \<noteq> 0 then
          (let at1 = (if pre_at = 0 then now else pre_at)
           in if sub32 now at1 > slack then (0, True, True, \<not> header) else (at1, True, False, False))
        else (pre_at, header, False, False))"

definition sx_dcd :: "regs \<Rightarrow> nat \<Rightarrow> nat \<Rightarrow> u8 \<Rightarrow> nat \<times> sx126x \<Rightarrow> (nat \<times> sx126x) \<times> bool" where
  "sx_dcd rr slack now irq s =
    (case dcd_look slack now irq (fst s) of (pre_at, busy, clear, restart) \<Rightarrow>
      let d1 = (if clear then executeOpcode OP_CLEAR_IRQ_STATUS_6X [0, IRQ_PREAMBLE_DET_MASK_6X] (snd s) else snd s)
      in ((pre_at, if restart then sx_receive rr 0 d1 else d1), busy))"

text \<open>The interrupt: the packet length for the callback, unless the checksum was wrong.\<close>

definition handleDio0Rise :: "u8 \<Rightarrow> u8 \<Rightarrow> u8 \<Rightarrow> sx126x \<Rightarrow> sx126x \<times> nat option" where
  "handleDio0Rise hi lo len d =
    (executeOpcode OP_CLEAR_IRQ_STATUS_6X [hi, lo] d, if lo AND IRQ_PAYLOAD_CRC_ERROR_MASK_6X = 0 then Some (unat len) else None)"

definition currentRssi :: "u8 \<Rightarrow> int" where "currentRssi b = - (int (unat b) div 2)"

section \<open>The chip is in step with the driver\<close>

text \<open>The arguments of the last command of a kind.\<close>

fun told :: "u8 \<Rightarrow> spi list \<Rightarrow> bytes option" where
  "told op [] = None"
| "told op (Op o' bs # tr) = (if o' = op then Some bs else told op tr)"
| "told op (s # tr) = told op tr"

text \<open>A byte of the transmit buffer, as last written.\<close>

fun fifo_at :: "spi list \<Rightarrow> nat \<Rightarrow> u8 option" where
  "fifo_at [] a = None"
| "fifo_at (WriteFifo p bs # tr) a = (if p \<le> a \<and> a < p + length bs then Some (bs ! (a - p)) else fifo_at tr a)"
| "fifo_at (s # tr) a = fifo_at tr a"

lemma sent_simps [simp]:
  "sent (executeOpcode op bs d) = Op op bs # sent d" "sent (writeRegister a v d) = WriteRegister a v # sent d"
  by (simp_all add: executeOpcode_def writeRegister_def)

definition keeps_fields :: "(sx126x \<Rightarrow> sx126x) \<Rightarrow> bool" where
  "keeps_fields f \<longleftrightarrow> (\<forall>d. sx_frequency (f d) = sx_frequency d \<and> sx_sf (f d) = sx_sf d \<and> sx_bw (f d) = sx_bw d \<and> sx_cr (f d) = sx_cr d \<and>
     sx_ldro (f d) = sx_ldro d \<and> sx_preinit_done (f d) = sx_preinit_done d \<and> told OP_MODULATION_PARAMS_6X (sent (f d)) = told OP_MODULATION_PARAMS_6X (sent d) \<and>
     told OP_RF_FREQ_6X (sent (f d)) = told OP_RF_FREQ_6X (sent d))"

text \<open>The fields are in range, and the low data rate flag fits them; the chip was last told the modulation and the frequency of the fields.\<close>

definition fields_ok :: "sx126x \<Rightarrow> bool" where
  "fields_ok d \<longleftrightarrow> 5 \<le> unat (sx_sf d) \<and> unat (sx_sf d) \<le> 12 \<and> 1 \<le> unat (sx_cr d) \<and> unat (sx_cr d) \<le> 4 \<and>
     sx_bw d \<in> {0x00, 0x08, 0x01, 0x09, 0x02, 0x0A, 0x03, 0x04, 0x05, 0x06} \<and>
     sx_ldro d = (if low_data_rate (unat (sx_sf d)) (getSignalBandwidth d) then 1 else 0)"

definition told_modulation :: "sx126x \<Rightarrow> bool" where
  "told_modulation d \<longleftrightarrow> told OP_MODULATION_PARAMS_6X (sent d) = Some [sx_sf d, sx_bw d, sx_cr d, sx_ldro d, 0, 0, 0, 0]"

definition told_frequency :: "sx126x \<Rightarrow> bool" where
  "told_frequency d \<longleftrightarrow> told OP_RF_FREQ_6X (sent d) = Some (be32_bytes (freq_steps (sx_frequency d)))"

definition in_step :: "sx126x \<Rightarrow> bool" where
  "in_step d \<longleftrightarrow> fields_ok d \<and> (sx_preinit_done d \<longrightarrow> told_modulation d \<and> told_frequency d)"

datatype sx_op = Begin bool u8 int | End_radio | Set_sf int | Set_bw nat | Set_cr int | Set_freq int | Set_txp u8 int | Set_preamble int | Crc bool
  | Begin_packet bool | Write bytes | Start_tx | Receive nat | On_receive | Dcd nat nat u8 | Interrupt u8 u8 u8

text \<open>The calls of the modem, \<open>fst\<close> of the state is \<open>preamble_detected_at\<close>.\<close>

fun sx_step :: "regs \<Rightarrow> nat \<times> sx126x \<Rightarrow> sx_op \<Rightarrow> nat \<times> sx126x" where
  "sx_step rr (p, d) (Begin found ocp f) = (p, fst (sx_begin rr found ocp f d))"
| "sx_step rr (p, d) End_radio = (p, sx_end d)"
| "sx_step rr (p, d) (Set_sf s) = (p, sx_setSpreadingFactor s d)"
| "sx_step rr (p, d) (Set_bw b) = (p, sx_setSignalBandwidth rr b d)"
| "sx_step rr (p, d) (Set_cr c) = (p, sx_setCodingRate4 c d)"
| "sx_step rr (p, d) (Set_freq f) = (p, sx_setFrequency f d)"
| "sx_step rr (p, d) (Set_txp ocp l) = (p, sx_setTxPower rr ocp l d)"
| "sx_step rr (p, d) (Set_preamble n) = (p, sx_setPreambleLength rr n d)"
| "sx_step rr (p, d) (Crc on) = (p, if on then enableCrc rr d else disableCrc rr d)"
| "sx_step rr (p, d) (Begin_packet imp) = (p, beginPacket rr imp d)"
| "sx_step rr (p, d) (Write bs) = (p, fst (sx_write bs d))"
| "sx_step rr (p, d) Start_tx = (p, endPacket_start rr d)"
| "sx_step rr (p, d) (Receive n) = (p, sx_receive rr n d)"
| "sx_step rr (p, d) On_receive = (p, sx_onReceive d)"
| "sx_step rr (p, d) (Dcd slack now irq) = fst (sx_dcd rr slack now irq (p, d))"
| "sx_step rr (p, d) (Interrupt hi lo len) = (p, fst (handleDio0Rise hi lo len d))"

lemma keeps_all:
  "keeps_fields f \<Longrightarrow> fields_ok (f d) = fields_ok d" "keeps_fields f \<Longrightarrow> told_modulation (f d) = told_modulation d"
  "keeps_fields f \<Longrightarrow> told_frequency (f d) = told_frequency d" "keeps_fields f \<Longrightarrow> in_step (f d) = in_step d"
  by (simp_all add: keeps_fields_def in_step_def fields_ok_def told_modulation_def told_frequency_def getSignalBandwidth_def)

lemma keeps_comp: "keeps_fields f \<Longrightarrow> keeps_fields g \<Longrightarrow> keeps_fields (\<lambda>d. f (g d))"
  by (simp add: keeps_fields_def)

lemma keeps_opcode: "op \<noteq> OP_MODULATION_PARAMS_6X \<Longrightarrow> op \<noteq> OP_RF_FREQ_6X \<Longrightarrow> keeps_fields (executeOpcode op bs)"
  by (simp add: keeps_fields_def) (simp add: executeOpcode_def)

lemma keeps_register: "keeps_fields (writeRegister a v)"
  by (simp add: keeps_fields_def) (simp add: writeRegister_def)

lemma keeps_update:
  "keeps_fields (\<lambda>d. d\<lparr>sx_payloadLength := n\<rparr>)" "keeps_fields (\<lambda>d. d\<lparr>sx_implicitHeaderMode := m\<rparr>)" "keeps_fields (\<lambda>d. d\<lparr>sx_crcMode := c\<rparr>)"
  "keeps_fields (\<lambda>d. d\<lparr>sx_preambleLength := i\<rparr>)" "keeps_fields (\<lambda>d. d\<lparr>sx_txp := i\<rparr>)" "keeps_fields (\<lambda>d. d\<lparr>sx_fifo_tx_addr_ptr := n\<rparr>)"
  "keeps_fields (writeBuffer bs)"
  by (simp_all add: keeps_fields_def writeBuffer_def)

lemma keeps_packet_params: "keeps_fields (packet_params rr)"
  unfolding packet_params_def setPacketParams_def Let_def
  by (simp add: keeps_fields_def) (simp add: executeOpcode_def writeRegister_def sx_ops)

lemmas keeps_simps = keeps_packet_params [unfolded keeps_fields_def, rule_format]

lemma keeps_modes:
  "keeps_fields (enableCrc rr)" "keeps_fields (disableCrc rr)" "keeps_fields (explicitHeaderMode rr)"
  "keeps_fields (implicitHeaderMode rr)" "keeps_fields (sx_setPreambleLength rr n)"
  unfolding keeps_fields_def enableCrc_def disableCrc_def explicitHeaderMode_def implicitHeaderMode_def sx_setPreambleLength_def
  by (simp_all add: keeps_simps)

lemmas mode_simps = keeps_modes [unfolded keeps_fields_def, rule_format]

lemma keeps_calls:
  "keeps_fields standby" "keeps_fields (sx_setTxPower rr ocp l)" "keeps_fields (\<lambda>d. fst (sx_write bs d))" "keeps_fields (endPacket_start rr)"
  "keeps_fields (sx_receive rr n)" "keeps_fields sx_onReceive" "keeps_fields (\<lambda>d. fst (handleDio0Rise hi lo len d))"
  by (simp_all add: keeps_fields_def standby_def sx_setTxPower_def sx_write_def writeBuffer_def endPacket_start_def sx_receive_def sx_onReceive_def
      handleDio0Rise_def Let_def keeps_simps mode_simps) (simp_all add: executeOpcode_def writeRegister_def sx_ops keeps_simps mode_simps)

lemmas call_simps = keeps_calls [unfolded keeps_fields_def, rule_format]

lemma keeps_begin_packet: "keeps_fields (beginPacket rr imp)"
  by (simp add: keeps_fields_def beginPacket_def Let_def keeps_simps mode_simps call_simps)

lemma keeps_dcd: "keeps_fields (\<lambda>d. snd (fst (sx_dcd rr slack now irq (p, d))))"
  by (simp add: keeps_fields_def sx_dcd_def Let_def call_simps split: prod.splits) (simp add: executeOpcode_def sx_ops)

section \<open>Setters\<close>

lemma modulation_params_step:
  "told_modulation (modulation_params d)" "fields_ok (modulation_params d) = fields_ok d" "told_frequency (modulation_params d) = told_frequency d"
  "sx_preinit_done (modulation_params d) = sx_preinit_done d"
  by (simp_all add: modulation_params_def setModulationParams_def executeOpcode_def told_modulation_def fields_ok_def told_frequency_def
      getSignalBandwidth_def sx_ops)

lemma clamp_unat: "0 \<le> lo \<Longrightarrow> lo \<le> hi \<Longrightarrow> hi < 256 \<Longrightarrow> unat (word_of_int (clamp lo hi x) :: u8) = nat (clamp lo hi x)"
  by (simp add: clamp_def unsigned_of_int take_bit_int_def)

lemma set_step:
  assumes "in_step d"
  shows "in_step (sx_setSpreadingFactor s d)" "in_step (sx_setSignalBandwidth rr b d)" "in_step (sx_setCodingRate4 c d)" "in_step (sx_setFrequency f d)"
proof -
  have d: "fields_ok d" "sx_preinit_done d \<Longrightarrow> told_frequency d" using assms by (simp_all add: in_step_def)
  have "5 \<le> nat (clamp 5 12 s) \<and> nat (clamp 5 12 s) \<le> 12" by (auto simp: clamp_def)
  then have "fields_ok (handleLowDataRate (d\<lparr>sx_sf := word_of_int (clamp 5 12 s)\<rparr>))"
    using d(1) clamp_unat [of 5 12 s] by (simp add: fields_ok_def handleLowDataRate_def getSignalBandwidth_def)
  then show "in_step (sx_setSpreadingFactor s d)" using d(2)
    by (simp add: in_step_def sx_setSpreadingFactor_def modulation_params_step) (simp add: handleLowDataRate_def told_frequency_def)
  have "fields_ok (handleLowDataRate (d\<lparr>sx_bw := bandwidth_code b\<rparr>))"
    using d(1) by (simp add: fields_ok_def handleLowDataRate_def getSignalBandwidth_def) (simp add: bandwidth_code_def)
  then have "in_step (modulation_params (handleLowDataRate (d\<lparr>sx_bw := bandwidth_code b\<rparr>)))" using d(2)
    by (simp add: in_step_def modulation_params_step) (simp add: handleLowDataRate_def told_frequency_def)
  then show "in_step (sx_setSignalBandwidth rr b d)"
    unfolding sx_setSignalBandwidth_def optimizeModemSensitivity_def Let_def by (simp add: keeps_all [OF keeps_register])
  have "1 \<le> nat (clamp 1 4 (c - 4)) \<and> nat (clamp 1 4 (c - 4)) \<le> 4" by (auto simp: clamp_def)
  moreover have "clamp 5 8 c - 4 = clamp 1 4 (c - 4)" by (simp add: clamp_def)
  ultimately have "fields_ok (d\<lparr>sx_cr := word_of_int (clamp 5 8 c - 4)\<rparr>)"
    using d(1) clamp_unat [of 1 4 "c - 4"] by (simp add: fields_ok_def getSignalBandwidth_def)
  then show "in_step (sx_setCodingRate4 c d)" using d(2)
    by (simp add: in_step_def sx_setCodingRate4_def modulation_params_step) (simp add: told_frequency_def)
  show "in_step (sx_setFrequency f d)" using assms
    by (simp add: sx_setFrequency_def executeOpcode_def in_step_def fields_ok_def told_modulation_def told_frequency_def getSignalBandwidth_def sx_ops)
qed

lemma begin_step: "in_step d \<Longrightarrow> in_step (fst (sx_begin rr found ocp f d))"
proof (cases "\<not> sx_preinit_done d \<and> \<not> found")
  case False
  assume "in_step d"
  then have f0: "fields_ok (d\<lparr>sx_preinit_done := True\<rparr>)" by (simp add: in_step_def fields_ok_def getSignalBandwidth_def)
  define d6 where "d6 = executeOpcode OP_DIO2_RF_CTRL_6X [0x01] (writeRegister 0x0741 0x24 (writeRegister 0x0740 0x14 (standby (executeOpcode OP_PACKET_TYPE_6X [0x01]
     (executeOpcode OP_DIO3_TCXO_CTRL_6X [0x02, 0x00, 0x00, 0xFF] (executeOpcode OP_CALIBRATE_IMAGE_6X (calibrate_image_bytes f)
       (executeOpcode OP_CALIBRATE_6X [0x7f] (executeOpcode OP_STANDBY_6X [0x00] (d\<lparr>sx_preinit_done := True\<rparr>)))))))))"
  have f6: "fields_ok d6" unfolding d6_def
    using f0 by (simp add: keeps_all(1) [OF keeps_opcode] keeps_all(1) [OF keeps_register] keeps_all(1) [OF keeps_calls(1)] sx_ops)
  define d8 where "d8 = executeOpcode OP_BUFFER_BASE_ADDR_6X [0, 0] (writeRegister 0x08AC 0x96 (enableCrc rr (sx_setTxPower rr ocp 2 (sx_setFrequency f d6))))"
  note k = keeps_opcode [of OP_BUFFER_BASE_ADDR_6X, unfolded sx_ops] keeps_register keeps_modes(1) keeps_calls(2)
  have "fields_ok d8 = fields_ok (sx_setFrequency f d6)" "told_frequency d8 = told_frequency (sx_setFrequency f d6)"
    unfolding d8_def sx_ops by (simp_all add: k [THEN keeps_all(1)] k [THEN keeps_all(3)])
  moreover have "fields_ok (sx_setFrequency f d6)" "told_frequency (sx_setFrequency f d6)"
    using f6 by (simp_all add: sx_setFrequency_def executeOpcode_def fields_ok_def told_frequency_def getSignalBandwidth_def)
  ultimately have "in_step (modulation_params d8)" by (simp add: in_step_def modulation_params_step)
  then have "in_step (packet_params rr (modulation_params d8))" by (simp add: keeps_all(4) [OF keeps_packet_params])
  then show ?thesis unfolding sx_begin_def if_not_P [OF False] d8_def d6_def Let_def fst_conv .
qed (simp add: sx_begin_def)

lemma sx_step_in_step: "in_step d \<Longrightarrow> in_step (snd (sx_step rr (p, d) op))"
proof (cases op)
  case End_radio
  assume "in_step d"
  then show ?thesis unfolding End_radio by (simp add: sx_end_def sx_sleep_def executeOpcode_def in_step_def fields_ok_def getSignalBandwidth_def)
qed (simp_all add: begin_step set_step keeps_all(4) [OF keeps_modes(1)] keeps_all(4) [OF keeps_modes(2)] keeps_all(4) [OF keeps_modes(5)]
    keeps_calls [THEN keeps_all(4)] keeps_all(4) [OF keeps_begin_packet] keeps_all(4) [OF keeps_dcd, simplified])

lemma sx_step_in_step': "in_step (snd s) \<Longrightarrow> in_step (snd (sx_step rr s op))"
  by (cases s) (simp add: sx_step_in_step)


section \<open>Frames and the transmit buffer\<close>

lemma packet_params_told: "told OP_PACKET_PARAMS_6X (sent (packet_params rr d)) =
    Some [word_of_int (sx_preambleLength d div 256), word_of_int (sx_preambleLength d), sx_implicitHeaderMode d, word_of_nat (sx_payloadLength d), sx_crcMode d, 0, 0, 0, 0]"
  by (simp add: packet_params_def setPacketParams_def Let_def)

lemma packet_params_sel [simp]:
  "sx_payloadLength (packet_params rr d) = sx_payloadLength d" "sx_fifo_tx_addr_ptr (packet_params rr d) = sx_fifo_tx_addr_ptr d"
  "sx_implicitHeaderMode (packet_params rr d) = sx_implicitHeaderMode d" "fifo_at (sent (packet_params rr d)) a = fifo_at (sent d) a"
  by (simp_all add: packet_params_def setPacketParams_def Let_def) (simp_all add: executeOpcode_def writeRegister_def)

text \<open>The modem writes the header and the bytes of a frame one by one.\<close>

definition write_bytes :: "bytes \<Rightarrow> sx126x \<Rightarrow> sx126x" where
  "write_bytes bs d = fold (\<lambda>b d. fst (sx_write [b] d)) bs d"

definition in_buffer :: "bytes \<Rightarrow> sx126x \<Rightarrow> bool" where
  "in_buffer f d \<longleftrightarrow> length f \<le> MAX_PKT_LENGTH \<and> sx_payloadLength d = length f \<and> sx_fifo_tx_addr_ptr d = length f \<and>
     (\<forall>a < length f. fifo_at (sent d) a = Some (f ! a))"

lemma write_byte: "in_buffer f d \<Longrightarrow> in_buffer (take MAX_PKT_LENGTH (f @ [b])) (fst (sx_write [b] d))"
  by (auto simp: in_buffer_def sx_write_def writeBuffer_def Let_def MAX_PKT_LENGTH_def nth_append less_Suc_eq)

lemma write_bytes_buffer: "in_buffer f d \<Longrightarrow> in_buffer (take MAX_PKT_LENGTH (f @ bs)) (write_bytes bs d)"
proof (induction bs arbitrary: f d)
  case (Cons b bs)
  have "take MAX_PKT_LENGTH (take MAX_PKT_LENGTH (f @ [b]) @ bs) = take MAX_PKT_LENGTH (f @ b # bs)"
    by (cases "length f < MAX_PKT_LENGTH") (simp_all add: take_Cons' min_def)
  note e = this
  show ?case using Cons.IH [OF write_byte [OF Cons.prems, of b]] unfolding write_bytes_def fold.simps comp_def e .
qed (simp add: write_bytes_def in_buffer_def)

text \<open>C20. What \<open>endPacket\<close> makes the chip send is what was written since \<open>beginPacket\<close>: the length told is the number of bytes, at most 255, and the buffer
  holds them from its base on, whatever was in it before. The rest of a longer frame is not sent.
\<close>

theorem frame_reaches_chip:
  "(let d' = endPacket_start rr (write_bytes f (beginPacket rr False d)) in
     told OP_TX_6X (sent d') = Some [0, 0, 0] \<and>
     (\<exists>hi lo crc. told OP_PACKET_PARAMS_6X (sent d') = Some [hi, lo, 0, word_of_nat (length (take 255 f)), crc, 0, 0, 0, 0]) \<and>
     map (fifo_at (sent d')) [0 ..< length (take 255 f)] = map Some (take 255 f))"
proof -
  define d0 where "d0 = beginPacket rr False d"
  define d1 where "d1 = write_bytes f d0"
  have "in_buffer [] d0" by (simp add: d0_def beginPacket_def Let_def in_buffer_def)
  from write_bytes_buffer [OF this, of f] have b: "in_buffer (take 255 f) d1" by (simp add: d1_def MAX_PKT_LENGTH_def)
  have "sx_implicitHeaderMode (write_bytes bs e) = sx_implicitHeaderMode e" for bs e
    by (induction bs arbitrary: e) (simp_all add: write_bytes_def sx_write_def writeBuffer_def Let_def)
  then have h: "sx_implicitHeaderMode d1 = 0"
    by (simp add: d1_def d0_def beginPacket_def Let_def explicitHeaderMode_def)
  have "told OP_TX_6X (sent (endPacket_start rr d1)) = Some [0, 0, 0]" by (simp add: endPacket_start_def)
  moreover have "told OP_PACKET_PARAMS_6X (sent (endPacket_start rr d1)) = told OP_PACKET_PARAMS_6X (sent (packet_params rr d1))"
    by (simp add: endPacket_start_def sx_ops)
  moreover have "fifo_at (sent (endPacket_start rr d1)) a = fifo_at (sent d1) a" for a by (simp add: endPacket_start_def)
  ultimately show ?thesis using b h unfolding d1_def [symmetric] d0_def [symmetric]
    by (auto simp: Let_def packet_params_told in_buffer_def intro!: nth_equalityI)
qed

section \<open>Carrier detection\<close>

fun dcd_looks :: "nat \<Rightarrow> (nat \<times> u8) list \<Rightarrow> nat \<Rightarrow> nat \<times> (bool \<times> bool \<times> bool) list" where
  "dcd_looks slack [] p = (p, [])"
| "dcd_looks slack ((now, irq) # ls) p =
    (case dcd_look slack now irq p of (p1, r) \<Rightarrow> case dcd_looks slack ls p1 of (p2, rs) \<Rightarrow> (p2, r # rs))"

definition preamble :: "u8 \<Rightarrow> bool" where "preamble irq \<longleftrightarrow> irq AND IRQ_PREAMBLE_DET_MASK_6X \<noteq> 0"
definition header :: "u8 \<Rightarrow> bool" where "header irq \<longleftrightarrow> irq AND IRQ_HEADER_DET_MASK_6X \<noteq> 0"

lemma dcd_looks_append: "dcd_looks slack (xs @ ys) p =
    (let (p1, r1) = dcd_looks slack xs p; (p2, r2) = dcd_looks slack ys p1 in (p2, r1 @ r2))"
  by (induction xs arbitrary: p) (auto simp: Let_def split: prod.splits)

text \<open>A preamble that no packet follows does not block the channel: while the flag stays up, the first look more than a preamble and a header later
  than the first look that saw it clears the flag and, without a header, starts the receiver again; no look before it does.
\<close>

theorem false_preamble_cleared:
  assumes "0 < t0" "t1 < 4294967296" "slack < t1 - t0" "t0 \<le> t1" "preamble i0" "preamble i1" "\<not> header i1"
    and "\<forall>(t, i) \<in> set mid. preamble i \<and> t0 \<le> t \<and> t - t0 \<le> slack"
  shows "dcd_looks slack ((t0, i0) # mid @ [(t1, i1)]) 0 = (0, replicate (Suc (length mid)) (True, False, False) @ [(True, True, True)])"
proof -
  have "dcd_looks slack mid t0 = (t0, replicate (length mid) (True, False, False))"
    using assms(8)
  proof (induction mid)
    case (Cons m ms)
    obtain t i where m: "m = (t, i)" by fastforce
    then have "sub32 t t0 = t - t0" using Cons.prems assms(2,3) by (intro sub32_le) auto
    then show ?case using Cons m assms(1) by (auto simp: dcd_look_def preamble_def Let_def)
  qed simp
  moreover have "sub32 t1 t0 = t1 - t0" using assms by (intro sub32_le) auto
  ultimately show ?thesis using assms(1-7) by (simp add: dcd_looks_append dcd_look_def preamble_def header_def Let_def)
qed

lemma false_preamble_cleared_witness:
  "dcd_looks 60 [(1000, 0x04), (1030, 0x04), (1061, 0x04)] 0 = (0, [(True, False, False), (True, False, False), (True, True, True)])"
  using false_preamble_cleared [of 1000 1061 60 "0x04" "0x04" "[(1030, 0x04)]"]
  by (simp add: preamble_def header_def IRQ_PREAMBLE_DET_MASK_6X_def IRQ_HEADER_DET_MASK_6X_def)

text \<open>C40. The time of a preamble is not forgotten when its packet has come: after a packet whose preamble was seen at \<open>t0\<close> the flag falls, but the first
  look at the preamble of the next packet, if more than a preamble and a header later, takes the old time, calls it false at once and starts the
  receiver again while the packet is coming in.
\<close>

theorem next_preamble_taken_for_false:
  assumes "0 < t0" "t1 < 4294967296" "slack < t1 - t0" "t0 \<le> t1" "preamble i0" "preamble i1" "\<not> header i1"
    and "\<forall>(t, i) \<in> set mid. \<not> preamble i"
  shows "snd (dcd_looks slack ((t0, i0) # mid @ [(t1, i1)]) 0) ! Suc (length mid) = (True, True, True)"
proof -
  have "\<exists>rs. dcd_looks slack mid t0 = (t0, rs) \<and> length rs = length mid"
    using assms(8) by (induction mid) (auto simp: dcd_look_def preamble_def Let_def)
  then obtain rs where "dcd_looks slack mid t0 = (t0, rs)" "length rs = length mid" by blast
  moreover have "sub32 t1 t0 = t1 - t0" using assms by (intro sub32_le) auto
  ultimately show ?thesis using assms(1-7) by (simp add: dcd_looks_append dcd_look_def preamble_def header_def Let_def nth_append)
qed

text \<open>A packet at second 1, the header flag while it is received, silence, and the first look at the next packet a minute later.\<close>

lemma next_preamble_taken_for_false_witness:
  "snd (dcd_looks 60 [(1000, 0x04), (1050, 0x10), (1100, 0x00), (61000, 0x04)] 0) ! 3 = (True, True, True)"
  using next_preamble_taken_for_false [of 1000 61000 60 "0x04" "0x04" "[(1050, 0x10), (1100, 0x00)]"]
  by (simp add: preamble_def header_def IRQ_PREAMBLE_DET_MASK_6X_def IRQ_HEADER_DET_MASK_6X_def numeral_3_eq_3)

end
