(* ===== verification/Serial.thy ===== *)
theory Serial
  imports Sx126x Rom
begin

text \<open>
  The modem as its host sees it: \<open>serial_callback\<close> of \<open>src/src/RNode_Firmware.ino\<close>, one byte at a time, with what its commands do (\<open>startRadio\<close>,
  \<open>stopRadio\<close>, the setters of \<open>Utilities.h\<close>, the EEPROM of \<open>Rom\<close>, \<open>Bluetooth.h\<close>), on a board like the T-Beam Supreme: ESP32, SX1262 without
  amplifier, display, WiFi and BLE, no pixel LED. What comes from elsewhere (the chip's answers, hashes, the signature check, the display) is in \<open>host_env\<close>.
\<close>

section \<open>State\<close>

definition CMD_L :: nat where "CMD_L = 64"
definition BT_STATE_ON :: u8 where "BT_STATE_ON = 0x01"
definition BT_STATE_PAIRING :: u8 where "BT_STATE_PAIRING = 0x02"
definition ROM_UNLOCK_BYTE :: u8 where "ROM_UNLOCK_BYTE = 0xF8"
definition CMD_RESET_BYTE :: u8 where "CMD_RESET_BYTE = 0xF8"
definition DETECT_REQ :: u8 where "DETECT_REQ = 0x73"
definition WR_WIFI_OFF :: u8 where "WR_WIFI_OFF = 0x00"
definition WR_WIFI_STA :: u8 where "WR_WIFI_STA = 0x01"
definition WR_WIFI_AP :: u8 where "WR_WIFI_AP = 0x02"

record device =
  IN_FRAME :: bool
  ESCAPE :: bool
  kcommand :: u8
  frame_len :: nat
  cmdbuf :: bytes
  txring :: tx_ring
  radio :: phy
  chip :: sx126x
  tm :: timing
  airlimits :: limits
  nvm :: rom
  hlink :: host_link
  bt_allow_pairing :: bool
  cable_connected :: bool
  mode_host :: bool
  hw_ready :: bool
  console_active :: bool
  firmware_update_mode :: bool
  disp_ext_fb :: bool
  fb :: bytes
  dev_sig :: bytes
  dev_firmware_hash_target :: bytes
  wifi_mode :: u8
  display_intensity :: u8
  display_addr :: u8
  recondition_display :: bool

text \<open>What the device does besides changing its state.\<close>

datatype dev_out = Host bytes | Restarts | Blinks nat | Led_info nat | Led_warning nat | Unblank | Bt_begin | Bt_end | Bt_security | Bt_debond
  | Wifi_remote_init | Init_channel_stats | Erased | Text string

record host_env =
  rr :: regs
  chip_found :: bool
  ocp :: u8
  rand :: u8
  rnd_float :: "rat \<Rightarrow> rat"
  rnd_double :: "rat \<Rightarrow> rat"
  h_device :: bytes
  h_firmware :: bytes
  h_bootloader :: bytes
  h_partitions :: bytes
  sig_valid :: "bytes \<Rightarrow> bool"
  fw_validated :: bool
  disp_area :: bytes
  stat_area :: bytes
  id_platform :: u8
  id_mcu :: u8
  id_board :: u8

type_synonym effect = "device \<Rightarrow> device \<times> dev_out list"

definition done_with :: "dev_out list \<Rightarrow> effect" where "done_with os d = (d, os)"

text \<open>\<open>led_indicate_info(0)\<close> and \<open>led_indicate_error(0)\<close> do not return.\<close>

definition stops :: "dev_out list \<Rightarrow> bool" where
  "stops os \<longleftrightarrow> Restarts \<in> set os \<or> Blinks 0 \<in> set os \<or> Led_info 0 \<in> set os"

definition after :: "effect \<Rightarrow> effect \<Rightarrow> effect" where
  "after f g d = (case f d of (d1, o1) \<Rightarrow> if stops o1 then (d1, o1) else case g d1 of (d2, o2) \<Rightarrow> (d2, o1 @ o2))"

definition reply :: "(device \<Rightarrow> bytes) \<Rightarrow> effect" where "reply f d = (d, [Host (f d)])"

definition upd :: "(device \<Rightarrow> device) \<Rightarrow> effect" where "upd f d = (f d, [])"

section \<open>Radio parameters\<close>

text \<open>\<open>long\<close> has 32 bits.\<close>

definition as_long :: "nat \<Rightarrow> int" where "as_long n = (if n < 2147483648 then int n else int n - 4294967296)"

definition setPreamble :: "host_env \<Rightarrow> device \<Rightarrow> device" where
  "setPreamble E d = (if radio_online (radio d) then d\<lparr>chip := sx_setPreambleLength (rr E) (lora_preamble_symbols (tm d)) (chip d)\<rparr> else d)"

definition set_bitrate :: "host_env \<Rightarrow> device \<Rightarrow> device" where
  "set_bitrate E d = setPreamble E (d\<lparr>tm := updateBitrate (rnd_float E) (rnd_double E) (radio d) (tm d)\<rparr>)"

definition setSpreadingFactor :: "host_env \<Rightarrow> device \<Rightarrow> device" where
  "setSpreadingFactor E d =
    set_bitrate E (if radio_online (radio d) then d\<lparr>chip := sx_setSpreadingFactor (lora_sf (radio d)) (chip d)\<rparr> else d)"

definition setCodingRate :: "host_env \<Rightarrow> device \<Rightarrow> device" where
  "setCodingRate E d =
    set_bitrate E (if radio_online (radio d) then d\<lparr>chip := sx_setCodingRate4 (lora_cr (radio d)) (chip d)\<rparr> else d)"

definition setTXPower :: "host_env \<Rightarrow> device \<Rightarrow> device" where
  "setTXPower E d = (if radio_online (radio d) then d\<lparr>chip := sx_setTxPower (rr E) (ocp E) (lora_txp (radio d)) (chip d)\<rparr> else d)"

definition getBandwidth :: "host_env \<Rightarrow> device \<Rightarrow> device" where
  "getBandwidth E d =
    set_bitrate E (if radio_online (radio d) then d\<lparr>radio := (radio d)\<lparr>lora_bw := getSignalBandwidth (chip d)\<rparr>\<rparr> else d)"

definition setBandwidth :: "host_env \<Rightarrow> device \<Rightarrow> device" where
  "setBandwidth E d =
    (if radio_online (radio d) then getBandwidth E (d\<lparr>chip := sx_setSignalBandwidth (rr E) (nat (as_long (lora_bw (radio d)))) (chip d)\<rparr>) else d)"

definition getFrequency :: "device \<Rightarrow> device" where
  "getFrequency d = (if radio_online (radio d) then d\<lparr>radio := (radio d)\<lparr>lora_freq := nat (sx_frequency (chip d) mod 4294967296)\<rparr>\<rparr> else d)"

definition setFrequency :: "device \<Rightarrow> device" where
  "setFrequency d = (if radio_online (radio d) then getFrequency (d\<lparr>chip := sx_setFrequency (as_long (lora_freq (radio d))) (chip d)\<rparr>) else d)"

definition set_implicit_length :: "u8 \<Rightarrow> device \<Rightarrow> device" where
  "set_implicit_length l d = d\<lparr>radio := (radio d)\<lparr>implicit_l := l, implicit := (l \<noteq> 0)\<rparr>\<rparr>"

definition update_radio_lock :: "device \<Rightarrow> device" where
  "update_radio_lock d =
    (let p = radio d
     in d\<lparr>radio := p\<lparr>radio_locked := \<not> (lora_freq p \<noteq> 0 \<and> lora_bw p \<noteq> 0 \<and> lora_txp p \<noteq> 0xFF \<and> lora_sf p \<noteq> 0)\<rparr>\<rparr>)"

definition stopRadio :: "device \<Rightarrow> device" where
  "stopRadio d = d\<lparr>chip := sx_end (chip d), radio := (radio d)\<lparr>radio_online := False\<rparr>\<rparr>"

definition radio_up_now :: "host_env \<Rightarrow> device \<Rightarrow> device" where
  "radio_up_now E d =
    (let d1 = d\<lparr>radio := (radio d)\<lparr>radio_online := True\<rparr>\<rparr>;
         d2 = getFrequency (setCodingRate E (setSpreadingFactor E (setBandwidth E (setTXPower E d1))))
     in d2\<lparr>chip := lora_receive (rr E) (radio d2) (sx_onReceive (enableCrc (rr E) (chip d2)))\<rparr>)"

definition startRadio :: "host_env \<Rightarrow> effect" where
  "startRadio E d0 =
    (let d = update_radio_lock d0; p = radio d
     in if \<not> radio_online p \<and> \<not> console_active d then
          (if \<not> radio_locked p \<and> hw_ready d then
             (case sx_begin (rr E) (chip_found E) (ocp E) (as_long (lora_freq p)) (chip d) of (c, ok) \<Rightarrow>
               if \<not> ok then (d\<lparr>chip := c, radio := p\<lparr>radio_error := True\<rparr>\<rparr>, [Host (kiss_indicate_error ERROR_INITRADIO), Blinks 0])
               else (let d1 = radio_up_now E (d\<lparr>chip := c\<rparr>)
                     in (d1, [Init_channel_stats, Host (kiss_indicate_radiostate (radio d1)), Led_info 3])))
           else (let d1 = d\<lparr>radio := p\<lparr>radio_online := False\<rparr>\<rparr> in (d1, [Host (kiss_indicate_radiostate (radio d1)), Led_warning 3])))
        else (d, [Host (kiss_indicate_radiostate p)]))"

section \<open>Bytes of a frame\<close>

definition unescape :: "bool \<Rightarrow> u8 \<Rightarrow> u8" where
  "unescape e b = (if e then (let b1 = (if b = TFEND then FEND else b) in if b1 = TFESC then FESC else b1) else b)"

text \<open>\<open>if (sbyte == FESC) ESCAPE = true; else\<close> \<open>...\<close> with the byte that goes on, or the \<open>FESC\<close> itself.\<close>

definition take_escape :: "u8 \<Rightarrow> device \<Rightarrow> device \<times> u8 \<times> bool" where
  "take_escape b d =
    (if b = FESC then (d\<lparr>ESCAPE := True\<rparr>, b, False) else (d\<lparr>ESCAPE := False\<rparr>, unescape (ESCAPE d) b, True))"

definition collect :: "u8 \<Rightarrow> device \<Rightarrow> device \<times> u8" where
  "collect b d =
    (case take_escape b d of (d1, b1, ok) \<Rightarrow>
      (if ok \<and> frame_len d1 < CMD_L then d1\<lparr>cmdbuf := (cmdbuf d1)[frame_len d1 := b1], frame_len := frame_len d1 + 1\<rparr> else d1, b1))"

definition collected :: "u8 \<Rightarrow> nat \<Rightarrow> effect \<Rightarrow> effect" where
  "collected b n f d = (case collect b d of (d1, b1) \<Rightarrow> if frame_len d1 = n then f d1 else (d1, []))"

definition cmd32 :: "device \<Rightarrow> nat" where
  "cmd32 d = be32 (cmdbuf d ! 0) (cmdbuf d ! 1) (cmdbuf d ! 2) (cmdbuf d ! 3)"

definition cmd16 :: "device \<Rightarrow> nat" where "cmd16 d = be16 (cmdbuf d ! 0) (cmdbuf d ! 1)"

definition host_connected :: "device \<Rightarrow> device" where
  "host_connected d = (if bt_state (hlink d) \<noteq> BT_STATE_CONNECTED then d\<lparr>cable_connected := True\<rparr> else d)"

section \<open>Commands\<close>

definition data_byte :: "u8 \<Rightarrow> effect" where
  "data_byte b d =
    (case take_escape b (host_connected d) of (d1, b1, ok) \<Rightarrow> (if ok then d1\<lparr>txring := host_byte b1 (txring d1)\<rparr> else d1, []))"

definition reply_phy :: "(phy \<Rightarrow> bytes) \<Rightarrow> effect" where "reply_phy f d = (d, [Host (f (radio d))])"

definition in_host_mode :: "(device \<Rightarrow> device) \<Rightarrow> device \<Rightarrow> device" where "in_host_mode f d = (if mode_host d then f d else d)"

definition frequency_command :: effect where
  "frequency_command d =
    (if cmd32 d = 0 then reply_phy kiss_indicate_frequency d
     else reply_phy kiss_indicate_frequency (in_host_mode setFrequency (d\<lparr>radio := (radio d)\<lparr>lora_freq := cmd32 d\<rparr>\<rparr>)))"

definition bandwidth_command :: "host_env \<Rightarrow> effect" where
  "bandwidth_command E d =
    (if cmd32 d = 0 then reply_phy kiss_indicate_bandwidth d
     else reply_phy kiss_indicate_bandwidth (in_host_mode (setBandwidth E) (d\<lparr>radio := (radio d)\<lparr>lora_bw := cmd32 d\<rparr>\<rparr>)))"

definition txpower_command :: "host_env \<Rightarrow> u8 \<Rightarrow> effect" where
  "txpower_command E b d =
    (if b = 0xFF then reply_phy kiss_indicate_txpower d
     else reply_phy kiss_indicate_txpower
       (in_host_mode (setTXPower E) (d\<lparr>radio := (radio d)\<lparr>lora_txp := (if unat b > 22 then 22 else int (unat b))\<rparr>\<rparr>)))"

definition sf_command :: "host_env \<Rightarrow> u8 \<Rightarrow> effect" where
  "sf_command E b d =
    (if b = 0xFF then reply_phy kiss_indicate_spreadingfactor d
     else reply_phy kiss_indicate_spreadingfactor
       (in_host_mode (setSpreadingFactor E) (d\<lparr>radio := (radio d)\<lparr>lora_sf := clamp 5 12 (int (unat b))\<rparr>\<rparr>)))"

definition cr_command :: "host_env \<Rightarrow> u8 \<Rightarrow> effect" where
  "cr_command E b d =
    (if b = 0xFF then reply_phy kiss_indicate_codingrate d
     else reply_phy kiss_indicate_codingrate
       (in_host_mode (setCodingRate E) (d\<lparr>radio := (radio d)\<lparr>lora_cr := clamp 5 8 (int (unat b))\<rparr>\<rparr>)))"

definition leave_command :: "u8 \<Rightarrow> effect" where
  "leave_command b d =
    (if b = 0xFF then (d\<lparr>cable_connected := False, radio := (radio d)\<lparr>current_rssi := -292, last_rssi := -292, last_snr_raw := 0x80\<rparr>\<rparr>, [Unblank])
     else (d, []))"

definition radio_state_command :: "host_env \<Rightarrow> u8 \<Rightarrow> effect" where
  "radio_state_command E b d =
    after (\<lambda>d. (host_connected d, if bt_state (hlink d) \<noteq> BT_STATE_CONNECTED then [Unblank] else []))
      (if b = 0xFF then reply_phy kiss_indicate_radiostate
       else if b = 0x00 then (\<lambda>d. reply_phy kiss_indicate_radiostate (stopRadio d))
       else if b = 0x01 then after (startRadio E) (reply_phy kiss_indicate_radiostate)
       else done_with []) d"

text \<open>The limits come as hundredths of a percent; 100 percent and more is no limit.\<close>

definition airtime_limit :: "host_env \<Rightarrow> nat \<Rightarrow> rat" where
  "airtime_limit E a =
    (if a = 0 then 0 else let l = rnd_float E (rnd_double E (of_nat a / 10000)) in if l \<ge> 1 then 0 else l)"

definition st_alock_command :: "host_env \<Rightarrow> effect" where
  "st_alock_command E d =
    (let d1 = d\<lparr>airlimits := (airlimits d)\<lparr>st_airtime_limit := airtime_limit E (cmd16 d)\<rparr>\<rparr>
     in (d1, [Host (kiss_indicate_st_alock (rnd_float E) (st_airtime_limit (airlimits d1)))]))"

definition lt_alock_command :: "host_env \<Rightarrow> effect" where
  "lt_alock_command E d =
    (let d1 = d\<lparr>airlimits := (airlimits d)\<lparr>lt_airtime_limit := airtime_limit E (cmd16 d)\<rparr>\<rparr>
     in (d1, [Host (kiss_indicate_lt_alock (rnd_float E) (lt_airtime_limit (airlimits d1)))]))"

definition promisc_command :: "u8 \<Rightarrow> effect" where
  "promisc_command b d =
    reply_phy kiss_indicate_promisc
      (if b = 0x01 then d\<lparr>radio := (radio d)\<lparr>promisc := True\<rparr>\<rparr> else if b = 0x00 then d\<lparr>radio := (radio d)\<lparr>promisc := False\<rparr>\<rparr> else d)"

definition unlock_rom :: effect where
  "unlock_rom d = (d\<lparr>nvm := eeprom_erase (nvm d)\<rparr>, [Blinks 50, Erased, Restarts])"

definition rom_write_command :: effect where
  "rom_write_command d =
    (case eeprom_write (cmdbuf d ! 0) (cmdbuf d ! 1) (nvm d) of Inl e \<Rightarrow> (d, [Host e]) | Inr r \<Rightarrow> (d\<lparr>nvm := r\<rparr>, []))"

definition conf_save_command :: effect where
  "conf_save_command d =
    (case eeprom_conf_save (hw_ready d) (radio d) (nvm d) of None \<Rightarrow> (d, [Led_warning 10]) | Some r \<Rightarrow> (d\<lparr>nvm := r\<rparr>, [Led_info 10]))"

definition fb_ext_command :: "u8 \<Rightarrow> effect" where
  "fb_ext_command b d =
    (if b = 0xFF then (d, [Host (kiss_indicate_fbstate (disp_ext_fb d))])
     else if b = 0x00 then (d\<lparr>disp_ext_fb := False\<rparr>, [Host (kiss_indicate_fbstate False)])
     else if b = 0x01 then (d\<lparr>disp_ext_fb := True\<rparr>, [Host (kiss_indicate_fbstate True)])
     else (d, []))"

text \<open>\<open>memcpy(fb+line*8, cmdbuf+1, 8)\<close>\<close>

definition fb_write_command :: effect where
  "fb_write_command d =
    (let line = min (unat (cmdbuf d ! 0)) 63
     in (d\<lparr>fb := take (line * 8) (fb d) @ take 8 (drop 1 (cmdbuf d)) @ drop (line * 8 + 8) (fb d)\<rparr>, []))"

definition dev_sig_command :: "host_env \<Rightarrow> effect" where
  "dev_sig_command E d =
    (let s = take DEV_SIG_LEN (cmdbuf d)
     in (d\<lparr>dev_sig := s, nvm := device_save_signature (sig_valid E s) s (nvm d)\<rparr>, []))"

definition fw_hash_command :: "host_env \<Rightarrow> effect" where
  "fw_hash_command E d =
    (let h = take DEV_HASH_LEN (cmdbuf d)
     in (d\<lparr>dev_firmware_hash_target := h, nvm := device_save_firmware_hash h (nvm d)\<rparr>, if fw_validated E then [] else [Restarts]))"

definition hashes_command :: "host_env \<Rightarrow> u8 \<Rightarrow> effect" where
  "hashes_command E b d =
    (d, if b = 0x01 then [Host (kiss_indicate_hash 0x01 (dev_firmware_hash_target d))] else if b = 0x02 then [Host (kiss_indicate_hash 0x02 (h_firmware E))]
        else if b = 0x03 then [Host (kiss_indicate_hash 0x03 (h_bootloader E))] else if b = 0x04 then [Host (kiss_indicate_hash 0x04 (h_partitions E))] else [])"

definition wifi_mode_command :: "u8 \<Rightarrow> effect" where
  "wifi_mode_command b d =
    (if b = WR_WIFI_OFF \<or> b = WR_WIFI_STA \<or> b = WR_WIFI_AP
     then (d\<lparr>nvm := wr_conf_save b (nvm d), wifi_mode := b\<rparr>, [Wifi_remote_init]) else (d, []))"

definition wifi_channel_command :: "u8 \<Rightarrow> effect" where
  "wifi_channel_command b d =
    (if b > 0 \<and> b < 14 then (d\<lparr>nvm := eeprom_update (eeprom_addr ADDR_CONF_WCHN) b (nvm d)\<rparr>, []) else (d, []))"

text \<open>A name or password of up to 32 bytes ends with a zero byte; 33 bytes are written.\<close>

definition wifi_text :: "nat \<Rightarrow> device \<Rightarrow> bytes" where
  "wifi_text n d = map (\<lambda>i. if i < frame_len d \<and> i < 32 then cmdbuf d ! i else 0x00) [0 ..< n]"

definition wifi_text_command :: "nat \<Rightarrow> u8 \<Rightarrow> effect" where
  "wifi_text_command a b d =
    (case collect b d of (d1, b1) \<Rightarrow>
      if b1 = 0x00 then (d1\<lparr>nvm := eeprom_updates (config_addr a) (wifi_text 33 d1) (nvm d1)\<rparr>, []) else (d1, []))"

definition wifi_addr_command :: "nat \<Rightarrow> effect" where
  "wifi_addr_command a d = (d\<lparr>nvm := eeprom_updates (config_addr a) (take 4 (cmdbuf d)) (nvm d)\<rparr>, [])"

definition bt_start :: effect where
  "bt_start d =
    (if bt_state (hlink d) = BT_STATE_OFF then (d\<lparr>hlink := (hlink d)\<lparr>bt_state := BT_STATE_ON\<rparr>\<rparr>, [Unblank, Bt_begin]) else (d, [Unblank]))"

definition bt_stop :: effect where
  "bt_stop d =
    (if bt_state (hlink d) \<noteq> BT_STATE_OFF then (d\<lparr>bt_allow_pairing := False, hlink := (hlink d)\<lparr>bt_state := BT_STATE_OFF\<rparr>\<rparr>, [Unblank, Bt_end])
     else (d, [Unblank]))"

definition bt_enable_pairing :: effect where
  "bt_enable_pairing =
    after (done_with [Unblank]) (after (\<lambda>d. if bt_state (hlink d) = BT_STATE_OFF then bt_start d else (d, []))
      (\<lambda>d. (d\<lparr>bt_allow_pairing := True, hlink := (hlink d)\<lparr>bt_state := BT_STATE_PAIRING\<rparr>\<rparr>, [Bt_security])))"

definition save_bt :: "bool \<Rightarrow> effect" where "save_bt on d = (d\<lparr>nvm := bt_conf_save on (nvm d)\<rparr>, [])"

definition bt_command :: "u8 \<Rightarrow> effect" where
  "bt_command b =
    (if b = 0x00 then after bt_stop (save_bt False)
     else if b = 0x01 then after bt_start (save_bt True)
     else if b = 0x02 then
       after (\<lambda>d. if bt_state (hlink d) = BT_STATE_OFF then after bt_start (save_bt True) d else (d, []))
         (\<lambda>d. if bt_state (hlink d) \<noteq> BT_STATE_CONNECTED then bt_enable_pairing d else (d, []))
     else done_with [])"

text \<open>The settings of one byte: what the byte does once it is unescaped.\<close>

definition setting :: "u8 \<Rightarrow> (u8 \<Rightarrow> effect) \<Rightarrow> effect" where
  "setting b f d = (case take_escape b d of (d1, b1, ok) \<Rightarrow> if ok then f b1 d1 else (d1, []))"

definition save_intensity :: "u8 \<Rightarrow> effect" where
  "save_intensity b d = (d\<lparr>display_intensity := b, nvm := di_conf_save b (nvm d)\<rparr>, [Unblank])"
definition save_address :: "u8 \<Rightarrow> effect" where
  "save_address b d = (d\<lparr>display_addr := b, nvm := da_conf_save b (nvm d)\<rparr>, [])"
definition save_blanking :: "u8 \<Rightarrow> effect" where
  "save_blanking b d = (d\<lparr>nvm := db_conf_save b (nvm d)\<rparr>, [Unblank])"
definition save_rotation :: "u8 \<Rightarrow> effect" where
  "save_rotation b d = (d\<lparr>nvm := drot_conf_save b (nvm d)\<rparr>, if b \<le> 0x03 then [Restarts] else [Unblank])"
definition save_interference :: "u8 \<Rightarrow> effect" where
  "save_interference b d = (d\<lparr>nvm := dia_conf_save b (nvm d)\<rparr>, [Restarts])"
definition recondition :: "u8 \<Rightarrow> effect" where
  "recondition b d = (if b > 0 then d\<lparr>recondition_display := True\<rparr> else d, [])"

definition ready_command :: effect where
  "ready_command d = (d, [Host (if \<not> queue_full (txring d) then kiss_indicate_ready else kiss_indicate_not_ready)])"

definition detect_command :: "u8 \<Rightarrow> effect" where
  "detect_command b d = (if b = DETECT_REQ then (host_connected d, [Host kiss_indicate_detect]) else (d, []))"

text \<open>The chain of commands, by the command byte of the frame; the second half answers queries and changes settings.\<close>

definition device_command :: "host_env \<Rightarrow> u8 \<Rightarrow> u8 \<Rightarrow> effect" where
  "device_command E c b =
    (if c = CMD_FW_VERSION then done_with [Host kiss_indicate_version]
     else if c = CMD_PLATFORM then done_with [Host (kiss_indicate_platform (id_platform E))]
     else if c = CMD_MCU then done_with [Host (kiss_indicate_mcu (id_mcu E))]
     else if c = CMD_BOARD then done_with [Host (kiss_indicate_board (id_board E))]
     else if c = CMD_CONF_SAVE then conf_save_command
     else if c = CMD_CONF_DELETE then upd (\<lambda>d. d\<lparr>nvm := eeprom_conf_delete (nvm d)\<rparr>)
     else if c = CMD_FB_EXT then fb_ext_command b
     else if c = CMD_FB_WRITE then collected b 9 fb_write_command
     else if c = CMD_FB_READ then (if b \<noteq> 0x00 then reply (\<lambda>d. kiss_indicate_fb (fb d)) else done_with [])
     else if c = CMD_DISP_READ then (if b \<noteq> 0x00 then done_with [Host (kiss_indicate_disp (disp_area E) (stat_area E))] else done_with [])
     else if c = CMD_DEV_HASH then (if b \<noteq> 0x00 then done_with [Host (kiss_indicate_device_hash (h_device E))] else done_with [])
     else if c = CMD_DEV_SIG then collected b DEV_SIG_LEN (dev_sig_command E)
     else if c = CMD_FW_UPD then upd (\<lambda>d. d\<lparr>firmware_update_mode := (b = 0x01)\<rparr>)
     else if c = CMD_HASHES then hashes_command E b
     else if c = CMD_FW_HASH then collected b DEV_HASH_LEN (fw_hash_command E)
     else if c = CMD_WIFI_CHN then wifi_channel_command b
     else if c = CMD_WIFI_MODE then wifi_mode_command b
     else if c = CMD_WIFI_SSID then wifi_text_command ADDR_CONF_SSID b
     else if c = CMD_WIFI_PSK then wifi_text_command ADDR_CONF_PSK b
     else if c = CMD_WIFI_IP then collected b 4 (wifi_addr_command ADDR_CONF_IP)
     else if c = CMD_WIFI_NM then collected b 4 (wifi_addr_command ADDR_CONF_NM)
     else if c = CMD_BT_CTRL then bt_command b
     else if c = CMD_BT_UNPAIR then (if b = 0x01 then done_with [Bt_debond] else done_with [])
     else if c = CMD_DISP_INT then setting b save_intensity
     else if c = CMD_DISP_ADDR then setting b save_address
     else if c = CMD_DISP_BLNK then setting b save_blanking
     else if c = CMD_DISP_ROT then setting b save_rotation
     else if c = CMD_DIS_IA then setting b save_interference
     else if c = CMD_DISP_RCND then setting b recondition
     else done_with [])"

definition frame_command :: "host_env \<Rightarrow> u8 \<Rightarrow> u8 \<Rightarrow> effect" where
  "frame_command E c b =
    (if c = CMD_DATA then data_byte b
     else if c = CMD_FREQUENCY then collected b 4 frequency_command
     else if c = CMD_BANDWIDTH then collected b 4 (bandwidth_command E)
     else if c = CMD_TXPOWER then txpower_command E b
     else if c = CMD_SF then sf_command E b
     else if c = CMD_CR then cr_command E b
     else if c = CMD_IMPLICIT then (\<lambda>d. reply_phy kiss_indicate_implicit_length (set_implicit_length b d))
     else if c = CMD_LEAVE then leave_command b
     else if c = CMD_RADIO_STATE then radio_state_command E b
     else if c = CMD_ST_ALOCK then collected b 2 (st_alock_command E)
     else if c = CMD_LT_ALOCK then collected b 2 (lt_alock_command E)
     else if c = CMD_STAT_RX then reply_phy kiss_indicate_stat_rx
     else if c = CMD_STAT_TX then reply_phy kiss_indicate_stat_tx
     else if c = CMD_STAT_RSSI then reply_phy kiss_indicate_stat_rssi
     else if c = CMD_RADIO_LOCK then (\<lambda>d. reply_phy kiss_indicate_radio_lock (update_radio_lock d))
     else if c = CMD_BLINK then done_with [Led_info (unat b)]
     else if c = CMD_RANDOM then done_with [Host (kiss_indicate_random (rand E))]
     else if c = CMD_DETECT then detect_command b
     else if c = CMD_PROMISC then promisc_command b
     else if c = CMD_READY then ready_command
     else if c = CMD_UNLOCK_ROM then (if b = ROM_UNLOCK_BYTE then unlock_rom else done_with [])
     else if c = CMD_RESET then (if b = CMD_RESET_BYTE then done_with [Restarts] else done_with [])
     else if c = CMD_ROM_READ then reply (\<lambda>d. kiss_dump_eeprom (nvm d))
     else if c = CMD_CFG_READ then reply (\<lambda>d. kiss_dump_config (nvm d))
     else if c = CMD_ROM_WRITE then collected b 2 rom_write_command
     else device_command E c b)"

definition serial_callback :: "host_env \<Rightarrow> u8 \<Rightarrow> effect" where
  "serial_callback E b d =
    (if IN_FRAME d \<and> b = FEND \<and> kcommand d = CMD_DATA then (d\<lparr>IN_FRAME := False, txring := host_end (txring d)\<rparr>, [])
     else if b = FEND then (d\<lparr>IN_FRAME := True, kcommand := CMD_UNKNOWN, frame_len := 0\<rparr>, [])
     else if IN_FRAME d \<and> frame_len d < MTU then
       (if frame_len d = 0 \<and> kcommand d = CMD_UNKNOWN then (d\<lparr>kcommand := b\<rparr>, []) else frame_command E (kcommand d) b d)
     else (d, []))"

text \<open>The bytes up to where the device stops.\<close>

fun host_sends :: "host_env \<Rightarrow> bytes \<Rightarrow> effect" where
  "host_sends E [] d = (d, [])"
| "host_sends E (b # bs) d =
    after (serial_callback E b) (host_sends E bs) d"

section \<open>Boot\<close>

text \<open>The device when it is switched on, with the EEPROM it has.\<close>

definition modem_on :: "rom \<Rightarrow> device" where
  "modem_on r = \<lparr>IN_FRAME = False, ESCAPE = False, kcommand = CMD_UNKNOWN, frame_len = 0, cmdbuf = replicate CMD_L 0, txring = ring_init,
     radio = \<lparr>lora_sf = 0, lora_cr = 5, lora_txp = 0xFF, lora_bw = 0, lora_freq = 0, radio_online = False, radio_locked = True, radio_error = False,
       implicit_l = 0, implicit = False, promisc = False, stat_rx = 0, stat_tx = 0, current_rssi = -292, last_rssi = -292, last_snr_raw = 0x80\<rparr>,
     chip = sx_init,
     tm = \<lparr>lora_symbol_rate = 0, lora_symbol_time_ms = 0, lora_bitrate = 0, lora_us_per_byte = 0, lora_limit_rate = False, lora_guard_rate = False,
       csma_slot_ms = 24, difs_ms = 48, lora_preamble_symbols = 18, lora_preamble_time_ms = 0, lora_header_time_ms = 0\<rparr>,
     airlimits = \<lparr>st_airtime_limit = 0, lt_airtime_limit = 0\<rparr>, nvm = r,
     hlink = \<lparr>bt_state = 0xFF, wifi_host = False, kiss_serial_output = True\<rparr>, bt_allow_pairing = False, cable_connected = False, mode_host = True,
     hw_ready = False, console_active = False, firmware_update_mode = False, disp_ext_fb = False, fb = replicate 512 0,
     dev_sig = replicate DEV_SIG_LEN 0, dev_firmware_hash_target = replicate DEV_HASH_LEN 0, wifi_mode = WR_WIFI_OFF,
     display_intensity = 0xFF, display_addr = 0xFF, recondition_display = False\<rparr>"

text \<open>\<open>preInit\<close> looks for the chip; the EEPROM check of \<open>validate_status\<close>, the ESP32's boot vector is always the boot loader's.\<close>

definition preInit :: "host_env \<Rightarrow> device \<Rightarrow> device" where
  "preInit E d = (if chip_found E then d\<lparr>chip := (chip d)\<lparr>sx_preinit_done := True\<rparr>\<rparr> else d)"

definition device_init :: "host_env \<Rightarrow> device \<Rightarrow> device" where
  "device_init E d =
    d\<lparr>dev_sig := device_load_signature (nvm d), dev_firmware_hash_target := device_load_firmware_hash (nvm d), hw_ready := fw_validated E\<rparr>"

definition conf_load :: "host_env \<Rightarrow> device \<Rightarrow> device" where
  "conf_load E d =
    (case eeprom_conf_load (rnd_float E) (nvm d) (radio d, airlimits d, hlink d) of (p, l, h) \<Rightarrow>
      d\<lparr>radio := p, airlimits := l, hlink := h, mode_host := False\<rparr>)"

definition validate_status :: "host_env \<Rightarrow> board \<Rightarrow> (bytes \<Rightarrow> bytes) \<Rightarrow> effect" where
  "validate_status E bd md5 d0 =
    (let d = d0\<lparr>nvm := auto_provision_eeprom_if_blank bd md5 (nvm d0)\<rparr>; r = nvm d
     in if \<not> eeprom_info_locked r then (d, [Text ''Device unprovisioned, no device configuration found in EEPROM''])
        else if \<not> (eeprom_product_valid bd r \<and> eeprom_model_valid bd r \<and> eeprom_hwrev_valid r) then (d, [Text ''Invalid EEPROM configuration''])
        else if \<not> eeprom_checksum_valid md5 r then (d, [Text ''Invalid EEPROM checksum''])
        else if \<not> chip_found E then (d, [Text ''No radio module found''])
        else let d1 = device_init E d
             in if hw_ready d1 \<and> eeprom_have_conf r then startRadio E (conf_load E d1) else (d1, []))"

definition boot :: "host_env \<Rightarrow> board \<Rightarrow> (bytes \<Rightarrow> bytes) \<Rightarrow> effect" where
  "boot E bd md5 =
    after (\<lambda>d. (preInit E d, [Host kiss_indicate_reset]))
      (after (validate_status E bd md5) (\<lambda>d. (if mode_host d then d\<lparr>chip := sx_setFrequency 0 (chip d)\<rparr> else d, [])))"

definition session :: "host_env \<Rightarrow> board \<Rightarrow> (bytes \<Rightarrow> bytes) \<Rightarrow> rom \<Rightarrow> bytes \<Rightarrow> device \<times> dev_out list" where
  "session E bd md5 r bs = after (boot E bd md5) (host_sends E bs) (modem_on r)"

definition sample_env :: host_env where
  "sample_env = \<lparr>rr = \<lambda>tr a. 0, chip_found = True, ocp = 0x28, rand = 0, rnd_float = id, rnd_double = id, h_device = [], h_firmware = [],
     h_bootloader = [], h_partitions = [], sig_valid = \<lambda>s. False, fw_validated = True, disp_area = [], stat_area = [], id_platform = 0x80,
     id_mcu = 0x81, id_board = 0x3D\<rparr>"

section \<open>Data frames\<close>

lemma host_sends_quiet: "serial_callback E b d = (d1, []) \<Longrightarrow> host_sends E (b # bs) d = host_sends E bs d1"
  by (simp add: after_def stops_def split_beta)

definition put_data :: "u8 \<Rightarrow> device \<Rightarrow> device" where
  "put_data b d = (host_connected d)\<lparr>ESCAPE := False, txring := host_byte b (txring d)\<rparr>"

definition in_data :: "device \<Rightarrow> bool" where
  "in_data d \<longleftrightarrow> IN_FRAME d \<and> kcommand d = CMD_DATA \<and> frame_len d = 0 \<and> \<not> ESCAPE d"

lemma host_connected_sel [simp]:
  "IN_FRAME (host_connected d) = IN_FRAME d" "kcommand (host_connected d) = kcommand d" "frame_len (host_connected d) = frame_len d"
  "txring (host_connected d) = txring d" "ESCAPE (host_connected d) = ESCAPE d" "hlink (host_connected d) = hlink d"
  "host_connected (host_connected d) = host_connected d" "host_connected (d\<lparr>ESCAPE := e\<rparr>) = (host_connected d)\<lparr>ESCAPE := e\<rparr>"
  "radio (host_connected d) = radio d" "chip (host_connected d) = chip d" "nvm (host_connected d) = nvm d"
  by (simp_all add: host_connected_def)

lemma put_data_sel [simp]:
  "txring (put_data b d) = host_byte b (txring d)" "radio (put_data b d) = radio d" "chip (put_data b d) = chip d" "nvm (put_data b d) = nvm d"
  "in_data d \<Longrightarrow> in_data (put_data b d)"
  by (simp_all add: put_data_def in_data_def)

lemma data_plain: "in_data d \<Longrightarrow> b \<noteq> FEND \<Longrightarrow> b \<noteq> FESC \<Longrightarrow> host_sends E (b # bs) d = host_sends E bs (put_data b d)"
  by (rule host_sends_quiet)
    (simp add: serial_callback_def in_data_def frame_command_def data_byte_def take_escape_def unescape_def put_data_def MTU_def CMD_DATA_def
      CMD_UNKNOWN_def)

lemma data_escaped:
  assumes "in_data d" "b = FEND \<and> t = TFEND \<or> b = FESC \<and> t = TFESC"
  shows "host_sends E (FESC # t # bs) d = host_sends E bs (put_data b d)"
proof -
  have "serial_callback E FESC d = ((host_connected d)\<lparr>ESCAPE := True\<rparr>, [])"
    using assms(1) by (simp add: serial_callback_def in_data_def frame_command_def data_byte_def take_escape_def MTU_def CMD_DATA_def CMD_UNKNOWN_def
        FESC_def FEND_def)
  moreover have "serial_callback E t ((host_connected d)\<lparr>ESCAPE := True\<rparr>) = (put_data b d, [])"
    using assms by (auto simp: serial_callback_def in_data_def frame_command_def data_byte_def take_escape_def MTU_def CMD_DATA_def CMD_UNKNOWN_def
        FESC_def FEND_def TFEND_def TFESC_def unescape_def put_data_def)
  ultimately show ?thesis using host_sends_quiet by metis
qed

lemma data_bytes: "in_data d \<Longrightarrow> host_sends E (kiss_escape p @ bs) d = host_sends E bs (fold put_data p d)"
proof (induction p arbitrary: d)
  case (Cons b p)
  have "host_sends E (escaped b @ rest) d = host_sends E rest (put_data b d)" for rest
    using Cons.prems data_plain data_escaped by (auto simp: escaped_def)
  then show ?case using Cons by (simp add: kiss_escape_def)
qed (simp add: kiss_escape_def)

text \<open>C18. A data frame reaches the transmit ring as it was sent: the escaped bytes of a packet between two \<open>FEND\<close>s have the effect of writing each byte
  of the packet and closing it, whatever the bytes are, and change neither radio, driver nor EEPROM, and nothing is answered.
\<close>

theorem data_frame_queued:
  assumes "\<not> ESCAPE d" "\<not> (IN_FRAME d \<and> kcommand d = CMD_DATA)"
  shows "\<exists>d'. host_sends E (kiss_data_frame p) d = (d', []) \<and> \<not> IN_FRAME d' \<and> \<not> ESCAPE d' \<and>
    txring d' = ring (fst (run tx_step (map HostByte p @ [HostEnd]) (txq_init\<lparr>ring := txring d\<rparr>))) \<and>
    radio d' = radio d \<and> chip d' = chip d \<and> nvm d' = nvm d"
proof -
  define d1 where "d1 = d\<lparr>IN_FRAME := True, kcommand := CMD_DATA, frame_len := 0\<rparr>"
  have "in_data d1" using assms(1) by (simp add: d1_def in_data_def)
  then have i: "in_data (fold put_data p d1)" by (induction p arbitrary: d1) simp_all
  have "host_sends E (kiss_data_frame p) d = host_sends E (kiss_escape p @ [FEND]) d1"
  proof -
    have "serial_callback E FEND d = (d\<lparr>IN_FRAME := True, kcommand := CMD_UNKNOWN, frame_len := 0\<rparr>, [])"
      using assms(2) by (auto simp: serial_callback_def)
    moreover have "serial_callback E CMD_DATA (d\<lparr>IN_FRAME := True, kcommand := CMD_UNKNOWN, frame_len := 0\<rparr>) = (d1, [])"
      by (simp add: serial_callback_def d1_def MTU_def CMD_DATA_def FEND_def)
    ultimately show ?thesis unfolding kiss_data_frame_def kiss_frame_def using host_sends_quiet by simp
  qed
  also have "\<dots> = host_sends E [FEND] (fold put_data p d1)" using data_bytes [OF \<open>in_data d1\<close>] by blast
  also have "\<dots> = ((fold put_data p d1)\<lparr>IN_FRAME := False, txring := host_end (txring (fold put_data p d1))\<rparr>, [])"
    using i by (simp add: serial_callback_def in_data_def stops_def after_def)
  finally have e: "host_sends E (kiss_data_frame p) d = \<dots>" .
  have f: "txring (fold put_data p d) = fold host_byte p (txring d)" "radio (fold put_data p d) = radio d" "chip (fold put_data p d) = chip d"
    "nvm (fold put_data p d) = nvm d" for d by (induction p arbitrary: d) simp_all
  have r: "ring (fst (run tx_step (map HostByte p @ [HostEnd]) q)) = host_end (fold host_byte p (ring q))" for q
    by (induction p arbitrary: q) (simp_all add: split_beta)
  show ?thesis using e f i r by (simp add: in_data_def d1_def)
qed

lemma data_frame_queued_witness:
  "\<exists>d'. host_sends sample_env (kiss_data_frame [0x01, 0xC0, 0xDB]) (modem_on (replicate 1024 0xFF)) = (d', []) \<and>
    txring d' = ring (fst (run tx_step [HostByte 0x01, HostByte 0xC0, HostByte 0xDB, HostEnd] txq_init))"
proof -
  let ?d = "modem_on (replicate 1024 0xFF)"
  have "\<not> ESCAPE ?d" "\<not> (IN_FRAME ?d \<and> kcommand ?d = CMD_DATA)" "txq_init\<lparr>ring := txring ?d\<rparr> = txq_init"
    by (simp_all add: modem_on_def txq_init_def)
  then show ?thesis using data_frame_queued [of ?d sample_env "[0x01, 0xC0, 0xDB]"] by auto
qed

end
