(* ===== verification/SerialInv.thy ===== *)
theory SerialInv
  imports Serial
begin

text \<open>
  What holds of the modem whatever bytes its host sends: its buffers keep their sizes, the factory data of a locked EEPROM stay, the chip follows the
  configuration the host was told, and without a chip the error for the missing chip is never reported.
\<close>

section \<open>Well-formed devices and factory data\<close>

definition factory :: "rom \<Rightarrow> bytes" where
  "factory r = eeprom_read (eeprom_addr 0) (ADDR_INFO_LOCK + 1) r"

text \<open>Buffers of their sizes, counters in their ranges.\<close>

definition device_ok :: "device \<Rightarrow> bool" where
  "device_ok d \<longleftrightarrow> length (cmdbuf d) = CMD_L \<and> frame_len d \<le> CMD_L \<and> length (fb d) = 512 \<and> length (dev_sig d) = DEV_SIG_LEN \<and>
     length (dev_firmware_hash_target d) = DEV_HASH_LEN \<and> rom_ok (nvm d) \<and> ring_ok (txring d)"

text \<open>An effect keeps a device well-formed, and the factory data of a locked EEPROM unless it erases.\<close>

definition spares :: "effect \<Rightarrow> bool" where
  "spares f \<longleftrightarrow> (\<forall>d d' os. f d = (d', os) \<longrightarrow> device_ok d \<longrightarrow>
     device_ok d' \<and> (eeprom_info_locked (nvm d) \<longrightarrow> Erased \<in> set os \<or> factory (nvm d') = factory (nvm d)))"

lemma factory_lock: "factory r = factory r' \<Longrightarrow> eeprom_info_locked r = eeprom_info_locked r'"
proof -
  assume "factory r = factory r'"
  then have "factory r ! ADDR_INFO_LOCK = factory r' ! ADDR_INFO_LOCK" by simp
  then show ?thesis by (simp add: factory_def eeprom_read_def eeprom_info_locked_def eeprom_addr_def add.commute del: upt_Suc)
qed

lemma factory_update:
  "rom_ok r \<Longrightarrow> a < EEPROM_SIZE \<Longrightarrow> a < eeprom_addr 0 \<or> eeprom_addr ADDR_INFO_LOCK < a \<Longrightarrow> factory (eeprom_update a b r) = factory r"
  unfolding factory_def by (rule read_cong) (auto simp: rom_ok_def rom_addrs rom_sizes)

lemma factory_updates:
  "rom_ok r \<Longrightarrow> a + length bs \<le> EEPROM_SIZE \<Longrightarrow> a + length bs \<le> eeprom_addr 0 \<or> eeprom_addr ADDR_INFO_LOCK < a \<Longrightarrow>
   factory (eeprom_updates a bs r) = factory r"
  unfolding factory_def by (rule read_cong) (auto simp: rom_ok_def rom_addrs rom_sizes updates_nth)

definition spared :: "device \<Rightarrow> device \<times> dev_out list \<Rightarrow> bool" where
  "spared d r \<longleftrightarrow> device_ok (fst r) \<and>
     (eeprom_info_locked (nvm d) \<longrightarrow> Erased \<in> set (snd r) \<or> factory (nvm (fst r)) = factory (nvm d))"

lemma spares_iff: "spares f \<longleftrightarrow> (\<forall>d. device_ok d \<longrightarrow> spared d (f d))"
  unfolding spares_def spared_def by (metis prod.collapse fst_conv snd_conv)

lemma spared_same: "device_ok d \<Longrightarrow> spared d (d, os)" by (simp add: spared_def)

lemma spares_after: "spares f \<Longrightarrow> spares g \<Longrightarrow> spares (after f g)"
  unfolding spares_iff
proof (intro allI impI)
  fix d assume h: "\<forall>d. device_ok d \<longrightarrow> spared d (f d)" "\<forall>d. device_ok d \<longrightarrow> spared d (g d)" "device_ok d"
  obtain d1 o1 d2 o2 where e: "f d = (d1, o1)" "g d1 = (d2, o2)" by fastforce
  have "spared d (d1, o1)" "spared d1 (d2, o2)" using h e by (metis, metis spared_def fst_conv)
  then show "spared d (after f g d)" using factory_lock [of "nvm d1" "nvm d"] by (auto simp: after_def e spared_def)
qed

text \<open>The part of a device these look at; most commands leave it alone.\<close>

definition host_core :: "device \<Rightarrow> bytes \<times> nat \<times> bytes \<times> bytes \<times> bytes \<times> rom \<times> tx_ring" where
  "host_core d = (cmdbuf d, frame_len d, fb d, dev_sig d, dev_firmware_hash_target d, nvm d, txring d)"

lemma host_core_spares: "(\<And>d. host_core (fst (f d)) = host_core d) \<Longrightarrow> spares f"
  by (simp add: spares_def host_core_def device_ok_def) (metis fst_conv)

lemma host_core_update [simp]:
  "host_core (d\<lparr>IN_FRAME := x0\<rparr>) = host_core d" "host_core (d\<lparr>ESCAPE := x1\<rparr>) = host_core d" "host_core (d\<lparr>kcommand := x2\<rparr>) = host_core d"
  "host_core (d\<lparr>radio := x3\<rparr>) = host_core d" "host_core (d\<lparr>chip := x4\<rparr>) = host_core d" "host_core (d\<lparr>tm := x5\<rparr>) = host_core d"
  "host_core (d\<lparr>airlimits := x6\<rparr>) = host_core d" "host_core (d\<lparr>hlink := x7\<rparr>) = host_core d" "host_core (d\<lparr>bt_allow_pairing := x8\<rparr>) = host_core d"
  "host_core (d\<lparr>cable_connected := x9\<rparr>) = host_core d" "host_core (d\<lparr>firmware_update_mode := x10\<rparr>) = host_core d" "host_core (d\<lparr>disp_ext_fb := x11\<rparr>) = host_core d"
  "host_core (d\<lparr>wifi_mode := x12\<rparr>) = host_core d" "host_core (d\<lparr>display_intensity := x13\<rparr>) = host_core d" "host_core (d\<lparr>display_addr := x14\<rparr>) = host_core d"
  "host_core (d\<lparr>recondition_display := x15\<rparr>) = host_core d"
  by (simp_all add: host_core_def)

lemma host_core_setPreamble [simp]: "host_core (setPreamble E d) = host_core d" by (simp add: setPreamble_def Let_def)
lemma host_core_set_bitrate [simp]: "host_core (set_bitrate E d) = host_core d" by (simp add: set_bitrate_def Let_def)
lemma host_core_setSpreadingFactor [simp]: "host_core (setSpreadingFactor E d) = host_core d" by (simp add: setSpreadingFactor_def Let_def)
lemma host_core_setCodingRate [simp]: "host_core (setCodingRate E d) = host_core d" by (simp add: setCodingRate_def Let_def)
lemma host_core_setTXPower [simp]: "host_core (setTXPower E d) = host_core d" by (simp add: setTXPower_def Let_def)
lemma host_core_getBandwidth [simp]: "host_core (getBandwidth E d) = host_core d" by (simp add: getBandwidth_def Let_def)
lemma host_core_setBandwidth [simp]: "host_core (setBandwidth E d) = host_core d" by (simp add: setBandwidth_def Let_def)
lemma host_core_getFrequency [simp]: "host_core (getFrequency d) = host_core d" by (simp add: getFrequency_def Let_def)
lemma host_core_setFrequency [simp]: "host_core (setFrequency d) = host_core d" by (simp add: setFrequency_def Let_def)
lemma host_core_set_implicit_length [simp]: "host_core (set_implicit_length l d) = host_core d" by (simp add: set_implicit_length_def Let_def)
lemma host_core_update_radio_lock [simp]: "host_core (update_radio_lock d) = host_core d" by (simp add: update_radio_lock_def Let_def)
lemma host_core_stopRadio [simp]: "host_core (stopRadio d) = host_core d" by (simp add: stopRadio_def Let_def)
lemma host_core_host_connected [simp]: "host_core (host_connected d) = host_core d" by (simp add: host_connected_def Let_def)
lemma host_core_radio_up_now [simp]: "host_core (radio_up_now E d) = host_core d" by (simp add: radio_up_now_def Let_def)

lemma host_core_start [simp]: "host_core (fst (startRadio E d)) = host_core d"
  by (simp add: startRadio_def Let_def split: prod.split)

lemma spares_rom:
  assumes "\<And>d. device_ok d \<Longrightarrow> \<exists>r. host_core (fst (f d)) = host_core (d\<lparr>nvm := r\<rparr>) \<and> rom_ok r \<and> factory r = factory (nvm d)"
  shows "spares f"
  unfolding spares_def
proof (intro allI impI)
  fix d d' os assume "f d = (d', os)" "device_ok d"
  then obtain r where "host_core d' = host_core (d\<lparr>nvm := r\<rparr>)" "rom_ok r" "factory r = factory (nvm d)" using assms by (metis fst_conv)
  then show "device_ok d' \<and> (eeprom_info_locked (nvm d) \<longrightarrow> Erased \<in> set os \<or> factory (nvm d') = factory (nvm d))"
    using \<open>device_ok d\<close> by (simp add: host_core_def device_ok_def)
qed

lemma collect_ok: "device_ok d \<Longrightarrow> collect b d = (d1, b1) \<Longrightarrow> device_ok d1 \<and> nvm d1 = nvm d"
  by (auto simp: collect_def take_escape_def device_ok_def split: if_splits)

lemma spares_collected: "spares f \<Longrightarrow> spares (collected b n f)"
  unfolding spares_iff
proof (intro allI impI)
  fix d assume f: "\<forall>d. device_ok d \<longrightarrow> spared d (f d)" and d: "device_ok d"
  obtain d1 b1 where c: "collect b d = (d1, b1)" by fastforce
  then show "spared d (collected b n f d)" using f collect_ok [OF d c] by (auto simp: collected_def spared_def)
qed

lemma take_escape_ok: "device_ok d \<Longrightarrow> take_escape b d = (d1, b1, ok) \<Longrightarrow> device_ok d1 \<and> nvm d1 = nvm d \<and> txring d1 = txring d"
  by (auto simp: take_escape_def device_ok_def split: if_splits)

lemma spares_setting: "(\<And>b. spares (f b)) \<Longrightarrow> spares (setting b f)"
  unfolding spares_iff
proof (intro allI impI)
  fix d assume f: "\<And>b. \<forall>d. device_ok d \<longrightarrow> spared d (f b d)" and d: "device_ok d"
  obtain d1 b1 ok where c: "take_escape b d = (d1, b1, ok)" by (cases "take_escape b d")
  then show "spared d (setting b f d)" using f [of b1] take_escape_ok [OF d c] by (auto simp: setting_def spared_def)
qed

lemma spares_done: "spares (done_with os)" "spares (reply g)" "spares (reply_phy h)"
  by (rule host_core_spares, simp add: done_with_def reply_def reply_phy_def)+

lemma host_core_in_host_mode [simp]: "(\<And>d. host_core (f d) = host_core d) \<Longrightarrow> host_core (in_host_mode f d) = host_core d"
  by (simp add: in_host_mode_def)

lemma spares_radio:
  "spares frequency_command" "spares (bandwidth_command E)" "spares (txpower_command E b)" "spares (sf_command E b)" "spares (cr_command E b)"
  "spares (\<lambda>d. reply_phy h (set_implicit_length b d))" "spares (\<lambda>d. reply_phy h (update_radio_lock d))" "spares (leave_command b)"
  "spares (st_alock_command E)" "spares (lt_alock_command E)" "spares (promisc_command b)" "spares (detect_command b)" "spares ready_command"
  "spares (fb_ext_command b)" "spares (hashes_command E b)" "spares (startRadio E)" "spares (\<lambda>d. reply_phy h (stopRadio d))"
  "spares (recondition b)" "spares (upd (\<lambda>d. d\<lparr>firmware_update_mode := x\<rparr>))" "spares bt_start" "spares bt_stop"
  by (rule host_core_spares, simp add: frequency_command_def bandwidth_command_def txpower_command_def sf_command_def cr_command_def reply_phy_def leave_command_def
      st_alock_command_def lt_alock_command_def promisc_command_def detect_command_def ready_command_def fb_ext_command_def hashes_command_def Let_def
      recondition_def upd_def bt_start_def bt_stop_def)+

lemma spares_if: "(c \<Longrightarrow> spares f) \<Longrightarrow> (\<not> c \<Longrightarrow> spares g) \<Longrightarrow> spares (if c then f else g)" by simp

lemma spares_if_at: "spares f \<Longrightarrow> spares g \<Longrightarrow> spares (\<lambda>d. if c d then f d else g d)" by (simp add: spares_iff)

lemma spares_radio_state: "spares (radio_state_command E b)"
proof -
  have "spares (\<lambda>d. (host_connected d, os d))" for os by (rule host_core_spares) simp
  then show ?thesis
    unfolding radio_state_command_def by (intro spares_after spares_if spares_radio spares_done)
qed

lemma spares_bt: "spares (bt_command b)"
proof -
  have s: "spares (save_bt on)" for on
    by (rule spares_rom) (auto simp: save_bt_def bt_conf_save_def device_ok_def factory_update rom_addrs rom_sizes)
  have p: "spares (\<lambda>d. (d\<lparr>bt_allow_pairing := True, hlink := (hlink d)\<lparr>bt_state := BT_STATE_PAIRING\<rparr>\<rparr>, [Bt_security]))" by (rule host_core_spares) simp
  have n: "spares (\<lambda>d. (d, []))" by (rule host_core_spares) simp
  show ?thesis unfolding bt_command_def bt_enable_pairing_def
    by (intro spares_if spares_after spares_if_at s p n spares_done spares_radio)
qed

lemma eeprom_top: "eeprom_addr a < EEPROM_SIZE \<longleftrightarrow> a < EEPROM_RESERVED" by (simp add: eeprom_addr_def rom_sizes)

lemma spares_settings:
  "spares (save_intensity b)" "spares (save_address b)" "spares (save_blanking b)" "spares (save_rotation b)" "spares (save_interference b)"
  "spares (wifi_mode_command b)" "spares (wifi_channel_command b)" "spares (upd (\<lambda>d. d\<lparr>nvm := eeprom_conf_delete (nvm d)\<rparr>))"
  by (rule spares_rom, auto simp: save_intensity_def save_address_def save_blanking_def save_rotation_def save_interference_def wifi_mode_command_def
      wifi_channel_command_def di_conf_save_def da_conf_save_def db_conf_save_def drot_conf_save_def dia_conf_save_def wr_conf_save_def upd_def
      eeprom_conf_delete_def device_ok_def factory_update rom_addrs rom_sizes host_core_def)+

lemma spares_unlock: "spares unlock_rom"
  unfolding spares_iff by (auto simp: unlock_rom_def spared_def device_ok_def eeprom_erase_def)

lemma spares_rom_write: "spares rom_write_command"
  unfolding spares_iff
  by (auto simp: rom_write_command_def eeprom_write_def spared_def device_ok_def factory_def split: if_splits)

lemma conf_save_factory: "rom_ok r \<Longrightarrow> eeprom_conf_save h p r = Some r' \<Longrightarrow> rom_ok r' \<and> factory r' = factory r"
proof -
  assume r: "rom_ok r" "eeprom_conf_save h p r = Some r'"
  then have s: "eeprom_conf_save True p r = Some r'" by (cases h) (simp_all add: eeprom_conf_save_def)
  have "rom_ok r'" using r by (auto simp: eeprom_conf_save_def Let_def split: if_splits)
  moreover have "factory r' = factory r"
    unfolding factory_def by (rule read_cong) (simp add: conf_save_nth [OF r(1) s] rom_addrs rom_sizes)
  ultimately show ?thesis by simp
qed

lemma spares_conf_save: "spares conf_save_command"
  by (rule spares_rom) (auto simp: conf_save_command_def device_ok_def host_core_def split: option.split dest: conf_save_factory)

lemma spares_blocks:
  "spares (wifi_addr_command ADDR_CONF_IP)" "spares (wifi_addr_command ADDR_CONF_NM)"
  by (rule spares_rom, auto simp: wifi_addr_command_def device_ok_def factory_updates rom_addrs rom_sizes)+

lemma spares_identity: "spares (dev_sig_command E)" "spares (fw_hash_command E)"
  unfolding spares_iff by (auto simp: spared_def dev_sig_command_def fw_hash_command_def device_save_signature_def device_save_firmware_hash_def Let_def
      device_ok_def CMD_L_def factory_updates rom_addrs rom_sizes)

lemma spares_wifi_text: "a = ADDR_CONF_SSID \<or> a = ADDR_CONF_PSK \<Longrightarrow> spares (wifi_text_command a b)"
  unfolding spares_iff
proof (intro allI impI)
  fix d assume a: "a = ADDR_CONF_SSID \<or> a = ADDR_CONF_PSK" and d: "device_ok d"
  obtain d1 b1 where c: "collect b d = (d1, b1)" by fastforce
  have "length (wifi_text 33 e) = 33" for e by (simp add: wifi_text_def del: upt_Suc)
  then show "spared d (wifi_text_command a b d)" using a collect_ok [OF d c]
    by (auto simp: wifi_text_command_def c spared_def device_ok_def factory_updates rom_addrs rom_sizes)
qed

lemma spares_fb_write: "spares fb_write_command"
  unfolding spares_iff by (auto simp: fb_write_command_def spared_def device_ok_def Let_def CMD_L_def)

lemma spares_data: "spares (data_byte b)"
  unfolding spares_iff
proof (intro allI impI)
  fix d assume "device_ok d"
  then have d: "device_ok (host_connected d)" by (simp add: host_connected_def device_ok_def)
  obtain d1 b1 ok where c: "take_escape b (host_connected d) = (d1, b1, ok)" by (cases "take_escape b (host_connected d)")
  then show "spared d (data_byte b d)" using take_escape_ok [OF d c]
    by (auto simp: data_byte_def spared_def device_ok_def ring_host_byte)
qed

lemmas spares_all = spares_done spares_radio spares_radio_state spares_bt spares_settings spares_unlock spares_rom_write spares_conf_save spares_blocks
  spares_identity spares_fb_write spares_data

lemma spares_device_command: "spares (device_command E c b)"
  unfolding device_command_def
  by (intro spares_if spares_all spares_collected spares_setting spares_wifi_text) simp_all

lemma spares_frame_command: "spares (frame_command E c b)"
  unfolding frame_command_def by (intro spares_if spares_all spares_collected spares_device_command)

lemma spares_callback: "spares (serial_callback E b)"
  unfolding spares_iff
proof (intro allI impI)
  fix d assume d: "device_ok d"
  then have "spared d (frame_command E (kcommand d) b d)" using spares_frame_command unfolding spares_iff by blast
  then show "spared d (serial_callback E b d)" using d
    by (auto simp: serial_callback_def spared_def device_ok_def ring_host_end)
qed

lemma spares_host_sends: "spares (host_sends E bs)"
proof (induction bs)
  case Nil
  show ?case by (rule host_core_spares) simp
next
  case (Cons b bs)
  have "host_sends E (b # bs) = after (serial_callback E b) (host_sends E bs)" by (rule ext) simp
  then show ?case using spares_after [OF spares_callback Cons.IH] by simp
qed

lemma provision_spared: "rom_ok r \<Longrightarrow> rom_ok (auto_provision_eeprom_if_blank bd md5 r) \<and>
    (eeprom_info_locked r \<longrightarrow> auto_provision_eeprom_if_blank bd md5 r = r)"
  by (simp add: auto_provision_eeprom_if_blank_def Let_def)

lemma spares_validate: "spares (validate_status E bd md5)"
  unfolding spares_iff
proof (intro allI impI)
  fix d0 assume d0: "device_ok d0"
  define d where "d = d0\<lparr>nvm := auto_provision_eeprom_if_blank bd md5 (nvm d0)\<rparr>"
  have d: "device_ok d" and k: "eeprom_info_locked (nvm d0) \<longrightarrow> nvm d = nvm d0"
    using d0 provision_spared [of "nvm d0" bd md5] by (auto simp: d_def device_ok_def)
  have i: "device_ok (device_init E d)" "nvm (device_init E d) = nvm d"
    using d by (simp_all add: device_ok_def device_init_def device_load_signature_def device_load_firmware_hash_def eeprom_read_def)
  have "host_core (conf_load E (device_init E d)) = host_core (device_init E d)" by (simp add: conf_load_def host_core_def split: prod.split)
  then have c: "device_ok (conf_load E (device_init E d))" "nvm (conf_load E (device_init E d)) = nvm d" using i by (simp_all add: host_core_def device_ok_def)
  have "spared (conf_load E (device_init E d)) (startRadio E (conf_load E (device_init E d)))"
    using spares_radio(16) c(1) unfolding spares_iff by blast
  then show "spared d0 (validate_status E bd md5 d0)"
    using d k i c unfolding validate_status_def Let_def d_def [symmetric] by (auto simp: spared_def)
qed

lemma modem_on_ok: "rom_ok r \<Longrightarrow> device_ok (modem_on r)" "nvm (modem_on r) = r"
  using stores_init by (auto simp: modem_on_def device_ok_def CMD_L_def DEV_SIG_LEN_def DEV_HASH_LEN_def stores_def stores_at_def)

lemma spares_boot: "spares (boot E bd md5)"
  unfolding boot_def
  by (intro spares_after spares_validate host_core_spares) (simp_all add: preInit_def)

lemma session_spared: "rom_ok r \<Longrightarrow> spared (modem_on r) (session E bd md5 r bs)"
  using spares_after [OF spares_boot spares_host_sends] modem_on_ok(1) unfolding session_def spares_iff by blast

text \<open>C14. Whatever EEPROM the modem starts with and whatever bytes the host sends, in whichever order and number, every buffer keeps its size and every
  index and counter its range: the command buffer, the frame buffer, signature and hash, the EEPROM and the transmit ring.
\<close>

theorem device_typed: "rom_ok r \<Longrightarrow> device_ok (fst (session E bd md5 r bs))"
  using session_spared by (simp add: spared_def)

lemma device_typed_witness: "device_ok (fst (session sample_env tbeam_supreme id (replicate 1024 0xFF) [0xC0, 0x00, 0xDB, 0xDC]))"
  by (rule device_typed) (simp add: rom_ok_def EEPROM_SIZE_def)

text \<open>C17. The host cannot change the factory data of a locked EEPROM by any bytes it sends: unless it orders the EEPROM erased (\<open>CMD_UNLOCK_ROM\<close> with the
  unlock byte), the addresses up to the lock read as before; all its other settings, its WiFi texts, signature and hash go elsewhere.
\<close>

theorem locked_rom_kept:
  assumes "rom_ok r" "eeprom_info_locked r" "session E bd md5 r bs = (d, os)" "Erased \<notin> set os"
  shows "eeprom_read (eeprom_addr 0) (ADDR_INFO_LOCK + 1) (nvm d) = eeprom_read (eeprom_addr 0) (ADDR_INFO_LOCK + 1) r"
  using session_spared [OF assms(1), of E bd md5 bs] assms(2-) by (simp add: spared_def factory_def modem_on_ok)

text \<open>An attempt to clear the lock byte is answered with an error.\<close>

lemma locked_rom_kept_witness:
  "eeprom_read (eeprom_addr 0) (ADDR_INFO_LOCK + 1) (nvm (fst (session sample_env tbeam_supreme id ((replicate 1024 0xFF)[979 := 0x73])
     [FEND, CMD_ROM_WRITE, 0x9B, 0x00, FEND]))) =
   eeprom_read (eeprom_addr 0) (ADDR_INFO_LOCK + 1) ((replicate 1024 0xFF)[979 := 0x73])"
proof -
  let ?r = "(replicate 1024 0xFF)[979 := 0x73]" and ?bs = "[FEND, CMD_ROM_WRITE, 0x9B, 0x00, FEND]"
  let ?s = "session sample_env tbeam_supreme id ?r ?bs"
  have k: "rom_ok ?r" "eeprom_info_locked ?r" "\<not> eeprom_product_valid tbeam_supreme ?r"
    by (simp_all add: rom_ok_def eeprom_info_locked_def eeprom_product_valid_def tbeam_supreme_def rom_addrs rom_sizes INFO_LOCK_BYTE_def)
  have "boot sample_env tbeam_supreme id (modem_on ?r) =
      ((modem_on ?r)\<lparr>chip := sx_setFrequency 0 (sx_init\<lparr>sx_preinit_done := True\<rparr>)\<rparr>, [Host kiss_indicate_reset, Text ''Invalid EEPROM configuration''])"
    using k by (simp add: boot_def after_def stops_def validate_status_def Let_def preInit_def sample_env_def auto_provision_eeprom_if_blank_def)
      (simp add: modem_on_def auto_provision_eeprom_if_blank_def)
  moreover have "snd (host_sends sample_env ?bs ((modem_on ?r)\<lparr>chip := c\<rparr>)) = [Host (kiss_indicate_error ERROR_EEPROM_LOCKED)]" for c
    using k(2) by (simp add: serial_callback_def modem_on_def commands frame_command_def collected_def collect_def take_escape_def unescape_def FEND_def
        FESC_def TFEND_def TFESC_def MTU_def CMD_L_def stops_def after_def rom_write_command_def eeprom_write_def)
  ultimately have "Erased \<notin> set (snd ?s)" by (simp add: session_def after_def stops_def split_beta del: host_sends.simps)
  then show ?thesis using locked_rom_kept [OF k(1,2), of sample_env tbeam_supreme id ?bs] by (metis prod.collapse)
qed

section \<open>The chip follows the host\<close>

text \<open>What the driver was set to, and what it should be for the configuration of the modem.\<close>

definition driver_set :: "sx126x \<Rightarrow> int \<times> u8 \<times> u8 \<times> u8 \<times> int \<times> bool" where
  "driver_set c = (sx_frequency c, sx_sf c, sx_bw c, sx_cr c, sx_txp c, sx_preinit_done c)"

definition configured :: "phy \<Rightarrow> sx126x \<Rightarrow> bool" where
  "configured p c \<longleftrightarrow> sx_preinit_done c \<and> int (unat (sx_sf c)) = lora_sf p \<and> int (unat (sx_cr c)) + 4 = lora_cr p \<and>
     getSignalBandwidth c = lora_bw p \<and> sx_txp c = lora_txp p \<and> nat (sx_frequency c mod 4294967296) = lora_freq p"

definition phy_typed :: "phy \<Rightarrow> bool" where
  "phy_typed p \<longleftrightarrow> (lora_sf p = 0 \<or> 5 \<le> lora_sf p \<and> lora_sf p \<le> 12) \<and> 5 \<le> lora_cr p \<and> lora_cr p \<le> 8 \<and>
     (lora_txp p = 0xFF \<or> 0 \<le> lora_txp p \<and> lora_txp p \<le> 22)"

definition follows :: "device \<Rightarrow> bool" where
  "follows d \<longleftrightarrow> mode_host d \<and> phy_typed (radio d) \<and> fields_ok (chip d) \<and>
     (radio_online (radio d) \<longrightarrow> configured (radio d) (chip d) \<and> in_step (chip d))"

lemma in_step_fields: "in_step c \<Longrightarrow> fields_ok c" by (simp add: in_step_def)

lemma driver_set_bus [simp]:
  "driver_set (executeOpcode op bs c) = driver_set c" "driver_set (writeRegister a v c) = driver_set c" "driver_set (packet_params rs c) = driver_set c"
  by (simp_all add: driver_set_def executeOpcode_def writeRegister_def packet_params_def setPacketParams_def Let_def)

lemma driver_set_modes [simp]:
  "driver_set (enableCrc rs c) = driver_set c" "driver_set (sx_setPreambleLength rs n c) = driver_set c" "driver_set (sx_onReceive c) = driver_set c"
  "driver_set (explicitHeaderMode rs c) = driver_set c" "driver_set (implicitHeaderMode rs c) = driver_set c" "driver_set (standby c) = driver_set c"
  by (simp_all add: enableCrc_def sx_setPreambleLength_def sx_onReceive_def explicitHeaderMode_def implicitHeaderMode_def standby_def)
    (simp_all add: driver_set_def)

lemma driver_set_receive [simp]: "driver_set (lora_receive rs p c) = driver_set c"
proof -
  have "driver_set (c\<lparr>sx_payloadLength := n\<rparr>) = driver_set c" for n c by (simp add: driver_set_def)
  then show ?thesis by (simp add: lora_receive_def sx_receive_def Let_def)
qed

lemma driver_set_set:
  "driver_set (sx_setTxPower rs oc l c) = (sx_frequency c, sx_sf c, sx_bw c, sx_cr c, clamp (-9) 22 l, sx_preinit_done c)"
  "driver_set (sx_setFrequency f c) = (f, sx_sf c, sx_bw c, sx_cr c, sx_txp c, sx_preinit_done c)"
  "driver_set (sx_setSpreadingFactor s c) = (sx_frequency c, word_of_int (clamp 5 12 s), sx_bw c, sx_cr c, sx_txp c, sx_preinit_done c)"
  "driver_set (sx_setCodingRate4 r c) = (sx_frequency c, sx_sf c, sx_bw c, word_of_int (clamp 5 8 r - 4), sx_txp c, sx_preinit_done c)"
  "driver_set (sx_setSignalBandwidth rs b c) = (sx_frequency c, sx_sf c, bandwidth_code b, sx_cr c, sx_txp c, sx_preinit_done c)"
  by (simp_all add: sx_setTxPower_def sx_setFrequency_def sx_setSpreadingFactor_def sx_setCodingRate4_def sx_setSignalBandwidth_def modulation_params_def
      setModulationParams_def optimizeModemSensitivity_def Let_def)
    (simp_all add: driver_set_def handleLowDataRate_def executeOpcode_def writeRegister_def)

lemma in_step_modes [simp]:
  "in_step (enableCrc rs c) = in_step c" "in_step (sx_setPreambleLength rs n c) = in_step c" "in_step (sx_onReceive c) = in_step c"
  "in_step (lora_receive rs p c) = in_step c" "in_step (sx_setTxPower rs oc l c) = in_step c"
  using keeps_modes [THEN keeps_all(4)] keeps_calls [THEN keeps_all(4)] by (simp_all add: lora_receive_def)

lemmas set_sel = driver_set_bus [unfolded driver_set_def prod.inject] driver_set_modes [unfolded driver_set_def prod.inject]
  driver_set_receive [unfolded driver_set_def prod.inject] driver_set_set [unfolded driver_set_def prod.inject]

lemma begin_settings: "sx_begin rs found oc f c = (c1, True) \<Longrightarrow> sx_frequency c1 = f \<and> sx_preinit_done c1"
  by (auto simp: sx_begin_def Let_def modulation_params_def setModulationParams_def set_sel split: if_splits)

lemma preamble_sel [simp]:
  "radio (setPreamble E d) = radio d" "mode_host (setPreamble E d) = mode_host d" "driver_set (chip (setPreamble E d)) = driver_set (chip d)"
  "in_step (chip (setPreamble E d)) = in_step (chip d)"
  by (simp_all add: setPreamble_def)

lemma bitrate_sel [simp]:
  "radio (set_bitrate E d) = radio d" "mode_host (set_bitrate E d) = mode_host d" "driver_set (chip (set_bitrate E d)) = driver_set (chip d)"
  "in_step (chip (set_bitrate E d)) = in_step (chip d)"
  by (simp_all add: set_bitrate_def)

lemmas bitrate_chip [simp] = bitrate_sel(3) [unfolded driver_set_def prod.inject]

lemma mode_host_set [simp]:
  "mode_host (setTXPower E d) = mode_host d" "mode_host (setSpreadingFactor E d) = mode_host d" "mode_host (setCodingRate E d) = mode_host d"
  "mode_host (getBandwidth E d) = mode_host d" "mode_host (setBandwidth E d) = mode_host d" "mode_host (getFrequency d) = mode_host d"
  "mode_host (setFrequency d) = mode_host d" "mode_host (stopRadio d) = mode_host d" "mode_host (update_radio_lock d) = mode_host d"
  by (simp_all add: setTXPower_def setSpreadingFactor_def setCodingRate_def getBandwidth_def setBandwidth_def getFrequency_def setFrequency_def
      stopRadio_def update_radio_lock_def Let_def)

text \<open>While the radio is on, each of them sets the chip; while it is off, none does anything to it.\<close>

lemma set_on:
  assumes "radio_online (radio d)"
  shows "radio (setTXPower E d) = radio d" "chip (setTXPower E d) = sx_setTxPower (rr E) (ocp E) (lora_txp (radio d)) (chip d)"
    "radio (setSpreadingFactor E d) = radio d" "driver_set (chip (setSpreadingFactor E d)) = driver_set (sx_setSpreadingFactor (lora_sf (radio d)) (chip d))"
    "radio (setCodingRate E d) = radio d" "driver_set (chip (setCodingRate E d)) = driver_set (sx_setCodingRate4 (lora_cr (radio d)) (chip d))"
    "driver_set (chip (setBandwidth E d)) = driver_set (sx_setSignalBandwidth (rr E) (nat (as_long (lora_bw (radio d)))) (chip d))"
    "radio (setBandwidth E d) = (radio d)\<lparr>lora_bw := getSignalBandwidth (chip (setBandwidth E d))\<rparr>"
    "chip (getFrequency d) = chip d" "radio (getFrequency d) = (radio d)\<lparr>lora_freq := nat (sx_frequency (chip d) mod 4294967296)\<rparr>"
  using assms by (simp_all add: setTXPower_def setSpreadingFactor_def setCodingRate_def setBandwidth_def getBandwidth_def getFrequency_def
      getSignalBandwidth_def)

lemma set_off:
  assumes "\<not> radio_online (radio d)"
  shows "radio (setTXPower E d) = radio d" "chip (setTXPower E d) = chip d" "radio (setSpreadingFactor E d) = radio d"
    "radio (setCodingRate E d) = radio d" "radio (setBandwidth E d) = radio d" "chip (setBandwidth E d) = chip d"
    "radio (setFrequency d) = radio d" "chip (setFrequency d) = chip d" "chip (setSpreadingFactor E d) = chip d" "chip (setCodingRate E d) = chip d"
  using assms by (simp_all add: setTXPower_def setSpreadingFactor_def setCodingRate_def setBandwidth_def setFrequency_def set_bitrate_def setPreamble_def)

lemma set_in_step:
  assumes "in_step (chip d)"
  shows "in_step (chip (setTXPower E d))" "in_step (chip (setSpreadingFactor E d))" "in_step (chip (setCodingRate E d))"
    "in_step (chip (setBandwidth E d))" "in_step (chip (setFrequency d))" "in_step (chip (getFrequency d))"
  using set_step [OF assms] assms
  by (simp_all add: setTXPower_def setSpreadingFactor_def setCodingRate_def setBandwidth_def getBandwidth_def setFrequency_def getFrequency_def)

lemmas set_on_sel = set_on [unfolded driver_set_def prod.inject, unfolded set_sel]

lemma typed_words:
  "5 \<le> x \<Longrightarrow> x \<le> 12 \<Longrightarrow> int (unat (word_of_int (clamp 5 12 x) :: u8)) = x"
  "5 \<le> y \<Longrightarrow> y \<le> 8 \<Longrightarrow> int (unat (word_of_int (clamp 5 8 y - 4) :: u8)) + 4 = y"
proof -
  have w: "int (unat (word_of_int z :: u8)) = z" if "0 \<le> z" "z < 256" for z using that by (simp add: unsigned_of_int take_bit_int_def)
  show "5 \<le> x \<Longrightarrow> x \<le> 12 \<Longrightarrow> int (unat (word_of_int (clamp 5 12 x) :: u8)) = x" using w [of x] by (simp add: clamp_def)
  show "5 \<le> y \<Longrightarrow> y \<le> 8 \<Longrightarrow> int (unat (word_of_int (clamp 5 8 y - 4) :: u8)) + 4 = y" using w [of "y - 4"] by (simp add: clamp_def)
qed

lemma bandwidth_cong: "sx_bw c = sx_bw c' \<Longrightarrow> getSignalBandwidth c = getSignalBandwidth c'" by (simp add: getSignalBandwidth_def)

lemma follows_set:
  assumes "follows d"
  shows "5 \<le> s \<Longrightarrow> s \<le> 12 \<Longrightarrow> follows (setSpreadingFactor E (d\<lparr>radio := (radio d)\<lparr>lora_sf := s\<rparr>\<rparr>))"
    "5 \<le> y \<Longrightarrow> y \<le> 8 \<Longrightarrow> follows (setCodingRate E (d\<lparr>radio := (radio d)\<lparr>lora_cr := y\<rparr>\<rparr>))"
    "0 \<le> t \<Longrightarrow> t \<le> 22 \<Longrightarrow> follows (setTXPower E (d\<lparr>radio := (radio d)\<lparr>lora_txp := t\<rparr>\<rparr>))"
    "follows (setBandwidth E (d\<lparr>radio := (radio d)\<lparr>lora_bw := n\<rparr>\<rparr>))"
    "follows (setFrequency (d\<lparr>radio := (radio d)\<lparr>lora_freq := n\<rparr>\<rparr>))"
proof -
  note f = assms [unfolded follows_def]
  show "5 \<le> s \<Longrightarrow> s \<le> 12 \<Longrightarrow> follows (setSpreadingFactor E (d\<lparr>radio := (radio d)\<lparr>lora_sf := s\<rparr>\<rparr>))"
    using f typed_words(1) [of s]
    by (cases "radio_online (radio d)")
      (auto simp: follows_def set_on_sel set_sel set_off set_in_step in_step_fields phy_typed_def configured_def intro: bandwidth_cong [THEN trans])
  show "5 \<le> y \<Longrightarrow> y \<le> 8 \<Longrightarrow> follows (setCodingRate E (d\<lparr>radio := (radio d)\<lparr>lora_cr := y\<rparr>\<rparr>))"
    using f typed_words(2) [of y]
    by (cases "radio_online (radio d)")
      (auto simp: follows_def set_on_sel set_sel set_off set_in_step in_step_fields phy_typed_def configured_def intro: bandwidth_cong [THEN trans])
  show "0 \<le> t \<Longrightarrow> t \<le> 22 \<Longrightarrow> follows (setTXPower E (d\<lparr>radio := (radio d)\<lparr>lora_txp := t\<rparr>\<rparr>))"
    using f by (cases "radio_online (radio d)")
      (auto simp: follows_def set_on_sel set_sel set_off set_in_step in_step_fields phy_typed_def configured_def clamp_def intro: bandwidth_cong [THEN trans])
  show "follows (setBandwidth E (d\<lparr>radio := (radio d)\<lparr>lora_bw := n\<rparr>\<rparr>))"
    using f by (cases "radio_online (radio d)") (auto simp: follows_def set_on_sel set_sel set_off set_in_step in_step_fields phy_typed_def configured_def)
  have "radio_online (radio d) \<Longrightarrow> in_step (chip (setFrequency (d\<lparr>radio := (radio d)\<lparr>lora_freq := n\<rparr>\<rparr>)))" using f by (simp add: set_in_step)
  then show "follows (setFrequency (d\<lparr>radio := (radio d)\<lparr>lora_freq := n\<rparr>\<rparr>))"
    using f by (cases "radio_online (radio d)")
      (auto simp: follows_def set_off phy_typed_def configured_def in_step_fields setFrequency_def getFrequency_def set_sel intro: bandwidth_cong [THEN trans])
qed

lemma up_follows:
  assumes "mode_host d" "phy_typed (radio d)" "lora_sf (radio d) \<noteq> 0" "lora_txp (radio d) \<noteq> 0xFF" "in_step (chip d)" "sx_preinit_done (chip d)"
  shows "follows (radio_up_now E d)"
proof -
  define d1 where "d1 = d\<lparr>radio := (radio d)\<lparr>radio_online := True\<rparr>\<rparr>"
  define d2 where "d2 = setTXPower E d1"
  define d3 where "d3 = setBandwidth E d2"
  define d4 where "d4 = setSpreadingFactor E d3"
  define d5 where "d5 = setCodingRate E d4"
  define d6 where "d6 = getFrequency d5"
  define d7 where "d7 = d6\<lparr>chip := lora_receive (rr E) (radio d6) (sx_onReceive (enableCrc (rr E) (chip d6)))\<rparr>"
  have r: "radio_up_now E d = d7" by (simp add: radio_up_now_def Let_def d1_def d2_def d3_def d4_def d5_def d6_def d7_def)
  have t: "5 \<le> lora_sf (radio d)" "lora_sf (radio d) \<le> 12" "5 \<le> lora_cr (radio d)" "lora_cr (radio d) \<le> 8" "0 \<le> lora_txp (radio d)"
    "lora_txp (radio d) \<le> 22" using assms by (auto simp: phy_typed_def)
  have o1: "radio_online (radio d1)" "radio d1 = (radio d)\<lparr>radio_online := True\<rparr>" by (simp_all add: d1_def)
  have o2: "radio d2 = radio d1" "sx_txp (chip d2) = lora_txp (radio d)" "sx_preinit_done (chip d2)"
    using o1 t assms(6) by (simp_all add: d2_def set_on_sel set_sel) (simp_all add: d1_def clamp_def)
  have o3: "radio d3 = (radio d2)\<lparr>lora_bw := getSignalBandwidth (chip d3)\<rparr>" "sx_txp (chip d3) = lora_txp (radio d)" "sx_preinit_done (chip d3)"
    using o1 o2 set_on(8) [of d2] by (simp_all add: d3_def set_on_sel set_sel)
  have o4: "radio d4 = radio d3" "sx_txp (chip d4) = lora_txp (radio d)" "sx_preinit_done (chip d4)" "int (unat (sx_sf (chip d4))) = lora_sf (radio d)"
    "sx_bw (chip d4) = sx_bw (chip d3)"
    using o1 o2 o3 typed_words(1) [OF t(1,2)] by (simp_all add: d4_def set_on_sel set_sel)
  have o5: "radio d5 = radio d3" "sx_txp (chip d5) = lora_txp (radio d)" "sx_preinit_done (chip d5)" "int (unat (sx_sf (chip d5))) = lora_sf (radio d)"
    "int (unat (sx_cr (chip d5))) + 4 = lora_cr (radio d)" "sx_bw (chip d5) = sx_bw (chip d3)"
    using o1 o2 o3 o4 typed_words(2) [OF t(3,4)] by (simp_all add: d5_def set_on_sel set_sel)
  have o6: "radio d6 = (radio d3)\<lparr>lora_freq := nat (sx_frequency (chip d5) mod 4294967296)\<rparr>" "chip d6 = chip d5"
    using o1 o2 o3 o4 o5 by (simp_all add: d6_def set_on_sel set_sel)
  have "in_step (chip d6)" unfolding d6_def d5_def d4_def d3_def d2_def d1_def using assms(5) by (simp add: set_in_step)
  then have "in_step (chip d7)" by (simp add: d7_def)
  moreover have "mode_host d7" using assms(1) by (simp add: d7_def d6_def d5_def d4_def d3_def d2_def d1_def)
  moreover have "configured (radio d7) (chip d7)"
    using o1 o2 o3 o5 o6 bandwidth_cong [of "chip d5" "chip d3"]
    by (auto simp: d7_def configured_def set_sel intro: bandwidth_cong [THEN trans])
  moreover have "phy_typed (radio d7)" using o1 o2 o3 o6 assms(2) by (simp add: d7_def phy_typed_def)
  ultimately show ?thesis by (simp add: r follows_def in_step_fields)
qed

definition tuned :: "effect \<Rightarrow> bool" where
  "tuned f \<longleftrightarrow> (\<forall>d. follows d \<longrightarrow> follows (fst (f d)))"

definition tuning :: "device \<Rightarrow> bool \<times> sx126x \<times> int \<times> int \<times> int \<times> nat \<times> nat \<times> bool" where
  "tuning d = (mode_host d, chip d, lora_sf (radio d), lora_cr (radio d), lora_txp (radio d), lora_bw (radio d), lora_freq (radio d),
     radio_online (radio d))"

lemma tuning_tuned: "(\<And>d. tuning (fst (f d)) = tuning d) \<Longrightarrow> tuned f"
  by (auto simp: tuned_def tuning_def follows_def phy_typed_def configured_def)

lemma tuned_after: "tuned f \<Longrightarrow> tuned g \<Longrightarrow> tuned (after f g)"
  by (auto simp: tuned_def after_def split: prod.splits)

lemma tuned_if: "(c \<Longrightarrow> tuned f) \<Longrightarrow> (\<not> c \<Longrightarrow> tuned g) \<Longrightarrow> tuned (if c then f else g)" by simp

lemma tuned_if_at: "tuned f \<Longrightarrow> tuned g \<Longrightarrow> tuned (\<lambda>d. if c d then f d else g d)" by (simp add: tuned_def)

lemma tuning_update [simp]:
  "tuning (d\<lparr>IN_FRAME := x0\<rparr>) = tuning d" "tuning (d\<lparr>ESCAPE := x1\<rparr>) = tuning d" "tuning (d\<lparr>kcommand := x2\<rparr>) = tuning d"
  "tuning (d\<lparr>frame_len := x3\<rparr>) = tuning d" "tuning (d\<lparr>cmdbuf := x4\<rparr>) = tuning d" "tuning (d\<lparr>txring := x5\<rparr>) = tuning d"
  "tuning (d\<lparr>airlimits := x6\<rparr>) = tuning d" "tuning (d\<lparr>nvm := x7\<rparr>) = tuning d" "tuning (d\<lparr>hlink := x8\<rparr>) = tuning d"
  "tuning (d\<lparr>bt_allow_pairing := x9\<rparr>) = tuning d" "tuning (d\<lparr>cable_connected := x10\<rparr>) = tuning d" "tuning (d\<lparr>firmware_update_mode := x11\<rparr>) = tuning d"
  "tuning (d\<lparr>disp_ext_fb := x12\<rparr>) = tuning d" "tuning (d\<lparr>fb := x13\<rparr>) = tuning d" "tuning (d\<lparr>dev_sig := x14\<rparr>) = tuning d"
  "tuning (d\<lparr>dev_firmware_hash_target := x15\<rparr>) = tuning d" "tuning (d\<lparr>wifi_mode := x16\<rparr>) = tuning d" "tuning (d\<lparr>display_intensity := x17\<rparr>) = tuning d"
  "tuning (d\<lparr>display_addr := x18\<rparr>) = tuning d" "tuning (d\<lparr>recondition_display := x19\<rparr>) = tuning d" "tuning (host_connected d) = tuning d"
  by (simp_all add: tuning_def host_connected_def)

lemma tuning_collect: "collect b d = (d1, b1) \<Longrightarrow> tuning d1 = tuning d" "take_escape b d = (d2, b2, ok) \<Longrightarrow> tuning d2 = tuning d"
  by (auto simp: collect_def take_escape_def split: if_splits)

lemma follows_tuning: "tuning d1 = tuning d \<Longrightarrow> follows d1 = follows d"
  by (auto simp: tuning_def follows_def phy_typed_def configured_def)

lemma tuned_collected: "tuned f \<Longrightarrow> tuned (collected b n f)"
  unfolding tuned_def
proof (intro allI impI)
  fix d assume f: "\<forall>d. follows d \<longrightarrow> follows (fst (f d))" and d: "follows d"
  obtain d1 b1 where c: "collect b d = (d1, b1)" by fastforce
  then show "follows (fst (collected b n f d))" using f d follows_tuning [OF tuning_collect(1) [OF c]] by (simp add: collected_def)
qed

lemma tuned_setting: "(\<And>b. tuned (f b)) \<Longrightarrow> tuned (setting b f)"
  unfolding tuned_def
proof (intro allI impI)
  fix d assume f: "\<And>b. \<forall>d. follows d \<longrightarrow> follows (fst (f b d))" and d: "follows d"
  obtain d1 b1 ok where c: "take_escape b d = (d1, b1, ok)" by (cases "take_escape b d")
  then show "follows (fst (setting b f d))" using f d follows_tuning [OF tuning_collect(2) [OF c]] by (simp add: setting_def)
qed

lemma begin_in_step:
  assumes "fields_ok c" "sx_begin rs found oc f c = (c1, ok)"
  shows "ok \<Longrightarrow> in_step c1" "\<not> ok \<Longrightarrow> c1 = c"
proof -
  have "in_step (c\<lparr>sx_preinit_done := False\<rparr>)" using assms(1) by (simp add: in_step_def fields_ok_def getSignalBandwidth_def)
  then have "in_step (fst (sx_begin rs True oc f (c\<lparr>sx_preinit_done := False\<rparr>)))" by (rule begin_step)
  moreover have "ok \<Longrightarrow> sx_begin rs True oc f (c\<lparr>sx_preinit_done := False\<rparr>) = (c1, ok)" using assms(2)
    by (simp add: sx_begin_def Let_def split: if_splits)
  ultimately show "ok \<Longrightarrow> in_step c1" by simp
  show "\<not> ok \<Longrightarrow> c1 = c" using assms(2) by (auto simp: sx_begin_def Let_def split: if_splits)
qed

lemma tuned_start: "tuned (startRadio E)"
  unfolding tuned_def
proof (intro allI impI)
  fix d assume f: "follows d"
  define u where "u = update_radio_lock d"
  have u: "follows u" using f by (simp add: u_def) (simp add: follows_def phy_typed_def configured_def update_radio_lock_def Let_def)
  have l: "\<not> radio_locked (radio u) \<Longrightarrow> lora_sf (radio u) \<noteq> 0 \<and> lora_txp (radio u) \<noteq> 0xFF"
    by (auto simp: u_def update_radio_lock_def Let_def)
  obtain c ok where b: "sx_begin (rr E) (chip_found E) (ocp E) (as_long (lora_freq (radio u))) (chip u) = (c, ok)" by fastforce
  have i: "ok \<Longrightarrow> in_step c" "\<not> ok \<Longrightarrow> c = chip u" using begin_in_step u b by (auto simp: follows_def)
  show "follows (fst (startRadio E d))"
  proof (cases "\<not> radio_online (radio u) \<and> \<not> console_active u \<and> \<not> radio_locked (radio u) \<and> hw_ready u \<and> ok")
    case True
    have "follows (radio_up_now E (u\<lparr>chip := c\<rparr>))"
      by (rule up_follows) (use u l i b True begin_settings in \<open>auto simp: follows_def phy_typed_def\<close>)
    then show ?thesis using b True by (simp add: startRadio_def Let_def u_def)
  next
    case False
    then show ?thesis using u i b
      by (auto simp: startRadio_def Let_def u_def [symmetric] follows_def phy_typed_def configured_def split: prod.split)
  qed
qed

lemma tuned_settings:
  "tuned (frequency_command)" "tuned (bandwidth_command E)" "tuned (txpower_command E b)" "tuned (sf_command E b)" "tuned (cr_command E b)"
proof -
  have m: "follows d \<Longrightarrow> mode_host d" for d by (simp add: follows_def)
  have k: "5 \<le> clamp 5 12 x" "clamp 5 12 x \<le> 12" "5 \<le> clamp 5 8 x" "clamp 5 8 x \<le> 8" for x by (simp_all add: clamp_def)
  show "tuned (frequency_command)" by (auto simp: tuned_def frequency_command_def reply_phy_def in_host_mode_def m follows_set)
  show "tuned (bandwidth_command E)" by (auto simp: tuned_def bandwidth_command_def reply_phy_def in_host_mode_def m follows_set)
  have u: "\<not> 22 < unat b \<Longrightarrow> uint b \<le> 22" by (metis int_ops(3) linorder_not_less of_nat_le_iff of_nat_numeral uint_nat)
  show "tuned (txpower_command E b)" by (auto simp: tuned_def txpower_command_def reply_phy_def in_host_mode_def m u follows_set(3))
  show "tuned (sf_command E b)" by (auto simp: tuned_def sf_command_def reply_phy_def in_host_mode_def m follows_set k)
  show "tuned (cr_command E b)" by (auto simp: tuned_def cr_command_def reply_phy_def in_host_mode_def m follows_set k)
qed

lemma tuned_radio_state: "tuned (radio_state_command E b)"
proof -
  have c: "tuned (\<lambda>d. (host_connected d, os d))" for os by (rule tuning_tuned) simp
  have s: "tuned (\<lambda>d. reply_phy h (stopRadio d))" for h
  proof -
    have "follows (stopRadio d)" if "follows d" for d
      using that by (simp add: follows_def stopRadio_def phy_typed_def sx_end_def sx_sleep_def executeOpcode_def fields_ok_def getSignalBandwidth_def)
    then show ?thesis by (simp add: tuned_def reply_phy_def)
  qed
  have n: "tuned (done_with os)" "tuned (reply_phy h)" for os h by (rule tuning_tuned, simp add: done_with_def reply_phy_def)+
  show ?thesis unfolding radio_state_command_def by (intro tuned_after tuned_if tuned_start c s n)
qed

lemma tuned_bt: "tuned (bt_command b)"
proof -
  have e: "tuned (done_with os)" "tuned (save_bt on)" "tuned bt_start" "tuned bt_stop" "tuned (\<lambda>d. (d, []))"
    "tuned (\<lambda>d. (d\<lparr>bt_allow_pairing := True, hlink := (hlink d)\<lparr>bt_state := BT_STATE_PAIRING\<rparr>\<rparr>, [Bt_security]))" for os on
    by (rule tuning_tuned, simp add: done_with_def save_bt_def bt_start_def bt_stop_def)+
  show ?thesis unfolding bt_command_def bt_enable_pairing_def by (intro tuned_if tuned_after tuned_if_at e)
qed

lemma tuned_wifi_text: "tuned (wifi_text_command a b)"
  by (rule tuning_tuned) (auto simp: wifi_text_command_def dest: tuning_collect(1) split: prod.split)

lemma tuned_data: "tuned (data_byte b)"
  by (rule tuning_tuned) (auto simp: data_byte_def dest: tuning_collect(2) split: prod.split)

lemma tuning_radio [simp]:
  "lora_sf p = lora_sf (radio d) \<Longrightarrow> lora_cr p = lora_cr (radio d) \<Longrightarrow> lora_txp p = lora_txp (radio d) \<Longrightarrow> lora_bw p = lora_bw (radio d) \<Longrightarrow>
   lora_freq p = lora_freq (radio d) \<Longrightarrow> radio_online p = radio_online (radio d) \<Longrightarrow> tuning (d\<lparr>radio := p\<rparr>) = tuning d"
  by (simp add: tuning_def)

lemma tuned_rest:
  "tuned (done_with os)" "tuned (reply g)" "tuned (reply_phy h)" "tuned (leave_command b)" "tuned (st_alock_command E)" "tuned (lt_alock_command E)"
  "tuned (promisc_command b)" "tuned (detect_command b)" "tuned ready_command" "tuned (fb_ext_command b)" "tuned (hashes_command E b)"
  "tuned (recondition b)" "tuned (upd (\<lambda>d. d\<lparr>firmware_update_mode := x\<rparr>))" "tuned (upd (\<lambda>d. d\<lparr>nvm := eeprom_conf_delete (nvm d)\<rparr>))"
  "tuned unlock_rom" "tuned rom_write_command" "tuned conf_save_command" "tuned fb_write_command" "tuned (dev_sig_command E)" "tuned (fw_hash_command E)"
  "tuned (wifi_mode_command b)" "tuned (wifi_channel_command b)" "tuned (wifi_addr_command a)" "tuned (save_intensity b)" "tuned (save_address b)"
  "tuned (save_blanking b)" "tuned (save_rotation b)" "tuned (save_interference b)"
  "tuned (\<lambda>d. reply_phy h (set_implicit_length b d))" "tuned (\<lambda>d. reply_phy h (update_radio_lock d))"
  by (rule tuning_tuned, simp add: done_with_def reply_def reply_phy_def leave_command_def st_alock_command_def lt_alock_command_def promisc_command_def
      detect_command_def ready_command_def fb_ext_command_def hashes_command_def recondition_def upd_def unlock_rom_def rom_write_command_def
      conf_save_command_def fb_write_command_def dev_sig_command_def fw_hash_command_def wifi_mode_command_def wifi_channel_command_def
      wifi_addr_command_def save_intensity_def save_address_def save_blanking_def save_rotation_def save_interference_def set_implicit_length_def
      update_radio_lock_def Let_def split: sum.split option.split)+

lemma tuned_frame_command: "tuned (frame_command E c b)"
  unfolding frame_command_def device_command_def
  by (intro tuned_if tuned_rest tuned_settings tuned_radio_state tuned_bt tuned_wifi_text tuned_data tuned_collected tuned_setting)

lemma tuned_callback: "tuned (serial_callback E b)"
  unfolding tuned_def
proof (intro allI impI)
  fix d assume d: "follows d"
  then have "follows (fst (frame_command E (kcommand d) b d))" using tuned_frame_command unfolding tuned_def by blast
  moreover have "follows (d\<lparr>IN_FRAME := x, txring := y\<rparr>)" "follows (d\<lparr>IN_FRAME := x, kcommand := c, frame_len := n\<rparr>)" "follows (d\<lparr>kcommand := c\<rparr>)"
    for x y c n by (rule follows_tuning [THEN iffD2, OF _ d], simp)+
  ultimately show "follows (fst (serial_callback E b d))" using d by (simp add: serial_callback_def)
qed

lemma tuned_host_sends: "tuned (host_sends E bs)"
proof (induction bs)
  case (Cons b bs)
  have "host_sends E (b # bs) = after (serial_callback E b) (host_sends E bs)" by (rule ext) simp
  then show ?case using tuned_after [OF tuned_callback Cons.IH] by simp
qed (simp add: tuned_def)

lemma modem_on_sel [simp]:
  "mode_host (modem_on r)" "chip (modem_on r) = sx_init" "nvm (modem_on r) = r" "\<not> radio_online (radio (modem_on r))"
  "phy_typed (radio (modem_on r))" "\<not> hw_ready (modem_on r)" "\<not> radio_error (radio (modem_on r))"
  by (simp_all add: modem_on_def phy_typed_def)

lemma boot_follows:
  assumes "\<not> eeprom_have_conf (auto_provision_eeprom_if_blank bd md5 r)"
  shows "follows (fst (boot E bd md5 (modem_on r)))"
proof -
  define d0 where "d0 = preInit E (modem_on r)"
  have f: "fields_ok (chip d0)" by (simp add: d0_def preInit_def fields_ok_def sx_init_def getSignalBandwidth_def low_data_rate_def)
  have d0: "mode_host d0" "\<not> radio_online (radio d0)" "phy_typed (radio d0)" "nvm d0 = r" by (simp_all add: d0_def preInit_def)
  obtain d1 o1 where v: "validate_status E bd md5 d0 = (d1, o1)" by fastforce
  then have d1: "mode_host d1" "radio d1 = radio d0" "chip d1 = chip d0"
    using assms d0 by (auto simp: validate_status_def Let_def device_init_def split: if_splits)
  have "fields_ok (sx_setFrequency 0 c) = fields_ok c" for c by (simp add: sx_setFrequency_def executeOpcode_def fields_ok_def getSignalBandwidth_def)
  then show ?thesis using d0 d1 f v by (simp add: boot_def after_def stops_def follows_def d0_def)
qed



section \<open>A board without its chip\<close>

definition chipless :: "device \<Rightarrow> bool" where
  "chipless d \<longleftrightarrow> \<not> hw_ready d \<and> \<not> radio_error (radio d) \<and> \<not> radio_online (radio d)"

definition idles :: "effect \<Rightarrow> bool" where
  "idles f \<longleftrightarrow> (\<forall>d. chipless d \<longrightarrow> chipless (fst (f d)) \<and> Blinks 0 \<notin> set (snd (f d)))"

lemma chipless_update [simp]:
  "chipless (d\<lparr>IN_FRAME := x0\<rparr>) = chipless d" "chipless (d\<lparr>ESCAPE := x1\<rparr>) = chipless d" "chipless (d\<lparr>kcommand := x2\<rparr>) = chipless d"
  "chipless (d\<lparr>frame_len := x3\<rparr>) = chipless d" "chipless (d\<lparr>cmdbuf := x4\<rparr>) = chipless d" "chipless (d\<lparr>txring := x5\<rparr>) = chipless d"
  "chipless (d\<lparr>airlimits := x6\<rparr>) = chipless d" "chipless (d\<lparr>nvm := x7\<rparr>) = chipless d" "chipless (d\<lparr>hlink := x8\<rparr>) = chipless d"
  "chipless (d\<lparr>bt_allow_pairing := x9\<rparr>) = chipless d" "chipless (d\<lparr>cable_connected := x10\<rparr>) = chipless d" "chipless (d\<lparr>firmware_update_mode := x11\<rparr>) = chipless d"
  "chipless (d\<lparr>disp_ext_fb := x12\<rparr>) = chipless d" "chipless (d\<lparr>fb := x13\<rparr>) = chipless d" "chipless (d\<lparr>dev_sig := x14\<rparr>) = chipless d"
  "chipless (d\<lparr>dev_firmware_hash_target := x15\<rparr>) = chipless d" "chipless (d\<lparr>wifi_mode := x16\<rparr>) = chipless d" "chipless (d\<lparr>display_intensity := x17\<rparr>) = chipless d"
  "chipless (d\<lparr>display_addr := x18\<rparr>) = chipless d" "chipless (d\<lparr>recondition_display := x19\<rparr>) = chipless d" "chipless (d\<lparr>chip := x20\<rparr>) = chipless d"
  "chipless (host_connected d) = chipless d"
  by (simp_all add: chipless_def host_connected_def)

lemma chipless_radio [simp]:
  "radio_error p = radio_error (radio d) \<Longrightarrow> radio_online p = radio_online (radio d) \<Longrightarrow> chipless (d\<lparr>radio := p\<rparr>) = chipless d"
  by (simp add: chipless_def)

lemma chipless_collect: "collect b d = (d1, b1) \<Longrightarrow> chipless d1 = chipless d" "take_escape b d = (d2, b2, ok) \<Longrightarrow> chipless d2 = chipless d"
  by (auto simp: collect_def take_escape_def split: if_splits)

lemma idlesI: "(\<And>d. chipless d \<Longrightarrow> chipless (fst (f d)) \<and> Blinks 0 \<notin> set (snd (f d))) \<Longrightarrow> idles f" by (simp add: idles_def)

lemma idles_after: "idles f \<Longrightarrow> idles g \<Longrightarrow> idles (after f g)"
  by (auto simp: idles_def after_def split_beta)

lemma idles_if: "(c \<Longrightarrow> idles f) \<Longrightarrow> (\<not> c \<Longrightarrow> idles g) \<Longrightarrow> idles (if c then f else g)" by simp

lemma idles_if_at: "idles f \<Longrightarrow> idles g \<Longrightarrow> idles (\<lambda>d. if c d then f d else g d)" by (simp add: idles_def)

lemma idles_collected: "idles f \<Longrightarrow> idles (collected b n f)"
proof (rule idlesI)
  fix d assume f: "idles f" and d: "chipless d"
  obtain d1 b1 where c: "collect b d = (d1, b1)" by fastforce
  then show "chipless (fst (collected b n f d)) \<and> Blinks 0 \<notin> set (snd (collected b n f d))"
    using f d chipless_collect(1) [OF c] by (simp add: collected_def idles_def)
qed

lemma idles_setting: "(\<And>b. idles (f b)) \<Longrightarrow> idles (setting b f)"
proof (rule idlesI)
  fix d assume f: "\<And>b. idles (f b)" and d: "chipless d"
  obtain d1 b1 ok where c: "take_escape b d = (d1, b1, ok)" by (cases "take_escape b d")
  then show "chipless (fst (setting b f d)) \<and> Blinks 0 \<notin> set (snd (setting b f d))"
    using f [of b1] d chipless_collect(2) [OF c] by (simp add: setting_def idles_def)
qed

lemma idles_start: "idles (startRadio E)"
  by (rule idlesI) (auto simp: startRadio_def Let_def update_radio_lock_def chipless_def)

lemma chipless_set [simp]:
  "chipless d \<Longrightarrow> chipless (setFrequency d)" "chipless d \<Longrightarrow> chipless (setBandwidth E d)" "chipless d \<Longrightarrow> chipless (setTXPower E d)"
  "chipless d \<Longrightarrow> chipless (setSpreadingFactor E d)" "chipless d \<Longrightarrow> chipless (setCodingRate E d)" "chipless d \<Longrightarrow> chipless (stopRadio d)" "chipless d \<Longrightarrow> chipless (update_radio_lock d)"
  by (simp_all add: setFrequency_def setBandwidth_def setTXPower_def setSpreadingFactor_def setCodingRate_def set_bitrate_def setPreamble_def stopRadio_def
      update_radio_lock_def Let_def) (simp_all add: chipless_def)
lemma idles_done: "Blinks 0 \<notin> set os \<Longrightarrow> idles (done_with os)" "idles (reply g)" "idles (reply_phy h)"
  by (simp_all add: idles_def done_with_def reply_def reply_phy_def)

lemma idles_radio_state: "idles (radio_state_command E b)"
proof -
  have "idles (\<lambda>d. (host_connected d, if c d then [Unblank] else []))" for c by (rule idlesI) simp
  moreover have "idles (\<lambda>d. reply_phy h (stopRadio d))" for h by (rule idlesI) (simp add: reply_phy_def)
  ultimately show ?thesis unfolding radio_state_command_def by (intro idles_after idles_if idles_start idles_done) simp_all
qed

lemma idles_bt: "idles (bt_command b)"
proof -
  have "idles (save_bt on)" "idles bt_start" "idles bt_stop" "idles (\<lambda>d. (d, []))"
    "idles (\<lambda>d. (d\<lparr>bt_allow_pairing := True, hlink := (hlink d)\<lparr>bt_state := BT_STATE_PAIRING\<rparr>\<rparr>, [Bt_security]))" for on
    by (rule idlesI, simp add: save_bt_def bt_start_def bt_stop_def)+
  then show ?thesis unfolding bt_command_def bt_enable_pairing_def by (intro idles_if idles_after idles_if_at idles_done) simp_all
qed

lemma idles_rest:
  "idles (leave_command b)" "idles (st_alock_command E)" "idles (lt_alock_command E)" "idles (promisc_command b)" "idles (detect_command b)"
  "idles ready_command" "idles (fb_ext_command b)" "idles (hashes_command E b)" "idles (recondition b)"
  "idles (upd (\<lambda>d. d\<lparr>firmware_update_mode := x\<rparr>))" "idles (upd (\<lambda>d. d\<lparr>nvm := eeprom_conf_delete (nvm d)\<rparr>))"
  "idles unlock_rom" "idles rom_write_command" "idles conf_save_command" "idles fb_write_command" "idles (dev_sig_command E)" "idles (fw_hash_command E)"
  "idles (wifi_mode_command b)" "idles (wifi_channel_command b)" "idles (wifi_addr_command a)" "idles (save_intensity b)" "idles (save_address b)"
  "idles (save_blanking b)" "idles (save_rotation b)" "idles (save_interference b)" "idles frequency_command" "idles (bandwidth_command E)"
  "idles (txpower_command E b)" "idles (sf_command E b)" "idles (cr_command E b)"
  "idles (\<lambda>d. reply_phy h (set_implicit_length b d))" "idles (\<lambda>d. reply_phy h (update_radio_lock d))"
  by (rule idlesI, simp add: reply_phy_def leave_command_def st_alock_command_def lt_alock_command_def promisc_command_def frequency_command_def
      bandwidth_command_def txpower_command_def sf_command_def cr_command_def in_host_mode_def
      detect_command_def ready_command_def fb_ext_command_def hashes_command_def recondition_def upd_def unlock_rom_def rom_write_command_def
      conf_save_command_def fb_write_command_def dev_sig_command_def fw_hash_command_def wifi_mode_command_def wifi_channel_command_def
      wifi_addr_command_def save_intensity_def save_address_def save_blanking_def save_rotation_def save_interference_def set_implicit_length_def
      Let_def split: sum.split option.split)+

lemma idles_bytes: "idles (wifi_text_command a b)" "idles (data_byte b)"
  by (rule idlesI, auto simp: wifi_text_command_def data_byte_def dest!: chipless_collect split: prod.split)+

lemma idles_frame_command: "idles (frame_command E c b)"
  unfolding frame_command_def device_command_def
  by (intro idles_if idles_rest idles_radio_state idles_bt idles_bytes idles_collected idles_setting idles_done) simp_all

lemma idles_callback: "idles (serial_callback E b)"
  using idles_frame_command unfolding idles_def serial_callback_def by simp

lemma idles_host_sends: "idles (host_sends E bs)"
proof (induction bs)
  case (Cons b bs)
  have "host_sends E (b # bs) = after (serial_callback E b) (host_sends E bs)" by (rule ext) simp
  then show ?case using idles_after [OF idles_callback Cons.IH] by simp
qed (simp add: idles_def)

text \<open>C37. On a board whose chip does not answer the driver (a firmware for another chip was flashed), the error meant for that is never raised: whatever is
  stored and whatever the host sends, \<open>radio_error\<close> stays false, so the reason is not reported; \<open>hw_ready\<close> is false, and \<open>startRadio\<close> treats the radio as locked.
\<close>

theorem missing_chip_unreported:
  assumes "\<not> chip_found E"
  shows "let (d, os) = session E bd md5 r bs in \<not> hw_ready d \<and> \<not> radio_error (radio d) \<and> \<not> radio_online (radio d) \<and> Blinks 0 \<notin> set os"
proof -
  have "chipless (modem_on r)" by (simp add: chipless_def)
  moreover have "idles (boot E bd md5)"
    unfolding boot_def
  proof (intro idles_after)
    show "idles (\<lambda>d. (preInit E d, [Host kiss_indicate_reset]))" using assms by (simp add: idles_def preInit_def)
    show "idles (validate_status E bd md5)" using assms by (rule_tac idlesI) (simp add: validate_status_def Let_def)
    show "idles (\<lambda>d. (if mode_host d then d\<lparr>chip := sx_setFrequency 0 (chip d)\<rparr> else d, []))" by (simp add: idles_def)
  qed
  ultimately show ?thesis
    using idles_after [OF _ idles_host_sends, of _ E bs] unfolding session_def idles_def chipless_def by (auto simp: split_beta)
qed

lemma missing_chip_unreported_witness:
  "let (d, os) = session (sample_env\<lparr>chip_found := False\<rparr>) tbeam_supreme (\<lambda>x. replicate 16 0) (replicate 1024 0xFF) [0xC0, 0x06, 0x01, 0xC0]
   in \<not> hw_ready d \<and> \<not> radio_error (radio d) \<and> \<not> radio_online (radio d) \<and> Blinks 0 \<notin> set os"
  by (rule missing_chip_unreported) (simp add: sample_env_def)

end
