(* ===== verification/SerialUp.thy ===== *)
theory SerialUp
  imports SerialInv
begin

text \<open>
  A host brings up the radio: the five frames of its configuration and the order to switch on leave the radio on with what they said. And a
  configuration stored in the modem is not changed by the frames that would, though the modem answers that it is.
\<close>

section \<open>Frames of a command\<close>

lemma escape_off: "\<not> ESCAPE d \<Longrightarrow> d\<lparr>ESCAPE := False\<rparr> = d" by (cases d) simp

lemma open_frame:
  assumes "\<not> (IN_FRAME d \<and> kcommand d = CMD_DATA)" "c \<noteq> FEND"
  shows "host_sends E (FEND # c # bs) d = host_sends E bs (d\<lparr>IN_FRAME := True, kcommand := c, frame_len := 0\<rparr>)"
proof -
  have "serial_callback E FEND d = (d\<lparr>IN_FRAME := True, kcommand := CMD_UNKNOWN, frame_len := 0\<rparr>, [])"
    using assms by (auto simp: serial_callback_def)
  moreover have "serial_callback E c (d\<lparr>IN_FRAME := True, kcommand := CMD_UNKNOWN, frame_len := 0\<rparr>) =
      (d\<lparr>IN_FRAME := True, kcommand := c, frame_len := 0\<rparr>, [])" using assms by (simp add: serial_callback_def MTU_def)
  ultimately show ?thesis using host_sends_quiet by simp
qed

lemma close_frame:
  assumes "\<not> (IN_FRAME d \<and> kcommand d = CMD_DATA)"
  shows "host_sends E (FEND # bs) d = host_sends E bs (d\<lparr>IN_FRAME := True, kcommand := CMD_UNKNOWN, frame_len := 0\<rparr>)"
  by (rule host_sends_quiet) (use assms in \<open>auto simp: serial_callback_def\<close>)

definition in_command :: "u8 \<Rightarrow> device \<Rightarrow> bool" where
  "in_command c d \<longleftrightarrow> IN_FRAME d \<and> kcommand d = c \<and> \<not> ESCAPE d \<and> frame_len d < CMD_L"

lemma command_byte:
  assumes "in_command c d" "b \<noteq> FEND" "c \<noteq> CMD_DATA" "c \<noteq> CMD_UNKNOWN"
  shows "serial_callback E b d = frame_command E c b d"
  using assms by (simp add: serial_callback_def in_command_def MTU_def CMD_L_def)

lemma collect_byte:
  assumes c: "in_command c d" "c \<noteq> CMD_DATA" "c \<noteq> CMD_UNKNOWN" and f: "\<And>b. frame_command E c b = collected b n f" and n: "frame_len d < n"
  shows "host_sends E (escaped b @ bs) d =
    (let d1 = d\<lparr>cmdbuf := (cmdbuf d)[frame_len d := b], frame_len := frame_len d + 1\<rparr>
     in if frame_len d + 1 = n then after f (host_sends E bs) d1 else host_sends E bs d1)"
proof -
  let ?d1 = "d\<lparr>cmdbuf := (cmdbuf d)[frame_len d := b], frame_len := frame_len d + 1\<rparr>"
  have e: "d\<lparr>ESCAPE := False\<rparr> = d" using c by (simp add: in_command_def escape_off)
  have last: "host_sends E (t # bs) d0 = (if frame_len d + 1 = n then after f (host_sends E bs) ?d1 else host_sends E bs ?d1)"
    if "collect t d0 = (?d1, b)" "serial_callback E t d0 = frame_command E c t d0" for t d0
    using that n by (auto simp: f collected_def after_def stops_def)
  show ?thesis
  proof (cases "b = FEND \<or> b = FESC")
    case False
    then have "escaped b = [b]" by (auto simp: escaped_def)
    moreover have "collect b d = (?d1, b)" using False c e by (simp add: collect_def take_escape_def unescape_def in_command_def)
    moreover have "serial_callback E b d = frame_command E c b d" using False c command_byte by blast
    ultimately show ?thesis using last [of b d] by (simp add: Let_def)
  next
    case True
    define t where "t = (if b = FEND then TFEND else TFESC)"
    let ?d0 = "d\<lparr>ESCAPE := True\<rparr>"
    have s: "escaped b = [FESC, t]" using True by (auto simp: escaped_def t_def FEND_def FESC_def)
    have "serial_callback E FESC d = (?d0, [])"
      using c n command_byte [of c d FESC E] by (simp add: f collected_def collect_def take_escape_def FEND_def FESC_def)
    then have h: "host_sends E (FESC # t # bs) d = host_sends E (t # bs) ?d0" by (rule host_sends_quiet)
    have "?d0\<lparr>ESCAPE := False\<rparr> = d" using e by simp
    then have "collect t ?d0 = (?d1, b)"
      using True c by (auto simp: collect_def take_escape_def unescape_def in_command_def t_def FEND_def FESC_def TFEND_def TFESC_def)
    moreover have "serial_callback E t ?d0 = frame_command E c t ?d0"
      using c by (simp add: serial_callback_def in_command_def MTU_def CMD_L_def t_def FEND_def TFEND_def TFESC_def)
    ultimately show ?thesis using h s last [of t ?d0] by (simp add: Let_def)
  qed
qed

lemma four_bytes:
  assumes "\<not> ESCAPE d" "\<not> (IN_FRAME d \<and> kcommand d = CMD_DATA)" "length (cmdbuf d) = CMD_L"
    and "c \<noteq> FEND" "c \<noteq> CMD_DATA" "c \<noteq> CMD_UNKNOWN" and f: "\<And>b. frame_command E c b = collected b 4 f"
  shows "host_sends E (kiss_frame c [b0, b1, b2, b3] @ bs) d =
    after f (host_sends E (FEND # bs))
      (d\<lparr>IN_FRAME := True, kcommand := c, cmdbuf := (cmdbuf d)[0 := b0, 1 := b1, 2 := b2, 3 := b3], frame_len := 4\<rparr>)"
proof -
  let ?d = "\<lambda>k xs. d\<lparr>IN_FRAME := True, kcommand := c, cmdbuf := xs, frame_len := k\<rparr>"
  have i: "in_command c (?d k xs)" if "k < 4" for k xs using assms(1) that by (simp add: in_command_def CMD_L_def)
  have one: "host_sends E (escaped b @ xs) (?d k ys) = host_sends E xs (?d (Suc k) (ys[k := b]))" if "k < 3" for b xs k ys
    using collect_byte [OF i assms(5,6) f, of k ys b xs] that by (simp add: Let_def)
  have four: "host_sends E (escaped b @ xs) (?d 3 ys) = after f (host_sends E xs) (?d 4 (ys[3 := b]))" for b xs ys
    using collect_byte [OF i assms(5,6) f, of 3 ys b xs] by (simp add: Let_def)
  have "host_sends E (kiss_frame c [b0, b1, b2, b3] @ bs) d =
      host_sends E (escaped b0 @ escaped b1 @ escaped b2 @ escaped b3 @ FEND # bs) (?d 0 (cmdbuf d))"
    using open_frame [OF assms(2,4)] by (cases d) (simp add: kiss_frame_def kiss_escape_def)
  also have "\<dots> = host_sends E (escaped b1 @ escaped b2 @ escaped b3 @ FEND # bs) (?d 1 ((cmdbuf d)[0 := b0]))"
    using one [of 0 b0 _ "cmdbuf d", OF zero_less_numeral] unfolding One_nat_def by blast
  also have "\<dots> = host_sends E (escaped b2 @ escaped b3 @ FEND # bs) (?d 2 ((cmdbuf d)[0 := b0, 1 := b1]))"
    using one [of 1 b1 _ "(cmdbuf d)[0 := b0]"] unfolding Suc_1 by simp
  also have "\<dots> = host_sends E (escaped b3 @ FEND # bs) (?d 3 ((cmdbuf d)[0 := b0, 1 := b1, 2 := b2]))"
    using one [of 2 b2 _ "(cmdbuf d)[0 := b0, 1 := b1]"] by (simp add: eval_nat_numeral)
  finally show ?thesis unfolding four .
qed

lemma one_byte:
  assumes "\<not> ESCAPE d" "\<not> (IN_FRAME d \<and> kcommand d = CMD_DATA)" "c \<noteq> FEND" "c \<noteq> CMD_DATA" "c \<noteq> CMD_UNKNOWN" "b \<noteq> FEND" "b \<noteq> FESC"
  shows "host_sends E (kiss_frame c [b] @ bs) d =
    after (frame_command E c b) (host_sends E (FEND # bs)) (d\<lparr>IN_FRAME := True, kcommand := c, frame_len := 0\<rparr>)"
proof -
  let ?d = "d\<lparr>IN_FRAME := True, kcommand := c, frame_len := 0\<rparr>"
  have "kiss_frame c [b] @ bs = FEND # c # b # FEND # bs" using assms by (simp add: kiss_frame_def kiss_escape_def escaped_def)
  moreover have "serial_callback E b ?d = frame_command E c b ?d"
    by (rule command_byte) (use assms in \<open>simp_all add: in_command_def CMD_L_def\<close>)
  ultimately show ?thesis using open_frame [OF assms(2,3), of E "b # FEND # bs"] by (simp add: after_def)
qed

section \<open>The state between frames\<close>

definition awaits :: "phy \<Rightarrow> sx126x \<Rightarrow> device \<Rightarrow> bool" where
  "awaits p c d \<longleftrightarrow> \<not> ESCAPE d \<and> \<not> (IN_FRAME d \<and> kcommand d = CMD_DATA) \<and> length (cmdbuf d) = CMD_L \<and> mode_host d \<and> hw_ready d \<and>
     \<not> console_active d \<and> radio d = p \<and> chip d = c \<and> \<not> radio_online p"

definition leads :: "host_env \<Rightarrow> bytes \<Rightarrow> device \<Rightarrow> device \<Rightarrow> bool" where
  "leads E w d d' \<longleftrightarrow> (\<forall>bs. fst (host_sends E (w @ bs) d) = fst (host_sends E bs d'))"

lemma leads_trans: "leads E v d d1 \<Longrightarrow> leads E w d1 d2 \<Longrightarrow> leads E (v @ w) d d2" by (simp add: leads_def)

text \<open>An answer to a command that leaves the frame open, then the closing \<open>FEND\<close>.\<close>

lemma leads_close:
  assumes "\<And>bs. host_sends E (w @ bs) d = after f (host_sends E (FEND # bs)) d0" "f d0 = (d1, os)" "\<not> stops os" "kcommand d1 \<noteq> CMD_DATA"
  shows "leads E w d (d1\<lparr>IN_FRAME := True, kcommand := CMD_UNKNOWN, frame_len := 0\<rparr>)"
  unfolding leads_def
proof
  fix bs
  have "host_sends E (FEND # bs) d1 = host_sends E bs (d1\<lparr>IN_FRAME := True, kcommand := CMD_UNKNOWN, frame_len := 0\<rparr>)"
    by (rule close_frame) (simp add: assms(4))
  then show "fst (host_sends E (w @ bs) d) = fst (host_sends E bs (d1\<lparr>IN_FRAME := True, kcommand := CMD_UNKNOWN, frame_len := 0\<rparr>))"
    using assms(1-3) by (simp add: after_def split_beta)
qed

lemma quiet_answers: "\<not> stops [Host x]" by (simp add: stops_def)

lemma cmd32_bytes: "length ys = CMD_L \<Longrightarrow> n < 4294967296 \<Longrightarrow>
  cmd32 (d\<lparr>cmdbuf := ys[0 := byte_at 24 n, 1 := byte_at 16 n, 2 := byte_at 8 n, 3 := byte_at 0 n], frame_len := k\<rparr>) = n"
  by (simp add: cmd32_def CMD_L_def be32_byte_at)

text \<open>A frame that sets the variables of the modem to \<open>q\<close> while the radio is off: with a 32-bit word, and with a byte.\<close>

lemma leads_word:
  assumes a: "awaits p c d" and n: "n < 4294967296" and q: "\<not> radio_online q"
    and op: "op \<noteq> FEND" "op \<noteq> CMD_DATA" "op \<noteq> CMD_UNKNOWN" "\<And>b. frame_command E op b = collected b 4 f"
    and f: "\<And>d0. mode_host d0 \<Longrightarrow> radio d0 = p \<Longrightarrow> cmd32 d0 = n \<Longrightarrow> \<exists>t x. f d0 = (d0\<lparr>radio := q, tm := t\<rparr>, [Host x])"
  shows "\<exists>d'. leads E (kiss_frame op (be32_bytes n)) d d' \<and> awaits q c d'"
proof -
  let ?ys = "(cmdbuf d)[0 := byte_at 24 n, 1 := byte_at 16 n, 2 := byte_at 8 n, 3 := byte_at 0 n]"
  define d0 where "d0 = d\<lparr>IN_FRAME := True, kcommand := op, cmdbuf := ?ys, frame_len := 4\<rparr>"
  have l: "length (cmdbuf d) = CMD_L" using a by (simp add: awaits_def)
  have "cmd32 d0 = n" using cmd32_bytes [OF l n, where d = "d\<lparr>IN_FRAME := True, kcommand := op\<rparr>"] by (simp add: d0_def)
  then obtain t x where e: "f d0 = (d0\<lparr>radio := q, tm := t\<rparr>, [Host x])" using f [of d0] a by (auto simp: awaits_def d0_def)
  have h: "host_sends E (kiss_frame op (be32_bytes n) @ bs) d = after f (host_sends E (FEND # bs)) d0" for bs
    unfolding be32_bytes_def d0_def by (rule four_bytes) (use a op in \<open>simp_all add: awaits_def\<close>)
  have "leads E (kiss_frame op (be32_bytes n)) d ((d0\<lparr>radio := q, tm := t\<rparr>)\<lparr>IN_FRAME := True, kcommand := CMD_UNKNOWN, frame_len := 0\<rparr>)"
    by (rule leads_close [OF h e quiet_answers]) (use op in \<open>simp add: d0_def\<close>)
  moreover have "awaits q c ((d0\<lparr>radio := q, tm := t\<rparr>)\<lparr>IN_FRAME := True, kcommand := CMD_UNKNOWN, frame_len := 0\<rparr>)"
    using a q l by (simp add: d0_def awaits_def commands)
  ultimately show ?thesis by blast
qed

lemma leads_byte:
  assumes a: "awaits p c d" and q: "\<not> radio_online q" and op: "op \<noteq> FEND" "op \<noteq> CMD_DATA" "op \<noteq> CMD_UNKNOWN" "b \<noteq> FEND" "b \<noteq> FESC"
    and f: "\<And>d0. mode_host d0 \<Longrightarrow> radio d0 = p \<Longrightarrow> \<exists>t x. frame_command E op b d0 = (d0\<lparr>radio := q, tm := t\<rparr>, [Host x])"
  shows "\<exists>d'. leads E (kiss_frame op [b]) d d' \<and> awaits q c d'"
proof -
  define d0 where "d0 = d\<lparr>IN_FRAME := True, kcommand := op, frame_len := 0\<rparr>"
  obtain t x where e: "frame_command E op b d0 = (d0\<lparr>radio := q, tm := t\<rparr>, [Host x])" using f [of d0] a by (auto simp: awaits_def d0_def)
  have h: "host_sends E (kiss_frame op [b] @ bs) d = after (frame_command E op b) (host_sends E (FEND # bs)) d0" for bs
    unfolding d0_def by (rule one_byte) (use a op in \<open>simp_all add: awaits_def\<close>)
  have "leads E (kiss_frame op [b]) d ((d0\<lparr>radio := q, tm := t\<rparr>)\<lparr>IN_FRAME := True, kcommand := CMD_UNKNOWN, frame_len := 0\<rparr>)"
    by (rule leads_close [OF h e quiet_answers]) (use op in \<open>simp add: d0_def\<close>)
  moreover have "awaits q c ((d0\<lparr>radio := q, tm := t\<rparr>)\<lparr>IN_FRAME := True, kcommand := CMD_UNKNOWN, frame_len := 0\<rparr>)"
    using a q by (simp add: d0_def awaits_def commands)
  ultimately show ?thesis by blast
qed

section \<open>The radio comes up\<close>

definition host_config :: "nat \<Rightarrow> nat \<Rightarrow> u8 \<Rightarrow> u8 \<Rightarrow> u8 \<Rightarrow> bytes" where
  "host_config f bw t s c =
    kiss_frame CMD_FREQUENCY (be32_bytes f) @ kiss_frame CMD_BANDWIDTH (be32_bytes bw) @ kiss_frame CMD_TXPOWER [t] @ kiss_frame CMD_SF [s] @
    kiss_frame CMD_CR [c] @ kiss_frame CMD_RADIO_STATE [0x01]"

lemma keeps_tm: "r = (d\<lparr>radio := q\<rparr>, [Host x]) \<Longrightarrow> \<exists>t x. r = (d\<lparr>radio := q, tm := t\<rparr>, [Host x])"
  by (rule exI [where x = "tm d"], rule exI [where x = x], cases d) simp

lemma bitrate_off: "\<not> radio_online (radio d) \<Longrightarrow> \<exists>t. set_bitrate E d = d\<lparr>tm := t\<rparr>"
  by (auto simp: set_bitrate_def setPreamble_def)

lemma small_byte: "unat b \<le> 22 \<Longrightarrow> b \<noteq> FEND \<and> b \<noteq> FESC \<and> b \<noteq> 0xFF"
  by (auto simp: FEND_def FESC_def)

lemma clamp_id: "l \<le> x \<Longrightarrow> x \<le> h \<Longrightarrow> clamp l h x = x" by (simp add: clamp_def)

lemma leads_config:
  assumes a: "awaits p c d" and f: "0 < f" "f < 4294967296" and bw: "0 < bw" "bw < 4294967296"
    and t: "unat t \<le> 22" and s: "5 \<le> unat s" "unat s \<le> 12" and cr: "5 \<le> unat k" "unat k \<le> 8"
  shows "\<exists>d'. leads E (kiss_frame CMD_FREQUENCY (be32_bytes f) @ kiss_frame CMD_BANDWIDTH (be32_bytes bw) @ kiss_frame CMD_TXPOWER [t] @ kiss_frame CMD_SF [s] @
      kiss_frame CMD_CR [k]) d d' \<and>
    awaits (p\<lparr>lora_freq := f, lora_bw := bw, lora_txp := int (unat t), lora_sf := int (unat s), lora_cr := int (unat k)\<rparr>) c d'"
proof -
  have o0: "\<not> radio_online p" using a by (simp add: awaits_def)
  have b: "t \<noteq> FEND" "t \<noteq> FESC" "t \<noteq> 0xFF" "s \<noteq> FEND" "s \<noteq> FESC" "s \<noteq> 0xFF" "k \<noteq> FEND" "k \<noteq> FESC" "k \<noteq> 0xFF"
    using small_byte [of t] small_byte [of s] small_byte [of k] t s cr by auto
  have u: "clamp 5 12 (int (unat s)) = int (unat s)" "clamp 5 8 (int (unat k)) = int (unat k)" by (rule clamp_id, use s cr in linarith, use s cr in linarith)+
  let ?p1 = "p\<lparr>lora_freq := f\<rparr>"
  have "\<exists>d'. leads E (kiss_frame CMD_FREQUENCY (be32_bytes f)) d d' \<and> awaits ?p1 c d'"
    by (rule leads_word [OF a f(2)]) (use o0 f in \<open>auto simp: commands FEND_def frame_command_def frequency_command_def in_host_mode_def setFrequency_def
      reply_phy_def intro!: keeps_tm\<close>)
  then obtain d1 where d1: "leads E (kiss_frame CMD_FREQUENCY (be32_bytes f)) d d1" "awaits ?p1 c d1" by blast
  let ?p2 = "?p1\<lparr>lora_bw := bw\<rparr>"
  have "\<exists>d'. leads E (kiss_frame CMD_BANDWIDTH (be32_bytes bw)) d1 d' \<and> awaits ?p2 c d'"
    by (rule leads_word [OF d1(2) bw(2)]) (use o0 bw in \<open>auto simp: commands FEND_def frame_command_def bandwidth_command_def in_host_mode_def setBandwidth_def
      reply_phy_def intro!: keeps_tm\<close>)
  then obtain d2 where d2: "leads E (kiss_frame CMD_BANDWIDTH (be32_bytes bw)) d1 d2" "awaits ?p2 c d2" by blast
  let ?p3 = "?p2\<lparr>lora_txp := int (unat t)\<rparr>"
  have "\<exists>d'. leads E (kiss_frame CMD_TXPOWER [t]) d2 d' \<and> awaits ?p3 c d'"
  proof (rule leads_byte [OF d2(2)])
    fix d0 :: device assume h: "mode_host d0" "radio d0 = ?p2"
    have "frame_command E CMD_TXPOWER t d0 = (d0\<lparr>radio := ?p3\<rparr>, [Host (kiss_indicate_txpower ?p3)])"
      using o0 b t h by (simp add: commands frame_command_def txpower_command_def in_host_mode_def setTXPower_def reply_phy_def)
    then show "\<exists>x y. frame_command E CMD_TXPOWER t d0 = (d0\<lparr>radio := ?p3, tm := x\<rparr>, [Host y])" by (rule keeps_tm)
  qed (use o0 b in \<open>auto simp: commands FEND_def\<close>)
  then obtain d3 where d3: "leads E (kiss_frame CMD_TXPOWER [t]) d2 d3" "awaits ?p3 c d3" by blast
  let ?p4 = "?p3\<lparr>lora_sf := int (unat s)\<rparr>"
  have "\<exists>d'. leads E (kiss_frame CMD_SF [s]) d3 d' \<and> awaits ?p4 c d'"
  proof (rule leads_byte [OF d3(2)])
    fix d0 :: device assume h: "mode_host d0" "radio d0 = ?p3"
    obtain x where "set_bitrate E (d0\<lparr>radio := ?p4\<rparr>) = d0\<lparr>radio := ?p4, tm := x\<rparr>" using bitrate_off [of "d0\<lparr>radio := ?p4\<rparr>" E] o0 by auto
    then show "\<exists>x y. frame_command E CMD_SF s d0 = (d0\<lparr>radio := ?p4, tm := x\<rparr>, [Host y])"
      using o0 b u h by (auto simp: commands frame_command_def sf_command_def in_host_mode_def setSpreadingFactor_def reply_phy_def)
  qed (use o0 b in \<open>auto simp: commands FEND_def\<close>)
  then obtain d4 where d4: "leads E (kiss_frame CMD_SF [s]) d3 d4" "awaits ?p4 c d4" by blast
  let ?p5 = "?p4\<lparr>lora_cr := int (unat k)\<rparr>"
  have "\<exists>d'. leads E (kiss_frame CMD_CR [k]) d4 d' \<and> awaits ?p5 c d'"
  proof (rule leads_byte [OF d4(2)])
    fix d0 :: device assume h: "mode_host d0" "radio d0 = ?p4"
    obtain x where "set_bitrate E (d0\<lparr>radio := ?p5\<rparr>) = d0\<lparr>radio := ?p5, tm := x\<rparr>" using bitrate_off [of "d0\<lparr>radio := ?p5\<rparr>" E] o0 by auto
    then show "\<exists>x y. frame_command E CMD_CR k d0 = (d0\<lparr>radio := ?p5, tm := x\<rparr>, [Host y])"
      using o0 b u h by (auto simp: commands frame_command_def cr_command_def in_host_mode_def setCodingRate_def reply_phy_def)
  qed (use o0 b in \<open>auto simp: commands FEND_def\<close>)
  then obtain d5 where d5: "leads E (kiss_frame CMD_CR [k]) d4 d5" "awaits ?p5 c d5" by blast
  note l = leads_trans [OF d1(1) leads_trans [OF d2(1) leads_trans [OF d3(1) leads_trans [OF d4(1) d5(1)]]]]
  show ?thesis using l d5(2) by blast
qed

lemma up_radio:
  "radio (radio_up_now E d) = (radio d)\<lparr>radio_online := True,
     lora_bw := getSignalBandwidth (sx_init\<lparr>sx_bw := bandwidth_code (nat (as_long (lora_bw (radio d))))\<rparr>),
     lora_freq := nat (sx_frequency (chip d) mod 4294967296)\<rparr>"
proof -
  define d1 where "d1 = setTXPower E (d\<lparr>radio := (radio d)\<lparr>radio_online := True\<rparr>\<rparr>)"
  define d2 where "d2 = setBandwidth E d1"
  define d3 where "d3 = setCodingRate E (setSpreadingFactor E d2)"
  have r: "radio (radio_up_now E d) = radio (getFrequency d3)" by (simp add: radio_up_now_def Let_def d1_def d2_def d3_def)
  have o1: "radio d1 = (radio d)\<lparr>radio_online := True\<rparr>" "sx_frequency (chip d1) = sx_frequency (chip d)"
    by (simp_all add: d1_def set_on_sel set_sel)
  have b: "sx_bw (chip d2) = bandwidth_code (nat (as_long (lora_bw (radio d))))" "sx_frequency (chip d2) = sx_frequency (chip d)"
    using o1 by (simp_all add: d2_def set_on_sel set_sel)
  have "getSignalBandwidth (chip d2) = getSignalBandwidth (sx_init\<lparr>sx_bw := bandwidth_code (nat (as_long (lora_bw (radio d))))\<rparr>)"
    by (rule bandwidth_cong) (simp add: b)
  then have o2: "radio d2 = (radio d)\<lparr>radio_online := True, lora_bw := getSignalBandwidth (sx_init\<lparr>sx_bw := bandwidth_code (nat (as_long (lora_bw (radio d))))\<rparr>)\<rparr>"
    using o1 set_on(8) [of d1 E] by (simp add: d2_def)
  have o3: "radio d3 = radio d2" "sx_frequency (chip d3) = sx_frequency (chip d)"
    using o2 b by (simp_all add: d3_def set_on_sel set_sel)
  show ?thesis using o2 o3 set_on(10) [of d3] by (simp add: r)
qed

lemma kcommand_setPreamble [simp]: "kcommand (setPreamble E d) = kcommand d" by (simp add: setPreamble_def Let_def)
lemma kcommand_set_bitrate [simp]: "kcommand (set_bitrate E d) = kcommand d" by (simp add: set_bitrate_def Let_def)
lemma kcommand_setSpreadingFactor [simp]: "kcommand (setSpreadingFactor E d) = kcommand d" by (simp add: setSpreadingFactor_def Let_def)
lemma kcommand_setCodingRate [simp]: "kcommand (setCodingRate E d) = kcommand d" by (simp add: setCodingRate_def Let_def)
lemma kcommand_setTXPower [simp]: "kcommand (setTXPower E d) = kcommand d" by (simp add: setTXPower_def Let_def)
lemma kcommand_getBandwidth [simp]: "kcommand (getBandwidth E d) = kcommand d" by (simp add: getBandwidth_def Let_def)
lemma kcommand_setBandwidth [simp]: "kcommand (setBandwidth E d) = kcommand d" by (simp add: setBandwidth_def Let_def)
lemma kcommand_getFrequency [simp]: "kcommand (getFrequency d) = kcommand d" by (simp add: getFrequency_def Let_def)
lemma kcommand_radio_up_now [simp]: "kcommand (radio_up_now E d) = kcommand d" by (simp add: radio_up_now_def Let_def)

lemma switch_on:
  assumes a: "awaits p c d" and c: "fields_ok c" "sx_preinit_done c"
    and p: "lora_freq p \<noteq> 0" "lora_bw p \<noteq> 0" "lora_txp p \<noteq> 0xFF" "lora_sf p \<noteq> 0" "phy_typed p" "lora_freq p < 2147483648"
  shows "\<exists>d'. leads E (kiss_frame CMD_RADIO_STATE [0x01]) d d' \<and> follows d' \<and>
    radio d' = p\<lparr>radio_locked := False, radio_online := True, lora_bw := getSignalBandwidth (sx_init\<lparr>sx_bw := bandwidth_code (nat (as_long (lora_bw p)))\<rparr>)\<rparr>"
proof -
  define d0 where "d0 = d\<lparr>IN_FRAME := True, kcommand := CMD_RADIO_STATE, frame_len := 0\<rparr>"
  define h where "h = host_connected d0"
  define u where "u = update_radio_lock h"
  have h: "radio h = p" "chip h = c" "mode_host h" "hw_ready h" "\<not> console_active h" "kcommand h = CMD_RADIO_STATE"
    using a by (auto simp: h_def d0_def awaits_def host_connected_def)
  have u: "radio u = p\<lparr>radio_locked := False\<rparr>" "chip u = c" "mode_host u" "hw_ready u" "\<not> console_active u" "kcommand u = CMD_RADIO_STATE"
    using h p by (simp_all add: u_def update_radio_lock_def Let_def)
  have o: "\<not> radio_online p" using a by (simp add: awaits_def)
  obtain c1 ok where b: "sx_begin (rr E) (chip_found E) (ocp E) (as_long (lora_freq p)) c = (c1, ok)" by fastforce
  have ok: "ok" using b c by (auto simp: sx_begin_def Let_def)
  have c1: "in_step c1" "sx_frequency c1 = as_long (lora_freq p)" "sx_preinit_done c1"
    using begin_in_step(1) [OF c(1) b ok] begin_settings b ok by auto
  define up where "up = radio_up_now E (u\<lparr>chip := c1\<rparr>)"
  have f: "follows up" unfolding up_def by (rule up_follows) (use u p c1 in \<open>simp_all add: phy_typed_def\<close>)
  have freq: "nat (as_long (lora_freq p) mod 4294967296) = lora_freq p" using p(6) by (simp add: as_long_def)
  have r: "radio up = p\<lparr>radio_locked := False, radio_online := True, lora_bw := getSignalBandwidth (sx_init\<lparr>sx_bw := bandwidth_code (nat (as_long (lora_bw p)))\<rparr>)\<rparr>"
    unfolding up_def up_radio using u c1 freq by (cases p) simp
  have k: "kcommand up = CMD_RADIO_STATE"
    using u by (simp add: up_def)
  have s: "startRadio E h = (up, [Init_channel_stats, Host (kiss_indicate_radiostate (radio up)), Led_info 3])"
    using u o b ok by (simp add: startRadio_def Let_def u_def [symmetric] up_def)
  define x where "x = (if bt_state (hlink d0) \<noteq> BT_STATE_CONNECTED then [Unblank] else [])"
  have e: "frame_command E CMD_RADIO_STATE 0x01 d0 =
      (up, x @ [Init_channel_stats, Host (kiss_indicate_radiostate (radio up)), Led_info 3, Host (kiss_indicate_radiostate (radio up))])"
    using s by (simp add: frame_command_def commands radio_state_command_def after_def reply_phy_def stops_def h_def x_def)
  have w: "host_sends E (kiss_frame CMD_RADIO_STATE [0x01] @ bs) d = after (frame_command E CMD_RADIO_STATE 0x01) (host_sends E (FEND # bs)) d0" for bs
    unfolding d0_def by (rule one_byte) (use a in \<open>simp_all add: awaits_def commands FEND_def FESC_def\<close>)
  have "leads E (kiss_frame CMD_RADIO_STATE [0x01]) d (up\<lparr>IN_FRAME := True, kcommand := CMD_UNKNOWN, frame_len := 0\<rparr>)"
    by (rule leads_close [OF w, where os = "x @ [Init_channel_stats, Host (kiss_indicate_radiostate (radio up)), Led_info 3,
        Host (kiss_indicate_radiostate (radio up))]"]) (rule e, simp add: stops_def x_def, simp add: k commands)
  moreover have "follows (up\<lparr>IN_FRAME := True, kcommand := CMD_UNKNOWN, frame_len := 0\<rparr>)"
    by (rule follows_tuning [THEN iffD2, OF _ f]) simp
  ultimately show ?thesis using r by (intro exI [of _ "up\<lparr>IN_FRAME := True, kcommand := CMD_UNKNOWN, frame_len := 0\<rparr>"]) simp
qed

lemma boot_awaits:
  assumes "chip_found E" "fw_validated E" "provisioned bd md5 (auto_provision_eeprom_if_blank bd md5 r)"
    and "\<not> eeprom_have_conf (auto_provision_eeprom_if_blank bd md5 r)"
  shows "\<exists>d os. boot E bd md5 (modem_on r) = (d, os) \<and> \<not> stops os \<and> awaits (radio (modem_on r)) (chip d) d \<and> fields_ok (chip d) \<and> sx_preinit_done (chip d)"
proof -
  define d0 where "d0 = preInit E (modem_on r)"
  have n: "nvm d0 = r" by (simp add: d0_def preInit_def)
  have v: "validate_status E bd md5 d0 = (device_init E (d0\<lparr>nvm := auto_provision_eeprom_if_blank bd md5 r\<rparr>), [])"
    using assms n by (simp add: validate_status_def Let_def provisioned_def device_init_def)
  define d1 where "d1 = device_init E (d0\<lparr>nvm := auto_provision_eeprom_if_blank bd md5 r\<rparr>)"
  let ?d = "d1\<lparr>chip := sx_setFrequency 0 (chip d1)\<rparr>"
  have m: "mode_host d1" "hw_ready d1" "radio d1 = radio (modem_on r)" "chip d1 = sx_init\<lparr>sx_preinit_done := True\<rparr>"
    using assms(1,2) by (simp_all add: d1_def device_init_def d0_def preInit_def)
  have "boot E bd md5 (modem_on r) = (?d, [Host kiss_indicate_reset])"
    using v m by (simp add: boot_def after_def stops_def d0_def d1_def)
  moreover have "\<not> ESCAPE d1" "\<not> IN_FRAME d1" "length (cmdbuf d1) = CMD_L" "\<not> console_active d1"
    by (simp_all add: d1_def device_init_def d0_def preInit_def) (simp_all add: modem_on_def)
  then have "awaits (radio (modem_on r)) (chip ?d) ?d" using m by (simp add: awaits_def)
  moreover have "fields_ok (chip ?d) \<and> sx_preinit_done (chip ?d)"
    using m(4) by (simp add: sx_setFrequency_def executeOpcode_def fields_ok_def sx_init_def getSignalBandwidth_def low_data_rate_def)
  ultimately show ?thesis using quiet_answers by blast
qed

definition chip_bandwidths :: "nat list" where
  "chip_bandwidths = [7800, 10400, 15600, 20800, 31250, 41700, 62500, 125000, 250000, 500000]"

lemma exact_bandwidth: "bw \<in> set chip_bandwidths \<Longrightarrow>
  getSignalBandwidth (sx_init\<lparr>sx_bw := bandwidth_code (nat (as_long bw))\<rparr>) = bw \<and> 0 < bw \<and> bw < 4294967296"
  by (auto simp: chip_bandwidths_def as_long_def bandwidth_code_def getSignalBandwidth_def)



section \<open>A configuration stored in the modem\<close>

text \<open>C38. A modem that started with a stored configuration answers a new frequency with that frequency, and does not set it: the chip is as before, whatever it
  was told. The same holds of the other parameters.
\<close>

theorem stored_frequency_answered:
  assumes "\<not> mode_host d" "\<not> ESCAPE d" "\<not> (IN_FRAME d \<and> kcommand d = CMD_DATA)" "length (cmdbuf d) = CMD_L" "0 < n" "n < 4294967296"
  shows "\<exists>d'. host_sends E (kiss_frame CMD_FREQUENCY (be32_bytes n)) d = (d', [Host (kiss_frame CMD_FREQUENCY (be32_bytes n))]) \<and>
    chip d' = chip d \<and> radio d' = (radio d)\<lparr>lora_freq := n\<rparr>"
proof -
  define d0 where "d0 = d\<lparr>IN_FRAME := True, kcommand := CMD_FREQUENCY, cmdbuf := (cmdbuf d)[0 := byte_at 24 n, 1 := byte_at 16 n, 2 := byte_at 8 n,
     3 := byte_at 0 n], frame_len := 4\<rparr>"
  have w: "host_sends E (kiss_frame CMD_FREQUENCY (be32_bytes n) @ []) d = after frequency_command (host_sends E (FEND # [])) d0"
    unfolding be32_bytes_def d0_def by (rule four_bytes) (use assms in \<open>simp_all add: commands FEND_def frame_command_def\<close>)
  have n: "cmd32 d0 = n" using cmd32_bytes [OF assms(4,6), where d = "d\<lparr>IN_FRAME := True, kcommand := CMD_FREQUENCY\<rparr>"] by (simp add: d0_def)
  have m: "\<not> mode_host d0" "kcommand d0 = CMD_FREQUENCY" "radio d0 = radio d" "chip d0 = chip d" using assms(1) by (simp_all add: d0_def)
  let ?d1 = "d0\<lparr>radio := (radio d)\<lparr>lora_freq := n\<rparr>\<rparr>"
  have "frequency_command d0 = (?d1, [Host (kiss_frame CMD_FREQUENCY (be32_bytes n))])"
    using n m assms(5) by (simp add: frequency_command_def in_host_mode_def reply_phy_def kiss_indicate_frequency_def)
  moreover have "host_sends E [FEND] ?d1 = (?d1\<lparr>IN_FRAME := True, kcommand := CMD_UNKNOWN, frame_len := 0\<rparr>, [])"
    using close_frame [of ?d1 E "[]"] m by (simp add: commands)
  ultimately show ?thesis using w quiet_answers m by (simp add: after_def)
qed

lemma stored_frequency_answered_witness:
  "\<exists>d'. host_sends sample_env (kiss_frame CMD_FREQUENCY (be32_bytes 433000000)) ((modem_on (replicate 1024 0xFF))\<lparr>mode_host := False\<rparr>) =
     (d', [Host (kiss_frame CMD_FREQUENCY (be32_bytes 433000000))]) \<and> chip d' = sx_init"
proof -
  let ?d = "(modem_on (replicate 1024 0xFF))\<lparr>mode_host := False\<rparr>"
  have "\<not> mode_host ?d" "\<not> ESCAPE ?d" "\<not> (IN_FRAME ?d \<and> kcommand ?d = CMD_DATA)" "length (cmdbuf ?d) = CMD_L" "chip ?d = sx_init"
    by (simp_all add: modem_on_def)
  then show ?thesis using stored_frequency_answered [of ?d 433000000 sample_env] by auto
qed

text \<open>The blink command with count 0 never returns: the light blinks for ever, and whatever the host sends after it is not read.\<close>

theorem blink_zero_hangs:
  assumes "\<not> ESCAPE d" "\<not> (IN_FRAME d \<and> kcommand d = CMD_DATA)"
  shows "snd (host_sends E (kiss_frame CMD_BLINK [0x00] @ bs) d) = [Led_info 0]"
  using one_byte [OF assms, of CMD_BLINK 0 E bs]
  by (simp add: commands FEND_def FESC_def frame_command_def done_with_def after_def stops_def)

lemma blink_zero_hangs_witness:
  "snd (host_sends sample_env (kiss_frame CMD_BLINK [0x00] @ [FEND, CMD_DETECT, DETECT_REQ, FEND]) (modem_on (replicate 1024 0xFF))) = [Led_info 0]"
  by (rule blink_zero_hangs) (simp_all add: modem_on_def)

end
